(* ===== verification/Prelude.thy ===== *)
theory Prelude
  imports Main "HOL-Library.Word" "HOL-Library.Char_ord" "HOL-Library.List_Lexorder"
    "HOL-Library.Product_Lexorder"
begin

text \<open>
  The vocabulary the component theories share.  It holds the type synonyms that name the
  machine types of the C++ code, the collections \<open>model_defs\<close> (definitions a
  component proof unfolds) and \<open>model_inv\<close> (invariants), and generic facts on lists and maps.
  Strings are lists of \<^typ>\<open>char\<close>, one per byte of a \<open>std::string\<close>; a C string is the
  list of the bytes before its terminating NUL.
\<close>

named_theorems model_defs "definitions of the model that component proofs unfold"
named_theorems model_inv "unfolding rules of component invariants"

type_synonym u16 = "16 word"
type_synonym u32 = "32 word"
type_synonym u64 = "64 word"

subsection \<open>Suffixes and positions\<close>

lemma drop_Suc_tl_drop: "drop (Suc n) xs = tl (drop n xs)"
  by (simp add: drop_Suc tl_drop)

lemma hd_drop_nth: "n < length xs \<Longrightarrow> hd (drop n xs) = xs ! n"
  by (simp add: hd_drop_conv_nth)

lemma length_pred_less: "(length xs - Suc 0 < length xs) = (xs \<noteq> [])"
  by (cases xs) auto

lemma length_tl_le: "length (tl xs) \<le> length xs"
  by (cases xs) auto

subsection \<open>Results that may fail\<close>

text \<open>An operation that may fail returns the failure on the left of a sum.\<close>

fun and_then :: "'e + 'a \<Rightarrow> ('a \<Rightarrow> 'e + 'b) \<Rightarrow> 'e + 'b" where
  "and_then (Inl e) f = Inl e"
| "and_then (Inr a) f = f a"

lemma and_then_Inr: "and_then r f = Inr b \<longleftrightarrow> (\<exists>a. r = Inr a \<and> f a = Inr b)"
  by (cases r) auto

lemma and_then_assoc: "and_then (and_then r f) g = and_then r (\<lambda>a. and_then (f a) g)"
  by (cases r) auto

end
