(* ===== verification/Wildcard.thy ===== *)
theory Wildcard
  imports Prelude
begin

text \<open>
  The glob matcher of \<open>src/util.cpp\<close>: \<open>util::wildcmp\<close> (letters compared without case)
  and \<open>util::wildcmpCase\<close>.  The C code walks two pointers and keeps two more,
  \<open>mp\<close> and \<open>cp\<close>, to which it goes back on a mismatch; a pointer into a C string is
  here the list of the bytes from it to the NUL, and a null pointer is \<^term>\<open>None\<close>.
  The two functions differ only in how two bytes are compared, which is the argument \<open>eq\<close>.
  The main lemmas show that the matcher never dereferences its null backtrack pointers and
  decides the declarative relation \<open>glob\<close>.
\<close>

subsection \<open>The code\<close>

definition eq_nocase :: "char \<Rightarrow> char \<Rightarrow> bool" where
  "eq_nocase w c \<longleftrightarrow> w = c
     \<or> (65 \<le> (of_char w :: int) \<and> (of_char w :: int) \<le> 90 \<and> (of_char w :: int) + 32 = of_char c)
     \<or> (97 \<le> (of_char w :: int) \<and> (of_char w :: int) \<le> 122 \<and> (of_char w :: int) - 32 = of_char c)"

definition eq_case :: "char \<Rightarrow> char \<Rightarrow> bool" where
  "eq_case w c \<longleftrightarrow> w = c"

text \<open>The first loop: up to the first star; \<^term>\<open>None\<close> is its \<open>return 0\<close>.\<close>

fun wild_prefix :: "(char \<Rightarrow> char \<Rightarrow> bool) \<Rightarrow> string \<Rightarrow> string \<Rightarrow> (string \<times> string) option" where
  "wild_prefix eq wild [] = Some (wild, [])"
| "wild_prefix eq [] (c # cs) = None"
| "wild_prefix eq (w # ws) (c # cs) =
     (if w = CHR ''*'' then Some (w # ws, c # cs)
      else if eq w c \<or> w = CHR ''?'' then wild_prefix eq ws cs
      else None)"

text \<open>The last loop: trailing stars are skipped, and the pattern must be used up.\<close>

fun wild_tail :: "string \<Rightarrow> bool" where
  "wild_tail [] = True"
| "wild_tail (w # ws) = (if w = CHR ''*'' then wild_tail ws else False)"

text \<open>The sizes of the backtracking point, for the termination of the loop.\<close>

definition bt_pat :: "(string \<times> string) option \<Rightarrow> nat" where
  "bt_pat bt = (case bt of None \<Rightarrow> 0 | Some (mp, cp) \<Rightarrow> length mp)"

definition bt_str :: "string \<Rightarrow> (string \<times> string) option \<Rightarrow> nat" where
  "bt_str s bt = (case bt of None \<Rightarrow> 0 | Some (mp, cp) \<Rightarrow> length cp)"

text \<open>
  The second loop; \<open>bt\<close> is the pair of \<open>mp\<close> and \<open>cp\<close>, \<^term>\<open>None\<close> while they are null.
  The result \<^term>\<open>None\<close> is a dereferenced null pointer.
\<close>

function wild_loop :: "(char \<Rightarrow> char \<Rightarrow> bool) \<Rightarrow> string \<Rightarrow> string \<Rightarrow> (string \<times> string) option \<Rightarrow> bool option" where
  "wild_loop eq wild [] bt = Some (wild_tail wild)"
| "wild_loop eq wild (c # cs) bt =
     (case wild of
        w # ws \<Rightarrow>
          if w = CHR ''*'' then
            (if ws = [] then Some True else wild_loop eq ws (c # cs) (Some (ws, cs)))
          else if eq w c \<or> w = CHR ''?'' then wild_loop eq ws cs bt
          else (case bt of None \<Rightarrow> None | Some (mp, cp) \<Rightarrow> wild_loop eq mp cp (Some (mp, tl cp)))
      | [] \<Rightarrow> (case bt of None \<Rightarrow> None | Some (mp, cp) \<Rightarrow> wild_loop eq mp cp (Some (mp, tl cp))))"
  by pat_completeness auto

termination
proof (relation "measures [\<lambda>(eq, wild, s, bt). max (length wild) (bt_pat bt),
    \<lambda>(eq, wild, s, bt). bt_str s bt, \<lambda>(eq, wild, s, bt). length s]")
qed (auto simp: bt_pat_def bt_str_def less_max_iff_disj length_pred_less split: option.splits)

definition wildcmp :: "string \<Rightarrow> string \<Rightarrow> bool option" where
  "wildcmp wild s = (case wild_prefix eq_nocase wild s of
     None \<Rightarrow> Some False
   | Some (wild', s') \<Rightarrow> wild_loop eq_nocase wild' s' None)"

definition wildcmpCase :: "string \<Rightarrow> string \<Rightarrow> bool option" where
  "wildcmpCase wild s = (case wild_prefix eq_case wild s of
     None \<Rightarrow> Some False
   | Some (wild', s') \<Rightarrow> wild_loop eq_case wild' s' None)"

subsection \<open>What a pattern means\<close>

text \<open>A star stands for any run of bytes, a question mark for one byte.\<close>

fun glob :: "(char \<Rightarrow> char \<Rightarrow> bool) \<Rightarrow> string \<Rightarrow> string \<Rightarrow> bool" where
  "glob eq [] s = (s = [])"
| "glob eq (w # ws) s =
     (if w = CHR ''*'' then \<exists>k \<le> length s. glob eq ws (drop k s)
      else (case s of [] \<Rightarrow> False | c # cs \<Rightarrow> (eq w c \<or> w = CHR ''?'') \<and> glob eq ws cs))"

lemma glob_star_Nil [simp]: "glob eq (CHR ''*'' # ws) [] = glob eq ws []"
  by simp

lemma glob_star_Cons:
  "glob eq (CHR ''*'' # ws) (c # cs) = (glob eq ws (c # cs) \<or> glob eq (CHR ''*'' # ws) cs)"
proof
  assume "glob eq (CHR ''*'' # ws) (c # cs)"
  then obtain k where "k \<le> length (c # cs)" "glob eq ws (drop k (c # cs))" by auto
  then show "glob eq ws (c # cs) \<or> glob eq (CHR ''*'' # ws) cs"
    by (cases k) auto
next
  assume "glob eq ws (c # cs) \<or> glob eq (CHR ''*'' # ws) cs"
  then show "glob eq (CHR ''*'' # ws) (c # cs)"
    by (auto intro: exI [of _ 0] exI [of _ "Suc _"])
qed

lemma glob_star_suffix:
  "glob eq (CHR ''*'' # ws) (drop n s) \<Longrightarrow> glob eq (CHR ''*'' # ws) s"
proof (induction n arbitrary: s)
  case (Suc n)
  then show ?case
    by (cases s) (auto simp del: glob.simps simp: glob_star_Cons)
qed simp

lemma glob_wild_tail: "glob eq ws [] = wild_tail ws"
  by (induction ws) auto

text \<open>A star-free block of the pattern uses up as many bytes as it has.\<close>

lemma glob_block:
  assumes "CHR ''*'' \<notin> set seg" "glob eq (seg @ ws) s"
  shows "length seg \<le> length s \<and> glob eq ws (drop (length seg) s)"
  using assms by (induction seg arbitrary: s) (auto split: list.splits)


subsection \<open>The matcher decides the relation\<close>

text \<open>
  What holds of the backtrack pointers inside the second loop: since they were set, the
  pattern pointer moved over a star-free block \<open>seg\<close> and the text pointer over as many bytes
  of \<open>start\<close>, the text at which the current attempt began; \<open>cp\<close> is one byte after that.
\<close>

definition bt_ok :: "string \<Rightarrow> string \<Rightarrow> (string \<times> string) option \<Rightarrow> bool" where
  "bt_ok wild s bt \<longleftrightarrow> (case bt of
     None \<Rightarrow> s \<noteq> [] \<longrightarrow> (\<exists>ws. wild = CHR ''*'' # ws)
   | Some (mp, cp) \<Rightarrow> (\<exists>seg start. mp = seg @ wild \<and> CHR ''*'' \<notin> set seg \<and>
       length seg \<le> length start \<and> s = drop (length seg) start \<and> cp = tl start))"

definition bt_result :: "(char \<Rightarrow> char \<Rightarrow> bool) \<Rightarrow> (string \<times> string) option \<Rightarrow> bool" where
  "bt_result eq bt = (case bt of None \<Rightarrow> False | Some (mp, cp) \<Rightarrow> glob eq (CHR ''*'' # mp) cp)"

lemma bt_ok_restart: "bt_ok mp cp (Some (mp, tl cp))"
  by (auto simp: bt_ok_def intro!: exI [of _ "[]"] exI [of _ cp])

lemma bt_ok_star: "bt_ok ws (c # cs) (Some (ws, cs))"
  by (auto simp: bt_ok_def intro!: exI [of _ "[]"] exI [of _ "c # cs"])

lemma bt_ok_advance:
  assumes "bt_ok (w # ws) (c # cs) bt" "w \<noteq> CHR ''*''"
  shows "bt_ok ws cs bt"
proof (cases bt)
  case None
  with assms show ?thesis by (auto simp: bt_ok_def)
next
  case (Some p)
  then obtain mp cp where bt: "bt = Some (mp, cp)" by (cases p) auto
  with assms obtain seg start where *: "mp = seg @ w # ws" "CHR ''*'' \<notin> set seg"
    "length seg \<le> length start" "c # cs = drop (length seg) start" "cp = tl start"
    by (auto simp: bt_ok_def)
  then have "cs = drop (Suc (length seg)) start"
    by (metis drop_Suc_tl_drop list.sel(3))
  moreover have "length seg < length start"
    using *(4) by (metis drop_eq_Nil2 list.distinct(1) not_less)
  ultimately show ?thesis
    using * bt assms(2) by (auto simp: bt_ok_def intro!: exI [of _ "seg @ [w]"] exI [of _ start])
qed

text \<open>
  Greed is safe: whatever the pattern after the backtrack pointer could match later in the
  text, the star the pattern pointer has just reached can match from here.
\<close>

lemma bt_result_star:
  assumes "bt_ok (CHR ''*'' # ws) s bt" "bt_result eq bt"
  shows "glob eq (CHR ''*'' # ws) s"
proof -
  from assms(2) obtain mp cp where bt: "bt = Some (mp, cp)" and r: "glob eq (CHR ''*'' # mp) cp"
    by (auto simp: bt_result_def split: option.splits)
  from assms(1) bt obtain seg start where *: "mp = seg @ CHR ''*'' # ws" "CHR ''*'' \<notin> set seg"
    "s = drop (length seg) start" "cp = tl start"
    by (auto simp: bt_ok_def)
  from r obtain k where "glob eq mp (drop k cp)" by auto
  with *(1,2) have "glob eq (CHR ''*'' # ws) (drop (length seg) (drop k cp))"
    using glob_block by blast
  then have "glob eq (CHR ''*'' # ws) (drop (Suc k) s)"
    using *(3,4) by (simp del: glob.simps add: drop_Suc [symmetric] add.commute add.left_commute)
  then show ?thesis by (rule glob_star_suffix)
qed

text \<open>At the end of the text, an attempt that would have to start later cannot succeed.\<close>

lemma bt_result_end:
  assumes "bt_ok wild [] bt" "bt_result eq bt"
  shows "glob eq wild []"
proof -
  from assms(2) obtain mp cp where bt: "bt = Some (mp, cp)" and r: "glob eq (CHR ''*'' # mp) cp"
    by (auto simp: bt_result_def split: option.splits)
  from assms(1) bt obtain seg start where *: "mp = seg @ wild" "CHR ''*'' \<notin> set seg"
    "length seg = length start" "cp = tl start"
    by (auto simp: bt_ok_def)
  from r obtain k where "glob eq mp (drop k cp)" by auto
  with *(1,2) have "length seg \<le> length (drop k cp)" "glob eq wild (drop (length seg) (drop k cp))"
    using glob_block by blast+
  with *(3,4) show ?thesis by (cases start) auto
qed

lemma bt_result_restart: "glob eq mp cp \<or> bt_result eq (Some (mp, tl cp)) \<longleftrightarrow>
    bt_result eq (Some (mp, cp))"
  by (cases cp) (auto simp: bt_result_def glob_star_Cons simp del: glob.simps)

lemma wild_loop_correct:
  "bt_ok wild s bt \<Longrightarrow> wild_loop eq wild s bt = Some (glob eq wild s \<or> bt_result eq bt)"
proof (induction eq wild s bt rule: wild_loop.induct)
  case (1 eq wild bt)
  then show ?case using bt_result_end by (auto simp: glob_wild_tail)
next
  case (2 eq wild c cs bt)
  have mismatch: ?case
    if no: "\<not> glob eq wild (c # cs)"
      and step: "wild_loop eq wild (c # cs) bt =
        (case bt of None \<Rightarrow> None | Some (mp, cp) \<Rightarrow> wild_loop eq mp cp (Some (mp, tl cp)))"
      and IH: "\<And>mp cp. bt = Some (mp, cp) \<Longrightarrow> bt_ok mp cp (Some (mp, tl cp)) \<Longrightarrow>
        wild_loop eq mp cp (Some (mp, tl cp)) = Some (glob eq mp cp \<or> bt_result eq (Some (mp, tl cp)))"
      and nostar: "\<And>ws. wild \<noteq> CHR ''*'' # ws"
  proof (cases bt)
    case None
    with "2.prems" nostar show ?thesis by (simp add: bt_ok_def)
  next
    case (Some p)
    then obtain mp cp where "bt = Some (mp, cp)" by (cases p) auto
    then show ?thesis
      using no step IH [OF _ bt_ok_restart] bt_result_restart by simp
  qed
  show ?case
  proof (cases wild)
    case Nil
    then show ?thesis using "2.IH" by (intro mismatch) auto
  next
    case (Cons w ws)
    consider (star) "w = CHR ''*''" | (eq) "w \<noteq> CHR ''*''" "eq w c \<or> w = CHR ''?''"
      | (neq) "w \<noteq> CHR ''*''" "\<not> (eq w c \<or> w = CHR ''?'')" by blast
    then show ?thesis
    proof cases
      case star
      show ?thesis
      proof (cases "ws = []")
        case True
        with star Cons show ?thesis by (auto intro: exI [of _ "Suc (length cs)"])
      next
        case False
        have "wild_loop eq wild (c # cs) bt = Some (glob eq (CHR ''*'' # ws) (c # cs))"
          using "2.IH"(2) [OF Cons star False bt_ok_star] star Cons False
          by (simp add: bt_result_def glob_star_Cons del: glob.simps)
        moreover have "bt_result eq bt \<Longrightarrow> glob eq (CHR ''*'' # ws) (c # cs)"
          using bt_result_star "2.prems" Cons star by blast
        ultimately show ?thesis using Cons star by (auto simp del: glob.simps wild_loop.simps)
      qed
    next
      case eq
      with Cons "2.IH"(3) [OF Cons] bt_ok_advance "2.prems" show ?thesis by auto
    next
      case neq
      then show ?thesis using "2.IH"(4) [OF Cons] Cons by (intro mismatch) auto
    qed
  qed
qed

lemma wild_prefix_None: "wild_prefix eq wild s = None \<Longrightarrow> \<not> glob eq wild s"
  by (induction eq wild s rule: wild_prefix.induct) (auto split: if_splits)

lemma wild_prefix_Some:
  "wild_prefix eq wild s = Some (wild', s') \<Longrightarrow> glob eq wild s = glob eq wild' s' \<and> bt_ok wild' s' None"
  by (induction eq wild s rule: wild_prefix.induct) (auto simp: bt_ok_def split: if_splits)

lemma wild_match_correct:
  "(case wild_prefix eq wild s of None \<Rightarrow> Some False | Some (w, t) \<Rightarrow> wild_loop eq w t None) =
   Some (glob eq wild s)"
  using wild_prefix_None wild_prefix_Some
  by (auto simp: wild_loop_correct bt_result_def split: option.splits)

lemma wildcmp_decides: "wildcmp wild s = Some (glob eq_nocase wild s)"
  by (simp add: wildcmp_def wild_match_correct)

lemma wildcmpCase_decides: "wildcmpCase wild s = Some (glob eq_case wild s)"
  by (simp add: wildcmpCase_def wild_match_correct)

text \<open>
  C13. \<open>util::wildcmp\<close> returns on every pattern and text, never goes back through a null
  pointer, and answers exactly whether the text is in the language of the pattern, where a
  star matches any run of bytes, a question mark one byte, and letters match without case;
  \<open>util::wildcmpCase\<close> does the same with bytes compared exactly.
\<close>

theorem wildcmp_correct:
  "wildcmp wild s = Some (glob eq_nocase wild s) \<and> wildcmpCase wild s = Some (glob eq_case wild s)"
  by (simp add: wildcmp_decides wildcmpCase_decides)

end
