(* ===== verification/RadixSort.thy ===== *)
theory RadixSort
  imports Prelude "HOL-Library.Multiset"
begin

text \<open>
  The single-pass radix sort of \<open>ScoreBoard::sort\<close> (\<open>src/scoreboard.cpp\<close>), over any list and
  any key below the number of buckets.  A first loop counts the keys, a second gives every
  bucket the last position of its block, with bucket 0 at the end of the array, and a third
  puts the elements in, each bucket filled from its last position downwards.  Positions are
  \<^typ>\<open>int\<close>: the code's unsigned position passes below 0 only where it is never used again.
  The main lemma identifies the result: the stable ascending sort, reversed.
\<close>

subsection \<open>The loops\<close>

definition radix_count :: "('a \<Rightarrow> nat) \<Rightarrow> 'a list \<Rightarrow> nat \<Rightarrow> nat" where
  "radix_count key xs = fold (\<lambda>x c. c(key x := c (key x) + 1)) xs (\<lambda>_. 0)"

fun radix_buckets :: "(nat \<Rightarrow> nat) \<Rightarrow> nat \<Rightarrow> nat \<Rightarrow> int \<Rightarrow> (nat \<Rightarrow> int) \<Rightarrow> (nat \<Rightarrow> int)" where
  "radix_buckets cnt 0 i currentpos bp = bp"
| "radix_buckets cnt (Suc n) i currentpos bp =
     radix_buckets cnt n (Suc i) (currentpos - int (cnt i)) (bp(i := currentpos))"

fun radix_place :: "('a \<Rightarrow> nat) \<Rightarrow> 'a list \<Rightarrow> (nat \<Rightarrow> int) \<Rightarrow> 'a list \<Rightarrow> 'a list" where
  "radix_place key [] bp tmp = tmp"
| "radix_place key (x # xs) bp tmp =
     radix_place key xs (bp(key x := bp (key x) - 1)) (tmp[nat (bp (key x)) := x])"

definition radix_sort :: "nat \<Rightarrow> ('a \<Rightarrow> nat) \<Rightarrow> 'a list \<Rightarrow> 'a list \<Rightarrow> 'a list" where
  "radix_sort N key xs tmp =
     radix_place key xs
       (radix_buckets (radix_count key xs) N 0 (int (length xs) - 1) (\<lambda>_. 0)) tmp"

subsection \<open>What the first two loops compute\<close>

abbreviation bucket :: "('a \<Rightarrow> nat) \<Rightarrow> 'a list \<Rightarrow> nat \<Rightarrow> 'a list" where
  "bucket key xs s \<equiv> filter (\<lambda>x. key x = s) xs"

definition before :: "('a \<Rightarrow> nat) \<Rightarrow> 'a list \<Rightarrow> nat \<Rightarrow> nat" where
  "before key xs s = (\<Sum>j < s. length (bucket key xs j))"

lemma radix_count_acc:
  "fold (\<lambda>x c. c(key x := c (key x) + 1)) xs c s = c s + length (bucket key xs s)"
  by (induction xs arbitrary: c) auto

lemma radix_count_bucket: "radix_count key xs s = length (bucket key xs s)"
  using radix_count_acc [of key xs "\<lambda>_. 0" s] by (simp add: radix_count_def)

lemma radix_buckets_out: "s < i \<or> i + n \<le> s \<Longrightarrow> radix_buckets cnt n i pos bp s = bp s"
  by (induction n arbitrary: i pos bp) auto

lemma radix_buckets_in:
  "i \<le> s \<Longrightarrow> s < i + n \<Longrightarrow>
     radix_buckets cnt n i pos bp s = pos - int (\<Sum>j\<in>{i ..< s}. cnt j)"
proof (induction n arbitrary: i pos bp)
  case (Suc n)
  show ?case
  proof (cases "s = i")
    case True
    then show ?thesis by (simp add: radix_buckets_out)
  next
    case False
    with Suc show ?thesis by (simp add: sum.atLeast_Suc_lessThan)
  qed
qed simp

lemma radix_buckets_before:
  "s < N \<Longrightarrow> radix_buckets (radix_count key xs) N 0 pos bp s = pos - int (before key xs s)"
  by (simp add: radix_buckets_in radix_count_bucket before_def atLeast0LessThan)

subsection \<open>The blocks of the buckets\<close>

lemma before_Suc: "before key xs (Suc s) = before key xs s + length (bucket key xs s)"
  by (simp add: before_def)

lemma before_mono: "s \<le> t \<Longrightarrow> before key xs s \<le> before key xs t"
  by (induction t rule: dec_induct) (auto simp: before_Suc)

lemma before_block: "s < t \<Longrightarrow> before key xs s + length (bucket key xs s) \<le> before key xs t"
  using before_mono [of "Suc s" t key xs] by (simp add: before_Suc)

lemma length_concat_buckets:
  "length (concat (map (bucket key xs) [0..<N])) = before key xs N"
  by (induction N) (auto simp: before_Suc before_def)

lemma nth_concat_buckets:
  assumes "p < before key xs N"
  shows "\<exists>s i. s < N \<and> i < length (bucket key xs s) \<and> p = before key xs s + i \<and>
    concat (map (bucket key xs) [0..<N]) ! p = bucket key xs s ! i"
  using assms
proof (induction N)
  case 0
  then show ?case by (simp add: before_def)
next
  case (Suc N)
  show ?case
  proof (cases "p < before key xs N")
    case True
    with Suc.IH obtain s i where "s < N" "i < length (bucket key xs s)" "p = before key xs s + i"
      "concat (map (bucket key xs) [0..<N]) ! p = bucket key xs s ! i" by blast
    with True show ?thesis
      by (intro exI [of _ s] exI [of _ i]) (simp add: nth_append length_concat_buckets)
  next
    case False
    with Suc.prems show ?thesis
      by (intro exI [of _ N] exI [of _ "p - before key xs N"])
         (simp add: nth_append length_concat_buckets before_Suc)
  qed
qed

lemma filter_concat_buckets:
  "filter (\<lambda>x. key x = s) (concat (map (bucket key xs) [0..<N])) =
     (if s < N then bucket key xs s else [])"
  by (induction N) (auto simp: less_Suc_eq intro: filter_False)

lemma sorted_concat_buckets: "sorted (map key (concat (map (bucket key xs) [0..<N])))"
proof (induction N)
  case (Suc N)
  have "sorted (map key (bucket key xs N))" by (induction xs) auto
  with Suc show ?case by (auto simp: sorted_append)
qed simp

lemma mset_concat_buckets:
  "mset (concat (map (bucket key xs) [0..<N])) = filter_mset (\<lambda>x. key x < N) (mset xs)"
proof (induction N)
  case (Suc N)
  have "filter_mset (\<lambda>x. key x < Suc N) (mset xs) =
      filter_mset (\<lambda>x. key x < N) (mset xs) + filter_mset (\<lambda>x. key x = N) (mset xs)"
    by (rule multiset_eqI) auto
  with Suc show ?case by simp
qed simp

lemma sort_key_buckets:
  assumes "\<forall>x\<in>set xs. key x < N"
  shows "sort_key key xs = concat (map (bucket key xs) [0..<N])"
proof (rule properties_for_sort_key)
  show "mset (concat (map (bucket key xs) [0..<N])) = mset xs"
    unfolding mset_concat_buckets mset_filter [symmetric] using assms by (metis filter_id_conv)
next
  fix x
  assume "x \<in> set (concat (map (bucket key xs) [0..<N]))"
  then have "key x < N" by auto
  then have "filter (\<lambda>y. key y = key x) (concat (map (bucket key xs) [0..<N])) =
      filter (\<lambda>y. key y = key x) xs"
    by (simp only: filter_concat_buckets if_True)
  then show "filter (\<lambda>y. key x = key y) (concat (map (bucket key xs) [0..<N])) =
      filter (\<lambda>y. key x = key y) xs"
    by (simp only: eq_commute [of "key x"])
qed (rule sorted_concat_buckets)


subsection \<open>The third loop fills the blocks\<close>

text \<open>
  \<open>placed\<close> holds of the array once the elements of \<open>ys\<close>, a prefix of \<open>xs\<close>, are in: the
  \<open>i\<close>th element of a bucket is \<open>i\<close> places before the last position of the bucket's block.
\<close>

definition placed :: "('a \<Rightarrow> nat) \<Rightarrow> 'a list \<Rightarrow> 'a list \<Rightarrow> 'a list \<Rightarrow> bool" where
  "placed key xs ys tmp \<longleftrightarrow> length xs \<le> length tmp \<and>
     (\<forall>s i. i < length (bucket key ys s) \<longrightarrow>
        tmp ! (length xs - 1 - before key xs s - i) = bucket key ys s ! i)"

lemma before_in_range:
  assumes "\<forall>x\<in>set xs. key x < N" "i < length (bucket key xs s)"
  shows "before key xs s + i < length xs"
proof -
  from assms(2) have "s \<in> key ` set xs" by (cases "bucket key xs s") (auto simp: filter_eq_Cons_iff)
  with assms(1) have "s < N" by auto
  with assms(2) before_block [of s N key xs] have "before key xs s + i < before key xs N" by simp
  also have "\<dots> = length (sort_key key xs)"
    using assms(1) by (simp add: sort_key_buckets length_concat_buckets del: length_sort)
  finally show ?thesis by simp
qed

lemma before_inj:
  assumes "i < length (bucket key xs s)" "j < length (bucket key xs t)"
    "before key xs s + i = before key xs t + j"
  shows "s = t \<and> i = j"
  using assms before_block [of s t key xs] before_block [of t s key xs]
  by (cases s t rule: linorder_cases) auto

lemma placed_step:
  assumes N: "\<forall>x\<in>set xs. key x < N" and xs: "xs = ys @ x # zs" and p: "placed key xs ys tmp"
  shows "placed key xs (ys @ [x])
    (tmp[length xs - 1 - before key xs (key x) - length (bucket key ys (key x)) := x])"
proof -
  have le: "length (bucket key (ys @ [x]) s) \<le> length (bucket key xs s)" for s
    by (simp add: xs)
  show ?thesis
    unfolding placed_def
  proof (intro conjI allI impI)
    show "length xs \<le> length (tmp[length xs - 1 - before key xs (key x) -
        length (bucket key ys (key x)) := x])"
      using p by (simp add: placed_def)
  next
    fix s i
    assume i: "i < length (bucket key (ys @ [x]) s)"
    let ?j = "length (bucket key ys (key x))"
    have j: "?j < length (bucket key xs (key x))" by (simp add: xs)
    note rj = before_in_range [OF N j] and ri = before_in_range [OF N less_le_trans [OF i le]]
    show "tmp[length xs - 1 - before key xs (key x) - ?j := x] !
        (length xs - 1 - before key xs s - i) = bucket key (ys @ [x]) s ! i"
    proof (cases "s = key x \<and> i = ?j")
      case True
      with p rj show ?thesis by (auto simp: placed_def nth_append)
    next
      case False
      then have "length xs - 1 - before key xs s - i \<noteq> length xs - 1 - before key xs (key x) - ?j"
        using before_inj [OF less_le_trans [OF i le] j] ri rj by linarith
      moreover have "i < length (bucket key ys s)"
        using i False by (auto split: if_splits)
      ultimately show ?thesis using p by (auto simp: placed_def nth_append)
    qed
  qed
qed

lemma radix_place_placed:
  assumes N: "\<forall>x\<in>set xs. key x < N" and "xs = ys @ zs" and "placed key xs ys tmp"
    and "\<And>s. s < N \<Longrightarrow> bp s = int (length xs) - 1 - int (before key xs s) - int (length (bucket key ys s))"
  shows "placed key xs xs (radix_place key zs bp tmp)"
  using assms(2-4)
proof (induction zs arbitrary: ys bp tmp)
  case Nil
  then show ?case by simp
next
  case (Cons z zs)
  let ?k = "key z"
  have k: "?k < N" using N Cons.prems(1) by simp
  have j: "length (bucket key ys ?k) < length (bucket key xs ?k)" by (simp add: Cons.prems(1))
  have pos: "nat (bp ?k) = length xs - 1 - before key xs ?k - length (bucket key ys ?k)"
    using Cons.prems(3) [OF k] before_in_range [OF N j] by linarith
  have "placed key xs xs (radix_place key zs (bp(?k := bp ?k - 1)) (tmp[nat (bp ?k) := z]))"
  proof (rule Cons.IH [of "ys @ [z]"])
    show "placed key xs (ys @ [z]) (tmp[nat (bp ?k) := z])"
      unfolding pos by (rule placed_step [OF N Cons.prems(1,2)])
  qed (use Cons.prems in auto)
  then show ?case by simp
qed

lemma length_radix_place [simp]: "length (radix_place key xs bp tmp) = length tmp"
  by (induction xs arbitrary: bp tmp) auto

theorem radix_sort_correct:
  assumes N: "\<forall>x\<in>set xs. key x < N" and tmp: "length xs \<le> length tmp"
  shows "take (length xs) (radix_sort N key xs tmp) = rev (sort_key key xs)"
proof (rule nth_equalityI)
  show len: "length (take (length xs) (radix_sort N key xs tmp)) = length (rev (sort_key key xs))"
    using tmp by (simp add: radix_sort_def)
  have pl: "placed key xs xs (radix_sort N key xs tmp)"
    unfolding radix_sort_def
    by (rule radix_place_placed [OF N, of "[]"])
       (use tmp in \<open>auto simp: placed_def radix_buckets_before\<close>)
  fix p
  assume "p < length (take (length xs) (radix_sort N key xs tmp))"
  then have p: "p < length xs" using len by simp
  have bN: "before key xs N = length xs"
    using sort_key_buckets [OF N] length_concat_buckets [of key xs N] length_sort [of key xs] by simp
  then obtain s i where si: "i < length (bucket key xs s)" "length xs - 1 - p = before key xs s + i"
      "sort_key key xs ! (length xs - 1 - p) = bucket key xs s ! i"
  proof -
    have "length xs - 1 - p < before key xs N" using bN p by simp
    from nth_concat_buckets [OF this] show ?thesis
      using that unfolding sort_key_buckets [OF N] by metis
  qed
  have "radix_sort N key xs tmp ! p = bucket key xs s ! i"
  proof -
    have "p = length xs - 1 - before key xs s - i" using si(2) p by linarith
    with pl si(1) show ?thesis by (simp add: placed_def)
  qed
  with si p show "take (length xs) (radix_sort N key xs tmp) ! p = rev (sort_key key xs) ! p"
    by (simp add: rev_nth)
qed

end
