(* ===== verification/ScoreBoard.thy ===== *)
theory ScoreBoard
  imports RadixSort
begin

text \<open>
  The scoreboard of \<open>src/scoreboard.cpp\<close> and its elements (\<open>src/scoreboardelement.cpp\<close>): the
  candidate transfers of all jobs, which the engine sorts by score and walks from the top.
  The code keeps the candidates in a vector of pointers of which the first \<open>showsize\<close> are
  live, a hash map from (source list, destination list, file name) to the pointer, and a hash
  map from a destination list to the set of pointers with that destination.  Removing a
  candidate copies the last live one over it.  Elements live in a store indexed by addresses,
  so that the aliasing between the vector and the two maps is in the model; a \<open>shared_ptr\<close> is the
  number of the object it points to.
\<close>

subsection \<open>Elements\<close>

datatype prio_type = PRIO | PRIO_LATER | NORMAL

type_synonym filelist_ptr = nat
type_synonym addr = nat
type_synonym sb_key = "filelist_ptr \<times> filelist_ptr \<times> string"

record sb_elem =
  e_filename :: string
  e_src :: nat
  e_dst :: nat
  e_fls :: filelist_ptr
  e_fld :: filelist_ptr
  e_srcsr :: nat
  e_dstsr :: nat
  e_race :: nat
  e_score :: u16
  e_priotype :: prio_type
  e_attempted :: bool
  e_subdir :: string
  e_filesize :: u64
  e_skipchecked :: bool

definition elem_new :: "string \<Rightarrow> u16 \<Rightarrow> u64 \<Rightarrow> prio_type \<Rightarrow> nat \<Rightarrow> filelist_ptr \<Rightarrow> nat \<Rightarrow>
    nat \<Rightarrow> filelist_ptr \<Rightarrow> nat \<Rightarrow> nat \<Rightarrow> string \<Rightarrow> sb_elem" where
  "elem_new name score filesize priotype src fls srcsr dst fld dstsr race subdir =
     \<lparr>e_filename = name, e_src = src, e_dst = dst, e_fls = fls, e_fld = fld, e_srcsr = srcsr,
      e_dstsr = dstsr, e_race = race, e_score = score, e_priotype = priotype, e_attempted = False,
      e_subdir = subdir, e_filesize = filesize, e_skipchecked = False\<rparr>"

definition elem_reset_from :: "sb_elem \<Rightarrow> sb_elem" where
  "elem_reset_from other =
     elem_new (e_filename other) (e_score other) (e_filesize other) (e_priotype other)
       (e_src other) (e_fls other) (e_srcsr other) (e_dst other) (e_fld other) (e_dstsr other)
       (e_race other) (e_subdir other)"

definition elem_update :: "u16 \<Rightarrow> u64 \<Rightarrow> sb_elem \<Rightarrow> sb_elem" where
  "elem_update score filesize e = e\<lparr>e_score := score, e_filesize := filesize, e_attempted := False\<rparr>"

definition elem_key :: "sb_elem \<Rightarrow> sb_key" where
  "elem_key e = (e_fls e, e_fld e, e_filename e)"

lemma elem_key_reset_from [simp]: "elem_key (elem_reset_from e) = elem_key e"
  by (simp add: elem_key_def elem_reset_from_def elem_new_def)

lemma elem_key_update [simp]: "elem_key (elem_update sc sz e) = elem_key e"
  by (simp add: elem_key_def elem_update_def)

lemma e_fld_reset_from [simp]: "e_fld (elem_reset_from e) = e_fld e"
  by (simp add: elem_reset_from_def elem_new_def)

lemma e_fld_update [simp]: "e_fld (elem_update sc sz e) = e_fld e"
  by (simp add: elem_update_def)

subsection \<open>The board and its operations\<close>

text \<open>
  \<open>next_addr\<close> stands for the allocator: \<open>new\<close> returns it and moves it on, so every object has
  an address of its own; address 0 is the null pointer with which \<open>resize\<close> fills.
\<close>

record scoreboard =
  heap :: "addr \<Rightarrow> sb_elem"
  next_addr :: addr
  elements :: "addr list"
  elementstmp :: "addr list"
  showsize :: nat
  locator :: "sb_key \<rightharpoonup> addr"
  destloc :: "filelist_ptr \<Rightarrow> addr set"

definition RESIZE_CHUNK :: nat where
  "RESIZE_CHUNK = 1000"

definition sb_empty :: "(addr \<Rightarrow> sb_elem) \<Rightarrow> scoreboard" where
  "sb_empty h = \<lparr>heap = h, next_addr = 1, elements = [], elementstmp = [], showsize = 0,
     locator = Map.empty, destloc = (\<lambda>_. {})\<rparr>"

definition sb_active :: "scoreboard \<Rightarrow> addr list" where
  "sb_active sb = take (showsize sb) (elements sb)"

definition sb_grow :: "sb_elem \<Rightarrow> scoreboard \<Rightarrow> scoreboard" where
  "sb_grow e sb =
     (let new = [next_addr sb ..< next_addr sb + RESIZE_CHUNK]
      in sb\<lparr>heap := (\<lambda>a. if a \<in> set new then e else heap sb a),
            next_addr := next_addr sb + RESIZE_CHUNK,
            elements := elements sb @ new,
            elementstmp := elementstmp sb @
              replicate (length (elements sb) + RESIZE_CHUNK - length (elementstmp sb)) 0\<rparr>)"

text \<open>
  \<open>update\<close>, both overloads: the arguments come as an element, whose two flags are not read.
\<close>

definition sb_slot :: "sb_elem \<Rightarrow> scoreboard \<Rightarrow> scoreboard" where
  "sb_slot e sb =
     (if showsize sb = length (elements sb) then sb_grow (elem_reset_from e) sb
      else sb\<lparr>heap := (heap sb)(elements sb ! showsize sb := elem_reset_from e)\<rparr>)"

definition sb_update :: "sb_elem \<Rightarrow> scoreboard \<Rightarrow> scoreboard" where
  "sb_update e sb =
     (case locator sb (elem_key e) of
        Some a \<Rightarrow> sb\<lparr>heap := (heap sb)(a := elem_update (e_score e) (e_filesize e) (heap sb a))\<rparr>
      | None \<Rightarrow>
          let sb1 = sb_slot e sb;
              a = elements sb1 ! showsize sb1
          in sb1\<lparr>locator := (locator sb1)(elem_key e \<mapsto> a),
                 destloc := (destloc sb1)(e_fld e := insert a (destloc sb1 (e_fld e))),
                 showsize := showsize sb1 + 1\<rparr>)"

definition sb_find :: "scoreboard \<Rightarrow> sb_key \<Rightarrow> addr option" where
  "sb_find sb k = locator sb k"

definition sb_remove :: "sb_key \<Rightarrow> scoreboard \<Rightarrow> bool \<times> scoreboard" where
  "sb_remove k sb =
     (case locator sb k of
        None \<Rightarrow> (False, sb)
      | Some a \<Rightarrow>
          let sb1 = sb\<lparr>locator := (locator sb)(k := None),
                       destloc := (destloc sb)(e_fld (heap sb a) := destloc sb (e_fld (heap sb a)) - {a})\<rparr>;
              r = elements sb1 ! (showsize sb1 - 1);
              sb2 = (if showsize sb1 \<noteq> 0 \<and> a \<noteq> r then
                       let e = elem_reset_from (heap sb1 r)
                       in sb1\<lparr>heap := (heap sb1)(a := e),
                              locator := (locator sb1)(elem_key e \<mapsto> a),
                              destloc := (destloc sb1)(e_fld e :=
                                insert a (destloc sb1 (e_fld e) - {r}))\<rparr>
                     else sb1)
          in (True, sb2\<lparr>showsize := showsize sb2 - 1\<rparr>))"

definition sb_wipe :: "scoreboard \<Rightarrow> scoreboard" where
  "sb_wipe sb = sb\<lparr>showsize := 0, locator := Map.empty, destloc := (\<lambda>_. {})\<rparr>"

text \<open>
  \<open>wipe(fl)\<close> iterates over the hash maps, whose order the standard does not fix: the orders are
  the parameters \<open>kord\<close> and \<open>aord\<close>.  The keys are collected first and removed afterwards.
\<close>

definition sb_wipe_keys :: "(sb_key set \<Rightarrow> sb_key list) \<Rightarrow> (addr set \<Rightarrow> addr list) \<Rightarrow>
    filelist_ptr \<Rightarrow> scoreboard \<Rightarrow> sb_key list" where
  "sb_wipe_keys kord aord fl sb =
     map (\<lambda>k. elem_key (heap sb (the (locator sb k)))) (kord {k \<in> dom (locator sb). fst k = fl})
     @ map (\<lambda>a. elem_key (heap sb a)) (aord (destloc sb fl))"

definition sb_wipe_fl :: "(sb_key set \<Rightarrow> sb_key list) \<Rightarrow> (addr set \<Rightarrow> addr list) \<Rightarrow>
    filelist_ptr \<Rightarrow> scoreboard \<Rightarrow> scoreboard" where
  "sb_wipe_fl kord aord fl sb =
     (let sb1 = fold (\<lambda>k s. snd (sb_remove k s)) (sb_wipe_keys kord aord fl sb) sb;
          sb2 = sb1\<lparr>locator := (\<lambda>k. if fst k = fl then None else locator sb1 k),
                    destloc := (destloc sb1)(fl := {})\<rparr>
      in if showsize sb2 = 0 then sb_wipe sb2 else sb2)"

definition sb_resetSkipChecked :: "filelist_ptr \<Rightarrow> scoreboard \<Rightarrow> scoreboard" where
  "sb_resetSkipChecked fl sb =
     sb\<lparr>heap := (\<lambda>a. if a \<in> destloc sb fl then (heap sb a)\<lparr>e_skipchecked := False\<rparr> else heap sb a)\<rparr>"


definition USHORT_MAX :: nat where
  "USHORT_MAX = 0x10000"

definition score_at :: "scoreboard \<Rightarrow> addr \<Rightarrow> nat" where
  "score_at sb a = unat (e_score (heap sb a))"

definition sb_sort :: "scoreboard \<Rightarrow> scoreboard" where
  "sb_sort sb =
     (let tmp = radix_sort USHORT_MAX (score_at sb) (sb_active sb) (elementstmp sb)
      in sb\<lparr>elements := take (showsize sb) tmp @ drop (showsize sb) (elements sb),
            elementstmp := tmp\<rparr>)"

text \<open>
  \<open>shuffle\<close>: the values \<open>rand()\<close> returns are the function \<open>rnd\<close> of the number of calls made before.
\<close>

function sb_shuffle :: "(nat \<Rightarrow> nat) \<Rightarrow> nat \<Rightarrow> nat \<Rightarrow> nat \<Rightarrow> addr list \<Rightarrow> nat \<times> addr list" where
  "sb_shuffle rnd calls i lastpos els =
     (if i < lastpos then
        let swappos = i + rnd calls mod (lastpos - i + 1)
        in sb_shuffle rnd (calls + 1) (i + 1) lastpos (els[i := els ! swappos, swappos := els ! i])
      else (calls, els))"
  by pat_completeness auto
termination
  by (relation "measure (\<lambda>(rnd, calls, i, lastpos, els). lastpos - i)") auto

declare sb_shuffle.simps [simp del]

function sb_shuffle_runs :: "(addr \<Rightarrow> nat) \<Rightarrow> (nat \<Rightarrow> nat) \<Rightarrow> nat \<Rightarrow> nat \<Rightarrow> nat \<Rightarrow> nat \<Rightarrow> nat \<Rightarrow>
    addr list \<Rightarrow> nat \<times> nat \<times> addr list" where
  "sb_shuffle_runs score rnd n calls i lastscore equalstart els =
     (if i < n then
        let sc = score (els ! i) in
        if sc \<noteq> lastscore then
          let (calls', els') = (if i > 0 then sb_shuffle rnd calls equalstart (i - 1) els else (calls, els))
          in sb_shuffle_runs score rnd n calls' (i + 1) sc i els'
        else sb_shuffle_runs score rnd n calls (i + 1) lastscore equalstart els
      else (calls, equalstart, els))"
  by pat_completeness auto
termination
  by (relation "measure (\<lambda>(score, rnd, n, calls, i, l, q, els). n - i)") auto

declare sb_shuffle_runs.simps [simp del]

definition sb_shuffleEquals :: "(nat \<Rightarrow> nat) \<Rightarrow> scoreboard \<Rightarrow> scoreboard" where
  "sb_shuffleEquals rnd sb =
     (if showsize sb = 0 then sb
      else
        let (calls, equalstart, els) =
              sb_shuffle_runs (score_at sb) rnd (showsize sb) 0 0 0 0 (elements sb)
        in sb\<lparr>elements := snd (sb_shuffle rnd calls equalstart (showsize sb - 1) els)\<rparr>)"


declare split_paired_All [simp del] split_paired_Ex [simp del]

subsection \<open>The invariant\<close>

definition sb_inv :: "scoreboard \<Rightarrow> bool" where
  "sb_inv sb \<longleftrightarrow> showsize sb \<le> length (elements sb) \<and> distinct (elements sb)
     \<and> (\<forall>a\<in>set (elements sb). a < next_addr sb) \<and> length (elementstmp sb) = length (elements sb)
     \<and> (\<forall>k a. locator sb k = Some a \<longleftrightarrow> a \<in> set (sb_active sb) \<and> elem_key (heap sb a) = k)
     \<and> (\<forall>f. destloc sb f = {a \<in> set (sb_active sb). e_fld (heap sb a) = f})"

text \<open>What a board holds: for each key the element, without its two flags.\<close>

definition sb_view :: "scoreboard \<Rightarrow> sb_key \<rightharpoonup> sb_elem" where
  "sb_view sb k = map_option (\<lambda>a. elem_reset_from (heap sb a)) (locator sb k)"

lemma sb_inv_locator:
  "sb_inv sb \<Longrightarrow> locator sb k = Some a \<longleftrightarrow> a \<in> set (sb_active sb) \<and> elem_key (heap sb a) = k"
  by (auto simp: sb_inv_def)

lemma sb_inv_key_inj:
  "sb_inv sb \<Longrightarrow> a \<in> set (sb_active sb) \<Longrightarrow> b \<in> set (sb_active sb) \<Longrightarrow>
     elem_key (heap sb a) = elem_key (heap sb b) \<Longrightarrow> a = b"
  by (metis sb_inv_locator option.inject)

lemma sb_inv_None:
  "sb_inv sb \<Longrightarrow> locator sb k = None \<Longrightarrow> a \<in> set (sb_active sb) \<Longrightarrow> elem_key (heap sb a) \<noteq> k"
  by (metis sb_inv_locator option.distinct(1))

lemma elem_key_fld: "elem_key e = k \<Longrightarrow> e_fld e = fst (snd k)"
  by (auto simp: elem_key_def)

lemma sb_inv_empty [simp]: "sb_inv (sb_empty h)"
  by (simp add: sb_inv_def sb_empty_def sb_active_def)

lemma elem_reset_from_idem [simp]: "elem_reset_from (elem_reset_from e) = elem_reset_from e"
  by (simp add: elem_reset_from_def elem_new_def)

text \<open>Writing to elements keeps the invariant as long as no live element changes its key.\<close>

lemma sb_inv_heap:
  assumes inv: "sb_inv sb"
    and key: "\<And>a. a \<in> set (sb_active sb) \<Longrightarrow> elem_key (h a) = elem_key (heap sb a)"
  shows "sb_inv (sb\<lparr>heap := h\<rparr>)"
proof -
  have "a \<in> set (sb_active sb) \<Longrightarrow> e_fld (h a) = e_fld (heap sb a)" for a
    using key elem_key_fld by metis
  then have "{a \<in> set (sb_active sb). e_fld (h a) = f} = {a \<in> set (sb_active sb). e_fld (heap sb a) = f}" for f
    by auto
  then show ?thesis
    using inv key unfolding sb_inv_def sb_active_def by auto
qed

subsection \<open>Insertion\<close>

text \<open>
  A slot for a new element: it is the one after the live ones, no live element moves, and the
  slot holds the new element.
\<close>

lemma sb_slot_props:
  fixes e :: sb_elem
  assumes inv: "sb_inv sb"
  defines "sb1 \<equiv> sb_slot e sb"
  shows "showsize sb1 = showsize sb" "sb_active sb1 = sb_active sb"
    "showsize sb1 < length (elements sb1)" "distinct (elements sb1)"
    "\<forall>a\<in>set (elements sb1). a < next_addr sb1" "length (elementstmp sb1) = length (elements sb1)"
    "locator sb1 = locator sb" "destloc sb1 = destloc sb"
    "heap sb1 (elements sb1 ! showsize sb1) = elem_reset_from e"
    "\<And>a. a \<in> set (sb_active sb) \<Longrightarrow> heap sb1 a = heap sb a"
proof -
  have le: "showsize sb \<le> length (elements sb)" and d: "distinct (elements sb)"
    and b: "\<And>a. a \<in> set (elements sb) \<Longrightarrow> a < next_addr sb"
    and t: "length (elementstmp sb) = length (elements sb)"
    using inv by (auto simp: sb_inv_def)
  have grow: "showsize sb \<noteq> length (elements sb) \<Longrightarrow> showsize sb < length (elements sb)"
    using le by simp
  have fresh: "a \<in> set (elements sb) \<Longrightarrow> \<not> next_addr sb \<le> a" for a using b by (auto simp: not_le)
  note defs = sb1_def sb_slot_def sb_grow_def sb_active_def RESIZE_CHUNK_def Let_def
  show "showsize sb1 = showsize sb" "sb_active sb1 = sb_active sb" "locator sb1 = locator sb"
    "destloc sb1 = destloc sb" using le by (simp_all add: defs)
  show "showsize sb1 < length (elements sb1)" using grow by (simp add: defs)
  show "distinct (elements sb1)" using d fresh by (auto simp: defs)
  show "\<forall>a\<in>set (elements sb1). a < next_addr sb1" using b by (auto simp: defs dest!: b)
  show "length (elementstmp sb1) = length (elements sb1)" using t by (simp add: defs)
  show "heap sb1 (elements sb1 ! showsize sb1) = elem_reset_from e"
    by (simp add: defs nth_append)
  show "heap sb1 a = heap sb a" if "a \<in> set (sb_active sb)" for a
  proof -
    have "a \<in> set (elements sb)" using that by (auto simp: sb_active_def dest: in_set_takeD)
    moreover have "showsize sb < length (elements sb) \<Longrightarrow> a \<noteq> elements sb ! showsize sb"
      using that d by (auto simp: sb_active_def in_set_conv_nth nth_eq_iff_index_eq)
    ultimately show ?thesis using fresh [of a] grow by (auto simp: defs)
  qed
qed

lemma sb_slot_fresh:
  assumes "sb_inv sb"
  shows "elements (sb_slot e sb) ! showsize (sb_slot e sb) \<notin> set (sb_active sb)"
proof -
  note p = sb_slot_props [where e = e, OF assms]
  have "elements (sb_slot e sb) ! showsize (sb_slot e sb) \<notin>
      set (take (showsize (sb_slot e sb)) (elements (sb_slot e sb)))"
    using p(3,4) by (auto simp: in_set_conv_nth nth_eq_iff_index_eq)
  then show ?thesis using p(2) by (simp add: sb_active_def)
qed

lemma sb_update_inv:
  assumes inv: "sb_inv sb"
  shows "sb_inv (sb_update e sb)"
proof (cases "locator sb (elem_key e)")
  case (Some a)
  then show ?thesis by (auto simp: sb_update_def intro!: sb_inv_heap [OF inv])
next
  case None
  note p = sb_slot_props [where e = e, OF inv] and f = sb_slot_fresh [where e = e, OF inv]
  have act: "set (sb_active (sb_update e sb)) =
      insert (elements (sb_slot e sb) ! showsize (sb_slot e sb)) (set (sb_active sb))"
    using p(2,3) by (simp add: sb_update_def None Let_def sb_active_def take_Suc_conv_app_nth)
  show ?thesis
    unfolding sb_inv_def act
    using p f sb_inv_None [OF inv None] inv
    by (auto simp: sb_update_def None Let_def sb_inv_def)
qed

lemma elem_reset_update:
  "elem_reset_from (elem_update sc sz x) = elem_update sc sz (elem_reset_from x)"
  by (simp add: elem_update_def elem_reset_from_def elem_new_def)

lemma sb_view_None: "sb_view sb k = None \<longleftrightarrow> locator sb k = None"
  by (simp add: sb_view_def)

lemma sb_update_view:
  assumes inv: "sb_inv sb"
  shows "sb_view (sb_update e sb) = (sb_view sb)(elem_key e \<mapsto>
    (case sb_view sb (elem_key e) of
       None \<Rightarrow> elem_reset_from e
     | Some old \<Rightarrow> elem_update (e_score e) (e_filesize e) old))" (is "?l = ?r")
proof (rule ext)
  fix k
  show "?l k = ?r k"
  proof (cases "locator sb (elem_key e)")
    case (Some a)
    have "k = elem_key e" if "locator sb k = Some a"
      using that Some sb_inv_locator [OF inv] by metis
    then show ?thesis
      using Some by (cases "locator sb k") (auto simp: sb_view_def sb_update_def elem_reset_update)
  next
    case None
    note p = sb_slot_props [where e = e, OF inv]
    have "locator sb k = Some b \<Longrightarrow> heap (sb_slot e sb) b = heap sb b" for b
      using p(10) sb_inv_locator [OF inv] by blast
    with None p(7,9) show ?thesis
      by (cases "locator sb k") (auto simp: sb_view_def sb_update_def Let_def)
  qed
qed

lemma sb_update_showsize:
  assumes inv: "sb_inv sb"
  shows "showsize (sb_update e sb) =
    (if sb_view sb (elem_key e) = None then showsize sb + 1 else showsize sb)"
  using sb_slot_props(1) [where e = e, OF inv]
  by (auto simp: sb_update_def sb_view_None Let_def split: option.splits)

subsection \<open>Removal\<close>

lemma sb_active_last:
  assumes "sb_inv sb" "a \<in> set (sb_active sb)"
  shows "showsize sb \<noteq> 0" "elements sb ! (showsize sb - 1) \<in> set (sb_active sb)"
    "set (take (showsize sb - 1) (elements sb)) =
       set (sb_active sb) - {elements sb ! (showsize sb - 1)}"
proof -
  obtain n where n: "showsize sb = Suc n" "n < length (elements sb)" "distinct (elements sb)"
    using assms by (cases "showsize sb") (auto simp: sb_inv_def sb_active_def)
  then have "elements sb ! n \<notin> set (take n (elements sb))"
    by (auto simp: in_set_conv_nth nth_eq_iff_index_eq)
  with n show "showsize sb \<noteq> 0" "elements sb ! (showsize sb - 1) \<in> set (sb_active sb)"
    "set (take (showsize sb - 1) (elements sb)) =
       set (sb_active sb) - {elements sb ! (showsize sb - 1)}"
    by (auto simp: sb_active_def take_Suc_conv_app_nth)
qed

text \<open>The two shapes of a successful removal: the last element, or one the last is copied over.\<close>

lemma sb_remove_cases:
  assumes inv: "sb_inv sb" and k: "locator sb k = Some a"
  defines "r \<equiv> elements sb ! (showsize sb - 1)"
  shows "fst (sb_remove k sb)"
    "elements (snd (sb_remove k sb)) = elements sb"
    "elementstmp (snd (sb_remove k sb)) = elementstmp sb"
    "next_addr (snd (sb_remove k sb)) = next_addr sb"
    "showsize (snd (sb_remove k sb)) = showsize sb - 1"
    "heap (snd (sb_remove k sb)) =
       (if a = r then heap sb else (heap sb)(a := elem_reset_from (heap sb r)))"
    "locator (snd (sb_remove k sb)) =
       (if a = r then (locator sb)(k := None)
        else (locator sb)(k := None, elem_key (heap sb r) \<mapsto> a))"
    "destloc (snd (sb_remove k sb)) =
       (let d = (destloc sb)(e_fld (heap sb a) := destloc sb (e_fld (heap sb a)) - {a})
        in if a = r then d
           else d(e_fld (heap sb r) := insert a (d (e_fld (heap sb r)) - {r})))"
proof -
  have "a \<in> set (sb_active sb)" using k sb_inv_locator [OF inv] by blast
  then have "showsize sb \<noteq> 0" by (rule sb_active_last(1) [OF inv])
  then have *: "sb_remove k sb = (True,
      if a = r then sb\<lparr>locator := (locator sb)(k := None),
          destloc := (destloc sb)(e_fld (heap sb a) := destloc sb (e_fld (heap sb a)) - {a}),
          showsize := showsize sb - 1\<rparr>
      else let d = (destloc sb)(e_fld (heap sb a) := destloc sb (e_fld (heap sb a)) - {a})
        in sb\<lparr>heap := (heap sb)(a := elem_reset_from (heap sb r)),
          locator := (locator sb)(k := None, elem_key (heap sb r) \<mapsto> a),
          destloc := d(e_fld (heap sb r) := insert a (d (e_fld (heap sb r)) - {r})),
          showsize := showsize sb - 1\<rparr>)"
    by (simp add: sb_remove_def k r_def Let_def)
  show "fst (sb_remove k sb)"
    "elements (snd (sb_remove k sb)) = elements sb"
    "elementstmp (snd (sb_remove k sb)) = elementstmp sb"
    "next_addr (snd (sb_remove k sb)) = next_addr sb"
    "showsize (snd (sb_remove k sb)) = showsize sb - 1"
    "heap (snd (sb_remove k sb)) =
       (if a = r then heap sb else (heap sb)(a := elem_reset_from (heap sb r)))"
    "locator (snd (sb_remove k sb)) =
       (if a = r then (locator sb)(k := None)
        else (locator sb)(k := None, elem_key (heap sb r) \<mapsto> a))"
    "destloc (snd (sb_remove k sb)) =
       (let d = (destloc sb)(e_fld (heap sb a) := destloc sb (e_fld (heap sb a)) - {a})
        in if a = r then d
           else d(e_fld (heap sb r) := insert a (d (e_fld (heap sb r)) - {r})))"
    unfolding * by (simp_all add: Let_def)
qed

lemma sb_remove_active:
  assumes inv: "sb_inv sb" and k: "locator sb k = Some a"
  shows "set (sb_active (snd (sb_remove k sb))) =
    set (sb_active sb) - {elements sb ! (showsize sb - 1)}"
proof -
  have "a \<in> set (sb_active sb)" using k sb_inv_locator [OF inv] by blast
  from sb_active_last(3) [OF inv this] show ?thesis
    unfolding sb_active_def [of "snd (sb_remove k sb)"] sb_remove_cases(2,5) [OF inv k] .
qed

text \<open>The two bookkeeping maps after a removal, for a live element \<open>a\<close> and the last one, \<open>r\<close>.\<close>

lemma locator_after_remove:
  assumes loc: "\<And>k a. l k = Some a \<longleftrightarrow> a \<in> act \<and> key (h a) = k"
    and a: "a \<in> act" and r: "r \<in> act" and kr: "key e = key (h r)" and ka: "key (h a) = ka"
  defines "h' \<equiv> if a = r then h else h(a := e)"
    and "l' \<equiv> if a = r then l(ka := None) else l(ka := None, key (h r) \<mapsto> a)"
  shows "l' k = Some b \<longleftrightarrow> b \<in> act - {r} \<and> key (h' b) = k"
proof (cases "a = r")
  case True
  have "b \<in> act \<Longrightarrow> key (h b) = key (h r) \<Longrightarrow> b = r" using loc r by (metis option.inject)
  then show ?thesis using True ka loc [of k b] by (auto simp: l'_def h'_def)
next
  case False
  have inj: "c \<in> act \<Longrightarrow> d \<in> act \<Longrightarrow> key (h c) = key (h d) \<Longrightarrow> c = d" for c d
    using loc by (metis option.inject)
  have l': "l' = l(ka := None, key (h r) \<mapsto> a)" and h': "h' = h(a := e)"
    using False by (simp_all add: l'_def h'_def)
  show ?thesis
  proof (cases "b = a")
    case True
    have "ka \<noteq> key (h r)" using inj [OF a r] False ka by blast
    moreover have "l k = Some a \<Longrightarrow> k = ka" using loc ka by auto
    ultimately show ?thesis using True False a kr by (auto simp: l' h')
  next
    case b: False
    have rhs: "b \<in> act - {r} \<and> key (h' b) = k \<longleftrightarrow> b \<in> act \<and> b \<noteq> r \<and> key (h b) = k"
      using b by (simp add: h')
    consider "k = key (h r)" | "k \<noteq> key (h r)" "k = ka" | "k \<noteq> key (h r)" "k \<noteq> ka" by blast
    then show ?thesis
    proof cases
      case 1
      then show ?thesis using b inj [OF _ r] unfolding rhs by (metis fun_upd_same l' option.inject)
    next
      case 2
      then show ?thesis using b ka inj [OF _ a] unfolding rhs
        by (metis fun_upd_other fun_upd_same l' option.distinct(1))
    next
      case 3
      then show ?thesis unfolding rhs loc [symmetric] using loc by (metis fun_upd_other l')
    qed
  qed
qed

lemma destloc_after_remove:
  assumes dest: "\<And>f. d f = {a \<in> act. fld (h a) = f}"
    and a: "a \<in> act" and r: "r \<in> act" and fr: "fld e = fld (h r)"
  defines "h' \<equiv> if a = r then h else h(a := e)"
    and "d1 \<equiv> d(fld (h a) := d (fld (h a)) - {a})"
  shows "(if a = r then d1 else d1(fld (h r) := insert a (d1 (fld (h r)) - {r}))) f =
    {b \<in> act - {r}. fld (h' b) = f}"
proof (cases "a = r")
  case True
  then show ?thesis by (auto simp: h'_def d1_def dest)
next
  case False
  then show ?thesis using a fr
    by (cases "f = fld (h r)"; cases "fld (h a) = fld (h r)") (auto simp: h'_def d1_def dest)
qed

lemma sb_remove_inv:
  assumes inv: "sb_inv sb"
  shows "sb_inv (snd (sb_remove k sb))"
proof (cases "locator sb k")
  case None
  with inv show ?thesis by (simp add: sb_remove_def)
next
  case (Some a)
  obtain r where r_def: "r = elements sb ! (showsize sb - 1)" by simp
  let ?sb = "snd (sb_remove k sb)"
  note c = sb_remove_cases [OF inv Some, folded r_def]
    and act = sb_remove_active [OF inv Some, folded r_def]
  have a: "a \<in> set (sb_active sb)" "elem_key (heap sb a) = k"
    using sb_inv_locator [OF inv] Some by auto
  have r: "r \<in> set (sb_active sb)" using sb_active_last(2) [OF inv a(1)] r_def by simp
  have "locator ?sb k' = Some b \<longleftrightarrow> b \<in> set (sb_active ?sb) \<and> elem_key (heap ?sb b) = k'" for k' b
    unfolding act c(6,7)
    by (rule locator_after_remove) (use sb_inv_locator [OF inv] a r in auto)
  moreover have "destloc ?sb f = {b \<in> set (sb_active ?sb). e_fld (heap ?sb b) = f}" for f
    unfolding act c(6,8) Let_def
    by (rule destloc_after_remove) (use inv a r in \<open>auto simp: sb_inv_def\<close>)
  ultimately show ?thesis
    using inv unfolding sb_inv_def c(2-5) by (simp add: le_diff_conv)
qed

lemma view_after_remove:
  assumes loc: "\<And>k a. l k = Some a \<longleftrightarrow> a \<in> act \<and> key (h a) = k"
    and a: "a \<in> act" and r: "r \<in> act" and e: "f e = f (h r)" and ka: "key (h a) = ka"
  defines "h' \<equiv> if a = r then h else h(a := e)"
    and "l' \<equiv> if a = r then l(ka := None) else l(ka := None, key (h r) \<mapsto> a)"
  shows "map_option (\<lambda>b. f (h' b)) (l' k) = (if k = ka then None else map_option (\<lambda>b. f (h b)) (l k))"
proof -
  have inj: "c \<in> act \<Longrightarrow> d \<in> act \<Longrightarrow> key (h c) = key (h d) \<Longrightarrow> c = d" for c d
    using loc by (metis option.inject)
  have lr: "l (key (h r)) = Some r" using loc r by blast
  have "b \<noteq> a" if "l k = Some b" "k \<noteq> key (h a)" for b using that loc by auto
  then show ?thesis
    using lr e ka inj [OF a r] by (cases "l k") (auto simp: h'_def l'_def)
qed

lemma sb_remove_view:
  assumes inv: "sb_inv sb"
  shows "sb_view (snd (sb_remove k sb)) = (sb_view sb)(k := None)"
    "fst (sb_remove k sb) \<longleftrightarrow> sb_view sb k \<noteq> None"
    "showsize (snd (sb_remove k sb)) = (if sb_view sb k = None then showsize sb else showsize sb - 1)"
proof -
  show "sb_view (snd (sb_remove k sb)) = (sb_view sb)(k := None)"
  proof (cases "locator sb k")
    case None
    then show ?thesis by (auto simp: sb_remove_def sb_view_def fun_eq_iff)
  next
    case (Some a)
    obtain r where r_def: "r = elements sb ! (showsize sb - 1)" by simp
    note c = sb_remove_cases [OF inv Some, folded r_def]
    have a: "a \<in> set (sb_active sb)" "elem_key (heap sb a) = k"
      using sb_inv_locator [OF inv] Some by auto
    have r: "r \<in> set (sb_active sb)" using sb_active_last(2) [OF inv a(1)] r_def by simp
    have "sb_view (snd (sb_remove k sb)) k' = (if k' = k then None else sb_view sb k')" for k'
      unfolding sb_view_def c(6,7)
      by (rule view_after_remove) (use sb_inv_locator [OF inv] a r in auto)
    then show ?thesis by (auto simp: fun_eq_iff)
  qed
  show "fst (sb_remove k sb) \<longleftrightarrow> sb_view sb k \<noteq> None"
    by (cases "locator sb k") (simp_all add: sb_remove_def sb_view_None Let_def)
  show "showsize (snd (sb_remove k sb)) = (if sb_view sb k = None then showsize sb else showsize sb - 1)"
  proof (cases "locator sb k")
    case None
    then show ?thesis by (simp add: sb_remove_def sb_view_None)
  next
    case (Some a)
    then show ?thesis using sb_remove_cases(5) [OF inv Some] by (simp add: sb_view_None)
  qed
qed

subsection \<open>Wiping the elements of a file list\<close>

text \<open>
  What \<open>wipe(fl)\<close> needs of its own class: removal keeps the invariant and takes exactly one key
  out of the view.  Then removing the keys of a list, in any order and with repetitions, takes
  out exactly those keys.
\<close>

locale removable_view =
  fixes inv :: "'s \<Rightarrow> bool" and view :: "'s \<Rightarrow> 'k \<Rightarrow> 'v option" and remove :: "'k \<Rightarrow> 's \<Rightarrow> 's"
  assumes remove_inv: "inv s \<Longrightarrow> inv (remove k s)"
    and remove_view: "inv s \<Longrightarrow> view (remove k s) = (view s)(k := None)"
begin

lemma fold_remove_inv: "inv s \<Longrightarrow> inv (fold remove ks s)"
  by (induction ks arbitrary: s) (auto simp: remove_inv)

lemma fold_remove_view:
  "inv s \<Longrightarrow> view (fold remove ks s) k = (if k \<in> set ks then None else view s k)"
  by (induction ks arbitrary: s) (auto simp: remove_inv remove_view)

lemma fold_remove_keeps: "inv s \<Longrightarrow> k \<notin> set ks \<Longrightarrow> view (fold remove ks s) k = view s k"
  by (simp add: fold_remove_view)

end

interpretation board: removable_view sb_inv sb_view "\<lambda>k s. snd (sb_remove k s)"
  by unfold_locales (simp_all add: sb_remove_inv sb_remove_view)

definition on_list :: "filelist_ptr \<Rightarrow> sb_key \<Rightarrow> bool" where
  "on_list fl k \<longleftrightarrow> fst k = fl \<or> fst (snd k) = fl"

lemma sb_inv_locatorD:
  assumes "sb_inv sb" "locator sb k = Some a"
  shows "a \<in> set (sb_active sb)" "elem_key (heap sb a) = k"
  using sb_inv_locator [OF assms(1), of k a] assms(2) by simp_all

lemma sb_inv_locatorI: "sb_inv sb \<Longrightarrow> a \<in> set (sb_active sb) \<Longrightarrow> locator sb (elem_key (heap sb a)) = Some a"
  by (simp add: sb_inv_locator)

lemma sb_inv_dom:
  assumes "sb_inv sb"
  shows "dom (locator sb) = (\<lambda>a. elem_key (heap sb a)) ` set (sb_active sb)"
proof (intro equalityI subsetI)
  fix k assume "k \<in> dom (locator sb)"
  then obtain a where "locator sb k = Some a" by blast
  from sb_inv_locatorD [OF assms this] show "k \<in> (\<lambda>a. elem_key (heap sb a)) ` set (sb_active sb)" by blast
next
  fix k assume "k \<in> (\<lambda>a. elem_key (heap sb a)) ` set (sb_active sb)"
  then show "k \<in> dom (locator sb)" using sb_inv_locatorI [OF assms] by blast
qed

lemma sb_inv_finite: "sb_inv sb \<Longrightarrow> finite (dom (locator sb))"
  by (simp add: sb_inv_dom)

lemma sb_wipe_keys_set:
  assumes inv: "sb_inv sb"
    and kord: "\<And>A. finite A \<Longrightarrow> set (kord A) = A" and aord: "\<And>A. finite A \<Longrightarrow> set (aord A) = A"
  shows "set (sb_wipe_keys kord aord fl sb) = {k \<in> dom (locator sb). on_list fl k}"
proof -
  have dest: "destloc sb fl = {a \<in> set (sb_active sb). e_fld (heap sb a) = fl}"
    using inv by (simp add: sb_inv_def)
  have 1: "set (kord {k \<in> dom (locator sb). fst k = fl}) = {k \<in> dom (locator sb). fst k = fl}"
    by (rule kord) (simp add: sb_inv_finite [OF inv])
  have 2: "set (aord (destloc sb fl)) = {a \<in> set (sb_active sb). e_fld (heap sb a) = fl}"
    unfolding dest by (rule aord) simp
  have 3: "elem_key (heap sb (the (locator sb k))) = k" if d: "k \<in> dom (locator sb)" for k
  proof -
    obtain a where "locator sb k = Some a" using d by blast
    with sb_inv_locatorD(2) [OF inv this] show ?thesis by simp
  qed
  have 4: "(\<lambda>a. elem_key (heap sb a)) ` {a \<in> set (sb_active sb). e_fld (heap sb a) = fl} =
      {k \<in> dom (locator sb). fst (snd k) = fl}"
    unfolding sb_inv_dom [OF inv] by (auto simp: elem_key_def)
  show ?thesis
    unfolding sb_wipe_keys_def set_append set_map 1 2 4 using 3
    by (auto simp: on_list_def image_iff intro: rev_bexI)
qed

lemma sb_wipe_inv [simp]: "sb_inv sb \<Longrightarrow> sb_inv (sb_wipe sb)"
  by (simp add: sb_inv_def sb_wipe_def sb_active_def)

lemma sb_wipe_view [simp]: "sb_view (sb_wipe sb) = Map.empty"
  by (simp add: sb_view_def sb_wipe_def fun_eq_iff)

lemma sb_view_empty_board: "sb_inv sb \<Longrightarrow> showsize sb = 0 \<Longrightarrow> sb_view sb = Map.empty"
proof (rule ext)
  fix k assume "sb_inv sb" "showsize sb = 0"
  then show "sb_view sb k = None"
    using sb_inv_locator [of sb k] by (cases "locator sb k") (auto simp: sb_view_def sb_active_def)
qed

text \<open>Erasing the entries of a list that no element is on changes nothing.\<close>

lemma sb_erase_noop:
  assumes inv: "sb_inv sb" and none: "\<And>k. on_list fl k \<Longrightarrow> sb_view sb k = None"
  shows "(\<lambda>k. if fst k = fl then None else locator sb k) = locator sb" "(destloc sb)(fl := {}) = destloc sb"
proof -
  have n: "locator sb k = None" if "on_list fl k" for k
    using none [OF that] by (simp add: sb_view_None)
  then show "(\<lambda>k. if fst k = fl then None else locator sb k) = locator sb"
    by (auto simp: on_list_def fun_eq_iff)
  have False if "a \<in> set (sb_active sb)" "e_fld (heap sb a) = fl" for a
  proof -
    have "on_list fl (elem_key (heap sb a))" using that(2) by (simp add: on_list_def elem_key_def)
    then show False using n that(1) sb_inv_locator [OF inv] by (metis option.distinct(1))
  qed
  then have "destloc sb fl = {}" using inv by (auto simp: sb_inv_def)
  then show "(destloc sb)(fl := {}) = destloc sb" by (metis fun_upd_triv)
qed

lemma sb_wipe_fl_correct:
  assumes inv: "sb_inv sb"
    and kord: "\<And>A. finite A \<Longrightarrow> set (kord A) = A" and aord: "\<And>A. finite A \<Longrightarrow> set (aord A) = A"
  shows "sb_inv (sb_wipe_fl kord aord fl sb)"
    "sb_view (sb_wipe_fl kord aord fl sb) = (\<lambda>k. if on_list fl k then None else sb_view sb k)"
proof -
  let ?sb1 = "fold (\<lambda>k s. snd (sb_remove k s)) (sb_wipe_keys kord aord fl sb) sb"
  have inv1: "sb_inv ?sb1" by (rule board.fold_remove_inv [OF inv])
  have "sb_view ?sb1 k = (if on_list fl k then None else sb_view sb k)" for k
    using board.fold_remove_view [OF inv, of "sb_wipe_keys kord aord fl sb" k]
      sb_wipe_keys_set [OF inv kord aord]
    by (auto simp: sb_view_None dom_def)
  then have view1: "sb_view ?sb1 = (\<lambda>k. if on_list fl k then None else sb_view sb k)" by auto
  have eq: "?sb1\<lparr>locator := (\<lambda>k. if fst k = fl then None else locator ?sb1 k),
      destloc := (destloc ?sb1)(fl := {})\<rparr> = ?sb1"
    using sb_erase_noop [OF inv1, of fl] view1 by simp
  have "sb_wipe_fl kord aord fl sb = (if showsize ?sb1 = 0 then sb_wipe ?sb1 else ?sb1)"
    unfolding sb_wipe_fl_def Let_def eq by simp
  with inv1 view1 sb_view_empty_board [OF inv1]
  show "sb_inv (sb_wipe_fl kord aord fl sb)"
    "sb_view (sb_wipe_fl kord aord fl sb) = (\<lambda>k. if on_list fl k then None else sb_view sb k)"
    by auto
qed

subsection \<open>Sorting and shuffling\<close>

text \<open>Any rearrangement of the live pointers keeps the invariant and the view.\<close>

lemma sb_inv_permute:
  assumes inv: "sb_inv sb" and len: "length els = length (elements sb)"
    and perm: "mset (take (showsize sb) els) = mset (sb_active sb)"
    and rest: "drop (showsize sb) els = drop (showsize sb) (elements sb)"
    and tmp: "length tmp = length (elements sb)"
  shows "sb_inv (sb\<lparr>elements := els, elementstmp := tmp\<rparr>)"
proof -
  have set: "set (take (showsize sb) els) = set (sb_active sb)" using perm by (metis set_mset_mset)
  have "mset els = mset (elements sb)"
    using perm rest unfolding sb_active_def by (metis append_take_drop_id mset_append)
  then have "distinct els" "set els = set (elements sb)"
    using inv by (metis sb_inv_def mset_eq_imp_distinct_iff, metis set_mset_mset)
  then show ?thesis using inv len tmp set by (simp add: sb_inv_def sb_active_def)
qed

lemma score_at_bound: "score_at sb a < USHORT_MAX"
  using unsigned_less [of "e_score (heap sb a)", where ?'a = nat] by (simp add: score_at_def USHORT_MAX_def)

lemma sb_sort_active:
  assumes inv: "sb_inv sb"
  shows "sb_active (sb_sort sb) = rev (sort_key (score_at sb) (sb_active sb))"
proof -
  have len: "length (sb_active sb) = showsize sb" using inv by (simp add: sb_inv_def sb_active_def)
  have "take (showsize sb) (radix_sort USHORT_MAX (score_at sb) (sb_active sb) (elementstmp sb)) =
      rev (sort_key (score_at sb) (sb_active sb))"
    using radix_sort_correct [of "sb_active sb" "score_at sb" USHORT_MAX "elementstmp sb"]
      score_at_bound inv len by (simp add: sb_inv_def)
  then show ?thesis using len by (simp add: sb_active_def sb_sort_def Let_def)
qed

lemma length_radix_sort [simp]: "length (radix_sort N key xs tmp) = length tmp"
  by (simp add: radix_sort_def)

lemma sb_sort_inv:
  assumes inv: "sb_inv sb"
  shows "sb_inv (sb_sort sb)"
proof -
  let ?tmp = "radix_sort USHORT_MAX (score_at sb) (sb_active sb) (elementstmp sb)"
  let ?els = "take (showsize sb) ?tmp @ drop (showsize sb) (elements sb)"
  have n: "length (elementstmp sb) = length (elements sb)" "showsize sb \<le> length (elements sb)"
    using inv by (simp_all add: sb_inv_def)
  have "take (showsize sb) ?els = sb_active (sb_sort sb)"
    using n by (simp add: sb_active_def sb_sort_def Let_def)
  then have "mset (take (showsize sb) ?els) = mset (sb_active sb)"
    by (simp only: sb_sort_active [OF inv] mset_rev mset_sort)
  then have "sb_inv (sb\<lparr>elements := ?els, elementstmp := ?tmp\<rparr>)"
    using n by (intro sb_inv_permute [OF inv]) simp_all
  then show ?thesis by (simp add: sb_sort_def Let_def)
qed

lemma sb_sort_frame [simp]:
  "heap (sb_sort sb) = heap sb" "locator (sb_sort sb) = locator sb"
  "showsize (sb_sort sb) = showsize sb" "sb_view (sb_sort sb) = sb_view sb"
  by (simp_all add: sb_sort_def Let_def sb_view_def fun_eq_iff)

lemma sb_shuffle_props:
  "lastpos < length els \<Longrightarrow> snd (sb_shuffle rnd c i lastpos els) = els' \<Longrightarrow>
     mset els' = mset els \<and> drop (Suc lastpos) els' = drop (Suc lastpos) els \<and>
     (\<forall>j. j < i \<longrightarrow> els' ! j = els ! j)"
proof (induction rnd c i lastpos els rule: sb_shuffle.induct)
  case (1 rnd c i lastpos els)
  show ?case
  proof (cases "i < lastpos")
    case True
    let ?p = "i + rnd c mod (lastpos - i + 1)"
    let ?e = "els[i := els ! ?p, ?p := els ! i]"
    have p: "i \<le> ?p" "?p \<le> lastpos"
      using mod_less_divisor [of "lastpos - i + 1" "rnd c"] True by linarith+
    have e: "snd (sb_shuffle rnd (c + 1) (i + 1) lastpos ?e) = els'"
      using "1.prems"(2) True by (simp add: sb_shuffle.simps [of rnd c i] Let_def)
    have IH: "mset els' = mset ?e" "drop (Suc lastpos) els' = drop (Suc lastpos) ?e"
      "\<And>j. j < i \<Longrightarrow> els' ! j = ?e ! j"
      using "1.IH" [OF True refl _ e] "1.prems"(1) by auto
    have "mset ?e = mset els"
      using p "1.prems"(1) True by (intro mset_swap) auto
    with IH p True show ?thesis by auto
  next
    case False
    then show ?thesis using "1.prems" by (simp add: sb_shuffle.simps [of rnd c i])
  qed
qed

lemma sb_shuffle_scores:
  assumes eq: "\<forall>j. i \<le> j \<and> j \<le> lastpos \<longrightarrow> f (els ! j) = v" and len: "lastpos < length els"
  shows "map f (snd (sb_shuffle rnd c i lastpos els)) = map f els"
  using assms
proof (induction rnd c i lastpos els rule: sb_shuffle.induct)
  case (1 rnd c i lastpos els)
  show ?case
  proof (cases "i < lastpos")
    case True
    let ?p = "i + rnd c mod (lastpos - i + 1)"
    let ?e = "els[i := els ! ?p, ?p := els ! i]"
    have p: "i \<le> ?p" "?p \<le> lastpos"
      using mod_less_divisor [of "lastpos - i + 1" "rnd c"] True by linarith+
    have s: "f (els ! i) = v" "f (els ! ?p) = v" using "1.prems"(1) p True by auto
    have same: "(map f els)[j := v] = map f els" if "j < length els" "f (els ! j) = v" for j
      using that by (metis list_update_id nth_map)
    have "map f ?e = map f els"
      using s p "1.prems"(2) True same [of i] same [of ?p] by (simp add: map_update)
    moreover have "map f (snd (sb_shuffle rnd (c + 1) (i + 1) lastpos ?e)) = map f ?e"
    proof (rule "1.IH" [OF True refl])
      show "\<forall>j. i + 1 \<le> j \<and> j \<le> lastpos \<longrightarrow> f (?e ! j) = v"
        using "1.prems" s p by (auto simp: nth_list_update)
    qed (use "1.prems"(2) in simp)
    ultimately show ?thesis using True by (simp add: sb_shuffle.simps [of rnd c i] Let_def)
  next
    case False
    then show ?thesis by (simp add: sb_shuffle.simps [of rnd c i])
  qed
qed

text \<open>What one shuffle of a run of equal scores keeps.\<close>

definition shuffled :: "(addr \<Rightarrow> nat) \<Rightarrow> nat \<Rightarrow> addr list \<Rightarrow> addr list \<Rightarrow> bool" where
  "shuffled score n els els' \<longleftrightarrow>
     mset els' = mset els \<and> drop n els' = drop n els \<and> map score els' = map score els"

lemma shuffled_refl [simp]: "shuffled score n els els"
  by (simp add: shuffled_def)

lemma shuffled_trans: "shuffled score n a b \<Longrightarrow> shuffled score n b c \<Longrightarrow> shuffled score n a c"
  by (simp add: shuffled_def)

lemma shuffled_nth: "shuffled score n els els' \<Longrightarrow> j < length els \<Longrightarrow> score (els' ! j) = score (els ! j)"
  unfolding shuffled_def by (metis length_map nth_map)

lemma shuffled_length: "shuffled score n els els' \<Longrightarrow> length els' = length els"
  unfolding shuffled_def by (metis length_map)

lemma sb_shuffle_shuffled:
  assumes "\<forall>j. i \<le> j \<and> j \<le> lastpos \<longrightarrow> score (els ! j) = v" "lastpos < n" "n \<le> length els"
  shows "shuffled score n els (snd (sb_shuffle rnd c i lastpos els))"
proof -
  have len: "lastpos < length els" using assms by simp
  note p = sb_shuffle_props [OF len refl, of rnd c i]
  have "drop n (snd (sb_shuffle rnd c i lastpos els)) = drop n els"
    using p assms(2) by (metis Suc_leI drop_drop le_add_diff_inverse2)
  then show ?thesis
    using p sb_shuffle_scores [OF assms(1) len] by (simp add: shuffled_def)
qed

lemma sb_shuffle_runs_correct:
  "sb_shuffle_runs score rnd n c i ls q els = (c', q', els') \<Longrightarrow> q \<le> i \<Longrightarrow> i \<le> n \<Longrightarrow> n \<le> length els \<Longrightarrow>
   \<forall>j. q \<le> j \<and> j < i \<longrightarrow> score (els ! j) = ls \<Longrightarrow> (i > 0 \<Longrightarrow> q < i) \<Longrightarrow>
   shuffled score n els els' \<and> q' \<le> n \<and> (\<exists>v. \<forall>j. q' \<le> j \<and> j < n \<longrightarrow> score (els' ! j) = v)"
proof (induction score rnd n c i ls q els rule: sb_shuffle_runs.induct)
  case (1 score rnd n c i ls q els)
  show ?case
  proof (cases "i < n")
    case False
    with "1.prems" show ?thesis by (auto simp: sb_shuffle_runs.simps [of score rnd n c i])
  next
    case i: True
    show ?thesis
    proof (cases "score (els ! i) = ls")
      case True
      have "sb_shuffle_runs score rnd n c (i + 1) ls q els = (c', q', els')"
        using "1.prems"(1) i True by (simp add: sb_shuffle_runs.simps [of score rnd n c i] Let_def)
      then show ?thesis
        using "1.IH"(2) [OF i refl] True "1.prems" i by (auto simp: less_Suc_eq)
    next
      case False
      obtain c1 e1 where s: "(if i > 0 then sb_shuffle rnd c q (i - 1) els else (c, els)) = (c1, e1)"
        by fastforce
      have sh: "shuffled score n els e1"
      proof (cases "i > 0")
        case True
        then have "e1 = snd (sb_shuffle rnd c q (i - 1) els)" using s by simp
        moreover have "\<forall>j. q \<le> j \<and> j \<le> i - 1 \<longrightarrow> score (els ! j) = ls"
          using "1.prems"(5) True by auto
        ultimately show ?thesis
          using sb_shuffle_shuffled [of q "i - 1" score els ls n rnd c] i True "1.prems"(4) by auto
      qed (use s in auto)
      have "sb_shuffle_runs score rnd n c1 (i + 1) (score (els ! i)) i e1 = (c', q', els')"
        using "1.prems"(1) i False s by (simp add: sb_shuffle_runs.simps [of score rnd n c i] Let_def)
      moreover have "\<forall>j. i \<le> j \<and> j < i + 1 \<longrightarrow> score (e1 ! j) = score (els ! i)"
        using shuffled_nth [OF sh, of i] i "1.prems"(4) by (auto simp: less_Suc_eq)
      ultimately have "shuffled score n e1 els' \<and> q' \<le> n \<and>
          (\<exists>v. \<forall>j. q' \<le> j \<and> j < n \<longrightarrow> score (els' ! j) = v)"
        using "1.IH"(1) [OF i refl False s [symmetric] refl] i "1.prems"(4) shuffled_length [OF sh] by auto
      then show ?thesis using shuffled_trans [OF sh] by blast
    qed
  qed
qed

lemma sb_shuffleEquals_shuffled:
  assumes inv: "sb_inv sb"
  shows "shuffled (score_at sb) (showsize sb) (elements sb) (elements (sb_shuffleEquals rnd sb))"
proof (cases "showsize sb = 0")
  case True
  then show ?thesis by (simp add: sb_shuffleEquals_def)
next
  case False
  obtain c q els where r: "sb_shuffle_runs (score_at sb) rnd (showsize sb) 0 0 0 0 (elements sb) = (c, q, els)"
    by (metis prod_cases3)
  have n: "showsize sb \<le> length (elements sb)" using inv by (simp add: sb_inv_def)
  from sb_shuffle_runs_correct [OF r] n False
  obtain v where *: "shuffled (score_at sb) (showsize sb) (elements sb) els" "q \<le> showsize sb"
    "\<forall>j. q \<le> j \<and> j < showsize sb \<longrightarrow> score_at sb (els ! j) = v" by auto
  have "shuffled (score_at sb) (showsize sb) els (snd (sb_shuffle rnd c q (showsize sb - 1) els))"
    by (rule sb_shuffle_shuffled [where v = v]) (use * False n shuffled_length [OF *(1)] in auto)
  then show ?thesis
    using False r shuffled_trans [OF *(1)] by (simp add: sb_shuffleEquals_def)
qed

subsection \<open>Histories of a board\<close>

text \<open>
  The calls the rest of the program makes on a board.  The two iteration orders of the hash maps
  are only assumed to list each finite set.
\<close>

datatype board_op =
    OpUpdate sb_elem
  | OpRemove sb_key
  | OpWipe
  | OpWipeList filelist_ptr
  | OpSort
  | OpShuffle "nat \<Rightarrow> nat"
  | OpResetSkip filelist_ptr
  | OpSetAttempted sb_key
  | OpSetSkipChecked sb_key

fun board_step :: "(sb_key set \<Rightarrow> sb_key list) \<Rightarrow> (addr set \<Rightarrow> addr list) \<Rightarrow> board_op \<Rightarrow> scoreboard \<Rightarrow> scoreboard" where
  "board_step kord aord (OpUpdate e) sb = sb_update e sb"
| "board_step kord aord (OpRemove k) sb = snd (sb_remove k sb)"
| "board_step kord aord OpWipe sb = sb_wipe sb"
| "board_step kord aord (OpWipeList fl) sb = sb_wipe_fl kord aord fl sb"
| "board_step kord aord OpSort sb = sb_sort sb"
| "board_step kord aord (OpShuffle rnd) sb = sb_shuffleEquals rnd sb"
| "board_step kord aord (OpResetSkip fl) sb = sb_resetSkipChecked fl sb"
| "board_step kord aord (OpSetAttempted k) sb =
     (case sb_find sb k of None \<Rightarrow> sb
      | Some a \<Rightarrow> sb\<lparr>heap := (heap sb)(a := (heap sb a)\<lparr>e_attempted := True\<rparr>)\<rparr>)"
| "board_step kord aord (OpSetSkipChecked k) sb =
     (case sb_find sb k of None \<Rightarrow> sb
      | Some a \<Rightarrow> sb\<lparr>heap := (heap sb)(a := (heap sb a)\<lparr>e_skipchecked := True\<rparr>)\<rparr>)"

definition board_run :: "(sb_key set \<Rightarrow> sb_key list) \<Rightarrow> (addr set \<Rightarrow> addr list) \<Rightarrow> board_op list \<Rightarrow> scoreboard \<Rightarrow> scoreboard" where
  "board_run kord aord = fold (board_step kord aord)"

lemma elem_key_flags [simp]:
  "elem_key (e\<lparr>e_attempted := b\<rparr>) = elem_key e" "elem_key (e\<lparr>e_skipchecked := b\<rparr>) = elem_key e"
  by (simp_all add: elem_key_def)

lemma sb_shuffleEquals_frame:
  "sb_shuffleEquals rnd sb = sb\<lparr>elements := elements (sb_shuffleEquals rnd sb)\<rparr>"
  by (simp add: sb_shuffleEquals_def split: prod.splits)

lemma sb_shuffleEquals_inv:
  assumes inv: "sb_inv sb"
  shows "sb_inv (sb_shuffleEquals rnd sb)"
proof -
  let ?els = "elements (sb_shuffleEquals rnd sb)"
  have sh: "shuffled (score_at sb) (showsize sb) (elements sb) ?els"
    by (rule sb_shuffleEquals_shuffled [OF inv])
  then have m: "mset (take (showsize sb) ?els) + mset (drop (showsize sb) ?els) =
      mset (take (showsize sb) (elements sb)) + mset (drop (showsize sb) (elements sb))"
    unfolding shuffled_def by (metis append_take_drop_id mset_append)
  have "sb_inv (sb\<lparr>elements := ?els, elementstmp := elementstmp sb\<rparr>)"
    using sh shuffled_length [OF sh] m inv
    by (intro sb_inv_permute [OF inv]) (simp_all add: shuffled_def sb_active_def sb_inv_def)
  then show ?thesis by (subst sb_shuffleEquals_frame) simp
qed

lemma board_step_inv:
  assumes kord: "\<And>A. finite A \<Longrightarrow> set (kord A) = A" and aord: "\<And>A. finite A \<Longrightarrow> set (aord A) = A"
    and inv: "sb_inv sb"
  shows "sb_inv (board_step kord aord c sb)"
proof (cases c)
  case (OpWipeList fl)
  then show ?thesis using sb_wipe_fl_correct(1) [OF inv kord aord] by simp
next
  case (OpResetSkip fl)
  then show ?thesis by (auto simp: sb_resetSkipChecked_def intro!: sb_inv_heap [OF inv])
next
  case (OpSetAttempted k)
  then show ?thesis using inv by (auto intro!: sb_inv_heap [OF inv] split: option.splits)
next
  case (OpSetSkipChecked k)
  then show ?thesis using inv by (auto intro!: sb_inv_heap [OF inv] split: option.splits)
qed (use inv in \<open>simp_all add: sb_update_inv sb_remove_inv sb_sort_inv sb_shuffleEquals_inv\<close>)

text \<open>The example board of the witnesses: two candidates from list 10 to lists 20 and 30.\<close>

definition ex_low :: sb_elem where
  "ex_low = elem_new ''a.rar'' 100 5000 NORMAL 1 10 1 2 20 2 1 []"

definition ex_high :: sb_elem where
  "ex_high = elem_new ''a.rar'' 900 5000 NORMAL 1 10 1 3 30 3 1 []"

definition ex_board :: scoreboard where
  "ex_board = sb_update ex_high (sb_update ex_low (sb_empty (\<lambda>_. ex_low)))"

lemma ex_board_inv: "sb_inv ex_board"
  by (simp add: ex_board_def sb_update_inv)

lemma ex_board_view: "sb_view ex_board = Map.empty((10, 20, ''a.rar'') \<mapsto> ex_low, (10, 30, ''a.rar'') \<mapsto> ex_high)"
proof -
  have "sb_view (sb_empty (\<lambda>_. ex_low)) = Map.empty" by (simp add: sb_view_def sb_empty_def fun_eq_iff)
  then show ?thesis
    by (simp add: ex_board_def sb_update_view sb_update_inv ex_low_def ex_high_def elem_key_def
        elem_new_def elem_reset_from_def)
qed

text \<open>
  Whatever calls the program makes on a fresh board, in any order, the vector and the two
  hash maps agree: the live pointers are distinct objects, the locator finds exactly the live
  elements, each under its own key, and the set of a destination holds exactly the live elements
  with that destination.  So no call reads or writes out of the vector's range.
\<close>

theorem board_run_inv:
  assumes "\<And>A. finite A \<Longrightarrow> set (kord A) = A" and "\<And>A. finite A \<Longrightarrow> set (aord A) = A"
  shows "sb_inv (board_run kord aord ops (sb_empty h))"
proof -
  have "sb_inv sb \<Longrightarrow> sb_inv (fold (board_step kord aord) ops sb)" for sb
    by (induction ops arbitrary: sb) (simp_all add: board_step_inv assms)
  then show ?thesis by (simp add: board_run_def)
qed

theorem board_run_inv_witness:
  "sb_inv (board_run sorted_list_of_set sorted_list_of_set
     [OpUpdate ex_low, OpUpdate ex_high, OpSort, OpRemove (10, 20, ''a.rar''), OpWipeList 30]
     (sb_empty (\<lambda>_. ex_low)))"
  by (rule board_run_inv) simp_all

text \<open>
  C2. \<open>update\<close> is insert-or-rescore on the map from keys to elements: an unknown candidate is
  added as given, a known one keeps everything but its score and file size, every other candidate
  stays, and the size grows by one exactly for a new candidate.
\<close>

theorem sb_update_refines:
  assumes "sb_inv sb"
  shows "sb_view (sb_update e sb) = (sb_view sb)(elem_key e \<mapsto>
      (case sb_view sb (elem_key e) of
         None \<Rightarrow> elem_reset_from e
       | Some old \<Rightarrow> elem_update (e_score e) (e_filesize e) old))
    \<and> showsize (sb_update e sb) = (if sb_view sb (elem_key e) = None then showsize sb + 1 else showsize sb)
    \<and> sb_inv (sb_update e sb)"
  using assms by (simp add: sb_update_view sb_update_showsize sb_update_inv)

theorem sb_update_refines_witness:
  "sb_inv ex_board \<and> sb_view (sb_update (ex_low\<lparr>e_score := 7\<rparr>) ex_board) (10, 20, ''a.rar'') =
     Some (ex_low\<lparr>e_score := 7\<rparr>)"
  using sb_update_refines [OF ex_board_inv, of "ex_low\<lparr>e_score := 7\<rparr>"] ex_board_inv ex_board_view
  by (simp add: ex_low_def ex_high_def elem_key_def elem_new_def elem_update_def)

text \<open>
  C3. \<open>remove\<close> is deletion from that map, although it moves another element into the hole: it
  answers whether the candidate was there, takes out that candidate only, and the size falls by
  one exactly then.
\<close>

theorem sb_remove_refines:
  assumes "sb_inv sb"
  shows "sb_view (snd (sb_remove k sb)) = (sb_view sb)(k := None)
    \<and> (fst (sb_remove k sb) \<longleftrightarrow> sb_view sb k \<noteq> None)
    \<and> showsize (snd (sb_remove k sb)) = (if sb_view sb k = None then showsize sb else showsize sb - 1)
    \<and> sb_inv (snd (sb_remove k sb))"
  using sb_remove_view [OF assms] sb_remove_inv [OF assms] by simp

theorem sb_remove_refines_witness:
  "sb_inv ex_board \<and> fst (sb_remove (10, 20, ''a.rar'') ex_board)
    \<and> sb_view (snd (sb_remove (10, 20, ''a.rar'') ex_board)) = Map.empty((10, 30, ''a.rar'') \<mapsto> ex_high)"
  using sb_remove_refines [OF ex_board_inv, of "(10, 20, ''a.rar'')"] ex_board_inv ex_board_view
  by (simp add: fun_eq_iff)

text \<open>
  C4. \<open>wipe\<close> of a file list takes out exactly the candidates that have the list as their source
  or as their destination, whatever order the hash maps are walked in.
\<close>

theorem sb_wipe_fl_refines:
  assumes "sb_inv sb" and "\<And>A. finite A \<Longrightarrow> set (kord A) = A" and "\<And>A. finite A \<Longrightarrow> set (aord A) = A"
  shows "sb_view (sb_wipe_fl kord aord fl sb) = (\<lambda>k. if on_list fl k then None else sb_view sb k)
    \<and> sb_inv (sb_wipe_fl kord aord fl sb)"
  using sb_wipe_fl_correct [OF assms] by simp

theorem sb_wipe_fl_refines_witness:
  "sb_inv ex_board \<and> sb_view (sb_wipe_fl sorted_list_of_set sorted_list_of_set 30 ex_board) =
     Map.empty((10, 20, ''a.rar'') \<mapsto> ex_low)"
  using sb_wipe_fl_refines [OF ex_board_inv, of sorted_list_of_set sorted_list_of_set 30]
    ex_board_inv ex_board_view
  by (auto simp: on_list_def fun_eq_iff)

text \<open>
  C1. \<open>sort\<close> puts the live candidates in order of falling score: the result is the stable
  ascending sort by score, reversed.  Nothing else of the board changes, so every candidate is
  still found.
\<close>

theorem sb_sort_correct:
  assumes "sb_inv sb"
  shows "sb_active (sb_sort sb) = rev (sort_key (score_at sb) (sb_active sb))
    \<and> sorted_wrt (\<ge>) (map (score_at (sb_sort sb)) (sb_active (sb_sort sb)))
    \<and> sb_view (sb_sort sb) = sb_view sb \<and> sb_inv (sb_sort sb)"
proof -
  have "score_at (sb_sort sb) = score_at sb" by (simp add: score_at_def fun_eq_iff)
  moreover have "sorted_wrt (\<ge>) (map (score_at sb) (rev (sort_key (score_at sb) (sb_active sb))))"
    by (simp add: rev_map [symmetric] sorted_wrt_rev)
  ultimately show ?thesis by (simp add: sb_sort_active [OF assms] sb_sort_inv [OF assms])
qed

theorem sb_sort_correct_witness:
  "sb_inv ex_board \<and> sb_active ex_board = [1, 2] \<and> sb_active (sb_sort ex_board) = [2, 1]"
proof -
  note defs = sb_active_def ex_board_def sb_update_def sb_slot_def sb_grow_def sb_empty_def
    RESIZE_CHUNK_def Let_def elem_key_def ex_low_def ex_high_def elem_new_def elem_reset_from_def
  have "sb_active ex_board = [1, 2]"
    by (simp add: defs numeral_2_eq_2 take_Suc_conv_app_nth)
  moreover have "score_at ex_board 1 = 100" "score_at ex_board 2 = 900"
    by (simp_all add: defs score_at_def)
  ultimately have a: "sb_active ex_board = [1, 2]" "score_at ex_board 1 = 100" "score_at ex_board 2 = 900"
    by simp_all
  then show ?thesis
    using sb_sort_correct [OF ex_board_inv] ex_board_inv by simp
qed

text \<open>
  C5. \<open>shuffleEquals\<close> only permutes live candidates of equal score, whatever \<open>rand\<close> returns: the
  sequence of scores is the one before, the slots that are not live stay, and the board keeps its
  invariant and its view.
\<close>

theorem sb_shuffleEquals_correct:
  assumes "sb_inv sb"
  shows "map (score_at sb) (elements (sb_shuffleEquals rnd sb)) = map (score_at sb) (elements sb)
    \<and> mset (sb_active (sb_shuffleEquals rnd sb)) = mset (sb_active sb)
    \<and> drop (showsize sb) (elements (sb_shuffleEquals rnd sb)) = drop (showsize sb) (elements sb)
    \<and> sb_view (sb_shuffleEquals rnd sb) = sb_view sb \<and> sb_inv (sb_shuffleEquals rnd sb)"
proof -
  let ?s = "sb_shuffleEquals rnd sb"
  have sh: "shuffled (score_at sb) (showsize sb) (elements sb) (elements ?s)"
    by (rule sb_shuffleEquals_shuffled [OF assms])
  have fr: "showsize ?s = showsize sb" "sb_view ?s = sb_view sb"
    by (subst sb_shuffleEquals_frame, simp add: sb_view_def fun_eq_iff)+
  have "mset (take (showsize sb) (elements ?s)) + mset (drop (showsize sb) (elements ?s)) =
      mset (take (showsize sb) (elements sb)) + mset (drop (showsize sb) (elements sb))"
    using sh unfolding shuffled_def by (metis append_take_drop_id mset_append)
  with sh fr show ?thesis
    by (simp add: shuffled_def sb_active_def sb_shuffleEquals_inv [OF assms])
qed

theorem sb_shuffleEquals_correct_witness:
  "sb_inv ex_board \<and> mset (sb_active (sb_shuffleEquals (\<lambda>n. n) ex_board)) = mset (sb_active ex_board)"
  using sb_shuffleEquals_correct [OF ex_board_inv, of "\<lambda>n. n"] ex_board_inv by simp

end
