(* ===== verification/CppString.thy ===== *)
theory CppString
  imports Prelude
begin

text \<open>
  The operations of \<open>std::string\<close> and of the C character classes that the code uses, on lists of
  bytes, with the facts about them the components share.  \<open>npos\<close> is \<^term>\<open>None\<close>; a character
  class is that of the C locale; a \<open>char\<close> is compared as the signed byte it is on x86.
\<close>

subsection \<open>Searching\<close>

definition is_prefix_at :: "string \<Rightarrow> string \<Rightarrow> nat \<Rightarrow> bool" where
  "is_prefix_at pat s i \<longleftrightarrow> i + length pat \<le> length s \<and> take (length pat) (drop i s) = pat"

text \<open>\<open>s.find(pat, pos)\<close> and \<open>s.rfind(pat, pos)\<close>: the first match from \<open>pos\<close>, the last match up to it.\<close>

definition str_find :: "string \<Rightarrow> string \<Rightarrow> nat \<Rightarrow> nat option" where
  "str_find s pat pos = find (is_prefix_at pat s) [pos ..< Suc (length s)]"

definition str_rfind :: "string \<Rightarrow> string \<Rightarrow> nat \<Rightarrow> nat option" where
  "str_rfind s pat pos = find (is_prefix_at pat s) (rev [0 ..< Suc (min pos (length s))])"

definition substr :: "string \<Rightarrow> nat \<Rightarrow> nat \<Rightarrow> string" where
  "substr s pos n = take n (drop pos s)"

lemma find_upt_Some:
  "find P [i ..< n] = Some k \<longleftrightarrow> i \<le> k \<and> k < n \<and> P k \<and> (\<forall>j. i \<le> j \<and> j < k \<longrightarrow> \<not> P j)"
proof
  assume "find P [i ..< n] = Some k"
  then obtain d where d: "d < n - i" "P (i + d)" "k = i + d" "\<forall>j<d. \<not> P (i + j)"
    by (auto simp: find_Some_iff)
  have "\<not> P j" if "i \<le> j" "j < k" for j
    using d(3,4) that by (metis add_less_cancel_left le_Suc_ex)
  with d show "i \<le> k \<and> k < n \<and> P k \<and> (\<forall>j. i \<le> j \<and> j < k \<longrightarrow> \<not> P j)" by auto
next
  assume "i \<le> k \<and> k < n \<and> P k \<and> (\<forall>j. i \<le> j \<and> j < k \<longrightarrow> \<not> P j)"
  then show "find P [i ..< n] = Some k"
    unfolding find_Some_iff by (intro exI [of _ "k - i"]) auto
qed

lemma find_SomeD: "find P xs = Some x \<Longrightarrow> x \<in> set xs \<and> P x"
  by (auto simp: find_Some_iff)

lemma str_find_Some:
  "str_find s pat pos = Some k \<longleftrightarrow> pos \<le> k \<and> is_prefix_at pat s k \<and>
     (\<forall>j. pos \<le> j \<and> j < k \<longrightarrow> \<not> is_prefix_at pat s j)"
  unfolding str_find_def find_upt_Some by (auto simp: is_prefix_at_def)

lemma str_find_None: "str_find s pat pos = None \<longleftrightarrow> (\<forall>j. pos \<le> j \<longrightarrow> \<not> is_prefix_at pat s j)"
  unfolding str_find_def find_None_iff by (auto simp: is_prefix_at_def)

lemma str_rfind_Some:
  "str_rfind s pat pos = Some k \<Longrightarrow> k \<le> pos \<and> is_prefix_at pat s k"
  unfolding str_rfind_def by (drule find_SomeD) (simp add: less_Suc_eq_le del: upt_Suc)

lemma str_rfind_None: "str_rfind s pat pos = None \<longleftrightarrow> (\<forall>j. j \<le> pos \<longrightarrow> \<not> is_prefix_at pat s j)"
  unfolding str_rfind_def find_None_iff by (auto simp: is_prefix_at_def)

lemma is_prefix_at_char: "is_prefix_at [c] s i \<longleftrightarrow> i < length s \<and> s ! i = c"
  by (auto simp: is_prefix_at_def take_Suc hd_drop_conv_nth)

lemma str_find_char_less: "Some k = str_find s [c] pos \<Longrightarrow> k < length s"
  by (drule sym) (simp add: str_find_Some is_prefix_at_char)

lemma substr_split: "i \<le> length s \<Longrightarrow> substr s 0 i @ drop i s = s"
  by (simp add: substr_def)

lemma str_rfind_last:
  assumes "c \<notin> set n"
  shows "str_rfind (u @ c # n) [c] (length (u @ c # n)) = Some (length u)"
proof -
  let ?s = "u @ c # n"
  have "str_rfind ?s [c] (length ?s) \<noteq> None"
    by (auto simp: str_rfind_None is_prefix_at_char intro: exI [of _ "length u"])
  then obtain k where k: "str_rfind ?s [c] (length ?s) = Some k" by auto
  have "find P (rev [0 ..< m]) = Some k \<Longrightarrow> (\<forall>j. k < j \<and> j < m \<longrightarrow> \<not> P j)" for P :: "nat \<Rightarrow> bool" and m
    by (induction m) (auto split: if_splits simp: less_Suc_eq)
  then have "\<forall>j. k < j \<and> j < Suc (length ?s) \<longrightarrow> \<not> is_prefix_at [c] ?s j"
    using k by (simp add: str_rfind_def del: upt_Suc)
  then have "\<not> k < length u" by (force simp: is_prefix_at_char)
  moreover have "?s ! k = c" "k < length ?s"
    using str_rfind_Some [OF k] by (auto simp: is_prefix_at_char)
  moreover have "k - Suc (length u) < length n \<Longrightarrow> n ! (k - Suc (length u)) \<noteq> c"
    using assms nth_mem by metis
  ultimately have "k = length u" by (auto simp: nth_append nth_Cons' split: if_splits)
  with k show ?thesis by simp
qed

text \<open>\<open>s.c_str()\<close> read as a C string: the bytes before the first NUL.\<close>

definition c_str :: "string \<Rightarrow> string" where
  "c_str s = takeWhile (\<lambda>c. c \<noteq> CHR 0x00) s"

subsection \<open>Character classes\<close>

definition byte :: "char \<Rightarrow> nat" where
  "byte c = of_char c"

definition char_of_byte :: "nat \<Rightarrow> char" where
  "char_of_byte n = char_of n"

definition schar :: "char \<Rightarrow> int" where
  "schar c = (let n = byte c in if n < 128 then int n else int n - 256)"

definition is_digit :: "char \<Rightarrow> bool" where
  "is_digit c \<longleftrightarrow> 48 \<le> byte c \<and> byte c \<le> 57"

definition to_lower_char :: "char \<Rightarrow> char" where
  "to_lower_char c = (if 65 \<le> byte c \<and> byte c \<le> 90 then char_of (byte c + 32) else c)"

lemma byte_bound: "byte c < 256"
  by (simp add: byte_def)

subsection \<open>Decimal numbers\<close>

text \<open>\<open>std::to_string\<close> of an unsigned number, and the value of a run of digits (\<open>std::stoll\<close>).\<close>

definition digit_char :: "nat \<Rightarrow> char" where
  "digit_char d = char_of (48 + d)"

definition digit_val :: "char \<Rightarrow> nat" where
  "digit_val c = byte c - 48"

fun show_nat :: "nat \<Rightarrow> string" where
  "show_nat n = (if n < 10 then [digit_char n] else show_nat (n div 10) @ [digit_char (n mod 10)])"

declare show_nat.simps [simp del]

definition show_int :: "int \<Rightarrow> string" where
  "show_int i = (if i < 0 then CHR ''-'' # show_nat (nat (- i)) else show_nat (nat i))"

definition read_nat :: "string \<Rightarrow> nat" where
  "read_nat s = foldl (\<lambda>n c. 10 * n + digit_val c) 0 s"

lemma digit_val_char [simp]: "d < 10 \<Longrightarrow> digit_val (digit_char d) = d"
  by (simp add: digit_val_def digit_char_def byte_def)

lemma is_digit_char [simp]: "d < 10 \<Longrightarrow> is_digit (digit_char d)"
  by (simp add: is_digit_def digit_char_def byte_def)

lemma read_nat_snoc: "read_nat (s @ [c]) = 10 * read_nat s + digit_val c"
  by (simp add: read_nat_def)

lemma read_show_nat [simp]: "read_nat (show_nat n) = n"
proof (induction n rule: show_nat.induct)
  case (1 n)
  show ?case
  proof (cases "n < 10")
    case True
    then show ?thesis by (simp add: show_nat.simps read_nat_def)
  next
    case False
    then have "read_nat (show_nat n) = 10 * (n div 10) + n mod 10"
      using 1 by (subst show_nat.simps) (simp add: read_nat_snoc)
    then show ?thesis by simp
  qed
qed

lemma show_nat_digits: "c \<in> set (show_nat n) \<Longrightarrow> is_digit c"
proof (induction n rule: show_nat.induct)
  case (1 n)
  then show ?case by (subst (asm) (2) show_nat.simps) (auto split: if_splits)
qed

lemma show_nat_nonempty [simp]: "show_nat n \<noteq> []"
  by (subst show_nat.simps) simp

end
