(* ===== verification/UtilText.thy ===== *)
theory UtilText
  imports CppString
begin

text \<open>
  The text helpers of \<open>src/util.cpp\<close>: trimming, splitting and joining, URL decoding, the size and
  time formats, the two buffer searches and the natural comparator by which site sections and
  affiliations are ordered.  The wildcard matchers of the same file are in the theory Wildcard.
\<close>

subsection \<open>Trimming\<close>

definition is_blank :: "char \<Rightarrow> bool" where
  "is_blank c \<longleftrightarrow> c = CHR '' '' \<or> c = CHR 0x0D \<or> c = CHR 0x0A"

function trim_front :: "string \<Rightarrow> int \<Rightarrow> int \<Rightarrow> int" where
  "trim_front s spos epos =
     (if spos < epos \<and> is_blank (s ! nat spos) then trim_front s (spos + 1) epos else spos)"
  by pat_completeness auto
termination
  by (relation "measure (\<lambda>(s, spos, epos). nat (epos - spos))") auto

function trim_back :: "string \<Rightarrow> int \<Rightarrow> int \<Rightarrow> int" where
  "trim_back s spos epos =
     (if spos \<le> epos \<and> is_blank (s ! nat epos) then trim_back s spos (epos - 1) else epos)"
  by pat_completeness auto
termination
  by (relation "measure (\<lambda>(s, spos, epos). nat (epos + 1 - spos))") auto

declare trim_front.simps [simp del] trim_back.simps [simp del]

definition trim :: "string \<Rightarrow> string" where
  "trim s =
     (let spos = trim_front s 0 (int (length s) - 1);
          epos = trim_back s spos (int (length s) - 1)
      in if spos \<le> epos then substr s (nat spos) (nat (epos - spos + 1)) else [])"

text \<open>The overloads for lists and vectors drop an empty first and an empty last entry.\<close>

definition trim_list :: "string list \<Rightarrow> string list" where
  "trim_list xs =
     (if xs \<noteq> [] \<and> hd xs \<noteq> [] \<and> last xs \<noteq> [] then xs
      else
        let out = (if xs \<noteq> [] \<and> hd xs = [] then tl xs else xs)
        in if out \<noteq> [] \<and> last out = [] then butlast out else out)"

subsection \<open>Splitting and joining\<close>

text \<open>
  The loop of \<open>split\<close> has no bound of its own: \<^term>\<open>None\<close> is a call that does not return.
\<close>

partial_function (option) split_loop :: "string \<Rightarrow> string \<Rightarrow> nat \<Rightarrow> string list \<Rightarrow> string list option" where
  "split_loop s sep start out =
     (case str_find s sep start of
        None \<Rightarrow> Some (out @ [drop start s])
      | Some e \<Rightarrow> split_loop s sep (e + length sep) (out @ [substr s start (e - start)]))"

definition split :: "string \<Rightarrow> string \<Rightarrow> string list option" where
  "split s sep = split_loop s sep 0 []"

definition join :: "string list \<Rightarrow> string \<Rightarrow> string" where
  "join xs sep = (let out = foldl (\<lambda>out x. out @ x @ sep) [] xs in take (length out - length sep) out)"

definition merge_sets :: "string set \<Rightarrow> string set \<Rightarrow> string set" where
  "merge_sets in1 in2 = in1 \<union> in2"

subsection \<open>URL decoding\<close>

definition is_hex_char :: "char \<Rightarrow> bool" where
  "is_hex_char c \<longleftrightarrow> (48 \<le> byte c \<and> byte c \<le> 57) \<or> (65 \<le> byte c \<and> byte c \<le> 70) \<or> (97 \<le> byte c \<and> byte c \<le> 102)"

definition isHex :: "string \<Rightarrow> bool" where
  "isHex s \<longleftrightarrow> list_all is_hex_char s"

definition hex_val :: "char \<Rightarrow> nat" where
  "hex_val c = (if byte c \<le> 57 then byte c - 48 else if byte c \<le> 70 then byte c - 55 else byte c - 87)"

function urlDecode :: "string \<Rightarrow> string" where
  "urlDecode [] = []"
| "urlDecode (c # cs) =
     (if c = CHR ''%'' then
        (if 2 \<le> length cs \<and> isHex (take 2 cs)
         then [char_of (16 * hex_val (cs ! 0) + hex_val (cs ! 1))] else [])
        @ urlDecode (drop 2 cs)
      else if c = CHR ''+'' then CHR '' '' # urlDecode cs
      else c # urlDecode cs)"
  by pat_completeness auto
termination
  by (relation "measure length") auto

subsection \<open>Sizes and times\<close>

definition SIZEDECIMALS :: nat where
  "SIZEDECIMALS = 2"

definition getSizeGranularity :: nat where
  "getSizeGranularity = fold (\<lambda>_ gran. gran * 10) [0 ..< SIZEDECIMALS + 1] 1"

definition getPowers :: "nat list" where
  "getPowers = map (\<lambda>i. 1024 ^ i) [0 ..< 7]"

fun size_prefix :: "nat \<Rightarrow> nat \<Rightarrow> nat \<Rightarrow> nat" where
  "size_prefix 0 sz i = i"
| "size_prefix (Suc n) sz i =
     (if i < 6 \<and> 1000 \<le> sz div (getPowers ! i) then size_prefix n sz (i + 1) else i)"

definition size_unit :: "nat \<Rightarrow> string" where
  "size_unit i = (if i = 1 then ''kB'' else if i = 2 then ''MB'' else if i = 3 then ''GB''
     else if i = 4 then ''TB'' else if i = 5 then ''PB'' else if i = 6 then ''EB'' else [])"

text \<open>
  \<open>sz\<close> is a 64-bit unsigned number; the product with the granularity is reduced modulo \<open>2 ^ 64\<close>
  as the machine does.
\<close>

definition size_decimals :: "nat \<Rightarrow> nat \<Rightarrow> nat" where
  "size_decimals sz currentpower =
     ((sz mod currentpower) * getSizeGranularity) mod 2 ^ 64 div currentpower + 5"

definition pad_decimals :: "string \<Rightarrow> string" where
  "pad_decimals s = replicate (SIZEDECIMALS + 1 - length s) (CHR ''0'') @ s"

definition parseSize :: "nat \<Rightarrow> string" where
  "parseSize sz =
     (let iprefix = size_prefix 6 sz 0;
          currentpower = getPowers ! iprefix;
          whole = sz div currentpower
      in if iprefix = 0 then show_nat whole @ '' B''
         else
           let decim = size_decimals sz currentpower;
               (whole', decim') = (if getSizeGranularity \<le> decim then (whole + 1, 0) else (whole, decim))
           in show_nat whole' @ ''.'' @ take SIZEDECIMALS (pad_decimals (show_nat decim')) @ '' ''
              @ size_unit iprefix)"

definition simpleTimeFormat :: "int \<Rightarrow> string" where
  "simpleTimeFormat seconds =
     (let (t1, s1) = (if 86400 \<le> seconds then (show_int (seconds div 86400) @ ''d'', seconds mod 86400)
                      else ([], seconds));
          (t2, s2) = (if 3600 \<le> s1 then (t1 @ show_int (s1 div 3600) @ ''h'', s1 mod 3600) else (t1, s1));
          (t3, s3) = (if 60 \<le> s2 then (t2 @ show_int (s2 div 60) @ ''m'', s2 mod 60) else (t2, s2))
      in if s3 \<noteq> 0 \<or> t3 = [] then t3 @ show_int s3 @ ''s'' else t3)"

subsection \<open>Names and buffers\<close>

definition toLower :: "string \<Rightarrow> string" where
  "toLower s = map to_lower_char s"

definition getGroupNameFromRelease :: "string \<Rightarrow> string" where
  "getGroupNameFromRelease release =
     (case str_rfind release ''-'' (length release) of
        None \<Rightarrow> []
      | Some splitpos \<Rightarrow>
          let group = drop (splitpos + 1) release
          in (case str_rfind (toLower group) ''_int'' (length group) of
                None \<Rightarrow> group
              | Some inttag \<Rightarrow> take inttag group))"

definition eightCharUserCompare :: "string \<Rightarrow> string \<Rightarrow> bool" where
  "eightCharUserCompare a b =
     (if 8 < length a \<and> 8 < length b then a = b else take 8 a = take 8 b)"

text \<open>
  \<open>chrstrfind\<close>: \<^term>\<open>None\<close> for -1.  The guard \<open>m < length pat\<close> only stops an empty pattern, for
  which the code reads past the pattern's end.
\<close>

function chrstr_loop :: "string \<Rightarrow> string \<Rightarrow> nat \<Rightarrow> nat \<Rightarrow> nat option" where
  "chrstr_loop buf pat i m =
     (if i < length buf - length pat + 1 \<and> m < length pat then
        (if buf ! (i + m) = pat ! m then
           (if m + 1 = length pat then Some i else chrstr_loop buf pat i (m + 1))
         else chrstr_loop buf pat (i + 1) 0)
      else None)"
  by pat_completeness auto
termination
  by (relation "measures [\<lambda>(buf, pat, i, m). length buf + 1 - i, \<lambda>(buf, pat, i, m). length pat - m]") auto

declare chrstr_loop.simps [simp del]

definition chrstrfind :: "string \<Rightarrow> string \<Rightarrow> nat option" where
  "chrstrfind buf pat = (if length buf < length pat then None else chrstr_loop buf pat 0 0)"

definition chrfind :: "string \<Rightarrow> char \<Rightarrow> nat option" where
  "chrfind buf target = find (\<lambda>i. buf ! i = target) [0 ..< length buf]"

subsection \<open>The natural comparator\<close>

text \<open>The run of digits at a position, of which the code takes at most 18.\<close>

definition digit_run :: "string \<Rightarrow> nat \<Rightarrow> string" where
  "digit_run s i = take 18 (takeWhile is_digit (drop i s))"

lemma digit_run_nonempty: "i < length s \<Longrightarrow> is_digit (s ! i) \<Longrightarrow> 0 < length (digit_run s i)"
  by (simp add: digit_run_def Cons_nth_drop_Suc [symmetric])

function natural_loop :: "string \<Rightarrow> string \<Rightarrow> nat \<Rightarrow> nat \<Rightarrow> bool" where
  "natural_loop a b i j =
     (if i < length a \<and> j < length b then
        (if is_digit (a ! i) \<and> is_digit (b ! j) then
           let arun = digit_run a i; brun = digit_run b j
           in if read_nat arun < read_nat brun then True
              else if read_nat brun < read_nat arun then False
              else natural_loop a b (i + length arun) (j + length brun)
         else
           let ca = schar (to_lower_char (a ! i)); cb = schar (to_lower_char (b ! j))
           in if ca < cb then True else if cb < ca then False else natural_loop a b (i + 1) (j + 1))
      else length a < length b)"
  by pat_completeness auto
termination
proof (relation "measure (\<lambda>(a, b, i, j). length a - i)")
qed (use digit_run_nonempty in \<open>auto simp: diff_less_mono2\<close>)

declare natural_loop.simps [simp del]

definition naturalComparator :: "string \<Rightarrow> string \<Rightarrow> bool" where
  "naturalComparator a b = natural_loop a b 0 0"

subsection \<open>Trimming takes off the blanks at both ends\<close>

lemma trim_front_spec:
  "spos \<le> trim_front s spos epos \<and> trim_front s spos epos \<le> max spos epos
   \<and> (\<forall>j. spos \<le> j \<and> j < trim_front s spos epos \<longrightarrow> is_blank (s ! nat j))
   \<and> (trim_front s spos epos < epos \<longrightarrow> \<not> is_blank (s ! nat (trim_front s spos epos)))"
proof (induction s spos epos rule: trim_front.induct)
  case (1 s spos epos)
  show ?case
  proof (cases "spos < epos \<and> is_blank (s ! nat spos)")
    case True
    then have e: "trim_front s spos epos = trim_front s (spos + 1) epos"
      by (simp add: trim_front.simps [of s spos])
    have "is_blank (s ! nat j)" if "spos \<le> j" "j < trim_front s spos epos" for j
      using 1 True that e by (cases "j = spos") auto
    then show ?thesis using 1 True e by auto
  next
    case False
    then show ?thesis by (auto simp: trim_front.simps [of s spos])
  qed
qed

lemma trim_back_spec:
  "spos \<le> epos + 1 \<Longrightarrow> spos - 1 \<le> trim_back s spos epos \<and> trim_back s spos epos \<le> epos
   \<and> (\<forall>j. trim_back s spos epos < j \<and> j \<le> epos \<longrightarrow> is_blank (s ! nat j))
   \<and> (spos \<le> trim_back s spos epos \<longrightarrow> \<not> is_blank (s ! nat (trim_back s spos epos)))"
proof (induction s spos epos rule: trim_back.induct)
  case (1 s spos epos)
  show ?case
  proof (cases "spos \<le> epos \<and> is_blank (s ! nat epos)")
    case True
    then have e: "trim_back s spos epos = trim_back s spos (epos - 1)"
      by (simp add: trim_back.simps [of s spos epos])
    have "is_blank (s ! nat j)" if "trim_back s spos epos < j" "j \<le> epos" for j
      using 1 True that e by (cases "j = epos") auto
    then show ?thesis using 1 True e by auto
  next
    case False
    then show ?thesis using "1.prems" by (auto simp: trim_back.simps [of s spos epos])
  qed
qed

definition strip_blanks :: "string \<Rightarrow> string" where
  "strip_blanks s = rev (dropWhile is_blank (rev (dropWhile is_blank s)))"

lemma strip_blanks_mid:
  assumes "list_all is_blank u" "list_all is_blank v" "m \<noteq> [] \<Longrightarrow> \<not> is_blank (hd m) \<and> \<not> is_blank (last m)"
  shows "strip_blanks (u @ m @ v) = m"
proof -
  have 1: "dropWhile is_blank (w @ xs) = dropWhile is_blank xs" if "list_all is_blank w" for w xs
    using that by (induction w) auto
  have 2: "dropWhile is_blank v = []" using assms(2) by (simp add: list_all_iff)
  show ?thesis
  proof (cases "m = []")
    case True
    then show ?thesis using assms(1) 1 [of u v] 2 by (simp add: strip_blanks_def del: dropWhile_eq_Nil_conv)
  next
    case False
    then have "dropWhile is_blank (m @ v) = m @ v"
      using assms(3) by (cases m) auto
    moreover have "dropWhile is_blank (rev m) = rev m"
      using False assms(3) by (cases m rule: rev_cases) auto
    ultimately show ?thesis
      using assms(1,2) 1 [of u "m @ v"] 1 [of "rev v" "rev m"] by (simp add: strip_blanks_def)
  qed
qed

lemma trim_strip: "trim s = strip_blanks s"
proof (cases "s = []")
  case True
  then show ?thesis
    using trim_front_spec [of 0 "[]" "-1"] trim_back_spec [of "trim_front [] 0 (-1)" "-1" "[]"]
    by (auto simp: trim_def Let_def strip_blanks_def)
next
  case False
  obtain n where n: "length s = Suc n" using False by (cases s) auto
  define p where "p = trim_front s 0 (int (length s) - 1)"
  define q where "q = trim_back s p (int (length s) - 1)"
  have p: "0 \<le> p" "p \<le> int n" "\<forall>j. 0 \<le> j \<and> j < p \<longrightarrow> is_blank (s ! nat j)"
      "p < int n \<Longrightarrow> \<not> is_blank (s ! nat p)"
    using trim_front_spec [of 0 s "int (length s) - 1"] n by (auto simp: p_def)
  have q: "p - 1 \<le> q" "q \<le> int n" "\<forall>j. q < j \<and> j \<le> int n \<longrightarrow> is_blank (s ! nat j)"
      "p \<le> q \<Longrightarrow> \<not> is_blank (s ! nat q)"
    using trim_back_spec [of p "int (length s) - 1" s] n p by (auto simp: q_def)
  define P Q where "P = nat p" and "Q = nat (q + 1)"
  have PQ: "P \<le> Q" "Q \<le> length s" using p q n by (auto simp: P_def Q_def)
  have u: "list_all is_blank (take P s)"
    unfolding list_all_length
  proof (intro allI impI)
    fix k assume "k < length (take P s)"
    then show "is_blank (take P s ! k)"
      using p(3) [rule_format, of "int k"] p(1) by (auto simp: P_def)
  qed
  have v: "list_all is_blank (drop Q s)"
    unfolding list_all_length
  proof (intro allI impI)
    fix k assume "k < length (drop Q s)"
    then show "is_blank (drop Q s ! k)"
      using q(3) [rule_format, of "int (Q + k)"] n q(1) p(1) by (auto simp: Q_def nat_add_distrib)
  qed
  have m: "\<not> is_blank (hd (substr s P (Q - P))) \<and> \<not> is_blank (last (substr s P (Q - P)))"
    if "substr s P (Q - P) \<noteq> []"
  proof -
    have PltQ: "P < Q" using that by (auto simp: substr_def)
    then have pq: "p \<le> q" using p(1) by (auto simp: P_def Q_def)
    have "hd (substr s P (Q - P)) = s ! P" using PltQ PQ by (simp add: substr_def hd_drop_conv_nth)
    moreover have "last (substr s P (Q - P)) = s ! (Q - 1)"
      using PltQ PQ by (simp add: substr_def last_conv_nth)
    moreover have "Q - 1 = nat q" using pq p(1) by (simp add: Q_def nat_add_distrib)
    moreover have "\<not> is_blank (s ! P)"
    proof (cases "p < int n")
      case False
      then have "p = q" using pq q(2) by simp
      then show ?thesis using q(4) P_def by simp
    qed (use p(4) P_def in simp)
    ultimately show ?thesis using q(4) [OF pq] by simp
  qed
  have "s = take P s @ substr s P (Q - P) @ drop Q s"
    using PQ by (simp add: substr_def flip: append_assoc)
       (metis append_take_drop_id le_add_diff_inverse take_add)
  then have "strip_blanks s = substr s P (Q - P)"
    using strip_blanks_mid [OF u v m] by metis
  moreover have "trim s = substr s P (Q - P)"
    using p(1) q(1) by (auto simp: trim_def Let_def p_def [symmetric] q_def [symmetric] P_def Q_def
        substr_def nat_diff_distrib nat_add_distrib Suc_diff_le)
  ultimately show ?thesis by simp
qed

subsection \<open>Splitting and joining are inverse\<close>

lemma join_foldl: "foldl (\<lambda>out x. out @ x @ sep) out xs = out @ concat (map (\<lambda>x. x @ sep) xs)"
  by (induction xs arbitrary: out) auto

lemma join_snoc: "join (xs @ [x]) sep = concat (map (\<lambda>x. x @ sep) xs) @ x"
  by (simp add: join_def join_foldl Let_def)

lemma is_prefix_at_append:
  "i \<le> length s \<Longrightarrow> is_prefix_at pat (substr s i n) j \<Longrightarrow> is_prefix_at pat s (i + j)"
  by (auto simp: is_prefix_at_def substr_def drop_take add.commute min_def split: if_splits)

lemma split_loop_correct:
  assumes sep: "sep \<noteq> []"
  shows "start \<le> length s \<Longrightarrow> \<exists>xs x. split_loop s sep start out = Some (out @ xs @ [x]) \<and>
    concat (map (\<lambda>x. x @ sep) xs) @ x = drop start s \<and> (\<forall>y\<in>set (xs @ [x]). str_find y sep 0 = None)"
proof (induction "length s - start" arbitrary: start out rule: less_induct)
  case less
  show ?case
  proof (cases "str_find s sep start")
    case None
    have "\<not> is_prefix_at sep (drop start s) j" for j
      using None is_prefix_at_append [of start s sep "length s" j] less.prems
      by (auto simp: str_find_None substr_def)
    then have "str_find (drop start s) sep 0 = None" by (simp add: str_find_None)
    moreover have "split_loop s sep start out = Some (out @ [drop start s])"
      by (simp add: split_loop.simps [of s sep start] None)
    ultimately show ?thesis by (intro exI [of _ "[]"] exI [of _ "drop start s"]) simp
  next
    case (Some e)
    then have e: "start \<le> e" "is_prefix_at sep s e" "\<And>j. start \<le> j \<Longrightarrow> j < e \<Longrightarrow> \<not> is_prefix_at sep s j"
      by (auto simp: str_find_Some)
    let ?y = "substr s start (e - start)"
    have nosep: "str_find ?y sep 0 = None"
      unfolding str_find_None
    proof (intro allI impI notI)
      fix j assume j: "is_prefix_at sep ?y j"
      then have "j + length sep \<le> e - start" by (auto simp: is_prefix_at_def substr_def)
      then show False using e(3) [of "start + j"] is_prefix_at_append [OF less.prems j] sep by (cases sep) auto
    qed
    have len: "e + length sep \<le> length s" using e(2) by (simp add: is_prefix_at_def)
    then have "length s - (e + length sep) < length s - start" using e(1) sep by (cases sep) auto
    from less.hyps [OF this len, of "out @ [?y]"] obtain xs x where
      IH: "split_loop s sep (e + length sep) (out @ [?y]) = Some ((out @ [?y]) @ xs @ [x])"
        "concat (map (\<lambda>x. x @ sep) xs) @ x = drop (e + length sep) s"
        "\<forall>y\<in>set (xs @ [x]). str_find y sep 0 = None" by blast
    have "drop start s = ?y @ sep @ drop (e + length sep) s"
    proof -
      have "drop start s = ?y @ drop e s"
        using e(1) unfolding substr_def by (metis append_take_drop_id drop_drop le_add_diff_inverse2)
      moreover have "drop e s = sep @ drop (e + length sep) s"
        using e(2) unfolding is_prefix_at_def by (metis add.commute append_take_drop_id drop_drop)
      ultimately show ?thesis by simp
    qed
    then show ?thesis
      using Some IH nosep
      by (intro exI [of _ "?y # xs"] exI [of _ x]) (simp add: split_loop.simps [of s sep start])
  qed
qed

lemma split_loop_empty_sep:
  assumes ret: "split_loop s sep start out = Some r"
  shows "sep = [] \<Longrightarrow> start \<le> length s \<Longrightarrow> False"
proof (rule split_loop.raw_induct
    [where P = "\<lambda>s sep start out r. sep = [] \<and> start \<le> length s \<longrightarrow> False", OF _ ret, THEN mp])
  fix f :: "string \<Rightarrow> string \<Rightarrow> nat \<Rightarrow> string list \<Rightarrow> string list option"
  fix s sep start out r
  assume IH: "\<And>s sep start out r. f s sep start out = Some r \<Longrightarrow> sep = [] \<and> start \<le> length s \<longrightarrow> False"
    and eq: "(case str_find s sep start of None \<Rightarrow> Some (out @ [drop start s])
      | Some e \<Rightarrow> f s sep (e + length sep) (out @ [substr s start (e - start)])) = Some r"
  show "sep = [] \<and> start \<le> length s \<longrightarrow> False"
  proof
    assume *: "sep = [] \<and> start \<le> length s"
    then have "str_find s sep start = Some start" by (auto simp: str_find_Some is_prefix_at_def)
    with eq IH * show False by auto
  qed
qed simp

subsection \<open>Decoding undoes encoding\<close>

text \<open>\<open>url_encodes s e\<close>: the text \<open>e\<close> is an encoding of \<open>s\<close>, byte by byte.\<close>

inductive url_encodes :: "string \<Rightarrow> string \<Rightarrow> bool" where
  enc_nil: "url_encodes [] []"
| enc_plain: "url_encodes s e \<Longrightarrow> c \<noteq> CHR ''%'' \<Longrightarrow> c \<noteq> CHR ''+'' \<Longrightarrow> url_encodes (c # s) (c # e)"
| enc_space: "url_encodes s e \<Longrightarrow> url_encodes (CHR '' '' # s) (CHR ''+'' # e)"
| enc_hex: "url_encodes s e \<Longrightarrow> is_hex_char h \<Longrightarrow> is_hex_char l \<Longrightarrow> byte c = 16 * hex_val h + hex_val l \<Longrightarrow>
    url_encodes (c # s) (CHR ''%'' # h # l # e)"

lemma urlDecode_encoded: "url_encodes s e \<Longrightarrow> urlDecode e = s"
proof (induction rule: url_encodes.induct)
  case (enc_hex s e h l c)
  then have "char_of (16 * hex_val h + hex_val l) = c" by (metis byte_def char_of_char)
  with enc_hex show ?case by (simp add: isHex_def numeral_2_eq_2)
qed simp_all

subsection \<open>The buffer search is the string search\<close>

lemma chrstr_loop_correct:
  assumes pat: "pat \<noteq> []" and len: "length pat \<le> length buf"
    and m: "m < length pat" and eq: "\<forall>k<m. buf ! (i + k) = pat ! k"
  shows "chrstr_loop buf pat i m = str_find buf pat i"
  using assms
proof (induction buf pat i m rule: chrstr_loop.induct)
  case (1 buf pat i m)
  have at: "is_prefix_at pat buf i \<longleftrightarrow> i + length pat \<le> length buf \<and> (\<forall>k<length pat. buf ! (i + k) = pat ! k)"
    by (auto simp: is_prefix_at_def list_eq_iff_nth_eq)
  show ?case
  proof (cases "i < length buf - length pat + 1")
    case False
    then have "str_find buf pat i = None" by (auto simp: str_find_None is_prefix_at_def)
    with False show ?thesis by (simp add: chrstr_loop.simps [of buf pat i m])
  next
    case i: True
    then have il: "i + length pat \<le> length buf" using "1.prems"(2) by linarith
    show ?thesis
    proof (cases "buf ! (i + m) = pat ! m")
      case True
      then have all: "\<forall>k<m + 1. buf ! (i + k) = pat ! k" using "1.prems"(4) by (auto simp: less_Suc_eq)
      show ?thesis
      proof (cases "m + 1 = length pat")
        case True
        then have "str_find buf pat i = Some i" using all at il by (auto simp: str_find_Some)
        with True i all show ?thesis by (simp add: chrstr_loop.simps [of buf pat i m])
      next
        case False
        with i all True "1.prems" "1.IH"(1) show ?thesis
          by (simp add: chrstr_loop.simps [of buf pat i m])
      qed
    next
      case False
      then have no: "\<not> is_prefix_at pat buf i" using at "1.prems"(3) by blast
      then have "str_find buf pat i = str_find buf pat (i + 1)"
      proof -
        have "[i ..< Suc (length buf)] = i # [Suc i ..< Suc (length buf)]"
          using il by (simp add: upt_rec del: upt_Suc)
        then show ?thesis using no by (simp add: str_find_def del: upt_Suc)
      qed
      with False i "1.prems" "1.IH"(2) show ?thesis
        by (simp add: chrstr_loop.simps [of buf pat i m])
    qed
  qed
qed

subsection \<open>Sizes are rounded to two decimals\<close>

lemma getSizeGranularity [simp]: "getSizeGranularity = 1000"
  by (simp add: getSizeGranularity_def SIZEDECIMALS_def upt_rec)

lemma getPowers_nth [simp]: "i < 7 \<Longrightarrow> getPowers ! i = 1024 ^ i"
  by (simp add: getPowers_def)

lemma size_prefix_spec:
  "i \<le> 6 \<Longrightarrow> 6 - i \<le> n \<Longrightarrow> i \<le> size_prefix n sz i \<and> size_prefix n sz i \<le> 6 \<and>
    (size_prefix n sz i < 6 \<longrightarrow> sz div 1024 ^ size_prefix n sz i < 1000)"
proof (induction n sz i rule: size_prefix.induct)
  case (2 n sz i)
  show ?case
  proof (cases "i < 6 \<and> 1000 \<le> sz div getPowers ! i")
    case True
    moreover have "6 - Suc i \<le> n" using "2.prems" True by linarith
    ultimately show ?thesis using "2.IH" by (auto intro: Suc_leD)
  next
    case False
    then show ?thesis using "2.prems" by (auto simp: not_le)
  qed
qed simp

text \<open>The sum of whole units and decimals, in hundredths, before and after the carry.\<close>

lemma half_up:
  fixes n p :: nat
  assumes p: "0 < p"
  shows "100 * (n div p) + ((n mod p * 1000) div p + 5) div 10 = (200 * n + p) div (2 * p)"
proof -
  define q r where "q = n div p" and "r = n mod p"
  have n: "n = p * q + r" by (simp add: q_def r_def)
  have "((r * 1000) div p + 5) div 10 = (r * 1000 + 5 * p) div (p * 10)"
    using p by (simp add: div_mult2_eq)
  also have "r * 1000 + 5 * p = 5 * (200 * r + p)" by simp
  also have "p * 10 = 5 * (2 * p)" by simp
  also have "5 * (200 * r + p) div (5 * (2 * p)) = (200 * r + p) div (2 * p)"
    by (rule div_mult_mult1) simp
  finally have *: "((r * 1000) div p + 5) div 10 = (200 * r + p) div (2 * p)" .
  have e: "200 * n + p = (200 * r + p) + (2 * p) * (100 * q)"
    unfolding n by (simp add: algebra_simps)
  have "(200 * n + p) div (2 * p) = 100 * q + (200 * r + p) div (2 * p)"
    unfolding e by (rule div_mult_self2) (use p in simp)
  with * show ?thesis unfolding q_def [symmetric] r_def [symmetric] by simp
qed

lemma digit_char_0: "digit_char 0 = CHR ''0''"
  by code_simp

lemma digit_char_eval: "digit_char (Suc 0) = CHR ''1''" "digit_char 1 = CHR ''1''"
  "digit_char 2 = CHR ''2''" "digit_char 3 = CHR ''3''" "digit_char 4 = CHR ''4''"
  "digit_char 5 = CHR ''5''" "digit_char 6 = CHR ''6''" "digit_char 7 = CHR ''7''"
  "digit_char 8 = CHR ''8''" "digit_char 9 = CHR ''9''"
  by code_simp+

lemma size_prefix_numeral:
  "size_prefix (numeral k) sz i =
     (if i < 6 \<and> 1000 \<le> sz div getPowers ! i then size_prefix (pred_numeral k) sz (i + 1) else i)"
  by (simp add: numeral_eq_Suc)

lemma two_digits:
  assumes "d < 1000"
  shows "take SIZEDECIMALS (pad_decimals (show_nat d)) = [digit_char (d div 100), digit_char (d div 10 mod 10)]"
proof -
  have sn: "show_nat d = (if d < 10 then [digit_char d]
      else if d < 100 then [digit_char (d div 10), digit_char (d mod 10)]
      else [digit_char (d div 100), digit_char (d div 10 mod 10), digit_char (d mod 10)])"
  proof -
    have "d div 10 < 10 \<longleftrightarrow> d < 100" "d div 100 < 10" "d div 10 div 10 = d div 100"
      using assms by (auto simp: div_mult2_eq [symmetric])
    then show ?thesis
      by (simp add: show_nat.simps [of d] show_nat.simps [of "d div 10"] show_nat.simps [of "d div 100"])
  qed
  show ?thesis
    unfolding pad_decimals_def SIZEDECIMALS_def sn using assms
    by (auto simp: numeral_2_eq_2 numeral_3_eq_3 digit_char_0)
qed

definition size_hundredths :: "nat \<Rightarrow> nat \<Rightarrow> nat" where
  "size_hundredths sz p = (200 * sz + p) div (2 * p)"

lemma parseSize_units:
  assumes i: "size_prefix 6 sz 0 = i" "0 < i" "i < 6" and p: "p = 1024 ^ i"
  shows "parseSize sz = (let v = size_hundredths sz p in
    show_nat (v div 100) @ ''.'' @ [digit_char (v mod 100 div 10), digit_char (v mod 10)] @ '' '' @ size_unit i)"
proof -
  have pp: "0 < p" "p \<le> 2 ^ 50" using i p power_increasing [of i 5 "1024::nat"] by auto
  define d where "d = (sz mod p * 1000) div p + 5"
  have "sz mod p * 1000 < p * 1000" using pp(1) by simp
  also have "\<dots> \<le> 2 ^ 50 * 1000" using pp(2) by (rule mult_le_mono1)
  also have "\<dots> < (2 ^ 64 :: nat)" by simp
  finally have "sz mod p * 1000 < 2 ^ 64" .
  then have dec: "size_decimals sz p = d" by (simp add: size_decimals_def d_def)
  have "(sz mod p * 1000) div p < 1000" using pp(1) mod_less_divisor [of p sz] by (simp add: less_mult_imp_div_less)
  then have d: "d < 1005" by (simp add: d_def)
  have v: "size_hundredths sz p = 100 * (sz div p) + d div 10"
    using half_up [OF pp(1), of sz] by (simp add: size_hundredths_def d_def)
  have i7: "getPowers ! i = p" using i p by simp
  have ps: "parseSize sz = (let (w, e) = (if 1000 \<le> d then (sz div p + 1, 0) else (sz div p, d)) in
      show_nat w @ ''.'' @ take SIZEDECIMALS (pad_decimals (show_nat e)) @ '' '' @ size_unit i)"
    unfolding parseSize_def i(1) Let_def i7 dec using i(2) by simp
  show ?thesis
  proof (cases "1000 \<le> d")
    case True
    then have "d div 10 = 100" using d by linarith
    then have v': "size_hundredths sz p = 100 * (sz div p + 1)" using v by simp
    show ?thesis unfolding ps v' using True by (simp add: Let_def two_digits)
  next
    case False
    then have e: "d div 10 < 100" by linarith
    have m: "(100 * w + x) div 100 = w" "(100 * w + x) mod 100 div 10 = x div 10"
      "(100 * w + x) mod 10 = x mod 10" if "x < 100" for w x :: nat
    proof -
      have "100 * w + x = x + 10 * (10 * w)" by simp
      then show "(100 * w + x) mod 10 = x mod 10" by (metis mod_mult_self2)
    qed (use that in simp_all)
    have "d div 10 div 10 = d div 100" by (simp add: div_mult2_eq [symmetric])
    then show ?thesis
      unfolding ps v Let_def m [OF e] using False by (simp add: two_digits)
  qed
qed

subsection \<open>The natural comparator\<close>

lemma natural_loop_asym:
  "natural_loop a b i j \<Longrightarrow> natural_loop b a j i \<Longrightarrow> False"
proof (induction a b i j rule: natural_loop.induct)
  case (1 a b i j)
  show ?case
    using "1.prems" "1.IH"
    by (subst (asm) (1 2) natural_loop.simps) (auto simp: Let_def split: if_splits)
qed

subsection \<open>Properties\<close>

text \<open>
  C21. \<open>util::trim\<close> takes off all blanks (space, carriage return, newline) in front and at the back,
  and nothing else, on every text, the blank and the empty ones included.
\<close>

theorem trim_correct: "trim s = rev (dropWhile is_blank (rev (dropWhile is_blank s)))"
  by (simp add: trim_strip strip_blanks_def)

text \<open>
  C28. \<open>split\<close> with a separator that is not empty returns, its pieces contain no separator, and
  \<open>join\<close> with the same separator gives the text back.
\<close>

theorem split_join:
  assumes "sep \<noteq> []"
  shows "\<exists>xs. split s sep = Some xs \<and> xs \<noteq> [] \<and> join xs sep = s \<and> (\<forall>x\<in>set xs. str_find x sep 0 = None)"
proof -
  obtain xs x where *: "split_loop s sep 0 [] = Some (xs @ [x])"
      "concat (map (\<lambda>x. x @ sep) xs) @ x = s" "\<forall>y\<in>set (xs @ [x]). str_find y sep 0 = None"
    using split_loop_correct [OF assms, of 0 s "[]"] by auto
  then show ?thesis
    by (intro exI [of _ "xs @ [x]"]) (simp add: split_def join_snoc)
qed

theorem split_join_witness: "split ''a,b,'' '','' = Some [''a'', ''b'', []] \<and> join [''a'', ''b'', []] '','' = ''a,b,''"
proof -
  have "split ''a,b,'' '','' = Some [''a'', ''b'', []]"
    by (simp add: split_def split_loop.simps str_find_def is_prefix_at_def substr_def upt_rec)
  then show ?thesis using split_join [of "'',''" "''a,b,''"] by auto
qed

text \<open>
  C24. \<open>split\<close> with the empty separator never returns: it finds the separator at the place it starts
  from, over and over.
\<close>

theorem split_empty_separator: "split s [] = None"
  using split_loop_empty_sep [of s "[]" 0 "[]"] by (cases "split_loop s [] 0 []") (auto simp: split_def)

text \<open>
  C29. \<open>urlDecode\<close> undoes URL encoding: any text got by writing each byte literally (not a percent
  sign or a plus), as a percent sign with two hex digits of either case, or, for a space, as a
  plus, decodes to the bytes it stands for.
\<close>

theorem urlDecode_roundtrip:
  assumes "url_encodes s e"
  shows "urlDecode e = s"
  by (rule urlDecode_encoded [OF assms])

theorem urlDecode_roundtrip_witness:
  "url_encodes ''a /'' ''a+%2F'' \<and> urlDecode ''a+%2F'' = ''a /''"
proof -
  have "url_encodes ''a /'' ''a+%2F''"
    by (intro url_encodes.intros) (simp_all add: is_hex_char_def hex_val_def byte_def)
  with urlDecode_roundtrip [OF this] show ?thesis by simp
qed

text \<open>
  C30. \<open>parseSize\<close> from 1000 bytes up to the petabytes: the number printed is the size in the chosen
  unit, rounded half up to two decimals, with the 64-bit arithmetic of the code (no overflow, and
  the carry into the whole part is right).
\<close>

theorem parseSize_rounds:
  assumes "0 < size_prefix 6 sz 0" and "size_prefix 6 sz 0 < 6"
  shows "parseSize sz =
    (let p = 1024 ^ size_prefix 6 sz 0; v = (200 * sz + p) div (2 * p)
     in show_nat (v div 100) @ ''.'' @ [digit_char (v mod 100 div 10), digit_char (v mod 10)]
        @ '' '' @ size_unit (size_prefix 6 sz 0))"
  using parseSize_units [OF refl assms refl] by (simp add: Let_def size_hundredths_def)

theorem parseSize_rounds_witness: "parseSize 1023995 = ''1000.00 kB''"
proof -
  have p: "size_prefix 6 1023995 0 = 1" by (simp add: size_prefix_numeral)
  have "show_nat 1000 = ''1000''" by (simp add: show_nat.simps digit_char_0 digit_char_eval)
  then show ?thesis
    using parseSize_rounds [of 1023995] by (simp add: p size_unit_def Let_def digit_char_0)
qed

text \<open>
  C23. From one exabyte on the product of the remainder and the granularity does not fit in 64
  bits, so \<open>parseSize\<close> prints wrong decimals: 1.5 EB comes out as 1.00 EB.
\<close>

theorem parseSize_exabyte_overflow: "parseSize (2 ^ 60 + 2 ^ 59) = ''1.00 EB''"
proof -
  define sz :: nat where "sz = 2 ^ 60 + 2 ^ 59"
  have "size_prefix 6 sz 0 = 6" by (simp add: sz_def size_prefix_numeral)
  moreover have "size_decimals sz (1024 ^ 6) = 9" by (simp add: sz_def size_decimals_def)
  moreover have "sz div 1024 ^ 6 = 1" by (simp add: sz_def)
  moreover have "take SIZEDECIMALS (pad_decimals (show_nat 9)) = ''00''"
    by (simp add: two_digits digit_char_0)
  moreover have "show_nat 1 = ''1''" by (simp add: show_nat.simps digit_char_eval)
  ultimately show ?thesis
    unfolding sz_def [symmetric] by (simp add: parseSize_def Let_def size_unit_def)
qed

text \<open>
  C25. The search over a raw buffer is \<open>std::string::find\<close>: \<open>chrstrfind\<close> returns the first position
  at which the pattern occurs, and -1 when it does not occur.
\<close>

theorem chrstrfind_correct:
  assumes "pat \<noteq> []"
  shows "chrstrfind buf pat = str_find buf pat 0"
proof (cases "length buf < length pat")
  case True
  then have "str_find buf pat 0 = None" by (auto simp: str_find_None is_prefix_at_def)
  with True show ?thesis by (simp add: chrstrfind_def)
next
  case False
  then show ?thesis
    using assms chrstr_loop_correct [OF assms, of buf 0 0] by (simp add: chrstrfind_def)
qed

theorem chrstrfind_correct_witness: "chrstrfind ''aab'' ''ab'' = Some 1"
  using chrstrfind_correct [of "''ab''" "''aab''"]
  by (simp add: str_find_def is_prefix_at_def upt_rec)

text \<open>
  C31. The natural comparator, by which \<open>std::set\<close> and \<open>std::map\<close> keep affiliations and sections,
  never puts two names before each other; but it is no strict weak order: \<open>01\<close> is equivalent to
  \<open>1a\<close> and to \<open>1b\<close>, which are ordered, so a container that holds \<open>01\<close> takes either of them for
  the same key.
\<close>

theorem naturalComparator_order:
  "\<not> (naturalComparator a b \<and> naturalComparator b a)
   \<and> \<not> naturalComparator ''01'' ''1a'' \<and> \<not> naturalComparator ''1a'' ''01''
   \<and> \<not> naturalComparator ''01'' ''1b'' \<and> \<not> naturalComparator ''1b'' ''01''
   \<and> naturalComparator ''1a'' ''1b''"
proof -
  have "\<not> naturalComparator ''01'' ''1a''" "\<not> naturalComparator ''1a'' ''01''"
    "\<not> naturalComparator ''01'' ''1b''" "\<not> naturalComparator ''1b'' ''01''" "naturalComparator ''1a'' ''1b''"
    by code_simp+
  then show ?thesis using natural_loop_asym by (auto simp: naturalComparator_def)
qed

end
