(* ===== verification/PathModel.thy ===== *)
theory PathModel
  imports UtilText
begin

text \<open>
  Paths (\<open>src/path.cpp\<close>), which the whole program uses for remote and local directories.  A path
  keeps its text, the same text with slashes (\<open>unixpath\<close>), its directory and base parts, the
  separator and whether it is absolute.  The constructors normalise a text that has a separator:
  all separators are made the same, runs of separators become one, and a separator at the end goes.
\<close>

subsection \<open>Construction\<close>

record path =
  p_path :: string
  p_unix :: string
  p_dirname :: string
  p_basename :: string
  p_sep :: char
  p_absolute :: bool
  p_certain :: bool

definition slash :: char where
  "slash = CHR ''/''"

definition bslash :: char where
  "bslash = CHR 0x5C"

definition path_empty :: path where
  "path_empty = \<lparr>p_path = [], p_unix = [], p_dirname = [], p_basename = [], p_sep = slash,
     p_absolute = False, p_certain = False\<rparr>"

definition setSeparatorAbsolute :: "path \<Rightarrow> path" where
  "setSeparatorAbsolute p =
     (if p_path p \<noteq> [] then
        if p_path p ! 0 = slash \<or> p_path p ! 0 = bslash then
          p\<lparr>p_absolute := True, p_sep := p_path p ! 0, p_certain := True\<rparr>
        else if str_find (p_path p) [slash] 0 \<noteq> None then p\<lparr>p_sep := slash, p_certain := True\<rparr>
        else if str_find (p_path p) [bslash] 0 \<noteq> None then p\<lparr>p_sep := bslash, p_certain := True\<rparr>
        else p
      else p)"

text \<open>The loop that replaces the first remaining occurrence of a byte until there is none.\<close>

definition replace_all :: "char \<Rightarrow> char \<Rightarrow> string \<Rightarrow> string" where
  "replace_all c d s = map (\<lambda>x. if x = c then d else x) s"

definition flipSlashes :: "path \<Rightarrow> path" where
  "flipSlashes p =
     (if p_sep p = slash then p\<lparr>p_path := replace_all bslash slash (p_path p)\<rparr>
      else if p_sep p = bslash then p\<lparr>p_path := replace_all slash bslash (p_path p)\<rparr>
      else p)"

function collapse :: "char \<Rightarrow> string \<Rightarrow> string" where
  "collapse sep s =
     (case str_find s [sep, sep] 0 of
        None \<Rightarrow> s
      | Some pos \<Rightarrow> collapse sep (take pos s @ drop (pos + 1) s))"
  by pat_completeness auto
termination
  by (relation "measure (\<lambda>(sep, s). length s)") (auto simp: str_find_Some is_prefix_at_def)

declare collapse.simps [simp del]

definition cleanPath :: "path \<Rightarrow> path" where
  "cleanPath p =
     (let s = (if p_sep p = slash then collapse slash (p_path p)
               else if p_sep p = bslash then collapse bslash (p_path p) else p_path p);
          ipos = length s - 1
      in p\<lparr>p_path := (if 0 < ipos \<and> (s ! ipos = slash \<or> s ! ipos = bslash) then take ipos s else s)\<rparr>)"

definition setPathParts :: "path \<Rightarrow> path" where
  "setPathParts p =
     (let unix = (if p_sep p = bslash then replace_all bslash slash (p_path p) else p_path p)
      in case str_rfind unix [slash] (length unix) of
           Some pos \<Rightarrow>
             p\<lparr>p_unix := unix,
               p_dirname := (if pos = 0 then take 1 (p_path p) else take pos (p_path p)),
               p_basename := drop (pos + 1) (p_path p)\<rparr>
         | None \<Rightarrow> p\<lparr>p_unix := unix, p_basename := p_path p\<rparr>)"

definition path_new :: "string \<Rightarrow> path" where
  "path_new inpath =
     (let p = setSeparatorAbsolute (path_empty\<lparr>p_path := inpath\<rparr>);
          p' = (if p_certain p then cleanPath (flipSlashes p) else p)
      in setPathParts p')"

text \<open>The private constructors: a text that is taken as it is, and the concatenation of two paths.\<close>

definition path_raw :: "string \<Rightarrow> char \<Rightarrow> bool \<Rightarrow> path" where
  "path_raw inpath sep certain =
     setPathParts (path_empty\<lparr>p_path := inpath, p_sep := sep, p_certain := certain,
       p_absolute := (inpath \<noteq> [] \<and> inpath ! 0 = sep)\<rparr>)"

definition path_concat :: "path \<Rightarrow> path \<Rightarrow> path" where
  "path_concat base add =
     (let sep = (if p_certain base then p_sep base else p_sep add);
          text = p_path base
            @ (if \<not> p_absolute add \<and> 1 < length (p_path base) \<and> p_path add \<noteq> [] then [sep] else [])
            @ p_path add
      in setPathParts (flipSlashes (path_empty\<lparr>p_path := text, p_sep := sep,
           p_absolute := (if p_path base \<noteq> [] then p_absolute base else p_absolute add),
           p_certain := (p_certain base \<or> p_certain add)\<rparr>)))"

subsection \<open>Queries\<close>

definition path_eq :: "path \<Rightarrow> path \<Rightarrow> bool" where
  "path_eq p q \<longleftrightarrow> p_unix p = p_unix q"

definition path_contains :: "path \<Rightarrow> path \<Rightarrow> bool" where
  "path_contains p q \<longleftrightarrow>
     length (p_unix q) \<le> length (p_unix p) \<and> take (length (p_unix q)) (p_unix p) = p_unix q
     \<and> (length (p_unix p) = length (p_unix q) \<or> p_unix p ! length (p_unix q) = slash)"

definition path_minus :: "path \<Rightarrow> path \<Rightarrow> path" where
  "path_minus p q =
     (let u = p_unix p; v = p_unix q;
          rest = (if u = v then path_raw [] (p_sep p) (p_certain p) else p)
      in if p_absolute p \<and> p_absolute q then
           if length v < length u then
             if take (length v + 1) u = v @ [slash]
             then path_raw (drop (length v + 1) u) (p_sep p) (p_certain p)
             else if length v = 1 \<and> take (length v) u = v
             then path_raw (drop (length v) u) (p_sep p) (p_certain p)
             else rest
           else rest
         else if \<not> p_absolute q then
           if length v < length u
              \<and> take (length v + 1) (drop (length u - length v - 1) u) = slash # v
           then path_raw (take (length u - length v) u) (p_sep p) (p_certain p)
           else rest
         else rest)"

function path_split_loop :: "string \<Rightarrow> nat \<Rightarrow> string list" where
  "path_split_loop u lastpos =
     (case str_find u [slash] lastpos of
        Some splitpos \<Rightarrow> substr u lastpos (splitpos - lastpos) # path_split_loop u (splitpos + 1)
      | None \<Rightarrow> [drop lastpos u])"
  by pat_completeness auto
termination
  by (relation "measure (\<lambda>(u, lastpos). length u - lastpos)")
     (auto simp: str_find_Some is_prefix_at_char)

declare path_split_loop.simps [simp del]

definition path_split :: "path \<Rightarrow> string list" where
  "path_split p = path_split_loop (p_unix p) 0"

function levels_loop :: "string \<Rightarrow> nat \<Rightarrow> nat \<Rightarrow> nat" where
  "levels_loop u lastpos n =
     (case str_find u [slash] lastpos of
        Some splitpos \<Rightarrow> levels_loop u (splitpos + 1) (n + 1)
      | None \<Rightarrow> n)"
  by pat_completeness auto
termination
  by (relation "measure (\<lambda>(u, lastpos, n). length u - lastpos)")
     (auto simp: str_find_Some is_prefix_at_char)

declare levels_loop.simps [simp del]

definition path_levels :: "path \<Rightarrow> nat" where
  "path_levels p = levels_loop (p_unix p) 0 (if p_absolute p then 0 else 1)"

text \<open>
  \<open>cutLevels\<close>: the two loops give the ncut text, \<^term>\<open>None\<close> when they run out of separators.
  \<open>lastpos\<close> of the first loop is a signed number of the code and may become -1.
\<close>

function cut_back_loop :: "string \<Rightarrow> nat \<Rightarrow> int \<Rightarrow> nat \<Rightarrow> string option" where
  "cut_back_loop u levels lastpos ncut =
     (if 0 < lastpos then
        case str_rfind u [slash] (nat lastpos) of
          None \<Rightarrow> None
        | Some splitpos \<Rightarrow>
            if ncut + 1 = levels then Some (take (if splitpos = 0 then 1 else splitpos) u)
            else cut_back_loop u levels (int splitpos - 1) (ncut + 1)
      else None)"
  by pat_completeness auto
termination
  by (relation "measure (\<lambda>(u, levels, lastpos, ncut). nat lastpos)") (auto dest: str_rfind_Some)

declare cut_back_loop.simps [simp del]

function cut_front_loop :: "string \<Rightarrow> nat \<Rightarrow> nat \<Rightarrow> nat \<Rightarrow> string option" where
  "cut_front_loop u target lastpos atlevel =
     (case str_find u [slash] lastpos of
        None \<Rightarrow> None
      | Some splitpos \<Rightarrow>
          let lastpos' = splitpos + 1
          in if atlevel = target then Some (drop (if lastpos' = 1 then 0 else lastpos') u)
             else cut_front_loop u target lastpos' (atlevel + 1))"
  by pat_completeness auto
termination
  by (relation "measure (\<lambda>(u, target, lastpos, atlevel). length u - lastpos)")
     (auto simp: str_find_Some is_prefix_at_char)

declare cut_front_loop.simps [simp del]

definition path_cutLevels :: "int \<Rightarrow> path \<Rightarrow> path" where
  "path_cutLevels levels p =
     (let u = p_unix p; raw = (\<lambda>s. path_raw s (p_sep p) (p_certain p))
      in if 0 < levels then
           case cut_back_loop u (nat levels) (int (length u)) 0 of
             Some s \<Rightarrow> raw s
           | None \<Rightarrow> if p_absolute p then path_new ''/'' else raw []
         else if levels < 0 then
           case cut_front_loop u (nat (- levels)) 0 (if p_absolute p then 0 else 1) of
             Some s \<Rightarrow> raw s
           | None \<Rightarrow> raw []
         else p)"

function level_loop :: "string \<Rightarrow> int \<Rightarrow> nat \<Rightarrow> int \<Rightarrow> string option" where
  "level_loop u level lastpos atlevel =
     (case str_find u [slash] lastpos of
        None \<Rightarrow> if level = atlevel then Some (drop (if lastpos = 1 then 0 else lastpos) u) else None
      | Some splitpos \<Rightarrow>
          if atlevel = level
          then Some (substr u (if lastpos = 1 then 0 else lastpos)
                 (splitpos - (if lastpos = 1 then 0 else lastpos)))
          else level_loop u level (splitpos + 1) (atlevel + 1))"
  by pat_completeness auto
termination
  by (relation "measure (\<lambda>(u, level, lastpos, atlevel). length u - lastpos)")
     (auto simp: str_find_Some is_prefix_at_char)

declare level_loop.simps [simp del]

definition path_level :: "int \<Rightarrow> path \<Rightarrow> path" where
  "path_level level p =
     (case level_loop (p_unix p) level 0 (if p_absolute p then -1 else 0) of
        Some s \<Rightarrow> path_raw s (p_sep p) (p_certain p)
      | None \<Rightarrow> path_raw [] (p_sep p) (p_certain p))"

definition path_less :: "path \<Rightarrow> path \<Rightarrow> bool" where
  "path_less p q \<longleftrightarrow> p_path p < p_path q"

subsection \<open>Normal form\<close>

definition single_runs :: "char \<Rightarrow> string \<Rightarrow> bool" where
  "single_runs c s \<longleftrightarrow> str_find s [c, c] 0 = None"

text \<open>What a normalised path looks like: the reader of a \<open>Path\<close> relies on these.\<close>

definition path_wf :: "path \<Rightarrow> bool" where
  "path_wf p \<longleftrightarrow>
     (p_sep p = slash \<and> bslash \<notin> set (p_path p) \<or> p_sep p = bslash \<and> slash \<notin> set (p_path p))
     \<and> single_runs (p_sep p) (p_path p)
     \<and> (if 1 < length (p_path p) then last (p_path p) \<noteq> p_sep p else True)
     \<and> p_absolute p = (p_path p \<noteq> [] \<and> hd (p_path p) = p_sep p)
     \<and> (if p_certain p then True else slash \<notin> set (p_path p) \<and> bslash \<notin> set (p_path p))
     \<and> p_unix p = replace_all bslash slash (p_path p)"

lemma slash_bslash [simp]: "slash \<noteq> bslash" "bslash \<noteq> slash"
  by (simp_all add: slash_def bslash_def)

lemma replace_all_id [simp]: "c \<notin> set s \<Longrightarrow> replace_all c d s = s"
  by (auto simp: replace_all_def intro: map_idI)

lemma replace_all_simps [simp]:
  "length (replace_all c d s) = length s"
  "replace_all c d (s @ t) = replace_all c d s @ replace_all c d t"
  "replace_all c d (x # s) = (if x = c then d else x) # replace_all c d s"
  "replace_all c d [] = []"
  by (auto simp: replace_all_def)

lemma replace_all_notin: "c \<noteq> d \<Longrightarrow> c \<notin> set (replace_all c d s)"
  by (auto simp: replace_all_def)

lemma is_prefix_at_two:
  "is_prefix_at [c, d] s i \<longleftrightarrow> Suc i < length s \<and> s ! i = c \<and> s ! Suc i = d"
proof (cases "Suc i < length s")
  case True
  then have "drop i s = s ! i # s ! Suc i # drop (Suc (Suc i)) s"
    by (metis Cons_nth_drop_Suc Suc_lessD)
  with True show ?thesis by (simp add: is_prefix_at_def)
qed (auto simp: is_prefix_at_def)

lemma single_runs_iff:
  "single_runs c s \<longleftrightarrow> (\<forall>i. Suc i < length s \<longrightarrow> \<not> (s ! i = c \<and> s ! Suc i = c))"
  by (auto simp: single_runs_def str_find_None is_prefix_at_two)

lemma single_runs_take: "single_runs c s \<Longrightarrow> single_runs c (take n s)"
  by (auto simp: single_runs_iff)

lemma single_runs_notin: "c \<notin> set s \<Longrightarrow> single_runs c s"
  by (auto simp: single_runs_iff)

lemma collapse_spec:
  "single_runs sep (collapse sep s) \<and> set (collapse sep s) \<subseteq> set s
   \<and> (collapse sep s = [] \<longleftrightarrow> s = []) \<and> (if s = [] then True else hd (collapse sep s) = hd s)"
proof (induction sep s rule: collapse.induct)
  case (1 sep s)
  show ?case
  proof (cases "str_find s [sep, sep] 0")
    case None
    then show ?thesis by (subst (1 2 3 4) collapse.simps) (auto simp: single_runs_def)
  next
    case (Some pos)
    let ?s = "take pos s @ drop (pos + 1) s"
    have at: "Suc pos < length s" "s ! pos = sep" "s ! Suc pos = sep"
      using Some by (auto simp: str_find_Some is_prefix_at_two)
    have "s \<noteq> []" "?s \<noteq> []" using at by auto
    have "hd ?s = hd s"
    proof (cases pos)
      case 0
      with at show ?thesis by (cases s) (auto simp: hd_conv_nth)
    next
      case (Suc n)
      with \<open>s \<noteq> []\<close> show ?thesis by (cases s) auto
    qed
    moreover have "set ?s \<subseteq> set s" by (auto dest: in_set_takeD in_set_dropD)
    moreover have "collapse sep s = collapse sep ?s"
      using Some by (subst collapse.simps) simp
    ultimately show ?thesis using 1 [OF Some] \<open>s \<noteq> []\<close> \<open>?s \<noteq> []\<close> by auto
  qed
qed


lemma cleanPath_text:
  assumes "p_sep p = slash \<and> bslash \<notin> set (p_path p) \<or> p_sep p = bslash \<and> slash \<notin> set (p_path p)"
  defines "t \<equiv> p_path (cleanPath p)"
  shows "single_runs (p_sep p) t \<and> set t \<subseteq> set (p_path p) \<and> (t = [] \<longleftrightarrow> p_path p = [])
    \<and> (p_path p = [] \<or> hd t = hd (p_path p)) \<and> (1 < length t \<longrightarrow> last t \<noteq> p_sep p)"
proof -
  define s where "s = collapse (p_sep p) (p_path p)"
  have s: "single_runs (p_sep p) s" "set s \<subseteq> set (p_path p)" "s = [] \<longleftrightarrow> p_path p = []"
    "p_path p = [] \<or> hd s = hd (p_path p)"
    using collapse_spec [of "p_sep p" "p_path p"] by (auto simp: s_def split: if_splits)
  let ?n = "length s - 1"
  have t: "t = (if 0 < ?n \<and> s ! ?n = p_sep p then take ?n s else s)"
  proof -
    have "s ! ?n = slash \<or> s ! ?n = bslash \<longleftrightarrow> s ! ?n = p_sep p" if "0 < ?n"
    proof -
      have "s ! ?n \<in> set s" using that by (intro nth_mem) simp
      with assms(1) s(2) show ?thesis by auto
    qed
    then show ?thesis
      using assms(1) by (auto simp: t_def cleanPath_def Let_def s_def)
  qed
  have "last (take ?n s) \<noteq> p_sep p" if "1 < ?n" "s ! ?n = p_sep p"
  proof -
    have "take ?n s \<noteq> []" using that by (cases s) auto
    then have "last (take ?n s) = s ! (?n - 1)"
      using that by (subst last_conv_nth) (auto simp: min_def)
    moreover have "\<not> (s ! (?n - 1) = p_sep p \<and> s ! Suc (?n - 1) = p_sep p)"
      using s(1) that by (simp add: single_runs_iff)
    moreover have "Suc (?n - 1) = ?n" using that by simp
    ultimately show ?thesis using that by simp
  qed
  moreover have "last s \<noteq> p_sep p" if "1 < length s" "s ! ?n \<noteq> p_sep p"
    using that by (subst last_conv_nth) auto
  ultimately show ?thesis
    using s by (auto simp: t single_runs_take dest: in_set_takeD)
qed

lemma setPathParts_simps [simp]:
  "p_path (setPathParts p) = p_path p" "p_sep (setPathParts p) = p_sep p"
  "p_absolute (setPathParts p) = p_absolute p" "p_certain (setPathParts p) = p_certain p"
  "p_unix (setPathParts p) = (if p_sep p = bslash then replace_all bslash slash (p_path p) else p_path p)"
  by (simp_all add: setPathParts_def Let_def split: option.splits)

lemma cleanPath_simps [simp]:
  "p_sep (cleanPath p) = p_sep p" "p_absolute (cleanPath p) = p_absolute p"
  "p_certain (cleanPath p) = p_certain p"
  by (simp_all add: cleanPath_def Let_def)

lemma flipSlashes_simps [simp]:
  "p_sep (flipSlashes p) = p_sep p" "p_absolute (flipSlashes p) = p_absolute p"
  "p_certain (flipSlashes p) = p_certain p"
  by (simp_all add: flipSlashes_def)

lemma str_find_char_None: "str_find s [c] 0 = None \<longleftrightarrow> c \<notin> set s"
  by (auto simp: str_find_None is_prefix_at_char in_set_conv_nth)

lemma path_raw_unix: "bslash \<notin> set s \<Longrightarrow> p_unix (path_raw s sep c) = s"
  by (simp add: path_raw_def)

lemma cleanPath_wf:
  assumes one: "p_sep q = slash \<and> bslash \<notin> set (p_path q) \<or> p_sep q = bslash \<and> slash \<notin> set (p_path q)"
    and "p_certain q" and abs: "p_absolute q = (p_path q \<noteq> [] \<and> hd (p_path q) = p_sep q)"
  shows "path_wf (setPathParts (cleanPath q))"
  unfolding path_wf_def setPathParts_simps cleanPath_simps
proof (intro conjI)
  let ?t = "p_path (cleanPath q)"
  have t: "single_runs (p_sep q) ?t" "set ?t \<subseteq> set (p_path q)" "?t = [] \<longleftrightarrow> p_path q = []"
    "p_path q = [] \<or> hd ?t = hd (p_path q)" "1 < length ?t \<longrightarrow> last ?t \<noteq> p_sep q"
    using cleanPath_text [OF one] by blast+
  show "p_sep q = slash \<and> bslash \<notin> set ?t \<or> p_sep q = bslash \<and> slash \<notin> set ?t"
    using one t(2) by blast
  then show "(if p_sep q = bslash then replace_all bslash slash ?t else ?t)
    = replace_all bslash slash ?t" by auto
  show "p_absolute q = (?t \<noteq> [] \<and> hd ?t = p_sep q)"
    using abs t(3,4) by auto
  show "if p_certain q then True else slash \<notin> set ?t \<and> bslash \<notin> set ?t"
    using assms(2) by simp
  show "single_runs (p_sep q) ?t" "if 1 < length ?t then last ?t \<noteq> p_sep q else True"
    using t(1,5) by auto
qed

lemma flipSlashes_separator:
  fixes s :: string
  defines "p \<equiv> setSeparatorAbsolute (path_empty\<lparr>p_path := s\<rparr>)"
  defines "q \<equiv> flipSlashes p"
  assumes "p_certain p"
  shows "p_sep q = slash \<and> bslash \<notin> set (p_path q) \<or> p_sep q = bslash \<and> slash \<notin> set (p_path q)"
    and "p_absolute q = (p_path q \<noteq> [] \<and> hd (p_path q) = p_sep q)"
proof -
  have sep: "p_sep p = slash \<or> p_sep p = bslash" and path: "p_path p = s"
    by (auto simp: p_def setSeparatorAbsolute_def path_empty_def)
  show "p_sep q = slash \<and> bslash \<notin> set (p_path q) \<or> p_sep q = bslash \<and> slash \<notin> set (p_path q)"
    using sep by (auto simp: q_def flipSlashes_def dest: replace_all_notin [THEN notE, rotated])
  have "p_absolute p = (p_path p \<noteq> [] \<and> hd (p_path p) = p_sep p)"
    using assms(3)
    by (cases s) (auto simp: p_def setSeparatorAbsolute_def path_empty_def split: if_splits
      simp: str_find_char_None)
  moreover have "p_path q \<noteq> [] \<and> hd (p_path q) = p_sep q \<longleftrightarrow> p_path p \<noteq> [] \<and> hd (p_path p) = p_sep p"
  proof (cases s)
    case (Cons c t)
    then have "c = slash \<or> c = bslash \<Longrightarrow> p_sep p = c"
      by (auto simp: p_def setSeparatorAbsolute_def path_empty_def)
    then show ?thesis using sep path Cons by (auto simp: q_def flipSlashes_def)
  qed (auto simp: q_def flipSlashes_def path)
  ultimately show "p_absolute q = (p_path q \<noteq> [] \<and> hd (p_path q) = p_sep q)"
    by (simp add: q_def)
qed

lemma no_separator_wf:
  assumes "slash \<notin> set s" "bslash \<notin> set s"
  shows "path_wf (setPathParts (path_empty\<lparr>p_path := s\<rparr>))"
proof -
  have "s \<noteq> [] \<Longrightarrow> hd s \<noteq> slash" "s \<noteq> [] \<Longrightarrow> last s \<noteq> slash"
    using assms by (metis hd_in_set, metis last_in_set)
  then show ?thesis
    using assms unfolding path_wf_def setPathParts_simps
    by (cases "s = []") (auto simp: path_empty_def intro: single_runs_notin)
qed

lemma path_new_wf: "path_wf (path_new s)"
proof (cases "p_certain (setSeparatorAbsolute (path_empty\<lparr>p_path := s\<rparr>))")
  case True
  then show ?thesis
    using cleanPath_wf [OF flipSlashes_separator(1) [OF True] _ flipSlashes_separator(2) [OF True]]
    by (simp add: path_new_def Let_def)
next
  case False
  then have "slash \<notin> set s" "bslash \<notin> set s"
    "setSeparatorAbsolute (path_empty\<lparr>p_path := s\<rparr>) = path_empty\<lparr>p_path := s\<rparr>"
    by (auto simp: setSeparatorAbsolute_def path_empty_def str_find_char_None split: if_splits)
  with False show ?thesis by (simp add: path_new_def Let_def no_separator_wf)
qed

text \<open>
  The normal form without the flag that the separator is certain: two names of unknown separator are
  joined with a slash, and the path is still not certain of it.
\<close>

definition path_nf :: "path \<Rightarrow> bool" where
  "path_nf p \<longleftrightarrow> path_wf (p\<lparr>p_certain := True\<rparr>)"

lemma path_wf_nf: "path_wf p \<Longrightarrow> path_nf p"
  by (simp add: path_nf_def path_wf_def)

text \<open>All separators made the same.\<close>

definition flip_to :: "char \<Rightarrow> string \<Rightarrow> string" where
  "flip_to sep s = map (\<lambda>c. if c = slash \<or> c = bslash then sep else c) s"

lemma flip_to_simps [simp]:
  "flip_to sep (s @ t) = flip_to sep s @ flip_to sep t" "length (flip_to sep s) = length s"
  "flip_to sep [] = []" "flip_to sep s = [] \<longleftrightarrow> s = []"
  "flip_to sep (c # s) = (if c = slash \<or> c = bslash then sep else c) # flip_to sep s"
  by (simp_all add: flip_to_def)

lemma flip_to_path:
  "p_sep p = slash \<or> p_sep p = bslash \<Longrightarrow> p_path (flipSlashes p) = flip_to (p_sep p) (p_path p)"
  by (auto simp: flipSlashes_def flip_to_def replace_all_def)

text \<open>The normal form read off the text alone: what a byte is does not depend on the separator.\<close>

definition is_sep :: "char \<Rightarrow> bool" where
  "is_sep c \<longleftrightarrow> c = slash \<or> c = bslash"

definition single_seps :: "string \<Rightarrow> bool" where
  "single_seps = successively (\<lambda>c d. \<not> (is_sep c \<and> is_sep d))"

definition text_nf :: "string \<Rightarrow> bool" where
  "text_nf s \<longleftrightarrow> single_seps s \<and> (1 < length s \<longrightarrow> \<not> is_sep (last s))"

lemma flip_to_same: "flip_to sep s = s \<longleftrightarrow> (\<forall>c\<in>set s. is_sep c \<longrightarrow> c = sep)"
  by (induction s) (auto simp: is_sep_def)

lemma is_sep_flip: "is_sep sep \<Longrightarrow> flip_to sep s = map (\<lambda>c. if is_sep c then sep else c) s"
  by (simp add: flip_to_def is_sep_def)

lemma path_nf_iff:
  "path_nf p \<longleftrightarrow> is_sep (p_sep p) \<and> flip_to (p_sep p) (p_path p) = p_path p \<and> text_nf (p_path p)
     \<and> p_absolute p = (p_path p \<noteq> [] \<and> is_sep (hd (p_path p))) \<and> p_unix p = replace_all bslash slash (p_path p)"
proof (cases "is_sep (p_sep p) \<and> flip_to (p_sep p) (p_path p) = p_path p")
  case True
  let ?s = "p_path p"
  have one: "p_sep p = slash \<and> bslash \<notin> set ?s \<or> p_sep p = bslash \<and> slash \<notin> set ?s"
    using True by (auto simp: is_sep_def flip_to_same)
  then have sep: "is_sep c \<longleftrightarrow> c = p_sep p" if "c \<in> set ?s" for c using that by (auto simp: is_sep_def)
  have "single_runs (p_sep p) ?s \<longleftrightarrow> single_seps ?s"
    by (simp add: single_seps_def single_runs_iff successively_conv_nth sep)
  moreover have "1 < length ?s \<Longrightarrow> last ?s = p_sep p \<longleftrightarrow> is_sep (last ?s)"
    using sep [of "last ?s"] by (cases ?s) auto
  moreover have "?s \<noteq> [] \<Longrightarrow> hd ?s = p_sep p \<longleftrightarrow> is_sep (hd ?s)"
    using sep [of "hd ?s"] by simp
  ultimately show ?thesis using True one by (auto simp: path_nf_def path_wf_def text_nf_def)
next
  case False
  then show ?thesis by (auto simp: path_nf_def path_wf_def is_sep_def flip_to_same)
qed

lemma is_sep_flipped: "is_sep sep \<Longrightarrow> is_sep (if is_sep c then sep else c) = is_sep c"
  by simp

lemma text_nf_flip: "is_sep sep \<Longrightarrow> text_nf (flip_to sep s) = text_nf s"
  by (simp add: text_nf_def single_seps_def is_sep_flip successively_map is_sep_flipped last_map) (cases s; simp add: last_map is_sep_flipped)

lemma path_concat_path:
  assumes "is_sep (p_sep a)" "is_sep (p_sep b)"
  defines "sep \<equiv> if p_certain a then p_sep a else p_sep b"
  shows "p_path (path_concat a b) = flip_to sep (p_path a
      @ (if \<not> p_absolute b \<and> 1 < length (p_path a) \<and> p_path b \<noteq> [] then [sep] else []) @ p_path b)"
    and "p_sep (path_concat a b) = sep"
    and "p_absolute (path_concat a b) = (if p_path a \<noteq> [] then p_absolute a else p_absolute b)"
    and "p_unix (path_concat a b) = replace_all bslash slash (p_path (path_concat a b))"
proof -
  have sep: "sep = slash \<or> sep = bslash" using assms by (auto simp: is_sep_def)
  show p: "p_path (path_concat a b) = flip_to sep (p_path a
      @ (if \<not> p_absolute b \<and> 1 < length (p_path a) \<and> p_path b \<noteq> [] then [sep] else []) @ p_path b)"
    using sep unfolding path_concat_def Let_def sep_def [symmetric] by (subst setPathParts_simps, subst flip_to_path) simp_all
  show "p_sep (path_concat a b) = sep"
    "p_absolute (path_concat a b) = (if p_path a \<noteq> [] then p_absolute a else p_absolute b)"
    by (simp_all add: path_concat_def Let_def sep_def)
  have "bslash \<notin> set (flip_to slash s)" for s by (auto simp: flip_to_def)
  then show "p_unix (path_concat a b) = replace_all bslash slash (p_path (path_concat a b))"
    using sep p by (auto simp: path_concat_def Let_def sep_def)
qed

lemma text_nf_append:
  assumes "u \<noteq> []" "v \<noteq> []"
  shows "text_nf (u @ v) \<longleftrightarrow> single_seps u \<and> single_seps v \<and> \<not> (is_sep (last u) \<and> is_sep (hd v)) \<and> \<not> is_sep (last v)"
proof -
  have "1 < length (u @ v)" using assms by (cases u; cases v) auto
  then show ?thesis using assms by (auto simp: text_nf_def single_seps_def successively_append_iff)
qed

lemma single_seps_Cons: "v \<noteq> [] \<Longrightarrow> single_seps (c # v) \<longleftrightarrow> \<not> (is_sep c \<and> is_sep (hd v)) \<and> single_seps v"
  by (cases v) (auto simp: single_seps_def)

lemma last_single: "length u = 1 \<Longrightarrow> last u = hd u"
  by (cases u) auto



subsection \<open>Appending, subtracting and cutting\<close>

lemma wf_unix_no_bslash: "path_wf p \<Longrightarrow> bslash \<notin> set (p_unix p)"
  by (auto simp: path_wf_def replace_all_notin)

lemma replace_all_flip: "replace_all bslash slash (replace_all slash bslash s) = replace_all bslash slash s"
  by (simp add: replace_all_def)

lemma path_concat_unix:
  assumes "path_wf a" "path_wf b" "p_absolute a" "\<not> p_absolute b" "p_path b \<noteq> []"
  shows "p_unix (path_concat a b)
      = p_unix a @ (if 1 < length (p_unix a) then [slash] else []) @ p_unix b"
    and "p_absolute (path_concat a b)" and "p_sep (path_concat a b) = p_sep a"
    and "p_certain (path_concat a b)"
proof -
  have c: "p_certain a" "p_path a \<noteq> []" "p_sep a = slash \<or> p_sep a = bslash"
    using assms(1,3) by (auto simp: path_wf_def split: if_splits dest: hd_in_set)
  have u: "p_unix a = replace_all bslash slash (p_path a)" "p_unix b = replace_all bslash slash (p_path b)"
    using assms(1,2) by (auto simp: path_wf_def)
  show "p_unix (path_concat a b)
      = p_unix a @ (if 1 < length (p_unix a) then [slash] else []) @ p_unix b"
    using c(3) by (elim disjE)
      (simp_all add: path_concat_def Let_def c u flipSlashes_def replace_all_flip assms)
  show "p_absolute (path_concat a b)" "p_sep (path_concat a b) = p_sep a"
    "p_certain (path_concat a b)"
    using c assms by (simp_all add: path_concat_def Let_def)
qed

lemma wf_relative_first: "path_wf b \<Longrightarrow> \<not> p_absolute b \<Longrightarrow> p_unix b \<noteq> [] \<Longrightarrow> hd (p_unix b) \<noteq> slash"
  by (cases "p_path b") (auto simp: path_wf_def split: if_splits)

lemma wf_absolute_root: "path_wf a \<Longrightarrow> p_absolute a \<Longrightarrow> length (p_unix a) \<le> 1 \<Longrightarrow> p_unix a = [slash]"
  by (cases "p_path a") (auto simp: path_wf_def split: if_splits)

lemma wf_path_unix_empty: "path_wf p \<Longrightarrow> p_unix p = [] \<longleftrightarrow> p_path p = []"
  by (auto simp: path_wf_def replace_all_def)

text \<open>C18. Subtracting is the inverse of appending: for a normalised absolute path \<open>a\<close> (the root
  included) and a normalised relative path \<open>b\<close> that is not empty, \<open>(a / b) - a\<close> is \<open>b\<close>.\<close>

theorem path_append_subtract:
  assumes "path_wf a" "path_wf b" "p_absolute a" "\<not> p_absolute b" "p_path b \<noteq> []"
  shows "path_eq (path_minus (path_concat a b) a) b"
proof (cases "1 < length (p_unix a)")
  case True
  then show ?thesis
    using assms path_concat_unix [OF assms] wf_unix_no_bslash [OF assms(2)]
    by (simp add: path_eq_def path_minus_def Let_def path_raw_unix)
next
  case False
  have b: "hd (p_unix b) \<noteq> slash" "p_unix b \<noteq> []"
    using assms wf_relative_first wf_path_unix_empty by blast+
  from False have "p_unix a = [slash]" using assms wf_absolute_root by simp
  with b show ?thesis
    using assms path_concat_unix [OF assms] wf_unix_no_bslash [OF assms(2)]
    by (cases "p_unix b") (simp_all add: path_eq_def path_minus_def Let_def path_raw_unix)
qed

theorem path_append_subtract_witness:
  "path_eq (path_minus (path_concat (path_new ''/mp3'') (path_new ''day//0101/'')) (path_new ''/mp3''))
     (path_new ''day//0101/'')"
  by (rule path_append_subtract) (code_simp)+

lemma str_rfind_last_slash:
  assumes "slash \<notin> set n" "n \<noteq> []"
  shows "str_rfind (u @ slash # n) [slash] (length (u @ slash # n)) = Some (length u)"
  by (rule str_rfind_last [OF assms(1)])

text \<open>C20. Cutting one level is the inverse of appending one name: \<open>(a / name).cutLevels(1)\<close> has the
  text of \<open>a\<close>.  It is absolute exactly when the separator is a slash: the cut text is the one
  with slashes, and the constructor compares its first byte with the separator, so the parent of
  an absolute path with backslashes is taken for a relative one.\<close>

theorem path_append_cut:
  assumes "path_wf a" "path_wf b" "p_absolute a" "\<not> p_absolute b" "p_path b \<noteq> []"
    and "slash \<notin> set (p_unix b)"
  shows "path_eq (path_cutLevels 1 (path_concat a b)) a
    \<and> (p_absolute (path_cutLevels 1 (path_concat a b)) \<longleftrightarrow> p_sep a = slash)"
proof -
  let ?c = "path_concat a b"
  have b: "p_unix b \<noteq> []" using assms wf_path_unix_empty by blast
  have "\<exists>u. p_unix ?c = u @ slash # p_unix b \<and> p_unix a = take (max 1 (length u)) (u @ [slash])"
  proof (cases "1 < length (p_unix a)")
    case True
    then show ?thesis
      using path_concat_unix [OF assms(1-5)] by (intro exI [of _ "p_unix a"]) auto
  next
    case False
    then show ?thesis
      using path_concat_unix [OF assms(1-5)] wf_absolute_root [OF assms(1,3)]
      by (intro exI [of _ "[]"]) auto
  qed
  then obtain u where u: "p_unix ?c = u @ slash # p_unix b"
    "p_unix a = take (max 1 (length u)) (u @ [slash])"
    by blast
  have "cut_back_loop (p_unix ?c) 1 (int (length (p_unix ?c))) 0 = Some (p_unix a)"
    unfolding u(1) cut_back_loop.simps [of _ _ _ 0] nat_int str_rfind_last_slash [OF assms(6) b]
    by (cases u) (simp_all add: u(2))
  then have "path_cutLevels 1 ?c = path_raw (p_unix a) (p_sep a) True"
    using path_concat_unix [OF assms(1-5)] by (simp add: path_cutLevels_def Let_def)
  moreover have "p_unix a \<noteq> []" "p_unix a ! 0 = slash"
    using assms(1,3) by (cases "p_path a"; auto simp: path_wf_def)+
  ultimately show ?thesis
    using wf_unix_no_bslash [OF assms(1)] assms(1)
    by (auto simp: path_eq_def path_raw_unix) (auto simp: path_raw_def)
qed


theorem path_append_cut_witness:
  "path_eq (path_cutLevels 1 (path_concat (path_new ''/'') (path_new ''day'')))  (path_new ''/'')
   \<and> \<not> p_absolute (path_cutLevels 1 (path_concat (path_new [bslash, CHR ''a'']) (path_new ''day'')))"
proof -
  have "path_eq (path_cutLevels 1 (path_concat (path_new ''/'') (path_new ''day''))) (path_new ''/'')"
    by (rule path_append_cut [THEN conjunct1]) (code_simp)+
  moreover have "\<not> p_absolute (path_cutLevels 1 (path_concat (path_new [bslash, CHR ''a'']) (path_new ''day'')))"
    by code_simp
  ultimately show ?thesis by blast
qed

text \<open>Appending to a base of one byte drops the separator: the constructor of two paths takes every
  text of length one for the root, so a relative directory with a name of one byte and a file in
  it run together, and two different pairs of paths give the same path.\<close>

theorem path_append_single_byte_base:
  "p_path (path_concat (path_new ''a'') (path_new ''b'')) = ''ab''
   \<and> path_eq (path_concat (path_new ''a'') (path_new ''b'')) (path_new ''ab'')
   \<and> p_path (path_concat (path_new ''aa'') (path_new ''b'')) = ''aa/b''"
  by code_simp

subsection \<open>Components\<close>

text \<open>The components of a path by recursion on its bytes, the reference for \<open>split\<close>.\<close>

fun comps :: "string \<Rightarrow> string list" where
  "comps [] = [[]]"
| "comps (c # s) = (if c = slash then [] # comps s else (c # hd (comps s)) # tl (comps s))"

lemma comps_nonempty [simp]: "comps s \<noteq> []"
  by (cases s) auto

lemma comps_no_slash: "slash \<notin> set s \<Longrightarrow> comps s = [s]"
  by (induction s) auto

lemma comps_append: "slash \<notin> set s \<Longrightarrow> comps (s @ slash # t) = s # comps t"
  by (induction s) auto

lemma str_find_char_Some:
  assumes "str_find u [c] n = Some k"
  shows "drop n u = substr u n (k - n) @ c # drop (Suc k) u" "c \<notin> set (substr u n (k - n))"
proof -
  have k: "n \<le> k" "k < length u" "u ! k = c" "\<And>j. n \<le> j \<Longrightarrow> j < k \<Longrightarrow> u ! j \<noteq> c"
    using assms by (auto simp: str_find_Some is_prefix_at_char)
  have "drop n u = take (k - n) (drop n u) @ drop (k - n) (drop n u)"
    by (rule append_take_drop_id [symmetric])
  also have "drop (k - n) (drop n u) = c # drop (Suc k) u"
    using k Cons_nth_drop_Suc [of k u] by simp
  finally show "drop n u = substr u n (k - n) @ c # drop (Suc k) u" by (simp add: substr_def)
  show "c \<notin> set (substr u n (k - n))"
    using k by (auto simp: substr_def in_set_conv_nth)
qed

lemma str_find_char_None_from: "str_find u [c] n = None \<longleftrightarrow> c \<notin> set (drop n u)"
proof -
  have "(\<exists>j. n \<le> j \<and> j < length u \<and> u ! j = c) \<longleftrightarrow> (\<exists>i. i < length u - n \<and> u ! (n + i) = c)"
    (is "?l = ?r")
  proof
    assume ?l
    then obtain j where "n \<le> j" "j < length u" "u ! j = c" by blast
    then show ?r by (intro exI [of _ "j - n"]) auto
  next
    assume ?r
    then obtain i where "i < length u - n" "u ! (n + i) = c" by blast
    then show ?l by (intro exI [of _ "n + i"]) auto
  qed
  also have "\<dots> \<longleftrightarrow> c \<in> set (drop n u)"
    by (cases "n \<le> length u") (auto simp: in_set_conv_nth)
  finally show ?thesis by (auto simp: str_find_None is_prefix_at_char)
qed

lemma path_split_loop_comps: "path_split_loop u n = comps (drop n u)"
proof (induction u n rule: path_split_loop.induct)
  case (1 u n)
  show ?case
  proof (cases "str_find u [slash] n")
    case None
    then have "slash \<notin> set (drop n u)" by (simp add: str_find_char_None_from)
    with None show ?thesis by (subst path_split_loop.simps) (simp add: comps_no_slash)
  next
    case (Some k)
    then show ?thesis
      using 1 [OF Some] str_find_char_Some [OF Some]
      by (subst path_split_loop.simps) (simp add: comps_append)
  qed
qed

lemma comps_prefix:
  "take (length (comps v)) (comps u) = comps v \<longleftrightarrow>
     length v \<le> length u \<and> take (length v) u = v \<and> (length u = length v \<or> u ! length v = slash)"
proof (induction v arbitrary: u)
  case Nil
  then show ?case by (cases u) auto
next
  case (Cons c v)
  show ?case
  proof (cases u)
    case Nil
    then show ?thesis by (cases "comps v") auto
  next
    case (Cons d u')
    obtain x xs where x: "comps v = x # xs" by (cases "comps v") auto
    obtain y ys where y: "comps u' = y # ys" by (cases "comps u'") auto
    show ?thesis
      using Cons.IH [of u'] by (cases "c = slash"; cases "d = slash") (auto simp: Cons x y)
  qed
qed

text \<open>C19. \<open>contains\<close> is decided on texts, but it is the containment of directories: one path contains
  another exactly when the components of the second are the first components of the first.\<close>

theorem path_contains_components:
  "path_contains p q \<longleftrightarrow> take (length (path_split q)) (path_split p) = path_split q"
  by (simp add: path_contains_def path_split_def path_split_loop_comps comps_prefix)

lemma comps_levels: "levels_loop u n k + 1 = k + length (comps (drop n u))"
proof (induction u n k rule: levels_loop.induct)
  case (1 u n k)
  show ?case
  proof (cases "str_find u [slash] n")
    case None
    then have "slash \<notin> set (drop n u)" by (simp add: str_find_char_None_from)
    with None show ?thesis by (subst levels_loop.simps) (simp add: comps_no_slash)
  next
    case (Some m)
    then show ?thesis
      using 1 [OF Some] str_find_char_Some [OF Some]
      by (subst levels_loop.simps) (simp add: comps_append)
  qed
qed

fun path_join :: "string list \<Rightarrow> string" where
  "path_join [] = []"
| "path_join [x] = x"
| "path_join (x # y # xs) = x @ slash # path_join (y # xs)"

lemma path_join_comps: "path_join (comps s) = s"
proof (induction s)
  case (Cons c s)
  then show ?case
    by (cases "comps s"; cases "tl (comps s)") auto
qed simp

lemma comps_parts: "x \<in> set (comps s) \<Longrightarrow> slash \<notin> set x"
proof (induction s arbitrary: x)
  case (Cons c s)
  have "set (tl (comps s)) \<subseteq> set (comps s)" "hd (comps s) \<in> set (comps s)"
    by (auto dest: list.set_sel(2) [rotated])
  with Cons show ?case by (auto split: if_splits)
qed simp

text \<open>C22. \<open>split\<close> and \<open>levels\<close> agree: joined with slashes the components are the text again, none of
  them holds a slash, and an absolute path has one component more than levels.\<close>

theorem path_split_levels:
  "path_join (path_split p) = p_unix p
   \<and> list_all (\<lambda>x. slash \<notin> set x) (path_split p)
   \<and> length (path_split p) = path_levels p + (if p_absolute p then 1 else 0)"
  using comps_levels [of "p_unix p" 0 0] comps_levels [of "p_unix p" 0 1]
  by (auto simp: path_split_def path_split_loop_comps path_join_comps list_all_iff path_levels_def
    dest: comps_parts)

end
