(* ===== verification/ConnState.thy ===== *)
theory ConnState
  imports CppString
begin

text \<open>
  The state of one connection of a site: \<open>src/connstatetracker.cpp\<close> and
  \<open>src/delayedcommand.cpp\<close>.  A connection is locked for a file transfer, then given the transfer,
  then released; it may list a directory, have a request, wait with a delayed command, or be
  quitting.  Objects the tracker only points to (transfer monitors, file lists, command owners,
  site races) are numbers, the null pointer is \<^term>\<open>None\<close>.  An operation whose \<open>assert\<close> fails is
  \<^term>\<open>None\<close>: the program stops there.
\<close>

subsection \<open>Delayed commands\<close>

record delayed =
  dc_command :: string
  dc_triggertime :: u64
  dc_co :: "nat option"
  dc_active :: bool
  dc_released :: bool
  dc_persisting :: bool

definition dc_set :: "string \<Rightarrow> u64 \<Rightarrow> nat option \<Rightarrow> bool \<Rightarrow> delayed \<Rightarrow> delayed" where
  "dc_set command triggertime co persisting d =
     d\<lparr>dc_command := command, dc_triggertime := triggertime, dc_co := co,
       dc_persisting := persisting, dc_active := True, dc_released := False\<rparr>"

definition dc_currentTime :: "u64 \<Rightarrow> delayed \<Rightarrow> delayed" where
  "dc_currentTime time d =
     (if dc_active d \<and> \<not> dc_released d \<and> dc_triggertime d \<le> time then d\<lparr>dc_released := True\<rparr> else d)"

definition dc_reset :: "delayed \<Rightarrow> delayed" where
  "dc_reset d = d\<lparr>dc_active := False, dc_released := False\<rparr>"

definition dc_weakReset :: "delayed \<Rightarrow> delayed" where
  "dc_weakReset d = (if \<not> dc_persisting d then dc_reset d else d)"

text \<open>The owner is held weakly: it is the null pointer once the owner is gone.\<close>

definition dc_getCommandOwner :: "(nat \<Rightarrow> bool) \<Rightarrow> delayed \<Rightarrow> nat option" where
  "dc_getCommandOwner alive d =
     (case dc_co d of None \<Rightarrow> None | Some c \<Rightarrow> if alive c then Some c else None)"

subsection \<open>The tracker\<close>

datatype transfer_type = DOWNLOAD | UPLOAD | LIST

record 'r conn =
  cs_time :: u64
  cs_idletime :: u32
  cs_lastcheckedcount :: u32
  cs_lastchecked :: "nat option"
  cs_delayed :: delayed
  cs_transfer :: bool
  cs_initialized :: bool
  cs_tm :: "nat option"
  cs_fl :: "nat option"
  cs_file :: string
  cs_type :: transfer_type
  cs_passive :: bool
  cs_ssl :: bool
  cs_sslclient :: bool
  cs_ipv6 :: bool
  cs_aborted :: bool
  cs_transferlocked :: bool
  cs_loggedin :: bool
  cs_fxp :: bool
  cs_listtransfer :: bool
  cs_listpassive :: bool
  cs_listssl :: bool
  cs_listipv6 :: bool
  cs_listinitialized :: bool
  cs_quitting :: bool
  cs_handling :: bool
  cs_listhost :: string
  cs_listport :: int
  cs_listtm :: "nat option"
  cs_co :: "nat option"
  cs_host :: string
  cs_port :: int
  cs_request :: "'r option"
  cs_refreshtoken :: bool
  cs_lastrefreshpath :: string

text \<open>The constructor leaves the members it does not name uninitialised: they are those of \<open>u\<close>.\<close>

definition conn_new :: "'r conn \<Rightarrow> 'r conn" where
  "conn_new u = u\<lparr>cs_time := 0, cs_idletime := 0, cs_lastcheckedcount := 0, cs_lastchecked := None,
     cs_delayed := (cs_delayed u)\<lparr>dc_command := [], dc_co := None, dc_active := False,
       dc_released := False, dc_persisting := False\<rparr>,
     cs_transfer := False, cs_initialized := False, cs_tm := None, cs_fl := None, cs_file := [],
     cs_aborted := False, cs_transferlocked := False, cs_loggedin := False, cs_fxp := False,
     cs_listtransfer := False, cs_listinitialized := False, cs_quitting := False,
     cs_handling := False, cs_listhost := [], cs_co := None, cs_host := [], cs_request := None,
     cs_refreshtoken := False, cs_lastrefreshpath := []\<rparr>"

definition cs_delayedCommand :: "string \<Rightarrow> u32 \<Rightarrow> bool \<Rightarrow> nat option \<Rightarrow> 'r conn \<Rightarrow> 'r conn" where
  "cs_delayedCommand command delay persisting co s =
     s\<lparr>cs_delayed := dc_set command (cs_time s + scast delay) co persisting (cs_delayed s)\<rparr>"

definition cs_timePassed :: "u32 \<Rightarrow> 'r conn \<Rightarrow> 'r conn" where
  "cs_timePassed t s =
     (let s' = s\<lparr>cs_time := cs_time s + scast t, cs_idletime := cs_idletime s + t\<rparr>
      in if dc_active (cs_delayed s') then s'\<lparr>cs_delayed := dc_currentTime (cs_time s') (cs_delayed s')\<rparr>
         else s')"

definition cs_check :: "'r conn \<Rightarrow> 'r conn" where
  "cs_check s = s\<lparr>cs_lastcheckedcount := cs_lastcheckedcount s + 1\<rparr>"

definition cs_setLastChecked :: "nat option \<Rightarrow> 'r conn \<Rightarrow> 'r conn" where
  "cs_setLastChecked sr s =
     (if cs_lastchecked s \<noteq> sr then s\<lparr>cs_lastchecked := sr, cs_lastcheckedcount := 0\<rparr> else s)"

definition cs_resetLastChecked :: "'r conn \<Rightarrow> 'r conn" where
  "cs_resetLastChecked s = s\<lparr>cs_lastchecked := None, cs_lastcheckedcount := 0\<rparr>"

definition cs_purgeSiteRace :: "(nat \<Rightarrow> bool) \<Rightarrow> nat option \<Rightarrow> 'r conn \<Rightarrow> 'r conn" where
  "cs_purgeSiteRace alive sr s =
     (let s' = (if cs_lastchecked s = sr then s\<lparr>cs_lastchecked := None, cs_lastcheckedcount := 0\<rparr> else s)
      in if dc_active (cs_delayed s') \<and> dc_getCommandOwner alive (cs_delayed s') = sr
         then s'\<lparr>cs_delayed := dc_set ''handle'' 0 None False (cs_delayed s')\<rparr> else s')"

definition cs_setDisconnected :: "'r conn \<Rightarrow> 'r conn option" where
  "cs_setDisconnected s =
     (if cs_transferlocked s \<or> cs_listtransfer s \<or> cs_transfer s \<or> cs_request s \<noteq> None then None
      else Some (s\<lparr>cs_loggedin := False, cs_quitting := False,
        cs_delayed := dc_weakReset (cs_delayed s), cs_idletime := 0\<rparr>))"

definition cs_use :: "'r conn \<Rightarrow> 'r conn option" where
  "cs_use s =
     (if cs_transferlocked s then None
      else Some (s\<lparr>cs_delayed := dc_reset (cs_delayed s), cs_idletime := 0\<rparr>))"

definition cs_resetIdleTime :: "'r conn \<Rightarrow> 'r conn" where
  "cs_resetIdleTime s = s\<lparr>cs_delayed := dc_reset (cs_delayed s), cs_idletime := 0\<rparr>"

definition cs_setTransfer ::
  "string \<Rightarrow> bool \<Rightarrow> bool \<Rightarrow> bool \<Rightarrow> string \<Rightarrow> int \<Rightarrow> bool \<Rightarrow> bool \<Rightarrow> 'r conn \<Rightarrow> 'r conn option" where
  "cs_setTransfer file fxp ipv6 passive host port ssl sslclient s =
     (if \<not> cs_transferlocked s \<or> cs_transfer s \<or> fxp \<and> cs_request s \<noteq> None \<or> cs_tm s = None then None
      else Some (s\<lparr>cs_transfer := True, cs_initialized := False, cs_file := file, cs_fxp := fxp,
        cs_passive := passive, cs_host := host, cs_port := port, cs_ssl := ssl,
        cs_sslclient := sslclient, cs_ipv6 := ipv6\<rparr>))"

definition cs_setTransferPassive ::
  "string \<Rightarrow> bool \<Rightarrow> bool \<Rightarrow> bool \<Rightarrow> bool \<Rightarrow> 'r conn \<Rightarrow> 'r conn option" where
  "cs_setTransferPassive file fxp ipv6 ssl sslclient =
     cs_setTransfer file fxp ipv6 True [] 0 ssl sslclient"

definition cs_setTransferActive ::
  "string \<Rightarrow> bool \<Rightarrow> bool \<Rightarrow> string \<Rightarrow> int \<Rightarrow> bool \<Rightarrow> bool \<Rightarrow> 'r conn \<Rightarrow> 'r conn option" where
  "cs_setTransferActive file fxp ipv6 host port ssl sslclient =
     cs_setTransfer file fxp ipv6 False host port ssl sslclient"

definition cs_setList ::
  "nat option \<Rightarrow> bool \<Rightarrow> bool \<Rightarrow> string \<Rightarrow> int \<Rightarrow> bool \<Rightarrow> 'r conn \<Rightarrow> 'r conn option" where
  "cs_setList tm ipv6 listpassive host port ssl s =
     (if cs_transferlocked s \<or> cs_listtransfer s \<or> cs_transfer s then None
      else case cs_use s of None \<Rightarrow> None | Some s' \<Rightarrow>
        Some (s'\<lparr>cs_listtransfer := True, cs_listinitialized := False, cs_listtm := tm,
          cs_listpassive := listpassive, cs_listhost := host, cs_listport := port,
          cs_listssl := ssl, cs_listipv6 := ipv6\<rparr>))"

definition cs_finishFileTransfer :: "'r conn \<Rightarrow> 'r conn" where
  "cs_finishFileTransfer s =
     s\<lparr>cs_transfer := False, cs_transferlocked := False, cs_tm := None, cs_co := None\<rparr>"

definition cs_finishTransfer :: "'r conn \<Rightarrow> 'r conn" where
  "cs_finishTransfer s =
     (if cs_listtransfer s then s\<lparr>cs_listtransfer := False, cs_listtm := None\<rparr>
      else cs_finishFileTransfer s)"

definition cs_abortTransfer :: "'r conn \<Rightarrow> 'r conn" where
  "cs_abortTransfer s = s\<lparr>cs_aborted := True\<rparr>"

definition cs_lockForTransfer ::
  "nat option \<Rightarrow> nat option \<Rightarrow> nat option \<Rightarrow> bool \<Rightarrow> 'r conn \<Rightarrow> 'r conn option" where
  "cs_lockForTransfer tm fl co download s =
     (if cs_transferlocked s \<or> cs_transfer s \<or> \<not> download \<and> cs_request s \<noteq> None then None
      else case cs_use s of None \<Rightarrow> None | Some s' \<Rightarrow>
        Some (s'\<lparr>cs_tm := tm, cs_fl := fl, cs_co := co, cs_aborted := False,
          cs_transferlocked := True, cs_type := (if download then DOWNLOAD else UPLOAD)\<rparr>))"

definition cs_setRequest :: "'r \<Rightarrow> 'r conn \<Rightarrow> 'r conn option" where
  "cs_setRequest r s = (if cs_request s \<noteq> None then None else Some (s\<lparr>cs_request := Some r\<rparr>))"

definition cs_finishRequest :: "'r conn \<Rightarrow> 'r conn" where
  "cs_finishRequest s = s\<lparr>cs_request := None\<rparr>"

definition cs_initializeTransfer :: "'r conn \<Rightarrow> 'r conn" where
  "cs_initializeTransfer s =
     (if cs_listtransfer s then s\<lparr>cs_listinitialized := True\<rparr> else s\<lparr>cs_initialized := True\<rparr>)"

definition cs_useRefreshTokenFor :: "string \<Rightarrow> 'r conn \<Rightarrow> 'r conn" where
  "cs_useRefreshTokenFor path s = s\<lparr>cs_refreshtoken := False, cs_lastrefreshpath := path\<rparr>"

subsection \<open>Queries\<close>

definition cs_hasTransfer :: "'r conn \<Rightarrow> bool" where
  "cs_hasTransfer s \<longleftrightarrow> cs_listtransfer s \<or> cs_transfer s"

definition cs_isListOrTransferLocked :: "'r conn \<Rightarrow> bool" where
  "cs_isListOrTransferLocked s \<longleftrightarrow> cs_listtransfer s \<or> cs_transferlocked s"

definition cs_isLocked :: "'r conn \<Rightarrow> bool" where
  "cs_isLocked s \<longleftrightarrow> cs_isListOrTransferLocked s \<or> cs_request s \<noteq> None \<or> cs_quitting s"

definition cs_isHardLocked :: "'r conn \<Rightarrow> bool" where
  "cs_isHardLocked s \<longleftrightarrow> cs_transferlocked s \<or> cs_request s \<noteq> None \<or> cs_quitting s"

definition cs_transferInitialized :: "'r conn \<Rightarrow> bool" where
  "cs_transferInitialized s =
     (if cs_listtransfer s then cs_listinitialized s else cs_transfer s \<and> cs_initialized s)"

definition cs_getTransferMonitor :: "'r conn \<Rightarrow> nat option" where
  "cs_getTransferMonitor s =
     (if cs_listtransfer s then cs_listtm s else if cs_transferlocked s then cs_tm s else None)"

definition cs_getTransferType :: "'r conn \<Rightarrow> transfer_type" where
  "cs_getTransferType s = (if cs_listtransfer s then LIST else cs_type s)"

definition cs_getTransferPassive :: "'r conn \<Rightarrow> bool" where
  "cs_getTransferPassive s = (if cs_listtransfer s then cs_listpassive s else cs_passive s)"

definition cs_getTransferFXP :: "'r conn \<Rightarrow> bool" where
  "cs_getTransferFXP s = (if cs_listtransfer s then False else cs_fxp s)"

definition cs_getTransferHost :: "'r conn \<Rightarrow> string" where
  "cs_getTransferHost s = (if cs_listtransfer s then cs_listhost s else cs_host s)"

definition cs_getTransferPort :: "'r conn \<Rightarrow> int" where
  "cs_getTransferPort s = (if cs_listtransfer s then cs_listport s else cs_port s)"

definition cs_getTransferSSL :: "'r conn \<Rightarrow> bool" where
  "cs_getTransferSSL s = (if cs_listtransfer s then cs_listssl s else cs_ssl s)"

definition cs_getTransferIPv6 :: "'r conn \<Rightarrow> bool" where
  "cs_getTransferIPv6 s = (if cs_listtransfer s then cs_listipv6 s else cs_ipv6 s)"

definition cs_getTransferSSLClient :: "'r conn \<Rightarrow> bool" where
  "cs_getTransferSSLClient s = (if cs_listtransfer s then False else cs_sslclient s)"

subsection \<open>Histories\<close>

text \<open>Every operation that changes the tracker, and a history of them from the constructor.\<close>

datatype 'r conn_op =
  OpDelayed string u32 bool "nat option"
| OpTime u32
| OpCheck
| OpLastChecked "nat option"
| OpResetChecked
| OpPurge "nat option"
| OpDisconnected
| OpUse
| OpResetIdle
| OpTransferPassive string bool bool bool bool
| OpTransferActive string bool bool string int bool bool
| OpList "nat option" bool bool string int bool
| OpLoggedIn
| OpFinish
| OpFinishFile
| OpAbort
| OpLock "nat option" "nat option" "nat option" bool
| OpRequest 'r
| OpFinishRequest
| OpInitialize
| OpQuit
| OpRefreshToken
| OpUseRefresh string
| OpHandling bool

fun conn_step :: "(nat \<Rightarrow> bool) \<Rightarrow> 'r conn_op \<Rightarrow> 'r conn \<Rightarrow> 'r conn option" where
  "conn_step al (OpDelayed c d p co) s = Some (cs_delayedCommand c d p co s)"
| "conn_step al (OpTime t) s = Some (cs_timePassed t s)"
| "conn_step al OpCheck s = Some (cs_check s)"
| "conn_step al (OpLastChecked sr) s = Some (cs_setLastChecked sr s)"
| "conn_step al OpResetChecked s = Some (cs_resetLastChecked s)"
| "conn_step al (OpPurge sr) s = Some (cs_purgeSiteRace al sr s)"
| "conn_step al OpDisconnected s = cs_setDisconnected s"
| "conn_step al OpUse s = cs_use s"
| "conn_step al OpResetIdle s = Some (cs_resetIdleTime s)"
| "conn_step al (OpTransferPassive f x i l c) s = cs_setTransferPassive f x i l c s"
| "conn_step al (OpTransferActive f x i h p l c) s = cs_setTransferActive f x i h p l c s"
| "conn_step al (OpList tm i ps h p l) s = cs_setList tm i ps h p l s"
| "conn_step al OpLoggedIn s = Some (s\<lparr>cs_loggedin := True\<rparr>)"
| "conn_step al OpFinish s = Some (cs_finishTransfer s)"
| "conn_step al OpFinishFile s = Some (cs_finishFileTransfer s)"
| "conn_step al OpAbort s = Some (cs_abortTransfer s)"
| "conn_step al (OpLock tm fl co d) s = cs_lockForTransfer tm fl co d s"
| "conn_step al (OpRequest r) s = cs_setRequest r s"
| "conn_step al OpFinishRequest s = Some (cs_finishRequest s)"
| "conn_step al OpInitialize s = Some (cs_initializeTransfer s)"
| "conn_step al OpQuit s = Some (s\<lparr>cs_quitting := True\<rparr>)"
| "conn_step al OpRefreshToken s = Some (s\<lparr>cs_refreshtoken := True\<rparr>)"
| "conn_step al (OpUseRefresh p) s = Some (cs_useRefreshTokenFor p s)"
| "conn_step al (OpHandling b) s = Some (s\<lparr>cs_handling := b\<rparr>)"

fun conn_run :: "(nat \<Rightarrow> bool) \<Rightarrow> 'r conn_op list \<Rightarrow> 'r conn \<Rightarrow> 'r conn option" where
  "conn_run al [] s = Some s"
| "conn_run al (x # xs) s = (case conn_step al x s of None \<Rightarrow> None | Some s' \<Rightarrow> conn_run al xs s')"

definition conn_inv :: "'r conn \<Rightarrow> bool" where
  "conn_inv s \<longleftrightarrow>
     (cs_transfer s \<longrightarrow> cs_transferlocked s \<and> cs_tm s \<noteq> None)
     \<and> (\<not> cs_transferlocked s \<longrightarrow> cs_tm s = None \<and> cs_co s = None)
     \<and> (dc_released (cs_delayed s) \<longrightarrow> dc_active (cs_delayed s))"

lemmas conn_op_defs = cs_delayedCommand_def cs_timePassed_def cs_check_def cs_setLastChecked_def
  cs_resetLastChecked_def cs_purgeSiteRace_def cs_setDisconnected_def cs_use_def cs_resetIdleTime_def
  cs_setTransferPassive_def cs_setTransferActive_def cs_setTransfer_def cs_setList_def
  cs_finishTransfer_def cs_finishFileTransfer_def cs_abortTransfer_def cs_lockForTransfer_def
  cs_setRequest_def cs_finishRequest_def cs_initializeTransfer_def cs_useRefreshTokenFor_def
  dc_set_def dc_currentTime_def dc_reset_def dc_weakReset_def

subsection \<open>The life cycle of a connection\<close>

text \<open>
  What the rest of the program may rely on: the file transfer of a connection is idle, locked (with
  a monitor or without), or running; beside it there is a list transfer, a request, and the
  logged-in and quitting flags.  The delays, names, ports and counters are gone.
\<close>

datatype phase = Idle | Locked bool | Running bool

record 'r life =
  lf_phase :: phase
  lf_list :: "bool option"
  lf_request :: "'r option"
  lf_loggedin :: bool
  lf_quitting :: bool

definition life_start :: "'r life" where
  "life_start = \<lparr>lf_phase = Idle, lf_list = None, lf_request = None, lf_loggedin = False,
     lf_quitting = False\<rparr>"

definition life_of :: "'r conn \<Rightarrow> 'r life" where
  "life_of s =
     \<lparr>lf_phase = (if \<not> cs_transferlocked s then Idle else if cs_transfer s then Running (cs_initialized s)
        else Locked (cs_tm s \<noteq> None)),
      lf_list = (if cs_listtransfer s then Some (cs_listinitialized s) else None),
      lf_request = cs_request s, lf_loggedin = cs_loggedin s, lf_quitting = cs_quitting s\<rparr>"

fun phase_initialize :: "phase \<Rightarrow> phase" where
  "phase_initialize (Running b) = Running True"
| "phase_initialize p = p"

definition life_transfer :: "bool \<Rightarrow> 'r life \<Rightarrow> 'r life option" where
  "life_transfer fxp l =
     (if lf_phase l = Locked True \<and> (fxp \<longrightarrow> lf_request l = None)
      then Some (l\<lparr>lf_phase := Running False\<rparr>) else None)"

fun life_step :: "'r conn_op \<Rightarrow> 'r life \<Rightarrow> 'r life option" where
  "life_step OpDisconnected l =
     (if lf_phase l = Idle \<and> lf_list l = None \<and> lf_request l = None
      then Some (l\<lparr>lf_loggedin := False, lf_quitting := False\<rparr>) else None)"
| "life_step OpUse l = (if lf_phase l = Idle then Some l else None)"
| "life_step (OpTransferPassive f x i s c) l = life_transfer x l"
| "life_step (OpTransferActive f x i h p s c) l = life_transfer x l"
| "life_step (OpList tm i ps h p s) l =
     (if lf_phase l = Idle \<and> lf_list l = None then Some (l\<lparr>lf_list := Some False\<rparr>) else None)"
| "life_step OpLoggedIn l = Some (l\<lparr>lf_loggedin := True\<rparr>)"
| "life_step OpFinish l =
     Some (if lf_list l \<noteq> None then l\<lparr>lf_list := None\<rparr> else l\<lparr>lf_phase := Idle\<rparr>)"
| "life_step OpFinishFile l = Some (l\<lparr>lf_phase := Idle\<rparr>)"
| "life_step (OpLock tm fl co d) l =
     (if lf_phase l = Idle \<and> (d \<or> lf_request l = None)
      then Some (l\<lparr>lf_phase := Locked (tm \<noteq> None)\<rparr>) else None)"
| "life_step (OpRequest r) l = (if lf_request l = None then Some (l\<lparr>lf_request := Some r\<rparr>) else None)"
| "life_step OpFinishRequest l = Some (l\<lparr>lf_request := None\<rparr>)"
| "life_step OpInitialize l =
     Some (if lf_list l \<noteq> None then l\<lparr>lf_list := Some True\<rparr>
           else l\<lparr>lf_phase := phase_initialize (lf_phase l)\<rparr>)"
| "life_step OpQuit l = Some (l\<lparr>lf_quitting := True\<rparr>)"
| "life_step _ l = Some l"

fun life_run :: "'r conn_op list \<Rightarrow> 'r life \<Rightarrow> 'r life option" where
  "life_run [] l = Some l"
| "life_run (x # xs) l = (case life_step x l of None \<Rightarrow> None | Some l' \<Rightarrow> life_run xs l')"

lemma conn_step_inv:
  "conn_inv s \<Longrightarrow> case conn_step al x s of None \<Rightarrow> True | Some s' \<Rightarrow> conn_inv s'"
  by (cases x; simp add: conn_inv_def conn_op_defs Let_def; (auto)?)

lemma conn_step_life: "conn_inv s \<Longrightarrow> map_option life_of (conn_step al x s) = life_step x (life_of s)"
  by (cases x; simp add: conn_inv_def conn_op_defs Let_def life_of_def life_transfer_def; (auto)?)

lemma conn_new_inv: "conn_inv (conn_new u)"
  by (simp add: conn_inv_def conn_new_def)

lemma conn_new_life: "life_of (conn_new u) = life_start"
  by (simp add: life_of_def conn_new_def life_start_def)

lemma conn_run_inv: "conn_run al xs s = Some s' \<Longrightarrow> conn_inv s \<Longrightarrow> conn_inv s'"
proof (induction xs arbitrary: s)
  case (Cons x xs)
  then show ?case using conn_step_inv [OF Cons.prems(2), of al x] by (auto split: option.splits)
qed simp

lemma conn_run_life: "conn_inv s \<Longrightarrow> map_option life_of (conn_run al xs s) = life_run xs (life_of s)"
proof (induction xs arbitrary: s)
  case (Cons x xs)
  then show ?case
    using conn_step_life [OF Cons.prems, of al x, symmetric] conn_step_inv [OF Cons.prems, of al x]
    by (auto split: option.splits)
qed simp

text \<open>C11. The tracker implements the life cycle: a history of operations passes every assertion of the
  code exactly when the life cycle machine accepts it, and the states correspond throughout,
  whatever the uninitialised members held.\<close>

theorem conn_refines_life:
  "map_option life_of (conn_run al xs (conn_new u)) = life_run xs life_start"
  by (simp add: conn_run_life conn_new_inv conn_new_life)

text \<open>C12. In every history that does not stop at an assertion, a running transfer holds the lock and a
  monitor, an unlocked connection has neither monitor nor command owner, and only an active
  delayed command is released.\<close>

theorem conn_history_inv:
  assumes "conn_run al xs (conn_new u) = Some s"
  shows "conn_inv s"
  using assms conn_run_inv conn_new_inv by blast

theorem conn_history_inv_witness:
  "conn_inv (the (conn_run (\<lambda>_. True)
     [OpLock (Some 1) (Some 2) None True, OpTransferPassive ''f'' False False True False, OpInitialize]
     (conn_new (undefined :: nat conn))))"
  by (rule conn_history_inv [of "\<lambda>_. True"
        "[OpLock (Some 1) (Some 2) None True, OpTransferPassive ''f'' False False True False, OpInitialize]" undefined])
     (simp add: conn_op_defs conn_new_def)

subsection \<open>The delay of a command\<close>

lemma unat_scast_nonneg:
  assumes "unat (x :: u32) < 2 ^ 31"
  shows "unat (scast x :: u64) = unat x"
proof -
  have u: "uint x = int (unat x)" by (rule uint_nat)
  have "uint x < 2 ^ 31" unfolding u using assms by (simp only: of_nat_less_numeral_power_cancel_iff)
  moreover have "- (2 ^ 31) \<le> uint x" using uint_ge_0 [of x] by (rule order_trans [rotated]) simp
  ultimately have "sint x = int (unat x)"
    unfolding sint_uint u [symmetric] by (intro signed_take_bit_int_eq_self) simp_all
  then have "(scast x :: u64) = of_int (int (unat x))" by (metis scast_eq)
  then have e: "(scast x :: u64) = of_nat (unat x)" by (simp only: of_int_of_nat_eq)
  have "unat x < 2 ^ LENGTH(64)" using assms by (rule order_less_trans) simp
  then show ?thesis unfolding e unat_of_nat by (rule mod_less)
qed

lemma unat_add_time:
  assumes "unat (t :: u64) + unat (x :: u32) < 2 ^ 64" "unat x < 2 ^ 31"
  shows "unat (t + scast x) = unat t + unat x"
  using assms unat_scast_nonneg [OF assms(2)] by (subst unat_add_lem [THEN iffD1]) auto

lemma timePassed_waiting:
  assumes "dc_active (cs_delayed s)" "list_all (\<lambda>t. unat t < 2 ^ 31) ts"
    and "unat (cs_time s) + sum_list (map unat ts) < 2 ^ 64"
    and "dc_released (cs_delayed s) \<longrightarrow> dc_triggertime (cs_delayed s) \<le> cs_time s"
  defines "s' \<equiv> fold cs_timePassed ts s"
  shows "dc_active (cs_delayed s') \<and> dc_command (cs_delayed s') = dc_command (cs_delayed s)
    \<and> (dc_released (cs_delayed s') \<longleftrightarrow> dc_released (cs_delayed s) \<or> ts \<noteq> []
         \<and> unat (dc_triggertime (cs_delayed s)) \<le> unat (cs_time s) + sum_list (map unat ts))"
  using assms(1-4) unfolding s'_def
proof (induction ts arbitrary: s)
  case (Cons t ts)
  let ?s = "cs_timePassed t s"
  have time: "unat (cs_time s + scast t) = unat (cs_time s) + unat t"
    using Cons.prems by (intro unat_add_time) auto
  have s: "cs_time ?s = cs_time s + scast t" "dc_active (cs_delayed ?s)"
    "dc_command (cs_delayed ?s) = dc_command (cs_delayed s)"
    "dc_triggertime (cs_delayed ?s) = dc_triggertime (cs_delayed s)"
    "dc_released (cs_delayed ?s) \<longleftrightarrow>
       dc_released (cs_delayed s) \<or> dc_triggertime (cs_delayed s) \<le> cs_time s + scast t"
    using Cons.prems(1) by (auto simp: cs_timePassed_def Let_def dc_currentTime_def)
  have "dc_released (cs_delayed ?s) \<longrightarrow> dc_triggertime (cs_delayed ?s) \<le> cs_time ?s"
    using Cons.prems(4) s time by (auto simp: word_le_nat_alt)
  then show ?case
    using Cons.IH [of ?s] Cons.prems s time by (auto simp: word_le_nat_alt)
qed simp

text \<open>C15. A delayed command fires when its delay has passed: after \<open>delayedCommand\<close> and any number of
  \<open>timePassed\<close> ticks, as long as the 64-bit clock does not wrap, the command is still there, and it
  is released exactly when there was a tick and the ticks add up to the delay.\<close>

theorem delayed_command_release:
  assumes "unat delay < 2 ^ 31" "list_all (\<lambda>t. unat t < 2 ^ 31) ts"
    and "unat (cs_time s) + unat delay + sum_list (map unat ts) < 2 ^ 64"
  shows "let d = cs_delayed (fold cs_timePassed ts (cs_delayedCommand command delay persisting co s))
    in dc_active d \<and> dc_command d = command
      \<and> (dc_released d \<longleftrightarrow> ts \<noteq> [] \<and> unat delay \<le> sum_list (map unat ts))"
proof -
  let ?s = "cs_delayedCommand command delay persisting co s"
  have "unat (cs_time s + scast delay) = unat (cs_time s) + unat delay"
    using assms(1,3) by (intro unat_add_time) auto
  then show ?thesis
    using timePassed_waiting [of ?s ts] assms(2,3)
    by (auto simp: Let_def cs_delayedCommand_def dc_set_def)
qed

theorem delayed_command_release_witness:
  "dc_released (cs_delayed (fold cs_timePassed [50, 50, 50]
     (cs_delayedCommand ''handle'' 150 False None (conn_new (undefined :: nat conn)))))"
  using delayed_command_release [of 150 "[50, 50, 50]" "conn_new (undefined :: nat conn)" "''handle''" False None]
  by (simp add: conn_new_def Let_def)

end
