(* ===== verification/RingLog.thy ===== *)
theory RingLog
  imports Prelude
begin

text \<open>
  The ring of the raw buffers (\<open>src/rawbuffer.cpp\<close>): a vector that grows to a maximal length and is
  overwritten round and round from then on, with the index of the next slot.  What a ring stands
  for is the list of its entries from the oldest to the newest, and the interface \<open>bounded_log\<close>
  states what its operations do to that list.
\<close>

subsection \<open>The interface\<close>

definition lastn :: "nat \<Rightarrow> 'a list \<Rightarrow> 'a list" where
  "lastn n xs = drop (length xs - n) xs"

lemma lastn_append_lastn: "lastn n (lastn n xs @ ys) = lastn n (xs @ ys)"
  by (cases "length xs \<le> n"; cases "length ys \<le> n") (auto simp: lastn_def add.commute)

lemma lastn_Nil [simp]: "lastn n [] = []"
  by (simp add: lastn_def)

lemma length_lastn [simp]: "length (lastn n xs) = min n (length xs)"
  by (simp add: lastn_def)

lemma lastn_id: "length xs \<le> n \<Longrightarrow> lastn n xs = xs"
  by (simp add: lastn_def)

lemma lastn_snoc: "0 < n \<Longrightarrow> lastn n (xs @ [x]) = lastn (n - 1) xs @ [x]"
  by (cases n) (auto simp: lastn_def)

lemma lastn_eq_Nil: "0 < n \<Longrightarrow> lastn n xs = [] \<longleftrightarrow> xs = []"
  by (cases xs) (auto simp: lastn_def)

lemma last_lastn: "0 < n \<Longrightarrow> xs \<noteq> [] \<Longrightarrow> last (lastn n xs) = last xs"
  by (simp add: lastn_def)

locale bounded_log =
  fixes cap :: nat
    and ok :: "'s \<Rightarrow> bool"
    and view :: "'s \<Rightarrow> 'e list"
    and put :: "'e \<Rightarrow> 's \<Rightarrow> 's"
    and edit :: "('e \<Rightarrow> 'e) \<Rightarrow> 's \<Rightarrow> 's"
  assumes put_ok: "ok s \<Longrightarrow> ok (put e s)"
    and put_view: "ok s \<Longrightarrow> view (put e s) = lastn cap (view s @ [e])"
    and edit_ok: "ok s \<Longrightarrow> view s \<noteq> [] \<Longrightarrow> ok (edit f s)"
    and edit_view: "ok s \<Longrightarrow> view s \<noteq> [] \<Longrightarrow> view (edit f s) = butlast (view s) @ [f (last (view s))]"
    and cap_pos: "ok s \<Longrightarrow> 0 < cap"
begin

lemma put_all_ok: "ok s \<Longrightarrow> ok (fold put es s)"
  by (induction es arbitrary: s) (auto intro: put_ok)

lemma put_all_view: "ok s \<Longrightarrow> view s = lastn cap xs \<Longrightarrow> view (fold put es s) = lastn cap (xs @ es)"
proof (induction es arbitrary: s xs)
  case (Cons e es)
  have "view (put e s) = lastn cap (xs @ [e])"
    using Cons.prems by (simp add: put_view lastn_append_lastn)
  then show ?case using Cons.IH [of "put e s" "xs @ [e]"] Cons.prems(1) put_ok by simp
qed simp

lemma put_repr: "ok s \<Longrightarrow> view s = lastn cap xs \<Longrightarrow> view (put e s) = lastn cap (xs @ [e])"
  by (simp add: put_view lastn_append_lastn)

lemma edit_repr:
  assumes "ok s" "view s = lastn cap xs" "xs \<noteq> []"
  shows "view (edit f s) = lastn cap (butlast xs @ [f (last xs)])"
proof -
  from assms(3) obtain ys y where xs: "xs = ys @ [y]" by (metis rev_exhaust)
  then show ?thesis
    using assms edit_view [OF assms(1), of f] by (simp add: lastn_eq_Nil cap_pos [OF assms(1)] lastn_snoc)
qed

end

subsection \<open>The ring\<close>

type_synonym 'e ring = "'e list \<times> nat"

definition ring_put :: "nat \<Rightarrow> 'e \<Rightarrow> 'e ring \<Rightarrow> 'e ring" where
  "ring_put cap e r =
     (if length (fst r) < cap then fst r @ [e] else (fst r)[snd r := e], (snd r + 1) mod cap)"

definition ring_edit :: "nat \<Rightarrow> ('e \<Rightarrow> 'e) \<Rightarrow> 'e ring \<Rightarrow> 'e ring" where
  "ring_edit cap f r =
     (let i = (if 0 < snd r then snd r else cap) - 1 in ((fst r)[i := f (fst r ! i)], snd r))"

text \<open>The entry that is \<open>num\<close> entries old; the index is the one the code computes.\<close>

definition ring_index :: "'e ring \<Rightarrow> nat \<Rightarrow> nat" where
  "ring_index r num = (if num < snd r then snd r - num - 1 else length (fst r) + snd r - num - 1)"

definition ring_get :: "'e ring \<Rightarrow> nat \<Rightarrow> 'e option" where
  "ring_get r num = (if num < length (fst r) then Some (fst r ! ring_index r num) else None)"

definition ring_ok :: "nat \<Rightarrow> 'e ring \<Rightarrow> bool" where
  "ring_ok cap r \<longleftrightarrow> snd r < cap \<and> length (fst r) \<le> cap \<and> (length (fst r) < cap \<longrightarrow> snd r = length (fst r))"

definition ring_view :: "'e ring \<Rightarrow> 'e list" where
  "ring_view r = drop (snd r) (fst r) @ take (snd r) (fst r)"

lemma ring_put_ok: "ring_ok cap r \<Longrightarrow> ring_ok cap (ring_put cap e r)"
  by (auto simp: ring_ok_def ring_put_def mod_Suc)

lemma length_ring_view [simp]: "length (ring_view r) = length (fst r)"
  by (simp add: ring_view_def)

lemma ring_put_view:
  assumes "ring_ok cap r"
  shows "ring_view (ring_put cap e r) = lastn cap (ring_view r @ [e])"
proof (cases "length (fst r) < cap")
  case True
  then have "snd r = length (fst r)" using assms by (simp add: ring_ok_def)
  then show ?thesis
    using True by (cases "Suc (length (fst r)) = cap") (auto simp: ring_put_def ring_view_def lastn_def)
next
  case False
  then have n: "length (fst r) = cap" "snd r < cap" using assms by (auto simp: ring_ok_def)
  then have d: "drop (snd r) (fst r) = fst r ! snd r # drop (Suc (snd r)) (fst r)"
    by (simp add: Cons_nth_drop_Suc)
  have "ring_view (ring_put cap e r) = drop (Suc (snd r)) (fst r) @ take (snd r) (fst r) @ [e]"
  proof (cases "Suc (snd r) = cap")
    case True
    then show ?thesis
      using n by (cases "fst r" rule: rev_cases)
        (auto simp: ring_put_def ring_view_def list_update_append)
  next
    case False
    then show ?thesis
      using n by (simp add: ring_put_def ring_view_def take_Suc_conv_app_nth)
  qed
  then show ?thesis using n d by (simp add: lastn_def ring_view_def)
qed

lemma ring_view_Nil: "ring_view r = [] \<longleftrightarrow> fst r = []"
  by (metis length_0_conv length_ring_view)

lemma ring_edit_ok: "ring_ok cap r \<Longrightarrow> ring_ok cap (ring_edit cap f r)"
  by (simp add: ring_ok_def ring_edit_def Let_def)

lemma ring_edit_view:
  assumes "ring_ok cap r" "ring_view r \<noteq> []"
  shows "ring_view (ring_edit cap f r) = butlast (ring_view r) @ [f (last (ring_view r))]"
proof (cases "snd r")
  case 0
  then have "length (fst r) = cap" "fst r \<noteq> []"
    using assms by (auto simp: ring_ok_def ring_view_Nil)
  with 0 show ?thesis
    by (cases "fst r" rule: rev_cases) (auto simp: ring_edit_def ring_view_def)
next
  case (Suc p)
  then have p: "p < length (fst r)" using assms(1) by (auto simp: ring_ok_def not_less)
  then have t: "take (Suc p) (fst r) = take p (fst r) @ [fst r ! p]" by (rule take_Suc_conv_app_nth)
  have "take (Suc p) ((fst r)[p := f (fst r ! p)]) = take p (fst r) @ [f (fst r ! p)]"
    using p by (simp add: take_Suc_conv_app_nth)
  then show ?thesis using Suc p t by (simp add: ring_edit_def ring_view_def Let_def butlast_append)
qed

lemma ring_get_view:
  assumes "ring_ok cap r" "num < length (fst r)"
  shows "ring_get r num = Some (rev (ring_view r) ! num)"
proof -
  have "snd r \<le> length (fst r)" using assms by (auto simp: ring_ok_def not_less)
  then show ?thesis
    using assms by (auto simp: ring_get_def ring_view_def ring_index_def rev_nth nth_append
      add.commute)
qed

lemma ring_empty_ok [simp]: "ring_ok cap ([], 0) \<longleftrightarrow> 0 < cap"
  by (auto simp: ring_ok_def)

lemma ring_empty_view [simp]: "ring_view ([], p) = []"
  by (simp add: ring_view_def)

lemma ring_ok_pos: "ring_ok cap r \<Longrightarrow> 0 < cap"
  by (auto simp: ring_ok_def)

text \<open>The ring provides the bounded log.\<close>

interpretation ring: bounded_log cap "ring_ok cap" ring_view "ring_put cap" "ring_edit cap" for cap
  by unfold_locales (simp_all add: ring_put_ok ring_put_view ring_edit_ok ring_edit_view ring_ok_pos)

end
