(* ===== verification/RawBufferModel.thy ===== *)
theory RawBufferModel
  imports RingLog CppString Wildcard
begin

text \<open>
  The log of a connection (\<open>src/rawbuffer.cpp\<close>): text arrives in pieces, is cut into lines, and
  the lines go into a ring of limited length; a second ring holds the finished lines that pass the
  filters, and copies of both are frozen for the user interface.  The time stamp of a tag, the regular
  expression match of the standard library and the callback are outside: the stamp and the match
  are arguments, and what the callback and the user interface are told is an output list.
\<close>

subsection \<open>State\<close>

type_synonym log_line = "string \<times> string"

datatype log_event = NewLine log_line | BackendPush

record 'x rawbuffer =
  rb_log :: "log_line ring"
  rb_filtered :: "log_line ring"
  rb_copy :: "log_line ring"
  rb_copyfiltered :: "log_line ring"
  rb_maxlength :: nat
  rb_bookmarklines :: u32
  rb_site :: string
  rb_id :: string
  rb_inprogress :: bool
  rb_uiwatching :: bool
  rb_threads :: bool
  rb_eventlog :: bool
  rb_callback :: bool
  rb_wildcards :: "string list"
  rb_hasregex :: bool
  rb_regex :: 'x
  rb_out :: "log_event list"

definition rb_start :: "nat \<Rightarrow> string \<Rightarrow> string \<Rightarrow> bool \<Rightarrow> bool \<Rightarrow> 'x \<Rightarrow> 'x rawbuffer" where
  "rb_start maxlength site tid threads eventlog re =
     \<lparr>rb_log = ([], 0), rb_filtered = ([], 0), rb_copy = ([], 0), rb_copyfiltered = ([], 0),
      rb_maxlength = maxlength, rb_bookmarklines = 0, rb_site = site, rb_id = tid,
      rb_inprogress = False, rb_uiwatching = False, rb_threads = threads, rb_eventlog = eventlog,
      rb_callback = False, rb_wildcards = [], rb_hasregex = False, rb_regex = re, rb_out = []\<rparr>"

subsection \<open>Filters\<close>

text \<open>The loop over the wildcard filters: negative pass, positive filter found, positive match.\<close>

fun wild_filters :: "string \<Rightarrow> string list \<Rightarrow> bool \<times> bool \<Rightarrow> bool \<times> bool \<times> bool" where
  "wild_filters text [] (found, matched) = (True, found, matched)"
| "wild_filters text (f # fs) (found, matched) =
     (if f \<noteq> [] \<and> hd f = CHR ''!'' then
        if wildcmp (c_str (tl f)) (c_str text) = Some True then (False, found, matched)
        else wild_filters text fs (found, matched)
      else wild_filters text fs
        (True, if wildcmp (c_str f) (c_str text) = Some True then True else matched))"

definition rb_passes :: "('x \<Rightarrow> string \<Rightarrow> bool) \<Rightarrow> 'x rawbuffer \<Rightarrow> log_line \<Rightarrow> bool" where
  "rb_passes regex_match rb line =
     (if rb_wildcards rb \<noteq> [] then
        case wild_filters (snd line) (rb_wildcards rb) (False, False) of
          (negativepass, foundpositive, positivematch) \<Rightarrow>
            \<not> (\<not> negativepass \<or> foundpositive \<and> \<not> positivematch)
      else \<not> (rb_hasregex rb \<and> \<not> regex_match (rb_regex rb) (snd line)))"

definition rb_addFilterLine ::
  "('x \<Rightarrow> string \<Rightarrow> bool) \<Rightarrow> 'x rawbuffer \<Rightarrow> log_line \<Rightarrow> log_line ring \<Rightarrow> log_line ring" where
  "rb_addFilterLine regex_match rb line target =
     (if rb_passes regex_match rb line then ring_put (rb_maxlength rb) line target else target)"

subsection \<open>Writing\<close>

text \<open>A failed assertion (the line of an empty log) and a ring of length 0 are \<^term>\<open>None\<close>.\<close>

definition rb_getLine :: "'x rawbuffer \<Rightarrow> nat \<Rightarrow> log_line option" where
  "rb_getLine rb num = ring_get (rb_log rb) num"

definition rb_lineFinished :: "('x \<Rightarrow> string \<Rightarrow> bool) \<Rightarrow> 'x rawbuffer \<Rightarrow> 'x rawbuffer option" where
  "rb_lineFinished regex_match rb =
     (let rb1 = rb\<lparr>rb_inprogress := False\<rparr>
      in case rb_getLine rb1 0 of
           None \<Rightarrow> None
         | Some line \<Rightarrow>
             let rb2 = rb1\<lparr>rb_filtered := rb_addFilterLine regex_match rb1 line (rb_filtered rb1)\<rparr>
             in Some (if rb_callback rb2 then rb2\<lparr>rb_out := rb_out rb2 @ [NewLine line]\<rparr> else rb2))"

definition rb_addLogText :: "string \<Rightarrow> string \<Rightarrow> 'x rawbuffer \<Rightarrow> 'x rawbuffer option" where
  "rb_addLogText tag text rb =
     (if rb_maxlength rb = 0 then None
      else if rb_inprogress rb then
        Some (rb\<lparr>rb_log := ring_edit (rb_maxlength rb) (\<lambda>(t, x). (t, x @ text)) (rb_log rb)\<rparr>)
      else Some (rb\<lparr>rb_log := ring_put (rb_maxlength rb) (tag, text) (rb_log rb),
        rb_bookmarklines := rb_bookmarklines rb + 1, rb_inprogress := True\<rparr>))"

definition nl :: char where
  "nl = CHR 0x0A"

definition cr :: char where
  "cr = CHR 0x0D"

lemma length_dropWhile_less: "takeWhile P s \<noteq> [] \<Longrightarrow> length (dropWhile P s) < length s"
  by (metis length_append length_greater_0_conv takeWhile_dropWhile_id less_add_same_cancel2)

text \<open>The loop of \<open>write\<close>, on the part of the text from \<open>pos\<close> on.\<close>

function rb_write_loop ::
  "('x \<Rightarrow> string \<Rightarrow> bool) \<Rightarrow> string \<Rightarrow> string \<Rightarrow> 'x rawbuffer \<Rightarrow> 'x rawbuffer option" where
  "rb_write_loop rm tag s rb =
     (if s = [] then Some rb
      else let line = takeWhile (\<lambda>c. c \<noteq> nl) s; rest = dropWhile (\<lambda>c. c \<noteq> nl) s
      in if line = [] then
           case rb_lineFinished rm rb of None \<Rightarrow> None | Some rb' \<Rightarrow> rb_write_loop rm tag (tl s) rb'
         else if rest = [] then rb_addLogText tag s rb
         else case rb_addLogText tag (if last line = cr then butlast line else line) rb of
           None \<Rightarrow> None | Some rb' \<Rightarrow> rb_write_loop rm tag rest rb')"
  by pat_completeness auto
termination
  by (relation "measure (\<lambda>(rm, tag, s, rb). length s)")
     (auto intro: length_dropWhile_less)

declare rb_write_loop.simps [simp del]

definition rb_write ::
  "('x \<Rightarrow> string \<Rightarrow> bool) \<Rightarrow> string \<Rightarrow> string \<Rightarrow> 'x rawbuffer \<Rightarrow> 'x rawbuffer option" where
  "rb_write rm tag s rb =
     (case rb_write_loop rm tag s rb of
        None \<Rightarrow> None
      | Some rb' \<Rightarrow> Some (if rb_uiwatching rb' then rb'\<lparr>rb_out := rb_out rb' @ [BackendPush]\<rparr> else rb'))"

definition rb_writeLine ::
  "('x \<Rightarrow> string \<Rightarrow> bool) \<Rightarrow> string \<Rightarrow> string \<Rightarrow> 'x rawbuffer \<Rightarrow> 'x rawbuffer option" where
  "rb_writeLine rm tag s = rb_write rm tag (s @ [nl])"

definition rb_getTag :: "string \<Rightarrow> 'x rawbuffer \<Rightarrow> string" where
  "rb_getTag stamp rb =
     ''['' @ stamp
       @ (if rb_eventlog rb then [] else '' '' @ rb_site rb @ (if rb_threads rb then '' '' @ rb_id rb else []))
       @ '']''"

definition rb_rename :: "('x \<Rightarrow> string \<Rightarrow> bool) \<Rightarrow> string \<Rightarrow> string \<Rightarrow> 'x rawbuffer \<Rightarrow> 'x rawbuffer option" where
  "rb_rename rm stamp name rb =
     map_option (\<lambda>rb'. rb'\<lparr>rb_site := name\<rparr>)
       (rb_writeLine rm (rb_getTag stamp rb) (''Changing site name to: '' @ name) rb)"

text \<open>The three constructors: a thread of a site, the raw commands of a site, the event log.\<close>

definition rb_new_thread :: "('x \<Rightarrow> string \<Rightarrow> bool) \<Rightarrow> 'x \<Rightarrow> nat \<Rightarrow> string \<Rightarrow> string \<Rightarrow> string \<Rightarrow> 'x rawbuffer option" where
  "rb_new_thread rm re maxlines stamp site tid =
     (let rb = rb_start maxlines site tid True False re
      in rb_writeLine rm (rb_getTag stamp rb)
           (''Log window initialized. Site: '' @ site @ '' Thread id: '' @ tid) rb)"

definition rb_new_raw :: "('x \<Rightarrow> string \<Rightarrow> bool) \<Rightarrow> 'x \<Rightarrow> nat \<Rightarrow> string \<Rightarrow> string \<Rightarrow> 'x rawbuffer option" where
  "rb_new_raw rm re maxlines stamp site =
     (let rb = rb_start maxlines site [] False False re
      in rb_writeLine rm (rb_getTag stamp rb) (''Raw command window initialized. Site: '' @ site) rb)"

definition rb_new_eventlog :: "('x \<Rightarrow> string \<Rightarrow> bool) \<Rightarrow> 'x \<Rightarrow> string \<Rightarrow> 'x rawbuffer option" where
  "rb_new_eventlog rm re stamp =
     (let rb = rb_start 1024 [] [] False True re
      in rb_writeLine rm (rb_getTag stamp rb) ''Event log initialized.'' rb)"

subsection \<open>Copies and filters\<close>

definition rb_isFiltered :: "'x rawbuffer \<Rightarrow> bool" where
  "rb_isFiltered rb \<longleftrightarrow> rb_wildcards rb \<noteq> [] \<or> rb_hasregex rb"

definition rb_getLineCopy :: "'x rawbuffer \<Rightarrow> nat \<Rightarrow> log_line option" where
  "rb_getLineCopy rb num = ring_get (rb_copy rb) num"

definition rb_getFilteredLine :: "'x rawbuffer \<Rightarrow> nat \<Rightarrow> log_line option" where
  "rb_getFilteredLine rb num = ring_get (rb_filtered rb) num"

definition rb_getFilteredLineCopy :: "'x rawbuffer \<Rightarrow> nat \<Rightarrow> log_line option" where
  "rb_getFilteredLineCopy rb num = ring_get (rb_copyfiltered rb) num"

definition rb_freezeCopy :: "'x rawbuffer \<Rightarrow> 'x rawbuffer" where
  "rb_freezeCopy rb =
     (let rb1 = rb\<lparr>rb_copy := (fst (rb_log rb), snd (rb_copy rb))\<rparr>;
          rb2 = (if rb_isFiltered rb1
                 then rb1\<lparr>rb_copyfiltered := (fst (rb_filtered rb1), snd (rb_copyfiltered rb1))\<rparr> else rb1)
      in rb2\<lparr>rb_copy := (fst (rb_copy rb2), snd (rb_log rb2))\<rparr>)"

definition rb_unsetFilters :: "'x rawbuffer \<Rightarrow> 'x rawbuffer" where
  "rb_unsetFilters rb = rb\<lparr>rb_wildcards := [], rb_hasregex := False,
     rb_filtered := ([], snd (rb_filtered rb)), rb_copyfiltered := ([], snd (rb_copyfiltered rb))\<rparr>"

definition rb_clear :: "'x rawbuffer \<Rightarrow> 'x rawbuffer" where
  "rb_clear rb =
     (rb_unsetFilters (rb\<lparr>rb_log := ([], snd (rb_log rb)), rb_copy := ([], snd (rb_copy rb))\<rparr>))
       \<lparr>rb_log := ([], 0), rb_filtered := ([], 0), rb_copy := ([], 0), rb_copyfiltered := ([], 0),
        rb_inprogress := False\<rparr>"

text \<open>\<open>applyFilters(copy)\<close> reads the source from its oldest line to its newest.\<close>

definition rb_refilter :: "('x \<Rightarrow> string \<Rightarrow> bool) \<Rightarrow> 'x rawbuffer \<Rightarrow> log_line ring \<Rightarrow> log_line ring" where
  "rb_refilter rm rb source =
     fold (\<lambda>i target. rb_addFilterLine rm rb (the (ring_get source (length (fst source) - i - 1))) target)
       [0 ..< length (fst source)] ([], 0)"

definition rb_applyFilters :: "('x \<Rightarrow> string \<Rightarrow> bool) \<Rightarrow> 'x rawbuffer \<Rightarrow> 'x rawbuffer" where
  "rb_applyFilters rm rb =
     (let rb1 = rb\<lparr>rb_filtered := rb_refilter rm rb (rb_log rb)\<rparr>
      in rb1\<lparr>rb_copyfiltered := rb_refilter rm rb1 (rb_copy rb1)\<rparr>)"

definition rb_setWildcardFilters :: "('x \<Rightarrow> string \<Rightarrow> bool) \<Rightarrow> string list \<Rightarrow> 'x rawbuffer \<Rightarrow> 'x rawbuffer" where
  "rb_setWildcardFilters rm filters rb =
     rb_applyFilters rm (rb\<lparr>rb_wildcards := filters, rb_hasregex := False\<rparr>)"

definition rb_setRegexFilter :: "('x \<Rightarrow> string \<Rightarrow> bool) \<Rightarrow> 'x \<Rightarrow> 'x rawbuffer \<Rightarrow> 'x rawbuffer" where
  "rb_setRegexFilter rm re rb =
     rb_applyFilters rm (rb\<lparr>rb_regex := re, rb_hasregex := True, rb_wildcards := []\<rparr>)"

subsection \<open>Pieces of text\<close>

definition rb_ok :: "'x rawbuffer \<Rightarrow> bool" where
  "rb_ok rb \<longleftrightarrow> ring_ok (rb_maxlength rb) (rb_log rb) \<and> ring_ok (rb_maxlength rb) (rb_filtered rb)
     \<and> (rb_inprogress rb \<longrightarrow> ring_view (rb_log rb) \<noteq> [])"

lemma rb_ok_max: "rb_ok rb \<Longrightarrow> 0 < rb_maxlength rb"
  by (auto simp: rb_ok_def dest: ring_ok_pos)

lemma rb_addLogText_ok: "rb_addLogText tag text rb = Some rb' \<Longrightarrow> rb_ok rb \<Longrightarrow> rb_ok rb' \<and> rb_inprogress rb'"
  by (auto simp: rb_addLogText_def rb_ok_def ring_put_ok ring_put_view ring_edit_ok ring_edit_view
    lastn_eq_Nil ring_ok_pos split: if_splits)

lemma rb_addFilterLine_ok:
  "ring_ok (rb_maxlength rb) target \<Longrightarrow> ring_ok (rb_maxlength rb) (rb_addFilterLine rm rb line target)"
  by (simp add: rb_addFilterLine_def ring_put_ok)

lemma rb_lineFinished_ok: "rb_lineFinished rm rb = Some rb' \<Longrightarrow> rb_ok rb \<Longrightarrow> rb_ok rb'"
  by (auto simp: rb_lineFinished_def rb_ok_def Let_def rb_addFilterLine_def ring_put_ok
    split: option.splits if_splits)

definition strip_cr :: "string \<Rightarrow> string" where
  "strip_cr line = (if last line = cr then butlast line else line)"

lemma rb_write_loop_Nil [simp]: "rb_write_loop rm tag [] rb = Some rb"
  by (subst rb_write_loop.simps) simp

lemma rb_write_loop_nl:
  "rb_write_loop rm tag (nl # s) rb
    = (case rb_lineFinished rm rb of None \<Rightarrow> None | Some rb' \<Rightarrow> rb_write_loop rm tag s rb')"
  by (subst rb_write_loop.simps) (simp split: option.split)

lemma rb_write_loop_open:
  "nl \<notin> set line \<Longrightarrow> line \<noteq> [] \<Longrightarrow> rb_write_loop rm tag line rb = rb_addLogText tag line rb"
  by (subst rb_write_loop.simps) (auto simp: Let_def takeWhile_eq_Nil_iff)

lemma rb_write_loop_line:
  assumes "nl \<notin> set line" "line \<noteq> []"
  shows "rb_write_loop rm tag (line @ nl # s) rb
    = (case rb_addLogText tag (strip_cr line) rb of None \<Rightarrow> None
       | Some rb' \<Rightarrow> rb_write_loop rm tag (nl # s) rb')"
proof -
  have "takeWhile (\<lambda>c. c \<noteq> nl) (line @ nl # s) = line" "dropWhile (\<lambda>c. c \<noteq> nl) (line @ nl # s) = nl # s"
    using assms by (auto simp: takeWhile_append dropWhile_append)
  with assms(2) show ?thesis
    by (subst rb_write_loop.simps) (simp add: Let_def strip_cr_def)
qed

lemma lines_induct [case_names Empty Feed Rest Line]:
  assumes "P []" and "\<And>s. P s \<Longrightarrow> P (nl # s)"
    and "\<And>line. nl \<notin> set line \<Longrightarrow> line \<noteq> [] \<Longrightarrow> P line"
    and "\<And>line s. nl \<notin> set line \<Longrightarrow> line \<noteq> [] \<Longrightarrow> P (nl # s) \<Longrightarrow> P (line @ nl # s)"
  shows "P s"
proof (induction s rule: length_induct)
  case (1 s)
  show ?case
  proof (cases "nl \<in> set s")
    case False
    then show ?thesis using assms(1,3) by (cases "s = []") auto
  next
    case True
    then obtain line t where s: "s = line @ nl # t" "nl \<notin> set line" by (meson split_list_first)
    show ?thesis
    proof (cases "line = []")
      case True
      then show ?thesis using assms(2) 1 s by simp
    next
      case False
      then have "P (nl # t)" using 1 s by simp
      with assms(4) False s show ?thesis by simp
    qed
  qed
qed

lemma rb_write_loop_ok: "rb_write_loop rm tag s rb = Some rb' \<Longrightarrow> rb_ok rb \<Longrightarrow> rb_ok rb'"
proof (induction s arbitrary: rb rule: lines_induct)
  case (Feed s)
  then show ?case by (auto simp: rb_write_loop_nl split: option.splits dest: rb_lineFinished_ok)
next
  case (Line l s)
  then show ?case
    by (auto simp: rb_write_loop_line split: option.splits dest: rb_addLogText_ok)
qed (auto simp: rb_write_loop_open dest: rb_addLogText_ok)

lemma ring_edit_edit:
  "ring_ok cap r \<Longrightarrow> ring_view r \<noteq> [] \<Longrightarrow> ring_edit cap g (ring_edit cap f r) = ring_edit cap (g \<circ> f) r"
  by (auto simp: ring_edit_def Let_def ring_ok_def ring_view_Nil not_less)

lemma ring_edit_put: "ring_ok cap r \<Longrightarrow> ring_edit cap f (ring_put cap e r) = ring_put cap (f e) r"
  by (auto simp: ring_edit_def ring_put_def Let_def ring_ok_def mod_Suc)

lemma rb_addLogText_append:
  assumes "rb_ok rb"
  shows "rb_addLogText tag (x @ y) rb
    = (case rb_addLogText tag x rb of None \<Rightarrow> None | Some rb' \<Rightarrow> rb_addLogText tag y rb')"
  using assms rb_ok_max [OF assms]
  by (auto simp: rb_addLogText_def rb_ok_def ring_edit_edit ring_edit_put comp_def split_def)


lemma strip_cr_append: "y \<noteq> [] \<Longrightarrow> strip_cr (x @ y) = x @ strip_cr y"
  by (simp add: strip_cr_def butlast_append)

lemma rb_addLogText_empty:
  "rb_ok rb \<Longrightarrow> rb_inprogress rb \<Longrightarrow> rb_addLogText tag [] rb = Some rb"
  using rb_ok_max [of rb]
  by (cases "rb_log rb") (auto simp: rb_addLogText_def ring_edit_def Let_def split_def)

text \<open>A line that was begun by one piece and goes on in the next.\<close>

lemma rb_write_loop_continue:
  assumes "nl \<notin> set line" "line \<noteq> []" "rb_ok rb" "t = [] \<or> hd t \<noteq> nl \<or> last line \<noteq> cr"
  shows "rb_write_loop rm tag (line @ t) rb
    = (case rb_addLogText tag line rb of None \<Rightarrow> None | Some rb' \<Rightarrow> rb_write_loop rm tag t rb')"
proof (cases rule: lines_induct [of "\<lambda>s. t = s \<longrightarrow> ?thesis", THEN mp, OF _ _ _ _ refl])
  case 1
  then show ?case
    using assms by (auto simp: rb_write_loop_open split: option.splits)
next
  case (2 s)
  then show ?case
    using assms by (auto simp: rb_write_loop_line strip_cr_def)
next
  case (3 l)
  have "rb_write_loop rm tag (line @ l) rb = rb_addLogText tag (line @ l) rb"
    using assms 3 by (intro rb_write_loop_open) auto
  then show ?case
    using assms 3 by (auto simp: rb_addLogText_append rb_write_loop_open split: option.splits)
next
  case (4 l s)
  have "rb_write_loop rm tag ((line @ l) @ nl # s) rb
    = (case rb_addLogText tag (strip_cr (line @ l)) rb of None \<Rightarrow> None
       | Some rb' \<Rightarrow> rb_write_loop rm tag (nl # s) rb')"
    using assms 4 by (intro rb_write_loop_line) auto
  then show ?case
    using assms 4
    by (auto simp: strip_cr_append rb_addLogText_append rb_write_loop_line split: option.splits)
qed


lemma rb_write_loop_append:
  assumes "rb_ok rb" "t = [] \<or> hd t \<noteq> nl \<or> s = [] \<or> last s \<noteq> cr"
  shows "rb_write_loop rm tag (s @ t) rb
    = (case rb_write_loop rm tag s rb of None \<Rightarrow> None | Some rb' \<Rightarrow> rb_write_loop rm tag t rb')"
  using assms
proof (induction s arbitrary: rb rule: lines_induct)
  case (Feed s)
  then show ?case
    by (auto simp: rb_write_loop_nl split: option.splits if_splits dest: rb_lineFinished_ok)
next
  case (Rest l)
  then show ?case
    by (auto simp: rb_write_loop_continue rb_write_loop_open split: option.splits)
next
  case (Line l s)
  then show ?case
    by (auto simp: rb_write_loop_line split: option.splits dest: rb_addLogText_ok)
qed simp

text \<open>The log does not depend on how the bytes of a connection are cut into reads: writing two
  pieces one after the other, with the same tag, leaves the same buffer as writing them at once,
  unless the cut is between a carriage return and its line feed.\<close>

theorem rb_write_pieces:
  assumes "rb_ok rb" "\<not> rb_uiwatching rb" "\<not> (s \<noteq> [] \<and> last s = cr \<and> t \<noteq> [] \<and> hd t = nl)"
  shows "rb_write rm tag (s @ t) rb
    = (case rb_write rm tag s rb of None \<Rightarrow> None | Some rb' \<Rightarrow> rb_write rm tag t rb')"
proof -
  have w: "rb_uiwatching rb' = rb_uiwatching rb" if "rb_write_loop rm tag u rb = Some rb'" for u rb' rb
    using that
  proof (induction u arbitrary: rb rule: lines_induct)
    case (Feed s)
    then show ?case
      by (auto simp: rb_write_loop_nl rb_lineFinished_def Let_def split: option.splits if_splits; fastforce)
  next
    case (Line l s)
    then show ?case
      by (auto simp: rb_write_loop_line rb_addLogText_def split: option.splits if_splits; fastforce)
  qed (auto simp: rb_write_loop_open rb_addLogText_def split: if_splits)
  show ?thesis
    using rb_write_loop_append [OF assms(1), of t s rm tag] assms(2,3) w
    by (auto simp: rb_write_def split: option.splits; fastforce)
qed

theorem rb_write_pieces_witness:
  "rb_write (\<lambda>_ _. True) ''t'' (''ab'' @ ''c'') (rb_start 2 [] [] False False ())
    = (case rb_write (\<lambda>_ _. True) ''t'' ''ab'' (rb_start 2 [] [] False False ()) of
         None \<Rightarrow> None | Some rb' \<Rightarrow> rb_write (\<lambda>_ _. True) ''t'' ''c'' rb')"
  by (rule rb_write_pieces) (simp_all add: rb_ok_def rb_start_def cr_def)

subsection \<open>Whole lines\<close>

lemma rb_passes_cong:
  "rb_wildcards rb' = rb_wildcards rb \<Longrightarrow> rb_hasregex rb' = rb_hasregex rb \<Longrightarrow> rb_regex rb' = rb_regex rb
   \<Longrightarrow> rb_passes rm rb' = rb_passes rm rb"
  by (simp add: rb_passes_def fun_eq_iff)

definition same_filters :: "'x rawbuffer \<Rightarrow> 'x rawbuffer \<Rightarrow> bool" where
  "same_filters rb rb' \<longleftrightarrow> rb_wildcards rb' = rb_wildcards rb \<and> rb_hasregex rb' = rb_hasregex rb
     \<and> rb_regex rb' = rb_regex rb \<and> rb_maxlength rb' = rb_maxlength rb"

lemma ring_get_0:
  "ring_ok cap r \<Longrightarrow> ring_view r \<noteq> [] \<Longrightarrow> ring_get r 0 = Some (last (ring_view r))"
  by (simp add: ring_get_view ring_view_Nil hd_rev hd_conv_nth [symmetric])

lemma rb_write_one_line:
  fixes rb :: "'x rawbuffer" and tag :: string
  assumes "rb_ok rb" "\<not> rb_inprogress rb" "nl \<notin> set l" "l \<noteq> []"
  defines "e \<equiv> (tag, strip_cr l)"
  shows "\<exists>rb'. rb_write_loop rm tag (l @ nl # s) rb = rb_write_loop rm tag s rb'
    \<and> rb_ok rb' \<and> \<not> rb_inprogress rb' \<and> same_filters rb rb'
    \<and> rb_log rb' = ring_put (rb_maxlength rb) e (rb_log rb)
    \<and> rb_filtered rb' = (if rb_passes rm rb e then ring_put (rb_maxlength rb) e (rb_filtered rb)
        else rb_filtered rb)"
proof -
  define rb1 where "rb1 = rb\<lparr>rb_log := ring_put (rb_maxlength rb) e (rb_log rb),
    rb_bookmarklines := rb_bookmarklines rb + 1, rb_inprogress := True\<rparr>"
  have a: "rb_addLogText tag (strip_cr l) rb = Some rb1"
    using assms(2) rb_ok_max [OF assms(1)] by (simp add: rb_addLogText_def rb1_def e_def)
  then have ok: "rb_ok rb1" using rb_addLogText_ok assms(1) by blast
  have "ring_get (rb_log rb1) 0 = Some e"
    using assms(1) rb_ok_max [OF assms(1)] ok
    by (subst ring_get_0 [of "rb_maxlength rb"])
       (auto simp: rb1_def rb_ok_def ring_put_ok ring_put_view lastn_eq_Nil last_lastn)
  then obtain rb2 where "rb_lineFinished rm rb1 = Some rb2" and rb2: "\<not> rb_inprogress rb2"
    "same_filters rb rb2" "rb_log rb2 = rb_log rb1"
    "rb_filtered rb2 = (if rb_passes rm rb e then ring_put (rb_maxlength rb) e (rb_filtered rb)
        else rb_filtered rb)"
    using rb_passes_cong [of "rb1\<lparr>rb_inprogress := False\<rparr>" rb rm]
    by (auto simp: rb_lineFinished_def Let_def rb_getLine_def rb1_def rb_addFilterLine_def
      same_filters_def split: if_splits)
  with rb_lineFinished_ok [OF _ ok] a assms(3,4) show ?thesis
    by (intro exI [of _ rb2]) (auto simp: rb_write_loop_line rb_write_loop_nl rb1_def)
qed

definition text_lines :: "string list \<Rightarrow> string" where
  "text_lines ls = concat (map (\<lambda>l. l @ [nl]) ls)"

lemma rb_write_loop_lines:
  fixes rb :: "'x rawbuffer" and tag :: string
  assumes "rb_ok rb" "\<not> rb_inprogress rb" "list_all (\<lambda>l. l \<noteq> [] \<and> nl \<notin> set l) ls"
  defines "es \<equiv> map (\<lambda>l. (tag, strip_cr l)) ls"
  shows "\<exists>rb'. rb_write_loop rm tag (text_lines ls) rb = Some rb' \<and> rb_ok rb' \<and> \<not> rb_inprogress rb'
    \<and> same_filters rb rb' \<and> rb_log rb' = fold (ring_put (rb_maxlength rb)) es (rb_log rb)
    \<and> rb_filtered rb' = fold (ring_put (rb_maxlength rb)) (filter (rb_passes rm rb) es) (rb_filtered rb)"
  using assms(1-3) unfolding es_def
proof (induction ls arbitrary: rb)
  case Nil
  then show ?case by (simp add: text_lines_def same_filters_def)
next
  case (Cons l ls)
  have l: "nl \<notin> set l" "l \<noteq> []" using Cons.prems(3) by simp_all
  let ?e = "(tag, strip_cr l)"
  obtain rb1 where rb1: "rb_write_loop rm tag (l @ nl # text_lines ls) rb = rb_write_loop rm tag (text_lines ls) rb1"
    "rb_ok rb1" "\<not> rb_inprogress rb1" "same_filters rb rb1"
    "rb_log rb1 = ring_put (rb_maxlength rb) ?e (rb_log rb)"
    "rb_filtered rb1 = (if rb_passes rm rb ?e then ring_put (rb_maxlength rb) ?e (rb_filtered rb)
        else rb_filtered rb)"
    using rb_write_one_line [OF Cons.prems(1,2) l, of rm tag "text_lines ls"] by blast
  have p: "rb_passes rm rb1 = rb_passes rm rb"
    using rb1(4) by (intro rb_passes_cong) (simp_all add: same_filters_def)
  obtain rb2 where "rb_write_loop rm tag (text_lines ls) rb1 = Some rb2" "rb_ok rb2"
    "\<not> rb_inprogress rb2" "same_filters rb1 rb2"
    "rb_log rb2 = fold (ring_put (rb_maxlength rb1)) (map (\<lambda>l. (tag, strip_cr l)) ls) (rb_log rb1)"
    "rb_filtered rb2 = fold (ring_put (rb_maxlength rb1))
       (filter (rb_passes rm rb1) (map (\<lambda>l. (tag, strip_cr l)) ls)) (rb_filtered rb1)"
    using Cons.IH [of rb1] rb1(2,3) Cons.prems(3) by auto
  then show ?case
    using rb1 p by (intro exI [of _ rb2]) (auto simp: text_lines_def same_filters_def)
qed

text \<open>C22. Whole lines go into the log: for lines that are not empty, \<open>write\<close> returns, the log then
  holds the last \<open>maxlength\<close> of what it held and the new lines (tagged, a carriage return at the
  end cut off), and the filtered log the last \<open>maxlength\<close> of what it held and the new lines
  that pass the filters, in order.\<close>

theorem rb_write_lines:
  assumes "rb_ok rb" "\<not> rb_inprogress rb" "list_all (\<lambda>l. l \<noteq> [] \<and> nl \<notin> set l) ls"
  shows "\<exists>rb'. rb_write rm tag (text_lines ls) rb = Some rb' \<and> rb_ok rb' \<and> \<not> rb_inprogress rb'
    \<and> ring_view (rb_log rb') = lastn (rb_maxlength rb)
        (ring_view (rb_log rb) @ map (\<lambda>l. (tag, strip_cr l)) ls)
    \<and> ring_view (rb_filtered rb') = lastn (rb_maxlength rb)
        (ring_view (rb_filtered rb) @ filter (rb_passes rm rb) (map (\<lambda>l. (tag, strip_cr l)) ls))"
proof -
  have ok: "ring_ok (rb_maxlength rb) (rb_log rb)" "ring_ok (rb_maxlength rb) (rb_filtered rb)"
    using assms(1) by (simp_all add: rb_ok_def)
  have v: "ring_view r = lastn (rb_maxlength rb) (ring_view r)" if "ring_ok (rb_maxlength rb) r" for r :: "log_line ring"
    using that by (simp add: ring_ok_def lastn_id)
  obtain rb' where rb': "rb_write_loop rm tag (text_lines ls) rb = Some rb'" "rb_ok rb'" "\<not> rb_inprogress rb'"
    "rb_log rb' = fold (ring_put (rb_maxlength rb)) (map (\<lambda>l. (tag, strip_cr l)) ls) (rb_log rb)"
    "rb_filtered rb' = fold (ring_put (rb_maxlength rb))
       (filter (rb_passes rm rb) (map (\<lambda>l. (tag, strip_cr l)) ls)) (rb_filtered rb)"
    using rb_write_loop_lines [OF assms, of rm tag] by blast
  show ?thesis
    using rb' ring.put_all_view [OF ok(1) v [OF ok(1)]] ring.put_all_view [OF ok(2) v [OF ok(2)]]
    by (auto simp: rb_write_def rb_ok_def)
qed

theorem rb_write_lines_witness:
  "\<exists>rb'. rb_write (\<lambda>_ _. True) ''t'' (text_lines [''a'', ''b'', ''c'' @ [cr]]) (rb_start 2 [] [] False False ()) = Some rb'
    \<and> ring_view (rb_log rb') = [(''t'', ''b''), (''t'', ''c'')]"
  using rb_write_lines [of "rb_start 2 [] [] False False ()" "[''a'', ''b'', ''c'' @ [cr]]" "\<lambda>_ _. True" "''t''"]
  by (auto simp: rb_ok_def rb_start_def nl_def cr_def strip_cr_def lastn_def)

subsection \<open>What the filters select\<close>

definition is_negative :: "string \<Rightarrow> bool" where
  "is_negative f \<longleftrightarrow> f \<noteq> [] \<and> hd f = CHR ''!''"

text \<open>A line passes wildcard filters when no negative one matches it and, if there are positive
  ones, one of them does.\<close>

definition wild_select :: "string list \<Rightarrow> string \<Rightarrow> bool" where
  "wild_select fs text \<longleftrightarrow>
     list_all (\<lambda>f. \<not> (is_negative f \<and> glob eq_nocase (c_str (tl f)) (c_str text))) fs
     \<and> (list_all is_negative fs
        \<or> list_ex (\<lambda>f. \<not> is_negative f \<and> glob eq_nocase (c_str f) (c_str text)) fs)"

lemma wild_filters_select:
  "(case wild_filters text fs (found, matched) of (n, p, m) \<Rightarrow> \<not> (\<not> n \<or> p \<and> \<not> m))
   \<longleftrightarrow> list_all (\<lambda>f. \<not> (is_negative f \<and> glob eq_nocase (c_str (tl f)) (c_str text))) fs
     \<and> (\<not> found \<and> list_all is_negative fs \<or> matched
        \<or> list_ex (\<lambda>f. \<not> is_negative f \<and> glob eq_nocase (c_str f) (c_str text)) fs)"
  by (induction fs arbitrary: found matched) (auto simp: is_negative_def wildcmp_decides)

lemma fold_addFilterLine:
  "fold (\<lambda>i. rb_addFilterLine rm rb (g i)) is t
    = fold (ring_put (rb_maxlength rb)) (filter (rb_passes rm rb) (map g is)) t"
  by (induction "is" arbitrary: t) (auto simp: rb_addFilterLine_def)

lemma rb_refilter_view:
  assumes "ring_ok (rb_maxlength rb) r"
  shows "ring_view (rb_refilter rm rb r) = lastn (rb_maxlength rb) (filter (rb_passes rm rb) (ring_view r))"
proof -
  let ?n = "length (fst r)"
  have "the (ring_get r (?n - i - 1)) = ring_view r ! i" if "i < ?n" for i
    using that ring_get_view [OF assms, of "?n - i - 1"] by (simp add: rev_nth)
  then have "map (\<lambda>i. the (ring_get r (?n - i - 1))) [0 ..< ?n] = ring_view r"
    by (intro nth_equalityI) auto
  then have "rb_refilter rm rb r
      = fold (ring_put (rb_maxlength rb)) (filter (rb_passes rm rb) (ring_view r)) ([], 0)"
    unfolding rb_refilter_def fold_addFilterLine by (rule arg_cong)
  then show ?thesis
    using ring.put_all_view [of "rb_maxlength rb" "([], 0)" "[]"] ring_ok_pos [OF assms] by simp
qed

text \<open>Setting wildcard filters selects the right lines: afterwards the filtered log shows exactly the
  lines of the log that no negative filter matches and, where there are positive filters, one of
  them matches, in the order of the log; and the filtered copy shows the same of the copy.\<close>

theorem rb_setWildcardFilters_selects:
  assumes "ring_ok (rb_maxlength rb) (rb_log rb)" "ring_ok (rb_maxlength rb) (rb_copy rb)" "fs \<noteq> []"
  shows "ring_view (rb_filtered (rb_setWildcardFilters rm fs rb))
      = filter (\<lambda>l. wild_select fs (snd l)) (ring_view (rb_log rb))
    \<and> ring_view (rb_copyfiltered (rb_setWildcardFilters rm fs rb))
      = filter (\<lambda>l. wild_select fs (snd l)) (ring_view (rb_copy rb))"
proof -
  let ?rb = "rb\<lparr>rb_wildcards := fs, rb_hasregex := False\<rparr>"
  have p: "rb_passes rm rb' = (\<lambda>l. wild_select fs (snd l))" if "rb_wildcards rb' = fs" for rb'
    using assms(3) that wild_filters_select [of _ fs False False]
    by (simp add: rb_passes_def wild_select_def fun_eq_iff)
  have l: "lastn (rb_maxlength rb) (filter P (ring_view r)) = filter P (ring_view r)"
    if "ring_ok (rb_maxlength rb) r" for P and r :: "log_line ring"
    using that length_filter_le [of P "ring_view r"] by (intro lastn_id) (simp add: ring_ok_def)
  show ?thesis
    using assms(1,2) rb_refilter_view [of ?rb] rb_refilter_view [of "?rb\<lparr>rb_filtered := _\<rparr>"]
    by (simp add: rb_setWildcardFilters_def rb_applyFilters_def Let_def p l)
qed

theorem rb_setWildcardFilters_selects_witness:
  "ring_view (rb_filtered (rb_setWildcardFilters (\<lambda>_ _. True) [''!ax'', ''a?'']
     ((rb_start 9 [] [] False False ())\<lparr>rb_log := ([(''t'', ''ax''), (''t'', ''AB'')], 2)\<rparr>)))
   = [(''t'', ''AB'')]"
proof -
  let ?rb = "(rb_start 9 [] [] False False ())\<lparr>rb_log := ([(''t'', ''ax''), (''t'', ''AB'')], 2)\<rparr>"
  have "ring_ok 9 ([(''t'', ''ax''), (''t'', ''AB'')], 2)" by (simp add: ring_ok_def)
  then have "ring_view (rb_filtered (rb_setWildcardFilters (\<lambda>_ _. True) [''!ax'', ''a?''] ?rb))
      = filter (\<lambda>l. wild_select [''!ax'', ''a?''] (snd l)) (ring_view (rb_log ?rb))"
    using rb_setWildcardFilters_selects [of ?rb "[''!ax'', ''a?'']" "\<lambda>_ _. True"]
    by (simp add: rb_start_def)
  also have "\<dots> = [(''t'', ''AB'')]"
    by (simp add: rb_start_def ring_view_def wild_select_def is_negative_def c_str_def eq_nocase_def)
  finally show ?thesis .
qed

subsection \<open>Anomalies\<close>

text \<open>C38. A blank line is not a line of its own: the code takes it for the end of the line before.  So
  that line enters the filtered log a second time and is announced to the callback again, and
  with an empty log, as after \<open>clear\<close>, the assertion of \<open>getLine\<close> stops the program.\<close>

theorem rb_blank_line:
  "map_option (\<lambda>rb. (ring_view (rb_log rb), ring_view (rb_filtered rb)))
     (rb_write (\<lambda>_ _. True) ''t'' [CHR ''a'', nl, nl] (rb_start 9 [] [] False False ()))
   = Some ([(''t'', ''a'')], [(''t'', ''a''), (''t'', ''a'')])
   \<and> rb_write (\<lambda>_ _. True) ''t'' [nl] (rb_clear rb) = None"
proof
  have n: "nl \<notin> set ''a''" by (simp add: nl_def)
  have "rb_write_loop (\<lambda>_ _. True) ''t'' (''a'' @ nl # [nl]) rb
      = (case rb_addLogText ''t'' (strip_cr ''a'') rb of None \<Rightarrow> None
         | Some rb1 \<Rightarrow> (case rb_lineFinished (\<lambda>_ _. True) rb1 of None \<Rightarrow> None
         | Some rb2 \<Rightarrow> rb_lineFinished (\<lambda>_ _. True) rb2))" for rb :: "unit rawbuffer"
    unfolding rb_write_loop_line [OF n not_Cons_self2] rb_write_loop_nl rb_write_loop_Nil
    by (simp split: option.split)
  then show "map_option (\<lambda>rb. (ring_view (rb_log rb), ring_view (rb_filtered rb)))
     (rb_write (\<lambda>_ _. True) ''t'' [CHR ''a'', nl, nl] (rb_start 9 [] [] False False ()))
   = Some ([(''t'', ''a'')], [(''t'', ''a''), (''t'', ''a'')])"
    by (simp add: rb_write_def rb_start_def rb_addLogText_def rb_lineFinished_def rb_getLine_def
      ring_get_def ring_put_def ring_index_def rb_addFilterLine_def rb_passes_def ring_view_def
      strip_cr_def cr_def)
  show "rb_write (\<lambda>_ _. True) ''t'' [nl] (rb_clear rb) = None"
    by (simp add: rb_write_def rb_write_loop_nl [of _ _ "[]"] rb_lineFinished_def rb_getLine_def
      rb_clear_def ring_get_def)
qed

text \<open>C32. \<open>freezeCopy\<close> copies the index of the log but not that of the filtered log: when the filtered log
  has gone round since the filters were set, the frozen filtered lines come in a wrong order.\<close>

theorem rb_freezeCopy_filtered_index:
  "rb_getLineCopy (rb_freezeCopy rb) n = rb_getLine rb n
   \<and> (let rb = (rb_start 2 [] [] False False ())\<lparr>rb_wildcards := [''*''],
        rb_filtered := ring_put 2 (''t'', ''3'') ([(''t'', ''1''), (''t'', ''2'')], 0)\<rparr>
      in rb_getFilteredLine rb 0 = Some (''t'', ''3'')
       \<and> rb_getFilteredLineCopy (rb_freezeCopy rb) 0 = Some (''t'', ''2''))"
  by (simp add: rb_freezeCopy_def rb_getLineCopy_def rb_getLine_def Let_def rb_isFiltered_def
    rb_getFilteredLine_def rb_getFilteredLineCopy_def ring_put_def ring_get_def ring_index_def
    rb_start_def)

end
