(* ===== verification/SocksModel.thy ===== *)
theory SocksModel
  imports CppString
begin

text \<open>
  The client side of a SOCKS5 proxy: \<open>src/proxysession.cpp\<close> with \<open>src/proxy.cpp\<close> and
  \<open>src/address.cpp\<close>.  A session is prepared for a connect or a listen, then told what the proxy
  answers, and between the answers its buffer of 1024 bytes holds what to send.  The address
  lookup of the C library and the printing of an address are arguments.  Reading past the end of
  what was received, writing past the buffer, using a pointer that was never set and a length
  that \<open>std::string\<close> refuses are faults.
\<close>

subsection \<open>Addresses and proxies\<close>

datatype address_family = AF_NONE | AF_IPV4 | AF_IPV6 | AF_IPV4_IPV6

record address =
  ad_family :: address_family
  ad_brackets :: bool
  ad_host :: string
  ad_port :: u16

definition address_default :: address where
  "address_default = \<lparr>ad_family = AF_IPV4_IPV6, ad_brackets = False, ad_host = [], ad_port = 21\<rparr>"

definition address_toString :: "bool \<Rightarrow> address \<Rightarrow> string" where
  "address_toString includeaddrfam a =
     (if includeaddrfam then
        if ad_family a = AF_IPV4 then ''(4)'' else if ad_family a = AF_IPV6 then ''(6)'' else []
      else [])
     @ (if ad_brackets a then ''['' else []) @ ad_host a @ (if ad_brackets a then '']'' else [])
     @ (if ad_port a \<noteq> 21 then '':'' @ show_nat (unat (ad_port a)) else [])"

datatype ports_method = AUTO_BY_PROXY | MANUAL

datatype auth_method = AUTH_NONE | AUTH_USERPASS | AUTH_OTHER

record proxy =
  px_auth :: auth_method
  px_user :: string
  px_pass :: string
  px_resolvehosts :: bool
  px_method :: ports_method
  px_first :: int
  px_last :: int
  px_next :: int

definition px_getNextListenPort :: "proxy \<Rightarrow> int \<times> proxy" where
  "px_getNextListenPort px =
     (if px_method px = AUTO_BY_PROXY then (0, px)
      else (px_next px, px\<lparr>px_next := (if px_last px \<le> px_next px + 1 then px_first px else px_next px + 1)\<rparr>))"

definition px_setActivePortFirst :: "int \<Rightarrow> proxy \<Rightarrow> proxy" where
  "px_setActivePortFirst port px = px\<lparr>px_first := port, px_next := port\<rparr>"

subsection \<open>The session\<close>

datatype fault = Overread | Overflow | WildPointer | LengthError

datatype session_state =
  SX_INIT | SX_SEND | SX_ERROR | SX_SUCCESS | SX_SEND_CONNECT | SX_SEND_LISTEN | SX_RECV_LISTEN

datatype address_mode = MODE_IPV4 | MODE_IPV6 | MODE_DNS

text \<open>A looked-up address: the bytes of the address and those of the port, in network order.\<close>

record socks =
  sx_saddr :: "(string \<times> string) option"
  sx_saddr6 :: "(string \<times> string) option"
  sx_mode :: address_mode
  sx_send :: string
  sx_sendlen :: nat
  sx_proxy :: proxy
  sx_state :: session_state
  sx_listen :: bool
  sx_error :: string
  sx_addr :: address
  sx_addrlistening :: address
  sx_addrreply :: address
  sx_trylistenport :: int

definition sx_new :: "socks \<Rightarrow> socks" where
  "sx_new u = u\<lparr>sx_saddr := None, sx_saddr6 := None, sx_state := SX_INIT, sx_error := [],
     sx_addr := address_default, sx_addrlistening := address_default, sx_addrreply := address_default\<rparr>"

definition poke :: "nat \<Rightarrow> string \<Rightarrow> string \<Rightarrow> fault + string" where
  "poke pos bs buf =
     (if pos + length bs \<le> length buf then Inr (take pos buf @ bs @ drop (pos + length bs) buf)
      else Inl Overflow)"

definition peek :: "string \<Rightarrow> nat \<Rightarrow> fault + char" where
  "peek buf i = (if i < length buf then Inr (buf ! i) else Inl Overread)"

definition peeks :: "string \<Rightarrow> nat \<Rightarrow> nat \<Rightarrow> fault + string" where
  "peeks buf i n = (if i + n \<le> length buf then Inr (take n (drop i buf)) else Inl Overread)"

definition sx_fail :: "string \<Rightarrow> socks \<Rightarrow> socks" where
  "sx_fail msg s = s\<lparr>sx_state := SX_ERROR, sx_error := msg\<rparr>"

definition getConnectError :: "char \<Rightarrow> string" where
  "getConnectError c =
     (if c = CHR 0x01 then ''General failure''
      else if c = CHR 0x02 then ''Connection not allowed by ruleset''
      else if c = CHR 0x03 then ''Network unreachable''
      else if c = CHR 0x04 then ''Host unreachable''
      else if c = CHR 0x05 then ''Connection refused by destination host''
      else if c = CHR 0x06 then ''TTL expired''
      else if c = CHR 0x07 then ''Command not supported / protocol error''
      else if c = CHR 0x08 then ''Address type not supported''
      else ''Unknown error code: '' @ show_int (schar c))"

text \<open>The port of a reply, \<open>ntohs\<close> of two bytes; and the bytes of \<open>htons\<close>.\<close>

definition port_of :: "string \<Rightarrow> u16" where
  "port_of bs = of_nat (256 * byte (bs ! 0) + byte (bs ! 1))"

definition port_bytes :: "u16 \<Rightarrow> string" where
  "port_bytes p = [char_of (unat p div 256), char_of (unat p mod 256)]"

definition sx_setInitialData :: "socks \<Rightarrow> fault + socks" where
  "sx_setInitialData s =
     and_then (poke 0 [CHR 0x05, CHR 0x01, if px_auth (sx_proxy s) = AUTH_NONE then CHR 0x00 else CHR 0x02] (sx_send s))
       (\<lambda>buf. Inr (s\<lparr>sx_send := buf, sx_sendlen := 3\<rparr>))"

definition sx_address_bytes :: "address_mode \<Rightarrow> socks \<Rightarrow> fault + string \<times> string" where
  "sx_address_bytes mode s =
     (case (if mode = MODE_IPV4 then sx_saddr s else sx_saddr6 s) of
        None \<Rightarrow> Inl WildPointer | Some a \<Rightarrow> Inr a)"

definition sx_setConnectRequestData :: "socks \<Rightarrow> fault + socks" where
  "sx_setConnectRequestData s =
     and_then (poke 0 [CHR 0x05, CHR 0x01, CHR 0x00] (sx_send s)) (\<lambda>b1.
     case sx_mode s of
       MODE_IPV4 \<Rightarrow> and_then (sx_address_bytes MODE_IPV4 s) (\<lambda>(ip, port).
         and_then (poke 3 ([CHR 0x01] @ ip @ port) b1) (\<lambda>b2. Inr (s\<lparr>sx_send := b2, sx_sendlen := 10\<rparr>)))
     | MODE_IPV6 \<Rightarrow> and_then (sx_address_bytes MODE_IPV6 s) (\<lambda>(ip, port).
         and_then (poke 3 ([CHR 0x04] @ ip @ port) b1) (\<lambda>b2. Inr (s\<lparr>sx_send := b2, sx_sendlen := 22\<rparr>)))
     | MODE_DNS \<Rightarrow>
         let host = ad_host (sx_addr s); len = length host in
         and_then (poke 3 ([CHR 0x03, char_of len] @ host @ port_bytes (ad_port (sx_addr s))) b1)
           (\<lambda>b2. Inr (s\<lparr>sx_send := b2, sx_sendlen := 7 + len\<rparr>)))"

text \<open>For IPv6 the listen request takes the port through \<open>saddr\<close>, not \<open>saddr6\<close>.\<close>

definition sx_setListenRequestData :: "socks \<Rightarrow> fault + socks" where
  "sx_setListenRequestData s =
     and_then (poke 0 [CHR 0x05, CHR 0x02, CHR 0x00] (sx_send s)) (\<lambda>b1.
     case sx_mode s of
       MODE_IPV4 \<Rightarrow> and_then (sx_address_bytes MODE_IPV4 s) (\<lambda>(ip, port).
         and_then (poke 3 ([CHR 0x01] @ ip @ port) b1) (\<lambda>b2. Inr (s\<lparr>sx_send := b2, sx_sendlen := 10\<rparr>)))
     | MODE_IPV6 \<Rightarrow> and_then (sx_address_bytes MODE_IPV6 s) (\<lambda>(ip, _).
         and_then (sx_address_bytes MODE_IPV4 s) (\<lambda>(_, port).
         and_then (poke 3 ([CHR 0x04] @ ip @ port) b1) (\<lambda>b2. Inr (s\<lparr>sx_send := b2, sx_sendlen := 22\<rparr>))))
     | MODE_DNS \<Rightarrow> Inr (s\<lparr>sx_send := b1\<rparr>))"

text \<open>What \<open>getaddrinfo\<close> may answer.\<close>

datatype lookup = NoName | LookupError string | Found4 string string | Found6 string string

definition sx_found :: "string \<Rightarrow> lookup \<Rightarrow> socks \<Rightarrow> socks" where
  "sx_found msg r s =
     (case r of
        Found4 ip port \<Rightarrow> s\<lparr>sx_saddr := Some (ip, port), sx_mode := MODE_IPV4\<rparr>
      | Found6 ip port \<Rightarrow> s\<lparr>sx_saddr6 := Some (ip, port), sx_mode := MODE_IPV6\<rparr>
      | LookupError e \<Rightarrow> sx_fail (msg @ e) s
      | NoName \<Rightarrow> s)"

definition sx_prepareConnect ::
  "(address_family \<Rightarrow> bool \<Rightarrow> string \<Rightarrow> string \<Rightarrow> lookup) \<Rightarrow> proxy \<Rightarrow> address \<Rightarrow> socks \<Rightarrow> fault + socks" where
  "sx_prepareConnect getaddrinfo px addr s =
     and_then (sx_setInitialData (s\<lparr>sx_proxy := px, sx_addr := addr, sx_listen := False, sx_state := SX_INIT\<rparr>))
     (\<lambda>s1.
       let family = (if ad_family addr = AF_IPV4 then AF_IPV4 else if ad_family addr = AF_IPV6 then AF_IPV6
                     else AF_NONE);
           r = getaddrinfo family (px_resolvehosts px) (ad_host addr) (show_nat (unat (ad_port addr)))
       in Inr (if r = NoName then s1\<lparr>sx_mode := MODE_DNS\<rparr>
               else sx_found ''Failed to retrieve address information: '' r s1))"

definition sx_prepareListen ::
  "(address_family \<Rightarrow> bool \<Rightarrow> string \<Rightarrow> string \<Rightarrow> lookup) \<Rightarrow> proxy \<Rightarrow> address_family \<Rightarrow> socks \<Rightarrow> fault + socks" where
  "sx_prepareListen getaddrinfo px family s =
     and_then (sx_setInitialData (s\<lparr>sx_proxy := px, sx_listen := True, sx_state := SX_INIT\<rparr>))
     (\<lambda>s1.
       let (port, px') = px_getNextListenPort px;
           s2 = s1\<lparr>sx_trylistenport := port, sx_proxy := px'\<rparr>;
           r = (if family = AF_IPV4 then getaddrinfo AF_IPV4 False ''0.0.0.0'' (show_int port)
                else getaddrinfo AF_IPV6 False ''::'' (show_int port))
       in Inr (case r of
           Found4 _ _ \<Rightarrow> sx_found [] r s2
         | Found6 _ _ \<Rightarrow> sx_found [] r s2
         | _ \<Rightarrow> sx_fail ''Failed to retrieve address information'' s2))"

definition sx_instruction :: "socks \<Rightarrow> session_state" where
  "sx_instruction s = (if sx_state s = SX_INIT then SX_SEND else sx_state s)"

definition sx_getSendData :: "socks \<Rightarrow> string" where
  "sx_getSendData s = take (sx_sendlen s) (sx_send s)"

text \<open>The address in a reply; the length byte of a name is a signed \<open>char\<close>.\<close>

definition parseAddress :: "(string \<Rightarrow> string) \<Rightarrow> string \<Rightarrow> fault + address \<times> nat" where
  "parseAddress ntop data =
     and_then (peek data 0) (\<lambda>c.
       if c = CHR 0x01 then
         and_then (peeks data 5 2) (\<lambda>port. and_then (peeks data 1 4) (\<lambda>ip.
           Inr (address_default\<lparr>ad_port := port_of port, ad_host := ntop ip\<rparr>, 7)))
       else if c = CHR 0x03 then
         and_then (peek data 1) (\<lambda>l.
           if schar l < 0 then Inl LengthError
           else let len = byte l in
             and_then (peeks data 2 len) (\<lambda>host. and_then (peeks data (2 + len) 2) (\<lambda>port.
               Inr (address_default\<lparr>ad_host := host, ad_port := port_of port\<rparr>, len + 3))))
       else if c = CHR 0x04 then
         and_then (peeks data 17 2) (\<lambda>port. and_then (peeks data 1 4) (\<lambda>ip.
           Inr (address_default\<lparr>ad_port := port_of port, ad_host := ntop ip\<rparr>, 19)))
       else Inr (address_default, 0))"

subsection \<open>Answers\<close>

definition sx_sendRequest :: "socks \<Rightarrow> fault + socks" where
  "sx_sendRequest s =
     (if sx_listen s then sx_setListenRequestData (s\<lparr>sx_state := SX_SEND_LISTEN\<rparr>)
      else sx_setConnectRequestData (s\<lparr>sx_state := SX_SEND_CONNECT\<rparr>))"

definition sx_authenticate :: "socks \<Rightarrow> fault + socks" where
  "sx_authenticate s =
     and_then (poke 0 [CHR 0x01] (sx_send s)) (\<lambda>b1.
       if px_auth (sx_proxy s) = AUTH_USERPASS then
         let user = take 255 (px_user (sx_proxy s)); pass = take 255 (px_pass (sx_proxy s)) in
         and_then (poke 1 ([char_of (length user)] @ user @ [char_of (length pass)] @ pass) b1)
           (\<lambda>b2. Inr (s\<lparr>sx_state := SX_SEND, sx_send := b2,
              sx_sendlen := length user + 3 + length pass\<rparr>))
       else Inr (s\<lparr>sx_state := SX_SEND, sx_send := b1\<rparr>))"

definition sx_on_method :: "string \<Rightarrow> socks \<Rightarrow> fault + socks" where
  "sx_on_method data s =
     (if length data < 2 then Inr (sx_fail ''Malformed response on session request'' s)
      else if data ! 0 \<noteq> CHR 0x05 then Inr (sx_fail ''Invalid SOCKS version in response'' s)
      else if data ! 1 \<noteq> sx_send s ! 2 then Inr (sx_fail ''Unsupported authentication type'' s)
      else if data ! 1 = CHR 0x00 then sx_sendRequest s
      else sx_authenticate s)"

definition sx_on_auth :: "string \<Rightarrow> socks \<Rightarrow> fault + socks" where
  "sx_on_auth data s =
     (if length data < 2 then Inr (sx_fail ''Malformed response on authentication request'' s)
      else if data ! 0 \<noteq> CHR 0x01 then Inr (sx_fail ''Invalid authentication version'' s)
      else if data ! 1 \<noteq> CHR 0x00 then Inr (sx_fail ''Authentication failed'' s)
      else sx_sendRequest s)"

definition sx_on_connect :: "string \<Rightarrow> socks \<Rightarrow> fault + socks" where
  "sx_on_connect data s =
     (if length data < 10 then Inr (sx_fail ''Malformed response on connect request'' s)
      else if data ! 0 \<noteq> CHR 0x05 then Inr (sx_fail ''Invalid SOCKS version in response'' s)
      else if data ! 1 \<noteq> CHR 0x00 then Inr (sx_fail (getConnectError (data ! 1)) s)
      else Inr (s\<lparr>sx_state := SX_SUCCESS\<rparr>))"

text \<open>The two answers to a listen request: where the proxy listens, and who has connected.\<close>

definition sx_on_listen ::
  "(string \<Rightarrow> string) \<Rightarrow> (address \<Rightarrow> socks \<Rightarrow> socks) \<Rightarrow> string \<Rightarrow> socks \<Rightarrow> fault + socks" where
  "sx_on_listen ntop store data s =
     (if ad_family (sx_addr s) = AF_IPV4 \<and> length data < 10
         \<or> ad_family (sx_addr s) = AF_IPV6 \<and> length data < 22
      then Inr (sx_fail ''Malformed response on connect request'' s)
      else and_then (peek data 0) (\<lambda>c0.
        if c0 \<noteq> CHR 0x05 then Inr (sx_fail ''Invalid SOCKS version in response'' s)
        else and_then (peek data 1) (\<lambda>c1.
          if c1 \<noteq> CHR 0x00 then Inr (sx_fail (getConnectError c1) s)
          else and_then (parseAddress ntop (drop 3 data)) (\<lambda>(addr, _). Inr (store addr s)))))"

definition sx_received :: "(string \<Rightarrow> string) \<Rightarrow> string \<Rightarrow> socks \<Rightarrow> fault + socks" where
  "sx_received ntop data s =
     (case sx_state s of
        SX_INIT \<Rightarrow> sx_on_method data s
      | SX_SEND \<Rightarrow> sx_on_auth data s
      | SX_SEND_CONNECT \<Rightarrow> sx_on_connect data s
      | SX_SEND_LISTEN \<Rightarrow>
          sx_on_listen ntop (\<lambda>a s. s\<lparr>sx_addrlistening := a, sx_state := SX_RECV_LISTEN\<rparr>) data s
      | SX_RECV_LISTEN \<Rightarrow>
          sx_on_listen ntop (\<lambda>a s. s\<lparr>sx_addrreply := a, sx_state := SX_SUCCESS\<rparr>) data s
      | _ \<Rightarrow> Inr s)"

subsection \<open>What the proxy reads\<close>

text \<open>A request as RFC 1928 reads it: the command, the destination and the two bytes of the port.\<close>

datatype target = Target4 string | Target6 string | TargetName string

definition parse_request :: "string \<Rightarrow> (char \<times> target \<times> string) option" where
  "parse_request r =
     (case r of
        v # cmd # rsv # typ # rest \<Rightarrow>
          if v \<noteq> CHR 0x05 \<or> rsv \<noteq> CHR 0x00 then None
          else if typ = CHR 0x01 then
            if length rest = 6 then Some (cmd, Target4 (take 4 rest), drop 4 rest) else None
          else if typ = CHR 0x04 then
            if length rest = 18 then Some (cmd, Target6 (take 16 rest), drop 16 rest) else None
          else if typ = CHR 0x03 then
            (case rest of l # name \<Rightarrow>
               if length name = byte l + 2 then Some (cmd, TargetName (take (byte l) name), drop (byte l) name)
               else None
             | [] \<Rightarrow> None)
          else None
      | _ \<Rightarrow> None)"

definition sx_target :: "socks \<Rightarrow> target \<times> string" where
  "sx_target s =
     (case sx_mode s of
        MODE_IPV4 \<Rightarrow> (Target4 (fst (the (sx_saddr s))), snd (the (sx_saddr s)))
      | MODE_IPV6 \<Rightarrow> (Target6 (fst (the (sx_saddr6 s))), snd (the (sx_saddr6 s)))
      | MODE_DNS \<Rightarrow> (TargetName (ad_host (sx_addr s)), port_bytes (ad_port (sx_addr s))))"

text \<open>What holds of a session that was prepared: the buffer has its size, and the looked-up address
  of the mode is there with the right number of bytes.\<close>

definition found_ok :: "nat \<Rightarrow> (string \<times> string) option \<Rightarrow> bool" where
  "found_ok n a = (case a of None \<Rightarrow> False | Some (ip, port) \<Rightarrow> length ip = n \<and> length port = 2)"

definition sx_ok :: "socks \<Rightarrow> bool" where
  "sx_ok s \<longleftrightarrow> length (sx_send s) = 1024
     \<and> (case sx_mode s of MODE_IPV4 \<Rightarrow> found_ok 4 (sx_saddr s) | MODE_IPV6 \<Rightarrow> found_ok 16 (sx_saddr6 s)
        | MODE_DNS \<Rightarrow> length (ad_host (sx_addr s)) \<le> 255)"

lemma poke_ok: "pos + length bs \<le> length buf \<Longrightarrow>
    poke pos bs buf = Inr (take pos buf @ bs @ drop (pos + length bs) buf)"
  by (simp add: poke_def)

lemma byte_char_of: "n < 256 \<Longrightarrow> byte (char_of n) = n"
  by (simp add: byte_def)

lemma sx_connect_request_ok:
  assumes "sx_ok s"
  shows "\<exists>s'. sx_setConnectRequestData s = Inr s' \<and> sx_ok s'
    \<and> parse_request (sx_getSendData s') = Some (CHR 0x01, sx_target s)
    \<and> s' = s\<lparr>sx_send := sx_send s', sx_sendlen := sx_sendlen s'\<rparr>"
proof (cases "sx_mode s")
  case MODE_IPV4
  then obtain ip port where "sx_saddr s = Some (ip, port)" "length ip = 4" "length port = 2"
    using assms by (auto simp: sx_ok_def found_ok_def split: option.splits)
  with MODE_IPV4 assms show ?thesis
    by (simp add: sx_setConnectRequestData_def poke_ok sx_ok_def sx_address_bytes_def sx_getSendData_def
      parse_request_def sx_target_def found_ok_def)
next
  case MODE_IPV6
  then obtain ip port where "sx_saddr6 s = Some (ip, port)" "length ip = 16" "length port = 2"
    using assms by (auto simp: sx_ok_def found_ok_def split: option.splits)
  with MODE_IPV6 assms show ?thesis
    by (simp add: sx_setConnectRequestData_def poke_ok sx_ok_def sx_address_bytes_def sx_getSendData_def
      parse_request_def sx_target_def found_ok_def)
next
  case MODE_DNS
  have seven: "7 + n = Suc (Suc (Suc (Suc (Suc (n + 2)))))" for n :: nat by simp
  from MODE_DNS have "length (ad_host (sx_addr s)) \<le> 255" using assms by (simp add: sx_ok_def)
  with MODE_DNS assms show ?thesis
    by (simp add: sx_setConnectRequestData_def poke_ok sx_ok_def sx_getSendData_def
      parse_request_def sx_target_def port_bytes_def Let_def seven byte_char_of)
qed

subsection \<open>Sessions\<close>

fun sx_run :: "(string \<Rightarrow> string) \<Rightarrow> string list \<Rightarrow> socks \<Rightarrow> fault + socks" where
  "sx_run ntop [] s = Inr s"
| "sx_run ntop (r # rs) s = and_then (sx_received ntop r s) (sx_run ntop rs)"

definition method_ok :: "char \<Rightarrow> string \<Rightarrow> bool" where
  "method_ok m r \<longleftrightarrow> 2 \<le> length r \<and> r ! 0 = CHR 0x05 \<and> r ! 1 = m"

definition auth_ok :: "string \<Rightarrow> bool" where
  "auth_ok r \<longleftrightarrow> 2 \<le> length r \<and> r ! 0 = CHR 0x01 \<and> r ! 1 = CHR 0x00"

definition connect_ok :: "string \<Rightarrow> bool" where
  "connect_ok r \<longleftrightarrow> 10 \<le> length r \<and> r ! 0 = CHR 0x05 \<and> r ! 1 = CHR 0x00"

text \<open>The answers by which a proxy consents to a connect, without and with authentication.\<close>

definition accepts :: "auth_method \<Rightarrow> string list \<Rightarrow> bool" where
  "accepts auth rs =
     (if auth = AUTH_NONE then
        (case rs of r1 # r2 # _ \<Rightarrow> method_ok (CHR 0x00) r1 \<and> connect_ok r2 | _ \<Rightarrow> False)
      else (case rs of r1 # r2 # r3 # _ \<Rightarrow> method_ok (CHR 0x02) r1 \<and> auth_ok r2 \<and> connect_ok r3 | _ \<Rightarrow> False))"

definition lookup_ok :: "lookup \<Rightarrow> bool" where
  "lookup_ok r = (case r of Found4 ip port \<Rightarrow> length ip = 4 \<and> length port = 2
     | Found6 ip port \<Rightarrow> length ip = 16 \<and> length port = 2 | _ \<Rightarrow> True)"

definition sx_ready :: "socks \<Rightarrow> bool" where
  "sx_ready s \<longleftrightarrow> sx_ok s \<and> \<not> sx_listen s
     \<and> sx_send s ! 2 = (if px_auth (sx_proxy s) = AUTH_NONE then CHR 0x00 else CHR 0x02)"

lemma sx_run_end: "sx_state s = SX_ERROR \<or> sx_state s = SX_SUCCESS \<Longrightarrow> sx_run ntop rs s = Inr s"
  by (induction rs) (auto simp: sx_received_def)

lemma sx_run_fail:
  assumes "\<exists>m. sx_received ntop r s = Inr (sx_fail m s)"
  shows "\<exists>s'. sx_run ntop (r # rs) s = Inr s' \<and> sx_state s' = SX_ERROR"
  using assms sx_run_end [of "sx_fail _ s" ntop rs] by (auto simp: sx_fail_def)

lemma sx_run_connect:
  assumes "sx_state s = SX_SEND_CONNECT"
  shows "\<exists>s'. sx_run ntop rs s = Inr s'
    \<and> (sx_state s' = SX_SUCCESS \<longleftrightarrow> (case rs of r # _ \<Rightarrow> connect_ok r | _ \<Rightarrow> False))"
proof (cases rs)
  case Nil
  then show ?thesis using assms by simp
next
  case (Cons r rs')
  then show ?thesis
    using assms
    by (auto simp: sx_received_def sx_on_connect_def sx_fail_def sx_run_end connect_ok_def)
qed

lemma sx_sendRequest_ok:
  assumes "sx_ok s" "\<not> sx_listen s"
  shows "\<exists>s'. sx_sendRequest s = Inr s' \<and> sx_state s' = SX_SEND_CONNECT
    \<and> parse_request (sx_getSendData s') = Some (CHR 0x01, sx_target s)"
proof -
  have ok: "sx_ok (s\<lparr>sx_state := SX_SEND_CONNECT\<rparr>)"
    "sx_target (s\<lparr>sx_state := SX_SEND_CONNECT\<rparr>) = sx_target s"
    using assms(1) by (simp_all add: sx_ok_def sx_target_def cong: address_mode.case_cong)
  from sx_connect_request_ok [OF ok(1)] obtain s'
    where s': "sx_setConnectRequestData (s\<lparr>sx_state := SX_SEND_CONNECT\<rparr>) = Inr s'"
      "parse_request (sx_getSendData s') = Some (CHR 0x01, sx_target s)"
      "s' = s\<lparr>sx_state := SX_SEND_CONNECT, sx_send := sx_send s', sx_sendlen := sx_sendlen s'\<rparr>"
    unfolding ok(2) by blast
  from s'(3) have "sx_state s' = SX_SEND_CONNECT" by (metis (no_types, lifting) socks.select_convs(7)
    socks.surjective socks.update_convs(4) socks.update_convs(5) socks.update_convs(7))
  with s' assms(2) show ?thesis by (auto simp: sx_sendRequest_def)
qed

lemma sx_authenticate_ok:
  assumes "sx_ok s"
  shows "\<exists>s'. sx_authenticate s = Inr s' \<and> sx_ok s' \<and> sx_state s' = SX_SEND
    \<and> sx_listen s' = sx_listen s \<and> sx_target s' = sx_target s"
proof -
  have "length (sx_send s) = 1024" using assms by (simp add: sx_ok_def)
  then show ?thesis
    using assms
    by (auto simp: sx_authenticate_def poke_ok Let_def sx_ok_def sx_target_def min_def
      cong: address_mode.case_cong)
qed

lemma sx_run_auth:
  assumes "sx_state s = SX_SEND" "sx_ok s" "\<not> sx_listen s"
  shows "\<exists>s'. sx_run ntop rs s = Inr s'
    \<and> (sx_state s' = SX_SUCCESS \<longleftrightarrow> (case rs of r2 # r3 # _ \<Rightarrow> auth_ok r2 \<and> connect_ok r3 | _ \<Rightarrow> False))"
proof (cases rs)
  case Nil
  then show ?thesis using assms by simp
next
  case (Cons r rs')
  show ?thesis
  proof (cases "auth_ok r")
    case True
    then have "sx_received ntop r s = sx_sendRequest s"
      using assms(1) by (auto simp: sx_received_def sx_on_auth_def auth_ok_def)
    moreover obtain s1 where s1: "sx_sendRequest s = Inr s1" "sx_state s1 = SX_SEND_CONNECT"
      using sx_sendRequest_ok [OF assms(2,3)] by blast
    moreover obtain s2 where "sx_run ntop rs' s1 = Inr s2"
      "sx_state s2 = SX_SUCCESS \<longleftrightarrow> (case rs' of r # _ \<Rightarrow> connect_ok r | _ \<Rightarrow> False)"
      using sx_run_connect [OF s1(2)] by blast
    ultimately show ?thesis using Cons True by (auto split: list.splits)
  next
    case False
    then have "\<exists>m. sx_received ntop r s = Inr (sx_fail m s)"
      using assms(1) by (auto simp: sx_received_def sx_on_auth_def auth_ok_def)
    then obtain s' where "sx_run ntop rs s = Inr s'" "sx_state s' = SX_ERROR"
      using sx_run_fail Cons by blast
    then show ?thesis using Cons False by (auto split: list.splits)
  qed
qed


lemma sx_run_ready:
  assumes "sx_state s = SX_INIT" "sx_ready s"
  shows "\<exists>s'. sx_run ntop rs s = Inr s'
    \<and> (sx_state s' = SX_SUCCESS \<longleftrightarrow> accepts (px_auth (sx_proxy s)) rs)"
proof (cases rs)
  case Nil
  then show ?thesis using assms by (simp add: accepts_def)
next
  case (Cons r rs')
  let ?m = "if px_auth (sx_proxy s) = AUTH_NONE then CHR 0x00 else CHR 0x02"
  have s: "sx_ok s" "\<not> sx_listen s" "sx_send s ! 2 = ?m" using assms(2) by (simp_all add: sx_ready_def)
  show ?thesis
  proof (cases "method_ok ?m r")
    case False
    then have "\<exists>m. sx_received ntop r s = Inr (sx_fail m s)"
      using assms(1) s(3) by (auto simp: sx_received_def sx_on_method_def method_ok_def)
    then obtain s' where "sx_run ntop rs s = Inr s'" "sx_state s' = SX_ERROR"
      using sx_run_fail Cons by blast
    then show ?thesis using Cons False by (auto simp: accepts_def split: list.splits if_splits)
  next
    case ok: True
    show ?thesis
    proof (cases "px_auth (sx_proxy s) = AUTH_NONE")
      case True
      then have "sx_received ntop r s = sx_sendRequest s"
        using assms(1) s(3) ok by (auto simp: sx_received_def sx_on_method_def method_ok_def)
      moreover obtain s1 where s1: "sx_sendRequest s = Inr s1" "sx_state s1 = SX_SEND_CONNECT"
        using sx_sendRequest_ok [OF s(1,2)] by blast
      moreover obtain s2 where "sx_run ntop rs' s1 = Inr s2"
        "sx_state s2 = SX_SUCCESS \<longleftrightarrow> (case rs' of r # _ \<Rightarrow> connect_ok r | _ \<Rightarrow> False)"
        using sx_run_connect [OF s1(2)] by blast
      ultimately show ?thesis using Cons True ok by (auto simp: accepts_def split: list.splits)
    next
      case False
      then have "sx_received ntop r s = sx_authenticate s"
        using assms(1) s(3) ok by (auto simp: sx_received_def sx_on_method_def method_ok_def)
      moreover obtain s1 where s1: "sx_authenticate s = Inr s1" "sx_state s1 = SX_SEND" "sx_ok s1"
        "\<not> sx_listen s1"
        using sx_authenticate_ok [OF s(1)] s(2) by auto
      moreover obtain s2 where "sx_run ntop rs' s1 = Inr s2"
        "sx_state s2 = SX_SUCCESS \<longleftrightarrow> (case rs' of r2 # r3 # _ \<Rightarrow> auth_ok r2 \<and> connect_ok r3 | _ \<Rightarrow> False)"
        using sx_run_auth [OF s1(2,3,4)] by blast
      ultimately show ?thesis using Cons False ok by (auto simp: accepts_def split: list.splits)
    qed
  qed
qed

lemma sx_setInitialData_ok:
  "length (sx_send s) = 1024 \<Longrightarrow> sx_setInitialData s = Inr (s\<lparr>sx_send :=
     [CHR 0x05, CHR 0x01, if px_auth (sx_proxy s) = AUTH_NONE then CHR 0x00 else CHR 0x02]
       @ drop 3 (sx_send s), sx_sendlen := 3\<rparr>)"
  by (simp add: sx_setInitialData_def poke_ok numeral_3_eq_3)

lemma sx_prepareConnect_ok:
  assumes "sx_prepareConnect gai px addr (sx_new u) = Inr s" "sx_state s = SX_INIT"
    and "length (sx_send u) = 1024" "length (ad_host addr) \<le> 255" "\<And>f n h p. lookup_ok (gai f n h p)"
  shows "sx_ready s \<and> sx_proxy s = px
    \<and> take 3 (sx_send s) = [CHR 0x05, CHR 0x01, if px_auth px = AUTH_NONE then CHR 0x00 else CHR 0x02]
    \<and> sx_sendlen s = 3"
proof -
  let ?m = "if px_auth px = AUTH_NONE then CHR 0x00 else CHR 0x02"
  define s1 where "s1 = (sx_new u)\<lparr>sx_proxy := px, sx_addr := addr, sx_listen := False,
    sx_state := SX_INIT, sx_send := [CHR 0x05, CHR 0x01, ?m] @ drop 3 (sx_send u), sx_sendlen := 3\<rparr>"
  have s1: "length (sx_send s1) = 1024" "\<not> sx_listen s1" "sx_send s1 ! 2 = ?m" "sx_proxy s1 = px"
    "take 3 (sx_send s1) = [CHR 0x05, CHR 0x01, ?m]" "sx_sendlen s1 = 3" "sx_addr s1 = addr"
    using assms(3) by (simp_all add: s1_def)
  define r where "r = gai (if ad_family addr = AF_IPV4 then AF_IPV4 else if ad_family addr = AF_IPV6
    then AF_IPV6 else AF_NONE) (px_resolvehosts px) (ad_host addr) (show_nat (unat (ad_port addr)))"
  have "sx_prepareConnect gai px addr (sx_new u) = Inr (if r = NoName then s1\<lparr>sx_mode := MODE_DNS\<rparr>
      else sx_found ''Failed to retrieve address information: '' r s1)"
    using assms(3)
    by (simp add: sx_prepareConnect_def sx_setInitialData_ok sx_new_def s1_def Let_def r_def)
  then have s: "s = (if r = NoName then s1\<lparr>sx_mode := MODE_DNS\<rparr>
      else sx_found ''Failed to retrieve address information: '' r s1)"
    using assms(1) by simp
  have r: "lookup_ok r" using assms(5) by (simp add: r_def)
  show ?thesis
  proof (cases r)
    case (Found4 ip port)
    then show ?thesis
      using s r s1 by (simp add: sx_found_def sx_ready_def sx_ok_def found_ok_def lookup_ok_def)
  next
    case (Found6 ip port)
    then show ?thesis
      using s r s1 by (simp add: sx_found_def sx_ready_def sx_ok_def found_ok_def lookup_ok_def)
  next
    case NoName
    then show ?thesis using s s1 assms(4) by (simp add: sx_ready_def sx_ok_def)
  next
    case (LookupError e)
    then show ?thesis using s assms(2) by (simp add: sx_found_def sx_fail_def)
  qed
qed

text \<open>C19. A connect session succeeds exactly when the proxy consents: prepared for a host of at most 255
  bytes, it takes every sequence of answers without reading or writing out of bounds, and ends in
  success exactly when the method was accepted, then (with a user name) the authentication, then
  the connect.\<close>

theorem sx_connect_session:
  assumes "sx_prepareConnect gai px addr (sx_new u) = Inr s" "sx_state s = SX_INIT"
    and "length (sx_send u) = 1024" "length (ad_host addr) \<le> 255" "\<And>f n h p. lookup_ok (gai f n h p)"
  shows "\<exists>s'. sx_run ntop rs s = Inr s' \<and> (sx_state s' = SX_SUCCESS \<longleftrightarrow> accepts (px_auth px) rs)"
  using sx_run_ready [OF assms(2), of ntop rs] sx_prepareConnect_ok [OF assms] by simp

text \<open>The bytes of a connect request mean what they should: a proxy that consents to the first phase
  is sent a request that RFC 1928 reads as a connect to the host and port of the session, by name
  when the lookup did not know the name, else by the address found.\<close>

theorem sx_connect_bytes:
  assumes "sx_prepareConnect gai px addr (sx_new u) = Inr s" "sx_state s = SX_INIT"
    and "length (sx_send u) = 1024" "length (ad_host addr) \<le> 255" "\<And>f n h p. lookup_ok (gai f n h p)"
    and "(if px_auth px = AUTH_NONE then rs = [r1] \<and> method_ok (CHR 0x00) r1
          else rs = [r1, r2] \<and> method_ok (CHR 0x02) r1 \<and> auth_ok r2)"
  shows "sx_getSendData s = [CHR 0x05, CHR 0x01, if px_auth px = AUTH_NONE then CHR 0x00 else CHR 0x02]
    \<and> (\<exists>s'. sx_run ntop rs s = Inr s' \<and> sx_state s' = SX_SEND_CONNECT
        \<and> parse_request (sx_getSendData s') = Some (CHR 0x01, sx_target s))"
proof -
  note p = sx_prepareConnect_ok [OF assms(1-5)]
  have s: "sx_ok s" "\<not> sx_listen s" "sx_send s ! 2 = (if px_auth px = AUTH_NONE then CHR 0x00 else CHR 0x02)"
    using p by (simp_all add: sx_ready_def)
  have "\<exists>s'. sx_run ntop rs s = Inr s' \<and> sx_state s' = SX_SEND_CONNECT
        \<and> parse_request (sx_getSendData s') = Some (CHR 0x01, sx_target s)"
  proof (cases "px_auth px = AUTH_NONE")
    case True
    then have "sx_received ntop r1 s = sx_sendRequest s"
      using assms(2,6) s(3) by (auto simp: sx_received_def sx_on_method_def method_ok_def)
    with True assms(6) sx_sendRequest_ok [OF s(1,2)] show ?thesis by auto
  next
    case False
    then have "sx_received ntop r1 s = sx_authenticate s"
      using assms(2,6) s(3) by (auto simp: sx_received_def sx_on_method_def method_ok_def)
    moreover obtain s1 where s1: "sx_authenticate s = Inr s1" "sx_state s1 = SX_SEND" "sx_ok s1"
      "\<not> sx_listen s1" "sx_target s1 = sx_target s"
      using sx_authenticate_ok [OF s(1)] s(2) by auto
    moreover have "sx_received ntop r2 s1 = sx_sendRequest s1"
      using False assms(6) s1(2) by (auto simp: sx_received_def sx_on_auth_def auth_ok_def)
    ultimately show ?thesis
      using False assms(6) sx_sendRequest_ok [OF s1(3,4)] by auto
  qed
  with p show ?thesis by (simp add: sx_getSendData_def)
qed

subsection \<open>A session, evaluated\<close>

definition ex_proxy :: "auth_method \<Rightarrow> proxy" where
  "ex_proxy auth = \<lparr>px_auth = auth, px_user = ''me'', px_pass = ''pw'', px_resolvehosts = False,
     px_method = AUTO_BY_PROXY, px_first = 0, px_last = 0, px_next = 0\<rparr>"

definition ex_unset :: socks where
  "ex_unset = undefined\<lparr>sx_send := replicate 1024 (CHR 0x00)\<rparr>"

definition ex_lookup :: "address_family \<Rightarrow> bool \<Rightarrow> string \<Rightarrow> string \<Rightarrow> lookup" where
  "ex_lookup f n h p = (if f = AF_IPV6 then Found6 (replicate 16 (CHR 0x01)) ''pp'' else Found4 ''abcd'' ''pp'')"

lemma ex_lookup_ok: "lookup_ok (ex_lookup f n h p)"
  by (simp add: ex_lookup_def lookup_ok_def)

lemma ex_prepared:
  "\<exists>s. sx_prepareConnect ex_lookup (ex_proxy auth) address_default (sx_new ex_unset) = Inr s
    \<and> sx_state s = SX_INIT"
  by (simp add: sx_prepareConnect_def sx_setInitialData_ok sx_new_def ex_unset_def Let_def ex_lookup_def
    sx_found_def address_default_def)

theorem sx_connect_session_witness:
  "\<exists>s s'. sx_prepareConnect ex_lookup (ex_proxy AUTH_NONE) address_default (sx_new ex_unset) = Inr s
    \<and> sx_run (\<lambda>x. x) [[CHR 0x05, CHR 0x00], [CHR 0x05, CHR 0x00] @ replicate 8 (CHR 0x00)] s = Inr s'
    \<and> sx_state s' = SX_SUCCESS"
proof -
  obtain s where s: "sx_prepareConnect ex_lookup (ex_proxy AUTH_NONE) address_default (sx_new ex_unset) = Inr s"
    "sx_state s = SX_INIT"
    using ex_prepared by blast
  show ?thesis
    using sx_connect_session [OF s, of "\<lambda>x. x"
        "[[CHR 0x05, CHR 0x00], [CHR 0x05, CHR 0x00] @ replicate 8 (CHR 0x00)]"] s ex_lookup_ok
    by (auto simp: ex_unset_def address_default_def accepts_def ex_proxy_def method_ok_def connect_ok_def)
qed

theorem sx_connect_bytes_witness:
  "\<exists>s s'. sx_prepareConnect ex_lookup (ex_proxy AUTH_USERPASS) address_default (sx_new ex_unset) = Inr s
    \<and> sx_run (\<lambda>x. x) [[CHR 0x05, CHR 0x02], [CHR 0x01, CHR 0x00]] s = Inr s'
    \<and> parse_request (sx_getSendData s') = Some (CHR 0x01, sx_target s)"
proof -
  obtain s where s: "sx_prepareConnect ex_lookup (ex_proxy AUTH_USERPASS) address_default (sx_new ex_unset) = Inr s"
    "sx_state s = SX_INIT"
    using ex_prepared by blast
  show ?thesis
    using sx_connect_bytes [OF s, of "[[CHR 0x05, CHR 0x02], [CHR 0x01, CHR 0x00]]" "[CHR 0x05, CHR 0x02]"
        "[CHR 0x01, CHR 0x00]" "\<lambda>x. x"] s ex_lookup_ok
    by (auto simp: ex_unset_def address_default_def ex_proxy_def method_ok_def auth_ok_def)
qed

subsection \<open>Listening\<close>

text \<open>C21. A listen session trusts the proxy too far.  \<open>prepareListen\<close> never sets the address whose family
  the length checks look at, so an answer of two bytes is accepted as a success and read past its
  end; and for IPv6 the request takes its port through the IPv4 pointer, which was never set.\<close>

theorem sx_listen_faults:
  assumes "length (sx_send u) = 1024" "px_auth px = AUTH_NONE"
    and "\<And>h p. gai AF_IPV4 False h p = Found4 ip4 port4" "\<And>h p. gai AF_IPV6 False h p = Found6 ip6 port6"
    and "length ip4 = 4" "length port4 = 2"
  shows "(\<exists>s. sx_prepareListen gai px AF_IPV4 (sx_new u) = Inr s
      \<and> sx_run ntop [[CHR 0x05, CHR 0x00], [CHR 0x05, CHR 0x00]] s = Inl Overread)
    \<and> (\<exists>s. sx_prepareListen gai px AF_IPV6 (sx_new u) = Inr s
      \<and> sx_run ntop [[CHR 0x05, CHR 0x00]] s = Inl WildPointer)"
  using assms
  by (auto simp: sx_prepareListen_def sx_setInitialData_ok sx_new_def Let_def split_def sx_found_def
    sx_received_def sx_on_method_def sx_sendRequest_def sx_setListenRequestData_def poke_ok
    sx_address_bytes_def sx_on_listen_def address_default_def peek_def parseAddress_def numeral_2_eq_2
    px_getNextListenPort_def)

theorem sx_listen_faults_witness:
  "\<exists>s. sx_prepareListen ex_lookup (ex_proxy AUTH_NONE) AF_IPV6 (sx_new ex_unset) = Inr s
      \<and> sx_run (\<lambda>x. x) [[CHR 0x05, CHR 0x00]] s = Inl WildPointer"
  using sx_listen_faults [of ex_unset "ex_proxy AUTH_NONE" ex_lookup "''abcd''" "''pp''"
      "replicate 16 (CHR 0x01)" "''pp''" "\<lambda>x. x"]
  by (simp add: ex_unset_def ex_proxy_def ex_lookup_def)

end
