(* ===== verification/TransferStatusModel.thy ===== *)
theory TransferStatusModel
  imports CppString
begin

text \<open>
  The status of a transfer that the user sees: \<open>src/transferstatus.cpp\<close>, without the names and
  addresses that are only stored.  The target size is known now and then, and interpolated in
  between; sizes are 64-bit numbers, the speed is a 32-bit number of kilobytes per second.
\<close>

subsection \<open>State and operations\<close>

datatype ts_state = IN_PROGRESS | SUCCESSFUL | FAILED | DUPE | ABORTED | TIMEOUT

record tstatus =
  ts_sourcesize :: u64
  ts_known :: u64
  ts_interpolated :: u64
  ts_fill :: u64
  ts_speed :: u32
  ts_state :: ts_state
  ts_timespent :: u32
  ts_timeremaining :: int
  ts_progress :: u32
  ts_passiveaddr :: string
  ts_cipher :: string
  ts_sslreused :: bool
  ts_ssl :: bool
  ts_log :: "string list"

definition int_of_u64 :: "u64 \<Rightarrow> int" where
  "int_of_u64 x = sint (ucast x :: u32)"

definition ts_new :: "u64 \<Rightarrow> u32 \<Rightarrow> bool \<Rightarrow> tstatus" where
  "ts_new sourcesize assumedspeed ssl =
     (let speed = (if assumedspeed = 0 then 1024 else assumedspeed);
          size' = (if sourcesize = 0 then 1 else sourcesize)
      in \<lparr>ts_sourcesize = size', ts_known = 0, ts_interpolated = 0, ts_fill = 0, ts_speed = speed,
          ts_state = IN_PROGRESS, ts_timespent = 0,
          ts_timeremaining = int_of_u64 (size' div ucast (speed * 1024)), ts_progress = 0,
          ts_passiveaddr = ''-'', ts_cipher = ''-'', ts_sslreused = False, ts_ssl = ssl, ts_log = []\<rparr>)"

definition ts_setFinished :: "tstatus \<Rightarrow> tstatus" where
  "ts_setFinished t = t\<lparr>ts_state := SUCCESSFUL, ts_progress := 100, ts_interpolated := ts_known t,
     ts_timeremaining := 0\<rparr>"

definition ts_setFailed :: "tstatus \<Rightarrow> tstatus" where
  "ts_setFailed t =
     (if ts_state t \<noteq> ABORTED then
        t\<lparr>ts_state := FAILED, ts_known := 0, ts_interpolated := 0, ts_progress := 0, ts_speed := 0\<rparr>
      else t)\<lparr>ts_timeremaining := 0\<rparr>"

definition ts_setTimeout :: "tstatus \<Rightarrow> tstatus" where
  "ts_setTimeout t = (if ts_state t \<noteq> ABORTED then t\<lparr>ts_state := TIMEOUT\<rparr> else t)\<lparr>ts_timeremaining := 0\<rparr>"

definition ts_setDupe :: "tstatus \<Rightarrow> tstatus" where
  "ts_setDupe t =
     (if ts_state t \<noteq> ABORTED then
        t\<lparr>ts_state := DUPE, ts_known := 0, ts_interpolated := 0, ts_progress := 0, ts_speed := 0\<rparr>
      else t)\<lparr>ts_timeremaining := 0\<rparr>"

definition ts_setAborted :: "tstatus \<Rightarrow> tstatus" where
  "ts_setAborted t = t\<lparr>ts_state := ABORTED\<rparr>"

definition ts_updateProgress :: "tstatus \<Rightarrow> tstatus" where
  "ts_updateProgress t =
     (let p = ucast ((100 * ts_interpolated t) div ts_sourcesize t)
      in t\<lparr>ts_progress := (if 100 < p then 100 else p)\<rparr>)"

definition ts_setTargetSize :: "u64 \<Rightarrow> tstatus \<Rightarrow> tstatus" where
  "ts_setTargetSize targetsize t =
     (let t1 = t\<lparr>ts_known := targetsize\<rparr>;
          t2 = (if ts_sourcesize t1 < ts_known t1 then t1\<lparr>ts_sourcesize := ts_known t1\<rparr> else t1);
          t3 = (if ts_interpolated t2 < ts_known t2
                then ts_updateProgress (t2\<lparr>ts_interpolated := ts_known t2\<rparr>) else t2)
      in t3\<lparr>ts_fill := ts_known t3\<rparr>)"

definition ts_interpolateAddSize :: "u64 \<Rightarrow> tstatus \<Rightarrow> tstatus" where
  "ts_interpolateAddSize add t =
     (if ts_fill t < ts_interpolated t then
        let t1 = t\<lparr>ts_fill := ts_fill t + add\<rparr>
        in if ts_interpolated t1 < ts_fill t1
           then ts_updateProgress (t1\<lparr>ts_interpolated := ts_fill t1\<rparr>) else t1
      else if ts_interpolated t + add \<le> ts_sourcesize t then
        ts_updateProgress (t\<lparr>ts_interpolated := ts_interpolated t + add,
          ts_fill := ts_interpolated t + add\<rparr>)
      else t)"

definition ts_setSpeed :: "u32 \<Rightarrow> tstatus \<Rightarrow> tstatus" where
  "ts_setSpeed speed t = t\<lparr>ts_speed := (if speed = 0 then 10 else speed)\<rparr>"

text \<open>\<^term>\<open>None\<close> is a division by zero, when the speed in bytes is 0 modulo \<open>2 ^ 32\<close>.\<close>

definition ts_setTimeSpent :: "u32 \<Rightarrow> tstatus \<Rightarrow> tstatus option" where
  "ts_setTimeSpent timespent t =
     (let t1 = t\<lparr>ts_timespent := timespent\<rparr> in
      if ts_interpolated t1 < ts_sourcesize t1 then
        if ts_speed t1 * 1024 = 0 then None
        else Some (t1\<lparr>ts_timeremaining :=
          int_of_u64 ((ts_sourcesize t1 - ts_interpolated t1) div ucast (ts_speed t1 * 1024))\<rparr>)
      else Some (t1\<lparr>ts_timeremaining := -1\<rparr>))"

definition ts_setSourceSize :: "u64 \<Rightarrow> tstatus \<Rightarrow> tstatus" where
  "ts_setSourceSize s t = t\<lparr>ts_sourcesize := s\<rparr>"

text \<open>\<^term>\<open>None\<close> is a failed assertion.\<close>

definition ts_addLogLine :: "string \<Rightarrow> tstatus \<Rightarrow> tstatus option" where
  "ts_addLogLine line t =
     (if ts_state t = IN_PROGRESS \<or> ts_state t = ABORTED then Some (t\<lparr>ts_log := ts_log t @ [line]\<rparr>)
      else None)"

subsection \<open>Sizes seen and sizes shown\<close>

text \<open>The updates a running transfer gives its status; the source size is only ever raised.\<close>

datatype ts_update = KnownSize u64 | Interpolate u64 | Speed u32 | SourceGrown u64

fun ts_apply :: "ts_update \<Rightarrow> tstatus \<Rightarrow> tstatus" where
  "ts_apply (KnownSize n) t = ts_setTargetSize n t"
| "ts_apply (Interpolate n) t = ts_interpolateAddSize n t"
| "ts_apply (Speed n) t = ts_setSpeed n t"
| "ts_apply (SourceGrown n) t = (if ts_sourcesize t < n then ts_setSourceSize n t else t)"

definition ts_inv :: "tstatus \<Rightarrow> bool" where
  "ts_inv t \<longleftrightarrow> 0 < ts_sourcesize t \<and> ts_known t \<le> ts_sourcesize t \<and> ts_progress t \<le> 100
     \<and> ts_speed t \<noteq> 0"

lemma ts_updateProgress_le: "ts_progress (ts_updateProgress t) \<le> 100"
  by (simp add: ts_updateProgress_def Let_def not_less)

lemma ts_updateProgress_simps [simp]:
  "ts_sourcesize (ts_updateProgress t) = ts_sourcesize t" "ts_known (ts_updateProgress t) = ts_known t"
  "ts_interpolated (ts_updateProgress t) = ts_interpolated t" "ts_fill (ts_updateProgress t) = ts_fill t"
  "ts_speed (ts_updateProgress t) = ts_speed t" "ts_state (ts_updateProgress t) = ts_state t"
  by (simp_all add: ts_updateProgress_def Let_def)

lemma ts_apply_inv: "ts_inv t \<Longrightarrow> ts_inv (ts_apply u t)"
  by (cases u) (auto simp: ts_inv_def ts_setTargetSize_def ts_interpolateAddSize_def ts_setSpeed_def
    ts_setSourceSize_def Let_def ts_updateProgress_le)

lemma ts_new_inv: "ts_inv (ts_new s sp ssl)"
  by (simp add: ts_inv_def ts_new_def Let_def word_neq_0_conv [symmetric])

lemma ts_fold_inv: "ts_inv t \<Longrightarrow> ts_inv (fold ts_apply us t)"
  by (induction us arbitrary: t) (auto intro: ts_apply_inv)

definition no_wrap :: "ts_update \<Rightarrow> tstatus \<Rightarrow> bool" where
  "no_wrap u t = (case u of Interpolate n \<Rightarrow> unat (ts_interpolated t) + unat n < 2 ^ 64 | _ \<Rightarrow> True)"

lemma ts_apply_mono:
  assumes "no_wrap u t"
  shows "ts_interpolated t \<le> ts_interpolated (ts_apply u t)"
proof (cases u)
  case (Interpolate n)
  then have "unat (ts_interpolated t + n) = unat (ts_interpolated t) + unat n"
    using assms unat_add_lem [of "ts_interpolated t" n] by (simp add: no_wrap_def)
  then have "ts_interpolated t \<le> ts_interpolated t + n" by (simp add: word_le_nat_alt)
  with Interpolate show ?thesis by (simp add: ts_interpolateAddSize_def Let_def less_imp_le)
qed (auto simp: ts_setTargetSize_def ts_setSpeed_def ts_setSourceSize_def Let_def)

text \<open>Through every history of updates a status stays sane: the source size is not 0 and not below
  the known target size, the progress is at most 100 and the speed not 0; and the size shown never
  goes back, as long as the 64-bit sum of an interpolation does not wrap.\<close>

theorem ts_history:
  assumes "t = fold ts_apply us (ts_new s sp ssl)" "no_wrap u t"
  shows "ts_inv t \<and> ts_interpolated t \<le> ts_interpolated (ts_apply u t)"
  using assms ts_fold_inv [OF ts_new_inv] ts_apply_mono by blast

theorem ts_history_witness:
  "ts_inv (fold ts_apply [KnownSize 70, Speed 5, Interpolate 20] (ts_new 100 0 True))"
proof -
  have "ts_inv (fold ts_apply [KnownSize 70, Speed 5, Interpolate 20] (ts_new 100 0 True))
    \<and> ts_interpolated (fold ts_apply [KnownSize 70, Speed 5, Interpolate 20] (ts_new 100 0 True))
      \<le> ts_interpolated (ts_apply (KnownSize 95) (fold ts_apply [KnownSize 70, Speed 5, Interpolate 20] (ts_new 100 0 True)))"
    by (rule ts_history [OF refl]) (simp add: no_wrap_def)
  then show ?thesis by blast
qed

text \<open>C35. The remaining time can divide by zero: the bytes per second are computed in 32 bits, so they are
  0 exactly for a speed that is a multiple of \<open>2 ^ 22\<close> kilobytes per second, and then a status with
  bytes left stops the program.\<close>

theorem ts_setTimeSpent_division:
  "ts_setTimeSpent n t = None \<longleftrightarrow>
     ts_interpolated t < ts_sourcesize t \<and> unat (ts_speed t) mod 2 ^ 22 = 0"
proof -
  have "ts_speed t * 1024 = 0 \<longleftrightarrow> unat (ts_speed t * 1024) = 0" by (simp add: unat_eq_zero)
  also have "\<dots> \<longleftrightarrow> unat (ts_speed t) * 1024 mod 2 ^ 32 = 0"
    by (simp only: unat_word_ariths) simp
  also have "\<dots> \<longleftrightarrow> unat (ts_speed t) mod 2 ^ 22 = 0"
  proof -
    have "unat (ts_speed t) * 1024 mod 2 ^ 32 = (unat (ts_speed t) mod 2 ^ 22) * 1024"
      using mult_mod_left [of "unat (ts_speed t)" "2 ^ 22" 1024] by simp
    then show ?thesis by simp
  qed
  finally show ?thesis by (auto simp: ts_setTimeSpent_def Let_def)
qed

end
