(* ===== verification/FileModel.thy ===== *)
theory FileModel
  imports CppString
begin

text \<open>
  A file of a listing: \<open>src/file.cpp\<close>.  A file is made of a name and a user, or of a line of a
  directory listing, in the style of UNIX or of MS-DOS.  The parsers move one index over the line
  and never past its last byte.  The objects of an update flag (sites, command owners) are numbers.
\<close>

subsection \<open>State\<close>

record update_flag =
  uf_src :: nat
  uf_dst :: nat
  uf_srcco :: "nat option"
  uf_dstco :: "nat option"

record dirfile =
  f_name :: string
  f_linktarget :: string
  f_extension :: string
  f_size :: u64
  f_owner :: string
  f_group :: string
  f_lastmodified :: string
  f_updatespeed :: u32
  f_update :: "update_flag option"
  f_directory :: bool
  f_softlink :: bool
  f_touch :: int
  f_uploading :: bool
  f_downloading :: int
  f_valid :: bool

definition getExtension :: "string \<Rightarrow> string" where
  "getExtension name =
     map to_lower_char
       (case str_rfind name ''.'' (length name) of
          None \<Rightarrow> [] | Some p \<Rightarrow> if 0 < p then drop (p + 1) name else [])"

definition file_new :: "string \<Rightarrow> string \<Rightarrow> dirfile" where
  "file_new name user =
     \<lparr>f_name = name, f_linktarget = [], f_extension = getExtension name, f_size = 0, f_owner = user,
      f_group = user, f_lastmodified = ''0'', f_updatespeed = 0, f_update = None,
      f_directory = False, f_softlink = False, f_touch = 0, f_uploading = False, f_downloading = 0,
      f_valid = True\<rparr>"

subsection \<open>Numbers in a line\<close>

definition is_space :: "char \<Rightarrow> bool" where
  "is_space c \<longleftrightarrow> c = CHR '' '' \<or> 9 \<le> byte c \<and> byte c \<le> 13"

definition is_alpha :: "char \<Rightarrow> bool" where
  "is_alpha c \<longleftrightarrow> 65 \<le> byte c \<and> byte c \<le> 90 \<or> 97 \<le> byte c \<and> byte c \<le> 122"

text \<open>\<open>atol\<close>: blanks, a sign, digits; the value is cut at the ends of \<open>long\<close>.\<close>

definition c_atol :: "string \<Rightarrow> int" where
  "c_atol s =
     (let t = dropWhile is_space s;
          neg = (t \<noteq> [] \<and> hd t = CHR ''-'');
          u = (if t \<noteq> [] \<and> (hd t = CHR ''-'' \<or> hd t = CHR ''+'') then tl t else t);
          n = int (read_nat (takeWhile is_digit u))
      in if neg then max (- (2 ^ 63)) (- n) else min (2 ^ 63 - 1) n)"

definition digitsOnly :: "string \<Rightarrow> string" where
  "digitsOnly = filter is_digit"

subsection \<open>Moving over a line\<close>

text \<open>\<open>while (pos < maxpos && stop(line[++pos]))\<close> with the condition to stop.\<close>

function adv :: "(char \<Rightarrow> bool) \<Rightarrow> string \<Rightarrow> nat \<Rightarrow> nat \<Rightarrow> nat" where
  "adv stop s maxpos pos =
     (if pos < maxpos then if stop (s ! (pos + 1)) then pos + 1 else adv stop s maxpos (pos + 1)
      else pos)"
  by pat_completeness auto
termination
  by (relation "measure (\<lambda>(stop, s, maxpos, pos). maxpos - pos)") auto

declare adv.simps [simp del]

function skip_blanks :: "string \<Rightarrow> nat \<Rightarrow> nat \<Rightarrow> nat" where
  "skip_blanks s maxpos pos =
     (if pos < maxpos \<and> s ! pos = CHR '' '' then skip_blanks s maxpos (pos + 1) else pos)"
  by pat_completeness auto
termination
  by (relation "measure (\<lambda>(s, maxpos, pos). maxpos - pos)") auto

declare skip_blanks.simps [simp del]

abbreviation to_blank :: "string \<Rightarrow> nat \<Rightarrow> nat \<Rightarrow> nat" where
  "to_blank \<equiv> adv (\<lambda>c. c = CHR '' '')"

abbreviation to_field :: "string \<Rightarrow> nat \<Rightarrow> nat \<Rightarrow> nat" where
  "to_field \<equiv> adv (\<lambda>c. c \<noteq> CHR '' '')"

abbreviation to_cr :: "string \<Rightarrow> nat \<Rightarrow> nat \<Rightarrow> nat" where
  "to_cr \<equiv> adv (\<lambda>c. c = CHR 0x0D)"

subsection \<open>Lines with a missing field\<close>

text \<open>The tokens from \<open>pos\<close> to the end of the line or a carriage return, with their positions.\<close>

function broken_tokens :: "string \<Rightarrow> nat \<Rightarrow> (nat \<times> string) list" where
  "broken_tokens s pos =
     (let start = pos + length (takeWhile (\<lambda>c. c = CHR '' '') (drop pos s))
      in if length s \<le> start \<or> s ! start = CHR 0x0D then []
         else let e = start + 1 + length (takeWhile (\<lambda>c. c \<noteq> CHR '' '' \<and> c \<noteq> CHR 0x0D) (drop (start + 1) s));
                  t = (start, substr s start (e - start))
              in if e < length s \<and> s ! e = CHR 0x0D then [t] else t # broken_tokens s (e + 1))"
  by pat_completeness auto
termination
  by (relation "measure (\<lambda>(s, pos). length s - pos)") auto

declare broken_tokens.simps [simp del]

fun broken_find :: "(nat \<times> string) list \<Rightarrow> nat \<Rightarrow> nat option" where
  "broken_find toks i =
     (case toks of
        (_, potsize) # (p, potmonth) # (q, potday) # (r, pottime) # x # rest \<Rightarrow>
          if is_digit (hd potsize) \<and> is_alpha (hd potmonth) \<and> is_digit (hd potday) \<and> is_digit (hd pottime)
          then Some i
          else broken_find ((p, potmonth) # (q, potday) # (r, pottime) # x # rest) (i + 1)
      | _ \<Rightarrow> None)"

declare broken_find.simps [simp del]

text \<open>The file with the fields found, and where the month begins.\<close>

definition parseBroken :: "string \<Rightarrow> nat \<Rightarrow> dirfile \<Rightarrow> nat \<Rightarrow> dirfile \<times> nat" where
  "parseBroken s pos f monthstart =
     (let toks = broken_tokens s pos
      in case broken_find toks 0 of
           None \<Rightarrow> (f, monthstart)
         | Some i \<Rightarrow>
             (f\<lparr>f_owner := (if 0 < i then snd (toks ! 0) else []),
                f_group := (if 1 < i then snd (toks ! 1) else []),
                f_size := of_int (c_atol (c_str (snd (toks ! i))))\<rparr>,
              fst (toks ! (i + 1))))"

subsection \<open>Lines\<close>

text \<open>The file with what was parsed, and whether the line was valid.\<close>

definition parseUNIX_tail :: "string \<Rightarrow> nat \<Rightarrow> dirfile \<Rightarrow> nat \<Rightarrow> dirfile \<times> bool" where
  "parseUNIX_tail s m f start =
     (let p1 = to_field s m (to_blank s m start);
          p2 = to_field s m (to_blank s m p1);
          p3 = to_blank s m p2
      in if p3 = m then (f, False)
      else let f' = f\<lparr>f_lastmodified := substr s start (p3 - start)\<rparr>; p4 = to_field s m p3
      in if p4 = m then (f', False)
      else (f'\<lparr>f_name := substr s p4 (to_cr s m p4 - p4)\<rparr>, True))"

definition parseUNIX :: "string \<Rightarrow> dirfile \<Rightarrow> dirfile \<times> bool" where
  "parseUNIX s f =
     (if s = [] then (f, False)
      else
        let m = length s - 1; p0 = skip_blanks s m 0;
            f0 = (if s ! p0 = CHR ''d'' then f\<lparr>f_directory := True\<rparr>
                  else if s ! p0 = CHR ''l'' then f\<lparr>f_softlink := True\<rparr> else f);
            userstart = to_field s m (to_blank s m (to_field s m (to_blank s m p0)))
        in if userstart = m then (f0, False)
        else let p1 = to_blank s m userstart
        in if p1 = m then (f0, False)
        else let f1 = f0\<lparr>f_owner := substr s userstart (p1 - userstart)\<rparr>; g = to_field s m p1
        in if g = m then (f1, False)
        else let p2 = to_blank s m g
        in if p2 = m then (f1, False)
        else let f2 = f1\<lparr>f_group := substr s g (p2 - g)\<rparr>; z = to_field s m p2
        in if z = m then (f2, False)
        else let p3 = to_blank s m z
        in if p3 = m then (f2, False)
        else let f3 = f2\<lparr>f_size := of_int (c_atol (c_str (substr s z (p3 - z))))\<rparr>; mo = to_field s m p3
        in if mo = m then (f3, False)
        else let (f4, start) = (if \<not> is_alpha (s ! mo) then parseBroken s userstart f3 mo else (f3, mo))
        in parseUNIX_tail s m f4 start)"

definition parseMSDOS :: "string \<Rightarrow> dirfile \<Rightarrow> dirfile \<times> bool" where
  "parseMSDOS s f =
     (if s = [] then (f, False)
      else
        let m = length s - 1; p0 = to_blank s m (to_field s m (to_blank s m 0))
        in if p0 = m then (f, False)
        else let f1 = f\<lparr>f_lastmodified := substr s 0 p0\<rparr>; z = to_field s m p0
        in if z = m then (f1, False)
        else let p1 = to_blank s m z
        in if p1 = m then (f1, False)
        else let dirorsize = substr s z (p1 - z);
                 f2 = (if dirorsize = ''<DIR>'' then f1\<lparr>f_directory := True, f_size := 0\<rparr>
                       else f1\<lparr>f_size := of_int (c_atol (digitsOnly dirorsize))\<rparr>);
                 p2 = to_field s m p1
        in if p2 = m then (f2, False)
        else (f2\<lparr>f_name := substr s p2 (to_cr s m p2 - p2)\<rparr>, True))"

text \<open>The constructor of a line; the members it leaves uninitialised are those of \<open>u\<close>.\<close>

definition file_parse :: "dirfile \<Rightarrow> string \<Rightarrow> int \<Rightarrow> dirfile" where
  "file_parse u s touch =
     (let f0 = u\<lparr>f_name := [], f_linktarget := [], f_owner := [], f_group := [], f_lastmodified := [],
            f_update := None, f_directory := False, f_softlink := False, f_touch := touch,
            f_uploading := False, f_downloading := 0\<rparr>;
          (f1, ok) = (if 1 < length s \<and> is_digit (s ! 0) \<and> is_digit (s ! 1) then parseMSDOS s f0
                      else parseUNIX s f0);
          f2 = f1\<lparr>f_valid := ok, f_extension := getExtension (f_name f1)\<rparr>
      in if f_softlink f2 then
           case str_find (f_name f2) '' -> '' 0 of
             Some p \<Rightarrow> f2\<lparr>f_linktarget := drop (p + 4) (f_name f2), f_name := take p (f_name f2)\<rparr>
           | None \<Rightarrow> f2\<lparr>f_linktarget := []\<rparr>
         else f2)"

subsection \<open>Changes\<close>

definition file_setUpdateFlag :: "update_flag \<Rightarrow> u32 \<Rightarrow> dirfile \<Rightarrow> dirfile" where
  "file_setUpdateFlag uf speed f = f\<lparr>f_update := Some uf, f_updatespeed := speed\<rparr>"

definition file_unsetUpdateFlag :: "dirfile \<Rightarrow> dirfile" where
  "file_unsetUpdateFlag f = f\<lparr>f_update := None\<rparr>"

definition file_isDownloading :: "dirfile \<Rightarrow> bool" where
  "file_isDownloading f \<longleftrightarrow> 0 < f_downloading f"

definition file_download :: "dirfile \<Rightarrow> dirfile" where
  "file_download f = f\<lparr>f_downloading := f_downloading f + 1\<rparr>"

definition file_finishDownload :: "dirfile \<Rightarrow> dirfile" where
  "file_finishDownload f = f\<lparr>f_downloading := f_downloading f - 1\<rparr>"

subsection \<open>Walking along a well-formed line\<close>

lemma adv_stop:
  assumes "drop (Suc p) s = t @ c # r" "list_all (\<lambda>x. \<not> stop x) t" "stop c"
  shows "adv stop s (length s - 1) p = p + Suc (length t)"
  using assms(1,2)
proof (induction t arbitrary: p)
  case Nil
  then have "Suc p < length s" "s ! Suc p = c"
    by (auto simp: nth_via_drop intro: ccontr)
  with assms(3) show ?case by (subst adv.simps) auto
next
  case (Cons x t)
  then have p: "Suc p < length s" "s ! Suc p = x" "drop (Suc (Suc p)) s = t @ c # r"
    by (auto simp: nth_via_drop drop_Suc_tl_drop [of "Suc p"] intro: ccontr)
  with Cons.prems(2) Cons.IH [OF p(3)] show ?case by (subst adv.simps) auto
qed

lemma adv_end:
  assumes "list_all (\<lambda>x. \<not> stop x) (drop (Suc p) s)" "p \<le> length s - 1"
  shows "adv stop s (length s - 1) p = length s - 1"
  using assms
proof (induction "length s - p" arbitrary: p rule: less_induct)
  case less
  show ?case
  proof (cases "p < length s - 1")
    case True
    then have d: "drop (Suc p) s = s ! Suc p # drop (Suc (Suc p)) s" by (simp add: Cons_nth_drop_Suc)
    then have "adv stop s (length s - 1) (Suc p) = length s - 1"
      using less.prems True by (intro less.hyps) auto
    then show ?thesis using less.prems(1) d True by (subst adv.simps) auto
  next
    case False
    then show ?thesis using less.prems(2) by (subst adv.simps) auto
  qed
qed

definition blanks :: "nat \<Rightarrow> string" where
  "blanks n = replicate (Suc n) (CHR '' '')"

lemma drop_length_less: "drop p s = x # r \<Longrightarrow> r \<noteq> [] \<Longrightarrow> p < length s - 1"
  by (metis diff_Suc_1 length_Cons length_drop length_greater_0_conv zero_less_diff diff_diff_left
    add.commute)

text \<open>A field and the blanks after it, as the parser meets them: it is at the first byte of the field.\<close>

lemma walk_field:
  assumes "drop p s = w @ blanks n @ x # r" "w \<noteq> []" "CHR '' '' \<notin> set w" "x \<noteq> CHR '' ''" "r \<noteq> []"
  shows "to_blank s (length s - 1) p = p + length w" "p + length w < length s - 1"
    "to_field s (length s - 1) (p + length w) = p + length w + Suc n"
    "p + length w + Suc n < length s - 1"
    "drop (p + length w + Suc n) s = x # r" "substr s p (length w) = w"
proof -
  obtain y w' where w: "w = y # w'" using assms(2) by (cases w) auto
  have d: "drop (Suc p) s = w' @ CHR '' '' # replicate n (CHR '' '') @ x # r"
    using assms(1) w by (simp add: drop_Suc_tl_drop blanks_def)
  show "to_blank s (length s - 1) p = p + length w"
    using adv_stop [OF d, of "\<lambda>c. c = CHR '' ''"] assms(3) w by (auto simp: list_all_iff)
  have e: "drop (p + length w) s = blanks n @ x # r"
    using assms(1) by (metis append_eq_conv_conj drop_drop add.commute)
  then have f: "drop (Suc (p + length w)) s = replicate n (CHR '' '') @ x # r"
    by (simp add: drop_Suc_tl_drop blanks_def)
  show "to_field s (length s - 1) (p + length w) = p + length w + Suc n"
    using adv_stop [OF f, of "\<lambda>c. c \<noteq> CHR '' ''"] assms(4) by (auto simp: list_all_iff)
  show g: "drop (p + length w + Suc n) s = x # r"
    using e by (metis append_eq_conv_conj blanks_def drop_drop add.commute length_replicate)
  show h: "p + length w + Suc n < length s - 1"
    using drop_length_less [OF g assms(5)] .
  then show "p + length w < length s - 1" by simp
  show "substr s p (length w) = w" using assms(1) by (simp add: substr_def)
qed

definition field_ok :: "string \<Rightarrow> bool" where
  "field_ok w \<longleftrightarrow> w \<noteq> [] \<and> CHR '' '' \<notin> set w"

definition starts_field :: "string \<Rightarrow> bool" where
  "starts_field v \<longleftrightarrow> 1 < length v \<and> hd v \<noteq> CHR '' ''"

lemma starts_field_append: "field_ok w \<Longrightarrow> starts_field (w @ blanks n @ v)"
  by (cases w) (auto simp: field_ok_def starts_field_def blanks_def)

lemma walk_on:
  assumes "drop p s = w @ blanks n @ v" "field_ok w" "starts_field v"
  shows "\<exists>q p'. to_blank s (length s - 1) p = q \<and> q \<noteq> length s - 1 \<and> to_field s (length s - 1) q = p'
    \<and> p' \<noteq> length s - 1 \<and> drop p' s = v \<and> substr s p (q - p) = w \<and> q = p + length w
    \<and> p' = q + Suc n \<and> p' < length s - 1"
proof -
  obtain x r where v: "v = x # r" "x \<noteq> CHR '' ''" "r \<noteq> []"
    using assms(3) by (cases v) (auto simp: starts_field_def)
  note w = walk_field [OF assms(1) [unfolded v(1)] _ _ v(2,3)]
  show ?thesis
    using w assms(2) v(1) by (auto simp: field_ok_def)
qed

definition crlf_end :: "string \<Rightarrow> bool" where
  "crlf_end e \<longleftrightarrow> e = [CHR 0x0A] \<or> e = [CHR 0x0D, CHR 0x0A]"

lemma walk_name:
  assumes "drop p s = name @ e" "crlf_end e" "name \<noteq> []" "CHR 0x0D \<notin> set name"
  shows "substr s p (to_cr s (length s - 1) p - p) = name"
proof -
  obtain c n where n: "name = c # n" using assms(3) by (cases name) auto
  have d: "drop (Suc p) s = n @ e" using assms(1) n by (simp add: drop_Suc_tl_drop)
  have len: "length s = p + length name + length e" using assms(1,3)
    by (metis append_is_Nil_conv drop_eq_Nil length_append length_drop le_add_diff_inverse nat_le_linear add.assoc)
  from assms(2) consider "e = [CHR 0x0A]" | "e = [CHR 0x0D, CHR 0x0A]" by (auto simp: crlf_end_def)
  then have "to_cr s (length s - 1) p = p + length name"
  proof cases
    case 1
    then have "to_cr s (length s - 1) p = length s - 1"
      using d assms(4) n len by (intro adv_end) (auto simp: list_all_iff)
    with 1 len show ?thesis by simp
  next
    case 2
    then show ?thesis
      using adv_stop [of p s n "CHR 0x0D" "[CHR 0x0A]" "\<lambda>c. c = CHR 0x0D"] d assms(4) n
      by (auto simp: list_all_iff)
  qed
  with assms(1) show ?thesis by (simp add: substr_def)
qed

fun render_fields :: "(string \<times> nat) list \<Rightarrow> string \<Rightarrow> string" where
  "render_fields [] v = v"
| "render_fields ((w, n) # fs) v = w @ blanks n @ render_fields fs v"

text \<open>A line of a UNIX listing: fields, each followed by one or more blanks, the name, the end.\<close>

definition unix_line :: "(string \<times> nat) list \<Rightarrow> string \<Rightarrow> string \<Rightarrow> string" where
  "unix_line fs name e = render_fields fs (name @ e)"

definition name_ok :: "string \<Rightarrow> bool" where
  "name_ok name \<longleftrightarrow> name \<noteq> [] \<and> hd name \<noteq> CHR '' '' \<and> CHR 0x0D \<notin> set name"

lemma name_starts: "name_ok name \<Longrightarrow> crlf_end e \<Longrightarrow> starts_field (name @ e)"
  by (cases name) (auto simp: name_ok_def crlf_end_def starts_field_def)

lemma parseUNIX_tail_line:
  assumes d: "drop mo s = month @ blanks n6 @ day @ blanks n7 @ time @ blanks n8 @ name @ e"
    and ok: "field_ok month" "field_ok day" "field_ok time" "name_ok name" "crlf_end e"
  shows "parseUNIX_tail s (length s - 1) f mo
    = (f\<lparr>f_lastmodified := month @ blanks n6 @ day @ blanks n7 @ time, f_name := name\<rparr>, True)"
proof -
  obtain q1 p1 where 1: "to_blank s (length s - 1) mo = q1" "to_field s (length s - 1) q1 = p1"
    "drop p1 s = day @ blanks n7 @ time @ blanks n8 @ name @ e" "q1 = mo + length month" "p1 = q1 + Suc n6"
    using walk_on [OF d ok(1) starts_field_append [OF ok(2)]] by blast
  obtain q2 p2 where 2: "to_blank s (length s - 1) p1 = q2" "to_field s (length s - 1) q2 = p2"
    "drop p2 s = time @ blanks n8 @ name @ e" "q2 = p1 + length day" "p2 = q2 + Suc n7"
    using walk_on [OF 1(3) ok(2) starts_field_append [OF ok(3)]] by blast
  obtain q3 p3 where 3: "to_blank s (length s - 1) p2 = q3" "q3 \<noteq> length s - 1"
    "to_field s (length s - 1) q3 = p3" "p3 \<noteq> length s - 1" "drop p3 s = name @ e" "q3 = p2 + length time"
    using walk_on [OF 2(3) ok(3) name_starts [OF ok(4,5)]] by blast
  have "substr s p3 (to_cr s (length s - 1) p3 - p3) = name"
    using walk_name [OF 3(5) ok(5)] ok(4) by (simp add: name_ok_def)
  moreover have "substr s mo (q3 - mo) = month @ blanks n6 @ day @ blanks n7 @ time"
    using d 1(4,5) 2(4,5) 3(6) by (simp add: substr_def blanks_def)
  ultimately show ?thesis
    unfolding parseUNIX_tail_def Let_def 1(1,2) 2(1,2) 3(1,3) using 3(2,4) by simp
qed

lemma parseUNIX_line:
  fixes n1 n2 n3 n4 n5 n6 n7 n8 :: nat
  assumes ok: "field_ok perm" "field_ok links" "field_ok owner" "field_ok grp" "field_ok sz"
      "field_ok month" "field_ok day" "field_ok time" "name_ok name" "crlf_end e"
    and "is_alpha (hd month)" "\<not> f_directory f" "\<not> f_softlink f"
  defines "s \<equiv> unix_line [(perm, n1), (links, n2), (owner, n3), (grp, n4), (sz, n5), (month, n6),
    (day, n7), (time, n8)] name e"
  shows "parseUNIX s f = (f\<lparr>f_directory := (hd perm = CHR ''d''), f_softlink := (hd perm = CHR ''l''),
    f_owner := owner, f_group := grp, f_size := of_int (c_atol (c_str sz)),
    f_lastmodified := month @ blanks n6 @ day @ blanks n7 @ time, f_name := name\<rparr>, True)"
proof -
  define m where "m = length s - 1"
  note walk = walk_on [of _ s, folded m_def]
  note sf = starts_field_append
  have d0: "drop 0 s = perm @ blanks n1 @ links @ blanks n2 @ owner @ blanks n3 @ grp @ blanks n4 @ sz
      @ blanks n5 @ month @ blanks n6 @ day @ blanks n7 @ time @ blanks n8 @ name @ e"
    by (simp add: s_def unix_line_def)
  obtain q0 p0 where 0: "to_blank s m 0 = q0" "to_field s m q0 = p0"
    "drop p0 s = links @ blanks n2 @ owner @ blanks n3 @ grp @ blanks n4 @ sz
      @ blanks n5 @ month @ blanks n6 @ day @ blanks n7 @ time @ blanks n8 @ name @ e"
    using walk [OF d0 ok(1) sf [OF ok(2)]] by blast
  obtain q1 p1 where 1: "to_blank s m p0 = q1" "to_field s m q1 = p1" "p1 \<noteq> m"
    "drop p1 s = owner @ blanks n3 @ grp @ blanks n4 @ sz
      @ blanks n5 @ month @ blanks n6 @ day @ blanks n7 @ time @ blanks n8 @ name @ e"
    using walk [OF 0(3) ok(2) sf [OF ok(3)]] by blast
  obtain q2 p2 where 2: "to_blank s m p1 = q2" "to_field s m q2 = p2" "q2 \<noteq> m" "p2 \<noteq> m"
    "drop p2 s = grp @ blanks n4 @ sz
      @ blanks n5 @ month @ blanks n6 @ day @ blanks n7 @ time @ blanks n8 @ name @ e"
    "substr s p1 (q2 - p1) = owner"
    using walk [OF 1(4) ok(3) sf [OF ok(4)]] by blast
  obtain q3 p3 where 3: "to_blank s m p2 = q3" "to_field s m q3 = p3" "q3 \<noteq> m" "p3 \<noteq> m"
    "drop p3 s = sz @ blanks n5 @ month @ blanks n6 @ day @ blanks n7 @ time @ blanks n8 @ name @ e"
    "substr s p2 (q3 - p2) = grp"
    using walk [OF 2(5) ok(4) sf [OF ok(5)]] by blast
  obtain q4 p4 where 4: "to_blank s m p3 = q4" "to_field s m q4 = p4" "q4 \<noteq> m" "p4 \<noteq> m"
    "drop p4 s = month @ blanks n6 @ day @ blanks n7 @ time @ blanks n8 @ name @ e"
    "substr s p3 (q4 - p3) = sz" "p4 < m"
    using walk [OF 3(5) ok(5) sf [OF ok(6)]] by blast
  have s0: "s \<noteq> []" "s ! 0 = hd perm" "hd perm \<noteq> CHR '' ''"
    using d0 ok(1) by (cases perm; auto simp: field_ok_def)+
  have sb: "skip_blanks s m 0 = 0" using s0 by (subst skip_blanks.simps) simp
  have mo: "is_alpha (s ! p4)"
    using 4(5,7) ok(6) assms(11) by (cases month) (auto simp: field_ok_def nth_via_drop)
  define f0 where "f0 = (if s ! 0 = CHR ''d'' then f\<lparr>f_directory := True\<rparr>
    else if s ! 0 = CHR ''l'' then f\<lparr>f_softlink := True\<rparr> else f)"
  have f0: "f0 = f\<lparr>f_directory := (hd perm = CHR ''d''), f_softlink := (hd perm = CHR ''l'')\<rparr>"
    using assms(12,13) s0(2) by (cases f) (auto simp: f0_def)
  have "parseUNIX s f = parseUNIX_tail s m (f0\<lparr>f_owner := owner, f_group := grp,
      f_size := of_int (c_atol (c_str sz))\<rparr>) p4"
    unfolding parseUNIX_def Let_def m_def [symmetric] sb f0_def [symmetric] 0(1,2) 1(1,2) 2(1,2) 3(1,2)
      4(1,2) 2(6) 3(6) 4(6)
    using s0(1) 1(3) 2(3,4) 3(3,4) 4(3,4) mo by simp
  then show ?thesis
    unfolding f0 m_def parseUNIX_tail_line [OF 4(5) ok(6-10)] by simp
qed


subsection \<open>A line of a listing makes the file it describes\<close>

text \<open>C20. A line of a UNIX listing whose eight fields are separated by one or more blanks and
  which ends with a line feed, with or without a carriage return before it, is accepted, and the
  file made from it has the fields of the line: directory or link from the first byte, owner, group,
  size as \<open>atol\<close> reads it, date from month to time, and the rest of the line, blanks included, as
  its name.  The name of a link is cut at the first arrow and its target is what follows it.\<close>

theorem file_parse_unix_line:
  fixes n1 n2 n3 n4 n5 n6 n7 n8 :: nat and u :: dirfile and touch :: int
  assumes ok: "field_ok perm" "field_ok links" "field_ok owner" "field_ok grp" "field_ok sz"
      "field_ok month" "field_ok day" "field_ok time" "name_ok name" "crlf_end e"
    and "is_alpha (hd month)" "\<not> is_digit (hd perm)"
  defines "g \<equiv> file_parse u (unix_line [(perm, n1), (links, n2), (owner, n3), (grp, n4), (sz, n5),
    (month, n6), (day, n7), (time, n8)] name e) touch"
  shows "f_valid g \<and> f_directory g = (hd perm = CHR ''d'') \<and> f_softlink g = (hd perm = CHR ''l'')
    \<and> f_owner g = owner \<and> f_group g = grp \<and> f_size g = of_int (c_atol (c_str sz))
    \<and> f_lastmodified g = month @ blanks n6 @ day @ blanks n7 @ time
    \<and> f_extension g = getExtension name \<and> f_touch g = touch \<and> f_update g = None
    \<and> (f_name g, f_linktarget g) =
        (case if hd perm = CHR ''l'' then str_find name '' -> '' 0 else None of
           Some k \<Rightarrow> (take k name, drop (k + 4) name) | None \<Rightarrow> (name, []))"
proof -
  define s where "s = unix_line [(perm, n1), (links, n2), (owner, n3), (grp, n4), (sz, n5),
    (month, n6), (day, n7), (time, n8)] name e"
  have "s ! 0 = hd perm" using ok(1) by (cases perm) (auto simp: s_def unix_line_def field_ok_def)
  with assms(12) have dos: "\<not> (1 < length s \<and> is_digit (s ! 0) \<and> is_digit (s ! 1))" by simp
  show ?thesis
    unfolding g_def s_def [symmetric] file_parse_def Let_def if_not_P [OF dos]
    unfolding s_def parseUNIX_line [OF ok assms(11), simplified]
    by (simp add: parseUNIX_line [OF ok assms(11)] split: option.split)
qed

theorem file_parse_unix_line_witness:
  "f_name (file_parse (file_new ''x'' ''u'') (unix_line [(''lrwxrwxrwx'', 0), (''1'', 2), (''glftpd'', 1), (''NoGroup'', 0),
      (''9'', 4), (''Jan'', 0), (''01'', 0), (''12:00'', 0)] ''a -> b c'' [CHR 0x0D, CHR 0x0A]) 5) = ''a''"
  using file_parse_unix_line [of "''lrwxrwxrwx''" "''1''" "''glftpd''" "''NoGroup''" "''9''" "''Jan''" "''01''"
      "''12:00''" "''a -> b c''" "[CHR 0x0D, CHR 0x0A]" "file_new ''x'' ''u''" 0 2 1 0 4 0 0 0 5]
  by (simp add: field_ok_def name_ok_def crlf_end_def is_alpha_def is_digit_def byte_def str_find_def is_prefix_at_def del: upt.simps add: upt_conv_Cons)

end
