(* ===== verification/SkipListModel.thy ===== *)
theory SkipListModel
  imports Wildcard CppString
begin

text \<open>
  Skip lists: \<open>src/skiplist.cpp\<close> and \<open>src/skiplistitem.cpp\<close>.  A skip list is an object with entries,
  a cache of verdicts and a pointer to the global list; the lists are kept in a store, a map from
  addresses, because checks of one list write the caches of the lists behind it.  The type
  \<^typ>\<open>'x\<close> is that of compiled regular expressions and the argument \<open>rm\<close> is
  \<open>std::regex_match\<close>.  The main theorems show that the caches never change a verdict.
\<close>

subsection \<open>State\<close>

datatype skip_scope = SCOPE_IN_RACE | SCOPE_ALL

datatype skip_action = SKIPLIST_ALLOW | SKIPLIST_DENY | SKIPLIST_UNIQUE | SKIPLIST_SIMILAR | SKIPLIST_NONE

record 'x skip_item =
  si_regex :: bool
  si_pattern :: string
  si_regexpattern :: 'x
  si_file :: bool
  si_dir :: bool
  si_scope :: skip_scope
  si_action :: skip_action

record 'x skip_match =
  sm_action :: skip_action
  sm_matched :: bool
  sm_regex :: "'x option"
  sm_pattern :: string
  sm_path :: string

record 'x skiplist =
  sl_entries :: "'x skip_item list"
  sl_cache :: "string \<Rightarrow> 'x skip_match option"
  sl_global :: "nat option"

type_synonym 'x skip_store = "nat \<Rightarrow> 'x skiplist"

subsection \<open>Matching one entry\<close>

text \<open>Patterns and elements are compared level by level; the levels of both must be as many.\<close>

function fixedSlashCompare :: "bool \<Rightarrow> string \<Rightarrow> string \<Rightarrow> bool" where
  "fixedSlashCompare cs wild element =
     (let cmp = (\<lambda>w e. (if cs then wildcmpCase else wildcmp) (c_str w) (c_str e) = Some True)
      in case (str_find wild ''/'' 0, str_find element ''/'' 0) of
           (Some wp, Some ep) \<Rightarrow>
             if cmp (substr wild 0 wp) (substr element 0 ep)
             then fixedSlashCompare cs (drop (wp + 1) wild) (drop (ep + 1) element)
             else False
         | (None, None) \<Rightarrow> cmp wild element
         | _ \<Rightarrow> False)"
  by pat_completeness auto
termination
  by (relation "measure (\<lambda>(cs, wild, element). length wild)")
    (auto dest: str_find_char_less)

declare fixedSlashCompare.simps [simp del]

text \<open>The element and what follows each of its slashes, without empty parts after the first.\<close>

function slash_parts :: "string \<Rightarrow> string list" where
  "slash_parts e =
     (case str_find e ''/'' 0 of
        None \<Rightarrow> []
      | Some p \<Rightarrow> let r = drop (p + 1) e in if r \<noteq> [] then r # slash_parts r else slash_parts r)"
  by pat_completeness auto
termination
  by (relation "measure length") (auto dest: str_find_char_less simp: str_find_Some is_prefix_at_char)

declare slash_parts.simps [simp del]

definition element_parts :: "string \<Rightarrow> string list" where
  "element_parts e = e # slash_parts e"

definition item_matches :: "('x \<Rightarrow> string \<Rightarrow> bool) \<Rightarrow> 'x skip_item \<Rightarrow> bool \<Rightarrow> bool \<Rightarrow> string \<Rightarrow> bool" where
  "item_matches rm it dir inrace part \<longleftrightarrow>
     \<not> (si_scope it = SCOPE_IN_RACE \<and> \<not> inrace)
     \<and> (si_dir it \<and> dir \<or> si_file it \<and> \<not> dir)
     \<and> (if si_regex it then rm (si_regexpattern it) part
        else fixedSlashCompare False (si_pattern it) part)"

definition match_of :: "'x skip_item \<Rightarrow> string \<Rightarrow> 'x skip_match" where
  "match_of it part =
     \<lparr>sm_action = si_action it, sm_matched = True,
      sm_regex = (if si_regex it then Some (si_regexpattern it) else None),
      sm_pattern = si_pattern it, sm_path = part\<rparr>"

definition no_match :: "skip_action \<Rightarrow> 'x skip_match" where
  "no_match a = \<lparr>sm_action = a, sm_matched = False, sm_regex = None, sm_pattern = [], sm_path = []\<rparr>"

text \<open>The entries in order, each on all parts of the element.\<close>

fun sl_scan :: "('x \<Rightarrow> string \<Rightarrow> bool) \<Rightarrow> 'x skip_item list \<Rightarrow> string list \<Rightarrow> bool \<Rightarrow> bool \<Rightarrow> 'x skip_match option" where
  "sl_scan rm [] parts dir inrace = None"
| "sl_scan rm (it # its) parts dir inrace =
     (case find (item_matches rm it dir inrace) parts of
        Some part \<Rightarrow> Some (match_of it part)
      | None \<Rightarrow> sl_scan rm its parts dir inrace)"

definition createCacheToken :: "string \<Rightarrow> bool \<Rightarrow> bool \<Rightarrow> string" where
  "createCacheToken pattern dir inrace =
     pattern @ (if dir then ''1'' else ''0'') @ (if inrace then ''1'' else ''0'')"

subsection \<open>Checking an element\<close>

text \<open>
  The lists behind a list are checked by recursion; \<^term>\<open>None\<close> is a recursion that outruns the
  fuel.  The result holds the store with the caches written.
\<close>

fun sl_check :: "('x \<Rightarrow> string \<Rightarrow> bool) \<Rightarrow> nat \<Rightarrow> nat \<Rightarrow> string \<Rightarrow> bool \<Rightarrow> bool \<Rightarrow> nat option
    \<Rightarrow> 'x skip_store \<Rightarrow> ('x skip_match \<times> 'x skip_store) option" where
  "sl_check rm 0 a e dir inrace fall st = None"
| "sl_check rm (Suc fuel) a e dir inrace fall st =
     (let fallThrough = (\<lambda>st. case fall of
            Some b \<Rightarrow> sl_check rm fuel b e dir inrace None st
          | None \<Rightarrow> (case sl_global (st a) of
              Some g \<Rightarrow> sl_check rm fuel g e dir inrace None st
            | None \<Rightarrow> Some (no_match SKIPLIST_ALLOW, st)));
          token = createCacheToken e dir inrace;
          insert = (\<lambda>m. st(a := (st a)\<lparr>sl_cache := (sl_cache (st a))(token \<mapsto> m)\<rparr>))
      in if sl_entries (st a) = [] then fallThrough st
         else case sl_cache (st a) token of
           Some m \<Rightarrow> if sm_action m = SKIPLIST_NONE then fallThrough st else Some (m, st)
         | None \<Rightarrow>
             (case sl_scan rm (sl_entries (st a)) (element_parts e) dir inrace of
                Some m \<Rightarrow> Some (m, insert m)
              | None \<Rightarrow> fallThrough (insert (no_match SKIPLIST_NONE))))"

subsection \<open>Changing a list\<close>

definition default_item :: "(string \<Rightarrow> 'x) \<Rightarrow> string \<Rightarrow> skip_scope \<Rightarrow> 'x skip_item" where
  "default_item rx pattern scope =
     \<lparr>si_regex = False, si_pattern = pattern, si_regexpattern = rx [], si_file = True, si_dir = True,
      si_scope = scope, si_action = SKIPLIST_DENY\<rparr>"

definition sl_addDefaultEntries :: "(string \<Rightarrow> 'x) \<Rightarrow> 'x skiplist \<Rightarrow> 'x skiplist" where
  "sl_addDefaultEntries rx sl =
     sl\<lparr>sl_entries := sl_entries sl @
       [default_item rx ''* *'' SCOPE_ALL, default_item rx ''*%*'' SCOPE_IN_RACE,
        default_item rx ''*[*'' SCOPE_IN_RACE, default_item rx ''*]*'' SCOPE_IN_RACE]\<rparr>"

definition sl_new :: "(string \<Rightarrow> 'x) \<Rightarrow> bool \<Rightarrow> 'x skiplist" where
  "sl_new rx adddefault =
     (let sl = \<lparr>sl_entries = [], sl_cache = (\<lambda>_. None), sl_global = None\<rparr>
      in if adddefault then sl_addDefaultEntries rx sl else sl)"

definition sl_new_global :: "nat \<Rightarrow> 'x skiplist" where
  "sl_new_global g = \<lparr>sl_entries = [], sl_cache = (\<lambda>_. None), sl_global = Some g\<rparr>"

definition sl_wipeCache :: "'x skiplist \<Rightarrow> 'x skiplist" where
  "sl_wipeCache sl = sl\<lparr>sl_cache := (\<lambda>_. None)\<rparr>"

definition item_new :: "(string \<Rightarrow> 'x) \<Rightarrow> bool \<Rightarrow> string \<Rightarrow> bool \<Rightarrow> bool \<Rightarrow> skip_scope \<Rightarrow> skip_action \<Rightarrow> 'x skip_item" where
  "item_new rx regex pattern file dir scope action =
     \<lparr>si_regex = regex, si_pattern = pattern, si_regexpattern = (if regex then rx pattern else rx []),
      si_file = file, si_dir = dir, si_scope = scope, si_action = action\<rparr>"

definition sl_addEntry :: "'x skip_item \<Rightarrow> 'x skiplist \<Rightarrow> 'x skiplist" where
  "sl_addEntry it sl = sl_wipeCache (sl\<lparr>sl_entries := sl_entries sl @ [it]\<rparr>)"

definition sl_clearEntries :: "'x skiplist \<Rightarrow> 'x skiplist" where
  "sl_clearEntries sl = sl_wipeCache (sl\<lparr>sl_entries := []\<rparr>)"

definition sl_setGlobalSkip :: "nat option \<Rightarrow> 'x skiplist \<Rightarrow> 'x skiplist" where
  "sl_setGlobalSkip g sl = sl\<lparr>sl_global := g\<rparr>"

subsection \<open>What a check should say\<close>

text \<open>The first list of a chain with an entry that matches decides; if there is none, allow.\<close>

fun sl_decide :: "('x \<Rightarrow> string \<Rightarrow> bool) \<Rightarrow> ('x skip_item list) list \<Rightarrow> string \<Rightarrow> bool \<Rightarrow> bool \<Rightarrow> 'x skip_match" where
  "sl_decide rm [] e dir inrace = no_match SKIPLIST_ALLOW"
| "sl_decide rm (es # ess) e dir inrace =
     (case sl_scan rm es (element_parts e) dir inrace of
        Some m \<Rightarrow> m
      | None \<Rightarrow> sl_decide rm ess e dir inrace)"

text \<open>The lists reached from a pointer through the pointers to the global list.\<close>

fun chain_from :: "'x skip_store \<Rightarrow> nat option \<Rightarrow> nat list \<Rightarrow> bool" where
  "chain_from st p [] \<longleftrightarrow> p = None"
| "chain_from st p (a # as) \<longleftrightarrow> p = Some a \<and> chain_from st (sl_global (st a)) as"

definition cache_ok :: "('x \<Rightarrow> string \<Rightarrow> bool) \<Rightarrow> 'x skip_store \<Rightarrow> bool" where
  "cache_ok rm st \<longleftrightarrow>
     (\<forall>a e dir inrace m. sl_cache (st a) (createCacheToken e dir inrace) = Some m \<longrightarrow>
        m = (case sl_scan rm (sl_entries (st a)) (element_parts e) dir inrace of
               Some m \<Rightarrow> m | None \<Rightarrow> no_match SKIPLIST_NONE))"

text \<open>No entry has the action of a verdict that is not one.\<close>

definition actions_ok :: "'x skip_store \<Rightarrow> bool" where
  "actions_ok st \<longleftrightarrow> (\<forall>a it. it \<in> set (sl_entries (st a)) \<longrightarrow> si_action it \<noteq> SKIPLIST_NONE)"

definition same_lists :: "'x skip_store \<Rightarrow> 'x skip_store \<Rightarrow> bool" where
  "same_lists st st' \<longleftrightarrow>
     (\<forall>a. sl_entries (st' a) = sl_entries (st a) \<and> sl_global (st' a) = sl_global (st a))"

lemma createCacheToken_inject [simp]:
  "createCacheToken e d r = createCacheToken e' d' r' \<longleftrightarrow> e = e' \<and> d = d' \<and> r = r'"
  by (auto simp: createCacheToken_def)

lemma same_lists_refl [simp]: "same_lists st st"
  by (simp add: same_lists_def)

lemma same_lists_trans: "same_lists st st' \<Longrightarrow> same_lists st' st'' \<Longrightarrow> same_lists st st''"
  by (simp add: same_lists_def)

lemma same_lists_chain: "same_lists st st' \<Longrightarrow> chain_from st' p as = chain_from st p as"
  by (induction as arbitrary: p) (auto simp: same_lists_def)

lemma same_lists_actions: "same_lists st st' \<Longrightarrow> actions_ok st' = actions_ok st"
  by (simp add: same_lists_def actions_ok_def)

lemma sl_scan_action:
  "sl_scan rm es parts d r = Some m \<Longrightarrow> \<exists>it \<in> set es. sm_action m = si_action it"
  by (induction es) (auto simp: match_of_def split: option.splits)

lemma cache_insert:
  assumes "cache_ok rm st"
    "m = (case sl_scan rm (sl_entries (st a)) (element_parts e) d r of
            Some m \<Rightarrow> m | None \<Rightarrow> no_match SKIPLIST_NONE)"
  defines "st' \<equiv> st(a := (st a)\<lparr>sl_cache := (sl_cache (st a))(createCacheToken e d r \<mapsto> m)\<rparr>)"
  shows "cache_ok rm st' \<and> same_lists st st'"
  using assms(1,2) by (auto simp: st'_def cache_ok_def same_lists_def)


definition sl_fall where
  "sl_fall rm k a e d r fall st =
     (case fall of
        Some b \<Rightarrow> sl_check rm k b e d r None st
      | None \<Rightarrow> (case sl_global (st a) of
          Some g \<Rightarrow> sl_check rm k g e d r None st
        | None \<Rightarrow> Some (no_match SKIPLIST_ALLOW, st)))"

lemma sl_check_Suc:
  "sl_check rm (Suc k) a e d r fall st =
     (if sl_entries (st a) = [] then sl_fall rm k a e d r fall st
      else case sl_cache (st a) (createCacheToken e d r) of
        Some m \<Rightarrow> if sm_action m = SKIPLIST_NONE then sl_fall rm k a e d r fall st else Some (m, st)
      | None \<Rightarrow>
          (let insert = (\<lambda>m. st(a := (st a)\<lparr>sl_cache := (sl_cache (st a))(createCacheToken e d r \<mapsto> m)\<rparr>))
           in case sl_scan rm (sl_entries (st a)) (element_parts e) d r of
             Some m \<Rightarrow> Some (m, insert m)
           | None \<Rightarrow> sl_fall rm k a e d r fall (insert (no_match SKIPLIST_NONE))))"
  by (simp only: sl_check.simps sl_fall_def Let_def)

lemma cached_verdict:
  assumes "cache_ok rm st" "actions_ok st" "sl_cache (st a) (createCacheToken e d r) = Some m"
  shows "case sl_scan rm (sl_entries (st a)) (element_parts e) d r of
    Some m' \<Rightarrow> m = m' \<and> sm_action m \<noteq> SKIPLIST_NONE | None \<Rightarrow> sm_action m = SKIPLIST_NONE"
proof (cases "sl_scan rm (sl_entries (st a)) (element_parts e) d r")
  case None
  with assms(1,3) have "m = no_match SKIPLIST_NONE" unfolding cache_ok_def by fastforce
  with None show ?thesis by (simp add: no_match_def)
next
  case (Some m')
  with assms(1,3) have "m = m'" unfolding cache_ok_def by fastforce
  moreover have "sm_action m' \<noteq> SKIPLIST_NONE"
    using assms(2) sl_scan_action [OF Some] unfolding actions_ok_def by metis
  ultimately show ?thesis using Some by simp
qed

text \<open>One level: what the entries say, or else what the lists behind say (\<open>D\<close>).\<close>

lemma sl_check_level:
  assumes ok: "cache_ok rm st" "actions_ok st"
    and fall: "\<And>st1. cache_ok rm st1 \<Longrightarrow> same_lists st st1 \<Longrightarrow>
      \<exists>st'. sl_fall rm k a e d r fall st1 = Some (D, st') \<and> cache_ok rm st' \<and> same_lists st st'"
  shows "\<exists>st'. sl_check rm (Suc k) a e d r fall st
      = Some (case sl_scan rm (sl_entries (st a)) (element_parts e) d r of Some m \<Rightarrow> m | None \<Rightarrow> D, st')
    \<and> cache_ok rm st' \<and> same_lists st st'"
proof (cases "sl_entries (st a) = []")
  case True
  with fall [OF ok(1)] show ?thesis unfolding sl_check_Suc by simp
next
  case False
  note ins = cache_insert [OF ok(1), of _ a e d r]
  show ?thesis
  proof (cases "sl_cache (st a) (createCacheToken e d r)")
    case (Some m)
    with cached_verdict [OF ok Some] fall [OF ok(1)] False ok(1) show ?thesis
      unfolding sl_check_Suc by (auto split: option.splits)
  next
    case None
    show ?thesis
    proof (cases "sl_scan rm (sl_entries (st a)) (element_parts e) d r")
      case (Some m)
      with ins [of m] None False show ?thesis unfolding sl_check_Suc by simp
    next
      case no: None
      with ins [of "no_match SKIPLIST_NONE"] None False show ?thesis
        unfolding sl_check_Suc Let_def by (simp add: fall)
    qed
  qed
qed

lemma sl_decide_cong:
  "same_lists st st' \<Longrightarrow> map (\<lambda>b. sl_entries (st' b)) as = map (\<lambda>b. sl_entries (st b)) as"
  by (simp add: same_lists_def)

lemma sl_check_decides:
  assumes "cache_ok rm st" "actions_ok st" "length as < fuel"
    and "chain_from st (case fall of Some b \<Rightarrow> Some b | None \<Rightarrow> sl_global (st a)) as"
  shows "\<exists>st'. sl_check rm fuel a e d r fall st
      = Some (sl_decide rm (map (\<lambda>b. sl_entries (st b)) (a # as)) e d r, st')
    \<and> cache_ok rm st' \<and> same_lists st st'"
  using assms
proof (induction as arbitrary: a fall st fuel)
  case Nil
  obtain k where k: "fuel = Suc k" using Nil.prems(3) by (cases fuel) auto
  have p: "fall = None" "sl_global (st a) = None" using Nil.prems(4) by (auto split: option.splits)
  show ?case
    unfolding k list.map sl_decide.simps
    by (rule sl_check_level [OF Nil.prems(1,2)]) (use p in \<open>auto simp: sl_fall_def same_lists_def\<close>)
next
  case (Cons b bs)
  obtain k where k: "fuel = Suc k" "length bs < k" using Cons.prems(3) by (cases fuel) auto
  have b: "fall = Some b \<or> fall = None \<and> sl_global (st a) = Some b" "chain_from st (sl_global (st b)) bs"
    using Cons.prems(4) by (auto split: option.splits)
  show ?case
    unfolding k(1) list.map sl_decide.simps(2) [of _ "sl_entries (st a)"]
  proof (rule sl_check_level [OF Cons.prems(1,2)])
    fix st1
    assume st1: "cache_ok rm st1" "same_lists st st1"
    then have "chain_from st1 (case None of Some b \<Rightarrow> Some b | None \<Rightarrow> sl_global (st1 b)) bs"
      using b(2) by (simp add: same_lists_chain) (simp add: same_lists_def)
    from Cons.IH [OF st1(1) _ k(2) this] st1 Cons.prems(2)
    obtain st' where "sl_check rm k b e d r None st1
        = Some (sl_decide rm (map (\<lambda>b. sl_entries (st1 b)) (b # bs)) e d r, st')"
      "cache_ok rm st'" "same_lists st1 st'"
      unfolding same_lists_actions [OF st1(2)] by blast
    note this(1) [unfolded sl_decide_cong [OF st1(2)]] this(2) same_lists_trans [OF st1(2) this(3)]
    moreover have "sl_fall rm k a e d r fall st1 = sl_check rm k b e d r None st1"
      using b(1) st1(2) by (auto simp: sl_fall_def same_lists_def)
    ultimately show "\<exists>st'. sl_fall rm k a e d r fall st1
        = Some (sl_decide rm (sl_entries (st b) # map (\<lambda>b. sl_entries (st b)) bs) e d r, st')
      \<and> cache_ok rm st' \<and> same_lists st st'"
      by simp
  qed
qed


subsection \<open>Histories\<close>

datatype 'x skip_op =
    NewList nat bool
  | NewChild nat nat
  | AddEntry nat "'x skip_item"
  | ClearEntries nat
  | SetGlobal nat "nat option"
  | Check nat string bool bool "nat option"

text \<open>What an operation does to the store; \<open>fuel\<close> bounds the checks.\<close>

fun skip_step :: "(string \<Rightarrow> 'x) \<Rightarrow> ('x \<Rightarrow> string \<Rightarrow> bool) \<Rightarrow> nat \<Rightarrow> 'x skip_op \<Rightarrow> 'x skip_store \<Rightarrow> 'x skip_store" where
  "skip_step rx rm fuel (NewList a adddefault) st = st(a := sl_new rx adddefault)"
| "skip_step rx rm fuel (NewChild a g) st = st(a := sl_new_global g)"
| "skip_step rx rm fuel (AddEntry a it) st = st(a := sl_addEntry it (st a))"
| "skip_step rx rm fuel (ClearEntries a) st = st(a := sl_clearEntries (st a))"
| "skip_step rx rm fuel (SetGlobal a g) st = st(a := sl_setGlobalSkip g (st a))"
| "skip_step rx rm fuel (Check a e dir inrace fall) st =
     (case sl_check rm fuel a e dir inrace fall st of Some (m, st') \<Rightarrow> st' | None \<Rightarrow> st)"

lemma sl_check_cache:
  "sl_check rm fuel a e d r fall st = Some (m, st') \<Longrightarrow> cache_ok rm st \<Longrightarrow> cache_ok rm st'"
proof (induction fuel arbitrary: a fall st m st')
  case (Suc k)
  have fall: "cache_ok rm st'" if "sl_fall rm k a e d r fall st1 = Some (m, st')" "cache_ok rm st1" for st1
    using that Suc.IH by (auto simp: sl_fall_def split: option.splits)
  note ins = cache_insert [OF Suc.prems(2), of _ a e d r]
  from Suc.prems(1) show ?case
    unfolding sl_check_Suc Let_def
    using fall [OF _ Suc.prems(2)] fall ins Suc.prems(2)
    by (force split: if_splits option.splits)
qed simp

lemma skip_step_cache: "cache_ok rm st \<Longrightarrow> cache_ok rm (skip_step rx rm fuel op st)"
proof (cases op)
  case (Check a e d r fall)
  assume "cache_ok rm st"
  with Check show ?thesis by (auto split: option.splits dest: sl_check_cache)
qed (auto simp: cache_ok_def sl_new_def sl_new_global_def sl_addDefaultEntries_def sl_addEntry_def
    sl_clearEntries_def sl_wipeCache_def sl_setGlobalSkip_def Let_def)

lemma skip_history_cache:
  "cache_ok rm st \<Longrightarrow> cache_ok rm (fold (skip_step rx rm fuel) ops st)"
  by (induction ops arbitrary: st) (auto intro: skip_step_cache)

text \<open>C18. The cache of a skip list is transparent.  After every history of new lists, changed entries,
  changed pointers and checks, a check returns, and it says what the entries say that the lists hold
  now: the first list on the way (its own, then the one given or the global ones) with an entry that
  matches a part of the element decides, and allow is the answer when there is none.  Needed are
  a way that ends and entries whose action is a verdict; the depth of the recursion is that of the way.\<close>

theorem sl_check_history:
  assumes "st = fold (skip_step rx rm fuel) ops (\<lambda>_. sl_new rx False)" "actions_ok st" "length as < n"
    and "chain_from st (case fall of Some b \<Rightarrow> Some b | None \<Rightarrow> sl_global (st a)) as"
  shows "map_option fst (sl_check rm n a e dir inrace fall st)
    = Some (sl_decide rm (map (\<lambda>b. sl_entries (st b)) (a # as)) e dir inrace)"
proof -
  have "cache_ok rm st"
    unfolding assms(1) by (rule skip_history_cache) (simp add: cache_ok_def sl_new_def)
  from sl_check_decides [OF this assms(2-4), of e dir inrace] obtain st' where
    "sl_check rm n a e dir inrace fall st
      = Some (sl_decide rm (map (\<lambda>b. sl_entries (st b)) (a # as)) e dir inrace, st')" by blast
  then show ?thesis by simp
qed

theorem sl_check_history_witness:
  "\<exists>ops. map_option fst (sl_check (\<lambda>_ _. False) 2 1 ''a b'' True False None
      (fold (skip_step (\<lambda>_. ()) (\<lambda>_ _. False) 9) ops (\<lambda>_. sl_new (\<lambda>_. ()) False)))
    = Some (sl_decide (\<lambda>_ _. False) [[], sl_entries (sl_new (\<lambda>_. ()) True)] ''a b'' True False)"
proof (intro exI)
  let ?ops = "[NewList 0 True, NewChild 1 0] :: unit skip_op list"
  let ?st = "fold (skip_step (\<lambda>_. ()) (\<lambda>_ _. False) 9) ?ops (\<lambda>_. sl_new (\<lambda>_. ()) False)"
  show "map_option fst (sl_check (\<lambda>_ _. False) 2 1 ''a b'' True False None ?st)
      = Some (sl_decide (\<lambda>_ _. False) [[], sl_entries (sl_new (\<lambda>_. ()) True)] ''a b'' True False)"
    using sl_check_history [of ?st "\<lambda>_. ()" "\<lambda>_ _. False" 9 ?ops "[0]" 2 1 None "''a b''" True False]
    by (simp add: actions_ok_def sl_new_def sl_new_global_def sl_addDefaultEntries_def default_item_def)
qed

end
