(* ===== verification/FileListModel.thy ===== *)
theory FileListModel
  imports FileModel PathModel UtilText SkipListModel
begin

text \<open>
  The files of one directory of one site: \<open>src/filelist.cpp\<close>.  The files are objects on a heap,
  with the address of each in a map from its name and in the list of files in the order seen; the
  list of files owns them and deletes them.  Kept beside the files are counters (files uploaded,
  total and largest size, files of the own user, uploads in progress), what changed since the last
  look, and the first file whose name other files are to resemble.  The argument \<open>now\<close> is the
  time, and \<open>sk\<close> is what the skip lists at two addresses say of a name (\<open>sl_check_history\<close>).
  A dereferenced null pointer and a failed assertion are \<^term>\<open>None\<close>.
\<close>

subsection \<open>State\<close>

datatype list_state = LS_UNKNOWN | LS_NONEXISTENT | LS_EXISTS | LS_LISTED | LS_PRE_FAIL | LS_FAILED

datatype update_state = US_NONE | US_REFRESHED | US_META_CHANGED | US_CHANGED

fun us_rank :: "update_state \<Rightarrow> nat" where
  "us_rank US_NONE = 0"
| "us_rank US_REFRESHED = 1"
| "us_rank US_META_CHANGED = 2"
| "us_rank US_CHANGED = 3"

instantiation update_state :: linorder
begin

definition less_eq_update_state :: "update_state \<Rightarrow> update_state \<Rightarrow> bool" where
  "less_eq_update_state a b \<longleftrightarrow> us_rank a \<le> us_rank b"

definition less_update_state :: "update_state \<Rightarrow> update_state \<Rightarrow> bool" where
  "less_update_state a b \<longleftrightarrow> us_rank a < us_rank b"

instance
proof
  fix a b :: update_state
  show "a \<le> b \<Longrightarrow> b \<le> a \<Longrightarrow> a = b"
    by (cases a; cases b) (simp_all add: less_eq_update_state_def)
qed (auto simp: less_eq_update_state_def less_update_state_def)

end

record filelist =
  fl_heap :: "nat \<Rightarrow> dirfile option"
  fl_next :: nat
  fl_files :: "string \<Rightarrow> nat option"
  fl_lower :: "string \<Rightarrow> string option"
  fl_seen :: "nat list"
  fl_username :: string
  fl_path :: path
  fl_state :: list_state
  fl_locked :: bool
  fl_updatestate :: update_state
  fl_sbstate :: update_state
  fl_lastchanged :: u64
  fl_lastmeta :: u64
  fl_lastrefreshed :: u64
  fl_owned :: int
  fl_ownpercentage :: int
  fl_uploading :: int
  fl_maxfilesize :: u64
  fl_totalfilesize :: u64
  fl_uploadedfiles :: u32
  fl_listfailures :: int
  fl_sbchanged :: "string set"
  fl_insb :: bool
  fl_similarchecked :: bool
  fl_firstsimilar :: "nat option"
  fl_siteskip :: "nat option"
  fl_sectionskip :: "nat option"

datatype stats_dir = STATS_DOWN | STATS_UP

datatype list_event =
    SpeedPushed nat nat u32 u64
  | SiteStats nat stats_dir nat u64
  | OwnerStats nat stats_dir nat u64 u32
  | TotalStats u64

type_synonym skip_verdict = "nat \<Rightarrow> nat option \<Rightarrow> string \<Rightarrow> bool \<Rightarrow> skip_action"

text \<open>A new list; the pointers to skip lists are not initialised and are those of \<open>u\<close>.\<close>

definition fl_init :: "filelist \<Rightarrow> string \<Rightarrow> path \<Rightarrow> list_state \<Rightarrow> filelist" where
  "fl_init u username path state =
     \<lparr>fl_heap = (\<lambda>_. None), fl_next = 0, fl_files = (\<lambda>_. None), fl_lower = (\<lambda>_. None), fl_seen = [],
      fl_username = username, fl_path = path, fl_state = state, fl_locked = False,
      fl_updatestate = US_NONE, fl_sbstate = US_NONE, fl_lastchanged = 0, fl_lastmeta = 0,
      fl_lastrefreshed = 0, fl_owned = 0, fl_ownpercentage = 100, fl_uploading = 0, fl_maxfilesize = 0,
      fl_totalfilesize = 0, fl_uploadedfiles = 0, fl_listfailures = 0, fl_sbchanged = {},
      fl_insb = False, fl_similarchecked = False, fl_firstsimilar = None,
      fl_siteskip = fl_siteskip u, fl_sectionskip = fl_sectionskip u\<rparr>"

subsection \<open>Notes of changes\<close>

definition fl_bumpUpdateState :: "update_state \<Rightarrow> filelist \<Rightarrow> filelist \<times> bool" where
  "fl_bumpUpdateState new fl =
     (let fl1 = (if fl_sbstate fl < new then fl\<lparr>fl_sbstate := new\<rparr> else fl)
      in if fl_updatestate fl1 < new then (fl1\<lparr>fl_updatestate := new\<rparr>, True) else (fl1, False))"

definition fl_setChanged :: "u64 \<Rightarrow> filelist \<Rightarrow> filelist" where
  "fl_setChanged now fl =
     (fst (fl_bumpUpdateState US_CHANGED fl))
       \<lparr>fl_lastchanged := now, fl_lastmeta := now, fl_listfailures := 0\<rparr>"

definition fl_setMetaChanged :: "u64 \<Rightarrow> filelist \<Rightarrow> filelist" where
  "fl_setMetaChanged now fl = (fst (fl_bumpUpdateState US_META_CHANGED fl))\<lparr>fl_lastmeta := now\<rparr>"

definition fl_resetUpdateState :: "filelist \<Rightarrow> filelist" where
  "fl_resetUpdateState fl = fl\<lparr>fl_updatestate := US_NONE\<rparr>"

definition fl_resetScoreBoardUpdates :: "filelist \<Rightarrow> filelist" where
  "fl_resetScoreBoardUpdates fl = fl\<lparr>fl_sbstate := US_NONE, fl_sbchanged := {}\<rparr>"

definition fl_note :: "string \<Rightarrow> filelist \<Rightarrow> filelist" where
  "fl_note name fl = fl\<lparr>fl_sbchanged := insert name (fl_sbchanged fl)\<rparr>"

text \<open>The map holds as many files as the list; the division is one of \<open>size_t\<close>.\<close>

definition fl_recalcOwnedPercentage :: "filelist \<Rightarrow> filelist" where
  "fl_recalcOwnedPercentage fl =
     (if fl_seen fl \<noteq> []
      then fl\<lparr>fl_ownpercentage :=
        sint (ucast ((of_int (fl_owned fl * 100) :: u64) div of_nat (length (fl_seen fl))) :: u32)\<rparr>
      else fl\<lparr>fl_ownpercentage := 100\<rparr>)"

subsection \<open>Looking for files\<close>

definition fl_obj :: "filelist \<Rightarrow> nat \<Rightarrow> dirfile" where
  "fl_obj fl a = the (fl_heap fl a)"

definition fl_getFileCaseSensitive :: "string \<Rightarrow> filelist \<Rightarrow> nat option" where
  "fl_getFileCaseSensitive name fl = fl_files fl name"

definition fl_getFile :: "string \<Rightarrow> filelist \<Rightarrow> nat option" where
  "fl_getFile name fl =
     (case fl_files fl name of
        Some a \<Rightarrow> Some a
      | None \<Rightarrow> (case fl_lower fl (toLower name) of
          Some name2 \<Rightarrow> fl_files fl name2
        | None \<Rightarrow> None))"

definition fl_contains :: "string \<Rightarrow> filelist \<Rightarrow> bool" where
  "fl_contains name fl \<longleftrightarrow>
     fl_files fl name \<noteq> None
     \<or> (case fl_lower fl (toLower name) of Some name2 \<Rightarrow> fl_files fl name2 \<noteq> None | None \<Rightarrow> False)"

text \<open>The files of the list in the order seen.\<close>

definition fl_view :: "filelist \<Rightarrow> dirfile list" where
  "fl_view fl = map (fl_obj fl) (fl_seen fl)"

text \<open>The matcher \<open>m\<close> is \<open>util::wildcmp\<close> or \<open>std::regex_match\<close> of the pattern.\<close>

definition fl_containsPattern :: "(string \<Rightarrow> bool) \<Rightarrow> path \<Rightarrow> bool \<Rightarrow> filelist \<Rightarrow> bool" where
  "fl_containsPattern m path dir fl \<longleftrightarrow>
     (if p_unix path = []
      then list_ex (\<lambda>f. f_directory f = dir \<and> m (f_name f)) (fl_view fl)
      else list_ex (\<lambda>f. f_directory f = dir \<and> m (p_dirname path @ ''/'' @ f_name f)) (fl_view fl))"

definition wild_matcher :: "string \<Rightarrow> string \<Rightarrow> bool" where
  "wild_matcher pattern name \<longleftrightarrow> wildcmp (c_str pattern) (c_str name) = Some True"

fun before_loop :: "(string \<Rightarrow> bool) \<Rightarrow> bool \<Rightarrow> string \<Rightarrow> dirfile list \<Rightarrow> bool" where
  "before_loop m dir item [] = False"
| "before_loop m dir item (f # fs) =
     (if f_directory f \<noteq> dir then before_loop m dir item fs
      else if f_name f = item then False
      else if m (f_name f) then True
      else before_loop m dir item fs)"

definition fl_containsPatternBefore :: "string \<Rightarrow> bool \<Rightarrow> string \<Rightarrow> filelist \<Rightarrow> bool" where
  "fl_containsPatternBefore pattern dir item fl \<longleftrightarrow>
     (let used = (case str_rfind pattern ''/'' (length pattern) of
            Some p \<Rightarrow> drop (p + 1) pattern | None \<Rightarrow> pattern)
      in before_loop (wild_matcher used) dir item (fl_view fl))"

definition fl_containsRegexPatternBefore :: "(string \<Rightarrow> bool) \<Rightarrow> bool \<Rightarrow> string \<Rightarrow> filelist \<Rightarrow> bool" where
  "fl_containsRegexPatternBefore m dir item fl \<longleftrightarrow> before_loop m dir item (fl_view fl)"

definition fl_hasExtension :: "string \<Rightarrow> filelist \<Rightarrow> bool" where
  "fl_hasExtension ext fl \<longleftrightarrow> list_ex (\<lambda>f. f_extension f = ext \<and> 0 < f_size f) (fl_view fl)"


subsection \<open>The file others are to resemble\<close>

definition fl_checkSimilarFile :: "skip_verdict \<Rightarrow> nat \<Rightarrow> filelist \<Rightarrow> filelist \<times> bool" where
  "fl_checkSimilarFile sk a fl =
     (case fl_siteskip fl of
        None \<Rightarrow> (fl, False)
      | Some skip \<Rightarrow>
          if sk skip (fl_sectionskip fl) (f_name (fl_obj fl a)) (f_directory (fl_obj fl a)) = SKIPLIST_SIMILAR
          then (fl\<lparr>fl_firstsimilar := Some a\<rparr>, True) else (fl, False))"

fun similar_loop :: "skip_verdict \<Rightarrow> nat list \<Rightarrow> filelist \<Rightarrow> filelist" where
  "similar_loop sk [] fl = fl"
| "similar_loop sk (a # as) fl =
     (let (fl', found) = fl_checkSimilarFile sk a fl in if found then fl' else similar_loop sk as fl')"

definition fl_checkSimilar :: "skip_verdict \<Rightarrow> nat option \<Rightarrow> nat option \<Rightarrow> filelist \<Rightarrow> filelist" where
  "fl_checkSimilar sk siteskip sectionskip fl =
     similar_loop sk (fl_seen fl)
       (fl\<lparr>fl_similarchecked := True, fl_siteskip := siteskip, fl_sectionskip := sectionskip\<rparr>)"

definition fl_getFirstSimilar :: "filelist \<Rightarrow> string" where
  "fl_getFirstSimilar fl = (case fl_firstsimilar fl of Some a \<Rightarrow> f_name (fl_obj fl a) | None \<Rightarrow> [])"

subsection \<open>Names that do not resemble\<close>

text \<open>
  The loop over the names up to their extensions, at the two positions; \<^term>\<open>None\<close> is the
  \<open>return true\<close> inside it, and the result holds whether the numbers differ and the positions.
\<close>

function unsimilar_loop :: "string \<Rightarrow> string \<Rightarrow> nat \<Rightarrow> nat \<Rightarrow> bool \<Rightarrow> bool \<Rightarrow> nat \<Rightarrow> nat \<Rightarrow> (bool \<times> nat \<times> nat) option" where
  "unsimilar_loop item similar ie se diff passed i j =
     (if \<not> (i < ie \<or> j < se) then Some (diff, i, j)
      else if i = ie then
        (if \<not> passed \<and> is_digit (similar ! j) \<and> j < se
         then unsimilar_loop item similar ie se True passed i (j + 1) else None)
      else if j = se then
        (if \<not> passed \<and> is_digit (item ! i) \<and> i < ie
         then unsimilar_loop item similar ie se True passed (i + 1) j else None)
      else if is_digit (item ! i) \<and> passed then None
      else if item ! i = similar ! j then
        (if i < ie \<and> j < se then unsimilar_loop item similar ie se diff passed (i + 1) (j + 1) else None)
      else if passed then None
      else
        let di = is_digit (item ! i) \<and> i < ie; dj = is_digit (similar ! j) \<and> j < se;
            i' = (if di then i + 1 else i); j' = (if dj then j + 1 else j)
        in if di \<or> dj then unsimilar_loop item similar ie se True passed i' j'
           else if diff then unsimilar_loop item similar ie se diff True i j
           else if i + 1 = ie \<and> j + 1 = se then unsimilar_loop item similar ie se True passed (i + 1) (j + 1)
           else None)"
  by pat_completeness auto
termination
  by (relation "measures [\<lambda>(item, similar, ie, se, diff, passed, i, j). (ie - i) + (se - j),
      \<lambda>(item, similar, ie, se, diff, passed, i, j). if passed then 0 else 1]") auto

declare unsimilar_loop.simps [simp del]

definition checkUnsimilar :: "string \<Rightarrow> string \<Rightarrow> bool" where
  "checkUnsimilar item similar =
     (if item = [] \<or> similar = [] then False
      else
        let ie = (case str_rfind item ''.'' (length item) of Some p \<Rightarrow> p | None \<Rightarrow> length item);
            se = (case str_rfind similar ''.'' (length similar) of Some p \<Rightarrow> p | None \<Rightarrow> length similar)
        in case unsimilar_loop item similar ie se False False 0 0 of
             None \<Rightarrow> True
           | Some (numberingdiff, i, j) \<Rightarrow> numberingdiff \<and> drop i item \<noteq> drop j similar)"

definition fl_containsUnsimilar :: "string \<Rightarrow> filelist \<Rightarrow> bool option" where
  "fl_containsUnsimilar item fl =
     (if \<not> fl_similarchecked fl then None
      else case fl_firstsimilar fl of
        None \<Rightarrow> Some False
      | Some a \<Rightarrow> Some (checkUnsimilar item (f_name (fl_obj fl a))))"


subsection \<open>Adding, changing and removing files\<close>

definition fl_set :: "nat \<Rightarrow> dirfile \<Rightarrow> filelist \<Rightarrow> filelist" where
  "fl_set a f fl = fl\<lparr>fl_heap := (fl_heap fl)(a \<mapsto> f)\<rparr>"

text \<open>A new file object goes to the end of the list and into the maps.\<close>

definition fl_insert :: "skip_verdict \<Rightarrow> dirfile \<Rightarrow> filelist \<Rightarrow> filelist" where
  "fl_insert sk f fl =
     (let a = fl_next fl;
          fl1 = (fl_set a f fl)\<lparr>fl_next := a + 1, fl_seen := fl_seen fl @ [a],
                 fl_files := (fl_files fl)(f_name f \<mapsto> a),
                 fl_lower := (fl_lower fl)(toLower (f_name f) \<mapsto> f_name f)\<rparr>
      in if fl_similarchecked fl1 \<and> fl_firstsimilar fl1 = None then fst (fl_checkSimilarFile sk a fl1)
         else fl1)"

definition fl_own :: "string \<Rightarrow> int \<Rightarrow> filelist \<Rightarrow> filelist" where
  "fl_own owner n fl =
     (if eightCharUserCompare (fl_username fl) owner then fl\<lparr>fl_owned := fl_owned fl + n\<rparr> else fl)"

definition fl_max :: "u64 \<Rightarrow> filelist \<Rightarrow> filelist" where
  "fl_max n fl = (if fl_maxfilesize fl < n then fl\<lparr>fl_maxfilesize := n\<rparr> else fl)"

text \<open>The size of a known file.\<close>

definition fl_update_size :: "u64 \<Rightarrow> nat \<Rightarrow> u64 \<Rightarrow> filelist \<Rightarrow> filelist" where
  "fl_update_size now a newsize fl =
     (let f = fl_obj fl a; oldsize = f_size f; fl1 = fl_set a (f\<lparr>f_size := newsize\<rparr>) fl
      in if oldsize \<noteq> newsize then
           let fl2 = (if f_directory f then fl1
                 else fl1\<lparr>fl_totalfilesize := fl_totalfilesize fl1 + (newsize - oldsize),
                       fl_uploadedfiles := (if oldsize = 0 \<and> 0 < newsize then fl_uploadedfiles fl1 + 1
                         else if 0 < oldsize \<and> newsize = 0 then fl_uploadedfiles fl1 - 1
                         else fl_uploadedfiles fl1)\<rparr>)
           in fl_note (f_name f) (fl_setChanged now fl2)
         else fl1)"

text \<open>The owner of a known file: the count of own files, then the file.\<close>

definition fl_update_owned :: "nat \<Rightarrow> string \<Rightarrow> filelist \<Rightarrow> filelist" where
  "fl_update_owned a owner fl =
     (let old = f_owner (fl_obj fl a)
      in if \<not> eightCharUserCompare owner old then
           fl_recalcOwnedPercentage
             (if eightCharUserCompare (fl_username fl) owner then fl\<lparr>fl_owned := fl_owned fl + 1\<rparr>
              else if eightCharUserCompare (fl_username fl) old then fl\<lparr>fl_owned := fl_owned fl - 1\<rparr>
              else fl)
         else fl)"

definition fl_update_meta :: "u64 \<Rightarrow> nat \<Rightarrow> dirfile \<Rightarrow> filelist \<Rightarrow> filelist" where
  "fl_update_meta now a new fl =
     (let f = fl_obj fl a;
          fl1 = fl_set a (f\<lparr>f_owner := f_owner new\<rparr>) fl;
          fl2 = (if f_owner f \<noteq> f_owner new then fl_note (f_name f) (fl_setMetaChanged now fl1) else fl1);
          fl3 = fl_set a ((fl_obj fl2 a)\<lparr>f_group := f_group new\<rparr>) fl2;
          fl4 = (if f_group f \<noteq> f_group new then fl_setMetaChanged now fl3 else fl3);
          fl5 = fl_set a ((fl_obj fl4 a)\<lparr>f_lastmodified := f_lastmodified new\<rparr>) fl4;
          fl6 = (if f_lastmodified f \<noteq> f_lastmodified new then fl_setMetaChanged now fl5 else fl5)
      in fl_set a ((fl_obj fl6 a)\<lparr>f_touch := f_touch new\<rparr>) fl6)"

text \<open>The statistics of a finished transfer, when the file carries an update flag.\<close>

definition fl_update_stats :: "nat \<Rightarrow> u64 \<Rightarrow> u64 \<Rightarrow> filelist \<Rightarrow> (filelist \<times> list_event list) option" where
  "fl_update_stats a oldsize newsize fl =
     (let f = fl_obj fl a
      in case f_update f of
           None \<Rightarrow> Some (fl, [])
         | Some uf \<Rightarrow>
             (let own = eightCharUserCompare (fl_username fl) (f_owner f);
                  size = (if own then newsize else oldsize); speed = f_updatespeed f;
                  push = (if own \<and> f_extension f \<noteq> ''sfv'' \<and> f_extension f \<noteq> ''nfo''
                          then [SpeedPushed (uf_src uf) (uf_dst uf) speed size] else [])
              in case (uf_srcco uf, uf_dstco uf) of
                   (Some srcco, Some dstco) \<Rightarrow> Some (fl_set a (file_unsetUpdateFlag f) fl,
                   push @ [SiteStats (uf_src uf) STATS_DOWN (uf_dst uf) size,
                     SiteStats (uf_dst uf) STATS_UP (uf_src uf) size,
                     OwnerStats srcco STATS_DOWN (uf_dst uf) size speed,
                     OwnerStats dstco STATS_UP (uf_src uf) size speed,
                     TotalStats size])
                 | _ \<Rightarrow> None))"

text \<open>A new file object \<open>f\<close>: merged into the file of its name, or added.\<close>

definition fl_updateFile :: "skip_verdict \<Rightarrow> u64 \<Rightarrow> dirfile \<Rightarrow> filelist \<Rightarrow> (filelist \<times> bool \<times> list_event list) option" where
  "fl_updateFile sk now f fl =
     (if \<not> f_valid f \<or> f_name f = ''.'' \<or> f_name f = ''..'' then Some (fl, False, [])
      else case fl_files fl (f_name f) of
        Some a \<Rightarrow>
          (let oldsize = f_size (fl_obj fl a); newsize = f_size f;
               fl1 = fl_max newsize (fl_update_size now a newsize fl);
               fl2 = fl_update_meta now a f (fl_update_owned a (f_owner f) fl1)
           in map_option (\<lambda>(fl3, es). (fl3, True, es)) (fl_update_stats a oldsize newsize fl2))
      | None \<Rightarrow>
          (let fl1 = fl_insert sk f fl;
               fl2 = (if 0 < f_size f \<and> \<not> f_directory f
                      then fl1\<lparr>fl_uploadedfiles := fl_uploadedfiles fl1 + 1,
                            fl_totalfilesize := fl_totalfilesize fl1 + f_size f\<rparr> else fl1);
               fl3 = fl_recalcOwnedPercentage (fl_own (f_owner f) 1 (fl_max (f_size f) fl2))
           in Some (fl_note (f_name f) (fl_setChanged now fl3), True, [])))"

definition fl_touchFile :: "skip_verdict \<Rightarrow> u64 \<Rightarrow> string \<Rightarrow> string \<Rightarrow> bool \<Rightarrow> filelist \<Rightarrow> filelist" where
  "fl_touchFile sk now name user upload fl =
     (let (fl1, a) = (case fl_files fl name of
            Some a \<Rightarrow> (fl_set a (file_unsetUpdateFlag (fl_obj fl a)) fl, a)
          | None \<Rightarrow>
              (fl_note name (fl_setChanged now (fl_recalcOwnedPercentage (fl_own user 1
                 (fl_insert sk (file_new name user) fl)))), fl_next fl))
      in if upload \<and> \<not> f_uploading (fl_obj fl1 a)
         then (fl_set a ((fl_obj fl1 a)\<lparr>f_uploading := True\<rparr>) fl1)\<lparr>fl_uploading := fl_uploading fl1 + 1\<rparr>
         else fl1)"

text \<open>The object of a first similar file is not deleted: the code has lost its pointer by then.\<close>

definition fl_removeFile :: "skip_verdict \<Rightarrow> u64 \<Rightarrow> string \<Rightarrow> filelist \<Rightarrow> filelist" where
  "fl_removeFile sk now name fl =
     (case fl_files fl name of
        None \<Rightarrow> fl
      | Some a \<Rightarrow>
          (let f = fl_obj fl a;
               fl1 = fl_own (f_owner f) (- 1) fl;
               fl2 = (if 0 < f_size f \<and> \<not> f_directory f
                      then fl1\<lparr>fl_uploadedfiles := fl_uploadedfiles fl1 - 1,
                            fl_totalfilesize := fl_totalfilesize fl1 - f_size f\<rparr> else fl1);
               fl3 = (if f_uploading f then fl2\<lparr>fl_uploading := fl_uploading fl2 - 1\<rparr> else fl2);
               fl4 = fl3\<lparr>fl_seen := remove1 a (fl_seen fl3), fl_files := (fl_files fl3)(name := None),
                      fl_lower := (fl_lower fl3)(toLower name := None)\<rparr>;
               fl5 = (if fl_similarchecked fl4 \<and> fl_firstsimilar fl4 = Some a
                      then fl_checkSimilar sk (fl_siteskip fl4) (fl_sectionskip fl4)
                             (fl4\<lparr>fl_similarchecked := False\<rparr>)
                      else fl4\<lparr>fl_heap := (fl_heap fl4)(a := None)\<rparr>)
           in fl_note name (fl_setChanged now (fl_recalcOwnedPercentage fl5))))"

definition fl_setFileUpdateFlag :: "u64 \<Rightarrow> string \<Rightarrow> u64 \<Rightarrow> u32 \<Rightarrow> update_flag \<Rightarrow> filelist \<Rightarrow> filelist" where
  "fl_setFileUpdateFlag now name newsize speed uf fl =
     (case fl_files fl name of
        None \<Rightarrow> fl
      | Some a \<Rightarrow>
          (let f = fl_obj fl a; oldsize = f_size f; fl1 = fl_set a (f\<lparr>f_size := newsize\<rparr>) fl;
               fl2 = (if oldsize \<noteq> newsize then
                   fl_note name (fl_setChanged now (fl_max newsize
                     (fl1\<lparr>fl_uploadedfiles := (if oldsize = 0 then fl_uploadedfiles fl1 + 1 else fl_uploadedfiles fl1),
                       fl_totalfilesize := fl_totalfilesize fl1 + (newsize - oldsize)\<rparr>)))
                 else fl1)
           in fl_set a (file_setUpdateFlag uf speed (fl_obj fl2 a)) fl2))"


subsection \<open>Sweeping, uploads and states\<close>

definition fl_cleanSweep :: "skip_verdict \<Rightarrow> u64 \<Rightarrow> int \<Rightarrow> filelist \<Rightarrow> filelist" where
  "fl_cleanSweep sk now touch fl =
     (let erase = map f_name (filter (\<lambda>f. f_touch f \<noteq> touch \<and> \<not> f_uploading f) (fl_view fl))
      in if erase \<noteq> [] then
           let fl1 = fold (fl_removeFile sk now) erase fl
           in fl_setChanged now
                (fold (\<lambda>f fl. if \<not> f_directory f then fl_max (f_size f) fl else fl) (fl_view fl1)
                   (fl1\<lparr>fl_maxfilesize := 0\<rparr>))
         else fl)"

definition fl_flush :: "filelist \<Rightarrow> filelist" where
  "fl_flush fl =
     fl\<lparr>fl_heap := (\<lambda>a. if a \<in> set (fl_seen fl) then None else fl_heap fl a),
        fl_files := (\<lambda>_. None), fl_lower := (\<lambda>_. None), fl_seen := [], fl_maxfilesize := 0,
        fl_totalfilesize := 0, fl_uploadedfiles := 0, fl_owned := 0, fl_ownpercentage := 100,
        fl_uploading := 0, fl_similarchecked := False, fl_firstsimilar := None\<rparr>"

definition fl_finishUpload :: "u64 \<Rightarrow> string \<Rightarrow> filelist \<Rightarrow> filelist" where
  "fl_finishUpload now name fl =
     (case fl_files fl name of
        None \<Rightarrow> fl
      | Some a \<Rightarrow>
          if f_uploading (fl_obj fl a)
          then fl_setChanged now ((fl_set a ((fl_obj fl a)\<lparr>f_uploading := False\<rparr>) fl)
                 \<lparr>fl_uploading := fl_uploading fl - 1\<rparr>)
          else fl)"

definition fl_finishDownload :: "string \<Rightarrow> filelist \<Rightarrow> filelist" where
  "fl_finishDownload name fl =
     (case fl_files fl name of
        None \<Rightarrow> fl
      | Some a \<Rightarrow> if file_isDownloading (fl_obj fl a) then fl_set a (file_finishDownload (fl_obj fl a)) fl else fl)"

definition fl_download :: "string \<Rightarrow> filelist \<Rightarrow> filelist" where
  "fl_download name fl =
     (case fl_files fl name of
        None \<Rightarrow> fl
      | Some a \<Rightarrow> if file_isDownloading (fl_obj fl a) then fl else fl_set a (file_download (fl_obj fl a)) fl)"

definition fl_hasFilesUploading :: "filelist \<Rightarrow> bool" where
  "fl_hasFilesUploading fl \<longleftrightarrow> 0 < fl_uploading fl"

definition fl_setNonExistent :: "filelist \<Rightarrow> filelist option" where
  "fl_setNonExistent fl = (if fl_state fl = LS_UNKNOWN then Some (fl\<lparr>fl_state := LS_NONEXISTENT\<rparr>) else None)"

definition fl_setExists :: "filelist \<Rightarrow> filelist" where
  "fl_setExists fl = fl\<lparr>fl_state := LS_EXISTS\<rparr>"

definition fl_setFilled :: "filelist \<Rightarrow> filelist" where
  "fl_setFilled fl = fl\<lparr>fl_state := LS_LISTED\<rparr>"

definition fl_setPreFailed :: "filelist \<Rightarrow> filelist" where
  "fl_setPreFailed fl = fl\<lparr>fl_state := LS_PRE_FAIL\<rparr>"

definition fl_setFailed :: "u64 \<Rightarrow> filelist \<Rightarrow> filelist" where
  "fl_setFailed now fl = (if fl_state fl \<noteq> LS_FAILED then fl_setChanged now fl else fl)\<lparr>fl_state := LS_FAILED\<rparr>"

definition fl_setRefreshed :: "u64 \<Rightarrow> filelist \<Rightarrow> filelist" where
  "fl_setRefreshed now fl = fst (fl_bumpUpdateState US_REFRESHED (fl\<lparr>fl_lastrefreshed := now\<rparr>))"

definition MAX_LIST_FAILURES :: int where
  "MAX_LIST_FAILURES = 3"

definition fl_addListFailure :: "u64 \<Rightarrow> filelist \<Rightarrow> filelist \<times> bool" where
  "fl_addListFailure now fl =
     (let fl1 = fl\<lparr>fl_listfailures := fl_listfailures fl + 1\<rparr>
      in if MAX_LIST_FAILURES \<le> fl_listfailures fl1 then (fl_setFailed now fl1, True) else (fl1, False))"

definition fl_setInScoreBoard :: "bool \<Rightarrow> filelist \<Rightarrow> filelist" where
  "fl_setInScoreBoard b fl = fl\<lparr>fl_insb := b\<rparr>"

text \<open>The operations of a history; \<^term>\<open>None\<close> stops it.\<close>

datatype list_op =
    UpdateFile u64 dirfile
  | TouchFile u64 string string bool
  | RemoveFile u64 string
  | SetUpdateFlag u64 string u64 u32 update_flag
  | CleanSweep u64 int
  | Flush
  | FinishUpload u64 string
  | FinishDownload string
  | Download string
  | CheckSimilar "nat option" "nat option"
  | SetNonExistent | SetExists | SetFilled | SetPreFailed
  | SetFailed u64
  | SetRefreshed u64
  | AddListFailure u64
  | ResetUpdateState | ResetScoreBoardUpdates
  | SetInScoreBoard bool

fun fl_step :: "skip_verdict \<Rightarrow> list_op \<Rightarrow> filelist \<Rightarrow> filelist option" where
  "fl_step sk (UpdateFile now f) fl = map_option fst (fl_updateFile sk now f fl)"
| "fl_step sk (TouchFile now name user upload) fl = Some (fl_touchFile sk now name user upload fl)"
| "fl_step sk (RemoveFile now name) fl = Some (fl_removeFile sk now name fl)"
| "fl_step sk (SetUpdateFlag now name newsize speed uf) fl = Some (fl_setFileUpdateFlag now name newsize speed uf fl)"
| "fl_step sk (CleanSweep now touch) fl = Some (fl_cleanSweep sk now touch fl)"
| "fl_step sk Flush fl = Some (fl_flush fl)"
| "fl_step sk (FinishUpload now name) fl = Some (fl_finishUpload now name fl)"
| "fl_step sk (FinishDownload name) fl = Some (fl_finishDownload name fl)"
| "fl_step sk (Download name) fl = Some (fl_download name fl)"
| "fl_step sk (CheckSimilar siteskip sectionskip) fl = Some (fl_checkSimilar sk siteskip sectionskip fl)"
| "fl_step sk SetNonExistent fl = fl_setNonExistent fl"
| "fl_step sk SetExists fl = Some (fl_setExists fl)"
| "fl_step sk SetFilled fl = Some (fl_setFilled fl)"
| "fl_step sk SetPreFailed fl = Some (fl_setPreFailed fl)"
| "fl_step sk (SetFailed now) fl = Some (fl_setFailed now fl)"
| "fl_step sk (SetRefreshed now) fl = Some (fl_setRefreshed now fl)"
| "fl_step sk (AddListFailure now) fl = Some (fst (fl_addListFailure now fl))"
| "fl_step sk ResetUpdateState fl = Some (fl_resetUpdateState fl)"
| "fl_step sk ResetScoreBoardUpdates fl = Some (fl_resetScoreBoardUpdates fl)"
| "fl_step sk (SetInScoreBoard b) fl = Some (fl_setInScoreBoard b fl)"

end
