(* ===== verification/FileListInv.thy ===== *)
theory FileListInv
  imports FileListModel
begin

text \<open>
  What holds of a file list in every history: the pointers of the list, of the map and of the
  similar file are those of live objects and agree (no condition on the history), and the counters
  are the sums over the files (as long as update flags do not empty files or size directories).
\<close>

subsection \<open>The state that matters\<close>

definition fl_shape :: "filelist \<Rightarrow> bool" where
  "fl_shape fl \<longleftrightarrow>
     distinct (fl_seen fl)
     \<and> (\<forall>a. a \<in> set (fl_seen fl) \<longrightarrow> fl_heap fl a \<noteq> None \<and> fl_files fl (f_name (fl_obj fl a)) = Some a)
     \<and> (\<forall>n a. fl_files fl n = Some a \<longrightarrow> a \<in> set (fl_seen fl) \<and> f_name (fl_obj fl a) = n)
     \<and> (\<forall>a. fl_heap fl a \<noteq> None \<longrightarrow> a < fl_next fl)
     \<and> (\<forall>a. fl_firstsimilar fl = Some a \<longrightarrow> fl_heap fl a \<noteq> None \<and> fl_similarchecked fl)"

definition tot :: "(dirfile \<Rightarrow> 'b::ab_group_add) \<Rightarrow> (nat \<Rightarrow> dirfile option) \<Rightarrow> nat list \<Rightarrow> 'b" where
  "tot w h as = (\<Sum>a\<in>set as. w (the (h a)))"

definition w_size :: "dirfile \<Rightarrow> u64" where
  "w_size f = (if f_directory f then 0 else f_size f)"

definition w_uploaded :: "dirfile \<Rightarrow> u32" where
  "w_uploaded f = (if 0 < f_size f \<and> \<not> f_directory f then 1 else 0)"

definition w_uploading :: "dirfile \<Rightarrow> int" where
  "w_uploading f = (if f_uploading f then 1 else 0)"

definition w_own :: "string \<Rightarrow> dirfile \<Rightarrow> int" where
  "w_own user f = (if eightCharUserCompare user (f_owner f) then 1 else 0)"

definition fl_counts :: "filelist \<Rightarrow> bool" where
  "fl_counts fl \<longleftrightarrow>
     fl_totalfilesize fl = tot w_size (fl_heap fl) (fl_seen fl)
     \<and> fl_uploadedfiles fl = tot w_uploaded (fl_heap fl) (fl_seen fl)
     \<and> fl_uploading fl = tot w_uploading (fl_heap fl) (fl_seen fl)"

definition fl_owns :: "filelist \<Rightarrow> bool" where
  "fl_owns fl \<longleftrightarrow> fl_owned fl = tot (w_own (fl_username fl)) (fl_heap fl) (fl_seen fl)"

subsection \<open>Sums over the files\<close>

lemma tot_other: "a \<notin> set as \<Longrightarrow> tot w (h(a := x)) as = tot w h as"
  unfolding tot_def by (intro sum.cong) auto

lemma tot_upd:
  assumes "a \<in> set as"
  shows "tot w (h(a \<mapsto> f)) as = tot w h as - w (the (h a)) + w f"
proof -
  have "tot w g as = w (the (g a)) + (\<Sum>b\<in>set as - {a}. w (the (g b)))" for g
    unfolding tot_def using assms by (simp add: sum.remove)
  from this [of "h(a \<mapsto> f)"] this [of h] show ?thesis
    by simp
qed

lemma tot_new: "a \<notin> set as \<Longrightarrow> tot w (h(a \<mapsto> f)) (as @ [a]) = tot w h as + w f"
  using tot_other [of a as w h] by (simp add: tot_def add.commute)

lemma tot_remove:
  assumes "distinct as" "a \<in> set as"
  shows "tot w h (remove1 a as) = tot w h as - w (the (h a))"
  using assms by (simp add: tot_def sum.remove)

lemma tot_Nil [simp]: "tot w h [] = 0"
  by (simp add: tot_def)

subsection \<open>Operations that only take notes\<close>

text \<open>The fields the invariants speak of.\<close>

definition fl_core where
  "fl_core fl = (fl_heap fl, fl_next fl, fl_files fl, fl_seen fl, fl_firstsimilar fl,
     fl_totalfilesize fl, fl_uploadedfiles fl, fl_uploading fl, fl_username fl, fl_owned fl, fl_similarchecked fl)"

lemma core_shape: "fl_core fl' = fl_core fl \<Longrightarrow> fl_shape fl' = fl_shape fl"
  by (simp add: fl_core_def fl_shape_def fl_obj_def)

lemma core_counts: "fl_core fl' = fl_core fl \<Longrightarrow> fl_counts fl' = fl_counts fl"
  by (simp add: fl_core_def fl_counts_def)

lemma core_owns: "fl_core fl' = fl_core fl \<Longrightarrow> fl_owns fl' = fl_owns fl"
  by (simp add: fl_core_def fl_owns_def)

lemma core_bump [simp]: "fl_core (fst (fl_bumpUpdateState u fl)) = fl_core fl"
  by (simp add: fl_bumpUpdateState_def fl_core_def)

lemma core_setChanged [simp]: "fl_core (fl_setChanged now fl) = fl_core fl"
  using core_bump [of US_CHANGED fl] by (simp add: fl_setChanged_def fl_core_def)

lemma core_setMetaChanged [simp]: "fl_core (fl_setMetaChanged now fl) = fl_core fl"
  using core_bump [of US_META_CHANGED fl] by (simp add: fl_setMetaChanged_def fl_core_def)

lemma core_note [simp]: "fl_core (fl_note n fl) = fl_core fl"
  by (simp add: fl_note_def fl_core_def)

lemma core_recalc [simp]: "fl_core (fl_recalcOwnedPercentage fl) = fl_core fl"
  by (simp add: fl_recalcOwnedPercentage_def fl_core_def)

lemma core_max [simp]: "fl_core (fl_max n fl) = fl_core fl"
  by (simp add: fl_max_def fl_core_def)

lemma core_setFailed [simp]: "fl_core (fl_setFailed now fl) = fl_core fl"
  using core_setChanged [of now fl] by (simp add: fl_setFailed_def fl_core_def)

lemma core_fold_max [simp]:
  "fl_core (fold (\<lambda>f fl. if \<not> f_directory f then fl_max (f_size f) fl else fl) fs fl) = fl_core fl"
  by (induction fs arbitrary: fl) auto

text \<open>Each field of a note-taking operation.\<close>

lemma core_fields:
  "fl_core fl' = fl_core fl \<Longrightarrow> fl_heap fl' = fl_heap fl \<and> fl_next fl' = fl_next fl
    \<and> fl_files fl' = fl_files fl \<and> fl_seen fl' = fl_seen fl \<and> fl_firstsimilar fl' = fl_firstsimilar fl
    \<and> fl_totalfilesize fl' = fl_totalfilesize fl \<and> fl_uploadedfiles fl' = fl_uploadedfiles fl
    \<and> fl_uploading fl' = fl_uploading fl \<and> fl_username fl' = fl_username fl
    \<and> fl_owned fl' = fl_owned fl \<and> fl_obj fl' = fl_obj fl \<and> fl_similarchecked fl' = fl_similarchecked fl"
  by (simp add: fl_core_def fl_obj_def fun_eq_iff)

lemmas note_fields [simp] =
  core_fields [OF core_setChanged] core_fields [OF core_setMetaChanged] core_fields [OF core_note]
  core_fields [OF core_recalc] core_fields [OF core_max] core_fields [OF core_bump]
  core_fields [OF core_setFailed] core_fields [OF core_fold_max]


subsection \<open>The shape\<close>

lemma fl_obj_set [simp]: "fl_obj (fl_set a f fl) b = (if b = a then f else fl_obj fl b)"
  by (simp add: fl_obj_def fl_set_def)

lemma fl_set_fields [simp]:
  "fl_heap (fl_set a f fl) = (fl_heap fl)(a \<mapsto> f)" "fl_next (fl_set a f fl) = fl_next fl"
  "fl_files (fl_set a f fl) = fl_files fl" "fl_seen (fl_set a f fl) = fl_seen fl"
  "fl_firstsimilar (fl_set a f fl) = fl_firstsimilar fl"
  "fl_totalfilesize (fl_set a f fl) = fl_totalfilesize fl"
  "fl_uploadedfiles (fl_set a f fl) = fl_uploadedfiles fl" "fl_uploading (fl_set a f fl) = fl_uploading fl"
  "fl_username (fl_set a f fl) = fl_username fl" "fl_owned (fl_set a f fl) = fl_owned fl"
  "fl_similarchecked (fl_set a f fl) = fl_similarchecked fl"
  by (simp_all add: fl_set_def)

lemma fl_shapeD:
  assumes "fl_shape fl"
  shows "distinct (fl_seen fl)" "a \<in> set (fl_seen fl) \<Longrightarrow> fl_heap fl a \<noteq> None"
    "a \<in> set (fl_seen fl) \<Longrightarrow> fl_files fl (f_name (fl_obj fl a)) = Some a"
    "fl_files fl n = Some a \<Longrightarrow> a \<in> set (fl_seen fl)" "fl_files fl n = Some a \<Longrightarrow> f_name (fl_obj fl a) = n"
    "fl_heap fl a \<noteq> None \<Longrightarrow> a < fl_next fl" "fl_firstsimilar fl = Some a \<Longrightarrow> fl_heap fl a \<noteq> None"
    "fl_firstsimilar fl = Some a \<Longrightarrow> fl_similarchecked fl"
  using assms unfolding fl_shape_def by blast+

lemma fl_shape_look:
  assumes "fl_shape fl" "fl_files fl n = Some a"
  shows "a \<in> set (fl_seen fl)" "f_name (fl_obj fl a) = n" "fl_heap fl a = Some (fl_obj fl a)"
  using assms unfolding fl_shape_def fl_obj_def by force+

lemma shape_set:
  assumes "fl_shape fl" "a \<in> set (fl_seen fl)" "f_name f = f_name (fl_obj fl a)"
  shows "fl_shape (fl_set a f fl)"
proof -
  have "a < fl_next fl" using assms(1,2) by (auto simp: fl_shape_def)
  with assms show ?thesis unfolding fl_shape_def by auto
qed

lemma checkSimilarFile_cases:
  "fst (fl_checkSimilarFile sk a fl) = fl \<or> fst (fl_checkSimilarFile sk a fl) = fl\<lparr>fl_firstsimilar := Some a\<rparr>"
  by (auto simp: fl_checkSimilarFile_def split: option.split)

lemma similar_loop_cases:
  "similar_loop sk as fl = fl \<or> (\<exists>a \<in> set as. similar_loop sk as fl = fl\<lparr>fl_firstsimilar := Some a\<rparr>)"
proof (induction as)
  case (Cons a as)
  then show ?case by (auto simp: fl_checkSimilarFile_def split: option.split)
qed simp

lemma shape_similar:
  "fl_shape fl \<Longrightarrow> a \<in> set (fl_seen fl) \<Longrightarrow> fl_similarchecked fl \<Longrightarrow>
     fl_shape (fl\<lparr>fl_firstsimilar := Some a\<rparr>)"
  by (auto simp: fl_shape_def fl_obj_def)

lemma shape_checkSimilar: "fl_shape fl \<Longrightarrow> fl_shape (fl_checkSimilar sk s1 s2 fl)"
proof -
  let ?fl = "fl\<lparr>fl_similarchecked := True, fl_siteskip := s1, fl_sectionskip := s2\<rparr>"
  assume "fl_shape fl"
  then have *: "fl_shape ?fl" unfolding fl_shape_def fl_obj_def by simp
  from similar_loop_cases [of sk "fl_seen fl" ?fl] show ?thesis
  proof (elim disjE bexE)
    assume "similar_loop sk (fl_seen fl) ?fl = ?fl"
    with * show ?thesis by (simp add: fl_checkSimilar_def)
  next
    fix a assume "similar_loop sk (fl_seen fl) ?fl = ?fl\<lparr>fl_firstsimilar := Some a\<rparr>" "a \<in> set (fl_seen fl)"
    with shape_similar [OF *, of a] show ?thesis by (simp add: fl_checkSimilar_def)
  qed
qed

lemma checkSimilar_is:
  "\<exists>x. fl_checkSimilar sk s1 s2 fl = fl\<lparr>fl_similarchecked := True, fl_siteskip := s1,
     fl_sectionskip := s2, fl_firstsimilar := x\<rparr>"
proof -
  let ?fl = "fl\<lparr>fl_similarchecked := True, fl_siteskip := s1, fl_sectionskip := s2\<rparr>"
  from similar_loop_cases [of sk "fl_seen fl" ?fl] show ?thesis
  proof (elim disjE bexE)
    assume "similar_loop sk (fl_seen fl) ?fl = ?fl"
    then show ?thesis unfolding fl_checkSimilar_def by (intro exI [of _ "fl_firstsimilar fl"]) simp
  next
    fix a assume "similar_loop sk (fl_seen fl) ?fl = ?fl\<lparr>fl_firstsimilar := Some a\<rparr>"
    then show ?thesis unfolding fl_checkSimilar_def by (intro exI [of _ "Some a"]) simp
  qed
qed

lemma fl_checkSimilar_fields [simp]:
  "fl_heap (fl_checkSimilar sk s1 s2 fl) = fl_heap fl" "fl_next (fl_checkSimilar sk s1 s2 fl) = fl_next fl"
  "fl_files (fl_checkSimilar sk s1 s2 fl) = fl_files fl" "fl_seen (fl_checkSimilar sk s1 s2 fl) = fl_seen fl"
  "fl_totalfilesize (fl_checkSimilar sk s1 s2 fl) = fl_totalfilesize fl"
  "fl_uploadedfiles (fl_checkSimilar sk s1 s2 fl) = fl_uploadedfiles fl"
  "fl_uploading (fl_checkSimilar sk s1 s2 fl) = fl_uploading fl"
  "fl_username (fl_checkSimilar sk s1 s2 fl) = fl_username fl" "fl_owned (fl_checkSimilar sk s1 s2 fl) = fl_owned fl"
  by (rule exE [OF checkSimilar_is [of sk s1 s2 fl]], simp)+

text \<open>A new object and its entries, before the search for a similar file.\<close>

definition fl_added :: "dirfile \<Rightarrow> filelist \<Rightarrow> filelist" where
  "fl_added f fl =
     (let a = fl_next fl in (fl_set a f fl)\<lparr>fl_next := a + 1, fl_seen := fl_seen fl @ [a],
        fl_files := (fl_files fl)(f_name f \<mapsto> a), fl_lower := (fl_lower fl)(toLower (f_name f) \<mapsto> f_name f)\<rparr>)"

lemma fl_insert_cases:
  "fl_insert sk f fl = fl_added f fl
   \<or> fl_similarchecked fl \<and> fl_insert sk f fl = (fl_added f fl)\<lparr>fl_firstsimilar := Some (fl_next fl)\<rparr>"
  using checkSimilarFile_cases [of sk "fl_next fl" "fl_added f fl"]
  unfolding fl_insert_def fl_added_def Let_def by auto

lemma fl_insert_fields [simp]:
  "fl_heap (fl_insert sk f fl) = (fl_heap fl)(fl_next fl \<mapsto> f)"
  "fl_files (fl_insert sk f fl) = (fl_files fl)(f_name f \<mapsto> fl_next fl)"
  "fl_seen (fl_insert sk f fl) = fl_seen fl @ [fl_next fl]"
  "fl_totalfilesize (fl_insert sk f fl) = fl_totalfilesize fl"
  "fl_uploadedfiles (fl_insert sk f fl) = fl_uploadedfiles fl"
  "fl_uploading (fl_insert sk f fl) = fl_uploading fl"
  "fl_username (fl_insert sk f fl) = fl_username fl" "fl_owned (fl_insert sk f fl) = fl_owned fl"
  by (rule disjE [OF fl_insert_cases [of sk f fl]], simp add: fl_added_def Let_def, simp add: fl_added_def Let_def)+

lemma fl_shape_next: "fl_shape fl \<Longrightarrow> fl_next fl \<notin> set (fl_seen fl) \<and> fl_heap fl (fl_next fl) = None"
  unfolding fl_shape_def by (metis less_irrefl)

lemma fl_added_fields:
  "fl_heap (fl_added f fl) = (fl_heap fl)(fl_next fl \<mapsto> f)"
  "fl_next (fl_added f fl) = Suc (fl_next fl)" "fl_seen (fl_added f fl) = fl_seen fl @ [fl_next fl]"
  "fl_files (fl_added f fl) = (fl_files fl)(f_name f \<mapsto> fl_next fl)"
  "fl_firstsimilar (fl_added f fl) = fl_firstsimilar fl" "fl_similarchecked (fl_added f fl) = fl_similarchecked fl"
  "fl_obj (fl_added f fl) a = (if a = fl_next fl then f else fl_obj fl a)"
  by (simp_all add: fl_added_def Let_def fl_obj_def)

lemma shape_added:
  assumes "fl_shape fl" "fl_files fl (f_name f) = None"
  shows "fl_shape (fl_added f fl)"
proof -
  have n: "fl_next fl \<notin> set (fl_seen fl)"
    using fl_shape_next [OF assms(1)] by auto
  note D = fl_shapeD [OF assms(1)]
  have old: "f_name (fl_obj fl a) \<noteq> f_name f" if "a \<in> set (fl_seen fl)" for a
    using D(3) [OF that] assms(2) by auto
  show ?thesis
    unfolding fl_shape_def fl_added_fields
  proof (intro conjI allI impI)
    show "distinct (fl_seen fl @ [fl_next fl])" using D(1) n by simp
  next
    fix a assume a: "a \<in> set (fl_seen fl @ [fl_next fl])"
    show "((fl_heap fl)(fl_next fl \<mapsto> f)) a \<noteq> None" using D(2) [of a] a by auto
    show "((fl_files fl)(f_name f \<mapsto> fl_next fl)) (f_name (if a = fl_next fl then f else fl_obj fl a)) = Some a"
      using D(3) [of a] old [of a] a by auto
  next
    fix m a assume ma: "((fl_files fl)(f_name f \<mapsto> fl_next fl)) m = Some a"
    show "a \<in> set (fl_seen fl @ [fl_next fl])" using D(4) [of m a] ma by (cases "m = f_name f") auto
    show "f_name (if a = fl_next fl then f else fl_obj fl a) = m"
      using D(4,5) [of m a] ma n by (cases "m = f_name f") auto
  next
    fix a assume "((fl_heap fl)(fl_next fl \<mapsto> f)) a \<noteq> None"
    then show "a < Suc (fl_next fl)" using D(6) [of a] by (cases "a = fl_next fl") auto
  next
    fix a assume "fl_firstsimilar fl = Some a"
    from D(7,8) [OF this] show "((fl_heap fl)(fl_next fl \<mapsto> f)) a \<noteq> None" "fl_similarchecked fl" by simp_all
  qed
qed

lemma shape_insert:
  assumes "fl_shape fl" "fl_files fl (f_name f) = None"
  shows "fl_shape (fl_insert sk f fl)"
  using fl_insert_cases [of sk f fl]
proof (elim disjE conjE)
  assume "fl_insert sk f fl = fl_added f fl"
  with shape_added [OF assms] show ?thesis by simp
next
  assume "fl_similarchecked fl" "fl_insert sk f fl = (fl_added f fl)\<lparr>fl_firstsimilar := Some (fl_next fl)\<rparr>"
  with shape_similar [OF shape_added [OF assms], of "fl_next fl"] show ?thesis
    by (simp add: fl_added_fields)
qed

text \<open>Removal without the search for another similar file.\<close>

lemma shape_unlink:
  assumes "fl_shape fl" "fl_files fl n = Some a"
    and "fl_seen fl' = remove1 a (fl_seen fl)" "fl_files fl' = (fl_files fl)(n := None)"
    and "fl_next fl' = fl_next fl" "fl_firstsimilar fl' = fl_firstsimilar fl"
    "fl_similarchecked fl' = fl_similarchecked fl"
    and "fl_heap fl' = fl_heap fl \<or> fl_heap fl' = (fl_heap fl)(a := None) \<and> fl_firstsimilar fl \<noteq> Some a"
  shows "fl_shape fl'"
proof -
  have d: "distinct (fl_seen fl)" using assms(1) by (simp add: fl_shape_def)
  have names: "f_name (fl_obj fl b) \<noteq> n" if "b \<in> set (fl_seen fl)" "b \<noteq> a" for b
    using assms(1,2) that unfolding fl_shape_def by (metis option.inject)
  have h: "fl_obj fl' b = fl_obj fl b \<and> fl_heap fl' b = fl_heap fl b" if "b \<noteq> a" for b
    using assms(8) that by (auto simp: fl_obj_def)
  show ?thesis
    unfolding fl_shape_def assms(3-7)
  proof (intro conjI allI impI)
    show "distinct (remove1 a (fl_seen fl))" using d by simp
  next
    fix b assume "b \<in> set (remove1 a (fl_seen fl))"
    then have "b \<in> set (fl_seen fl)" "b \<noteq> a" using d by auto
    with h names assms(1) show "fl_heap fl' b \<noteq> None"
      "((fl_files fl)(n := None)) (f_name (fl_obj fl' b)) = Some b" by (auto simp: fl_shape_def)
  next
    fix m b assume "((fl_files fl)(n := None)) m = Some b"
    then have m: "m \<noteq> n" "fl_files fl m = Some b" by (auto split: if_splits)
    with fl_shape_look [OF assms(1) this(2)] fl_shape_look [OF assms(1,2)] have "b \<noteq> a" by auto
    with m fl_shape_look [OF assms(1) m(2)] h d
    show "b \<in> set (remove1 a (fl_seen fl))" "f_name (fl_obj fl' b) = m" by auto
  next
    fix b assume "fl_heap fl' b \<noteq> None"
    then show "b < fl_next fl" using assms(1,8) by (auto simp: fl_shape_def split: if_splits)
  next
    fix b assume "fl_firstsimilar fl = Some b"
    with assms(1,8) fl_shapeD(7,8) [OF assms(1) this] show "fl_heap fl' b \<noteq> None" "fl_similarchecked fl"
      by auto
  qed
qed


lemma fl_insert_next [simp]: "fl_next (fl_insert sk f fl) = Suc (fl_next fl)"
  by (rule disjE [OF fl_insert_cases [of sk f fl]], simp add: fl_added_fields, simp add: fl_added_fields)

subsection \<open>Changes of one file\<close>

text \<open>\<open>fl'\<close> is \<open>fl\<close> with the object at \<open>a\<close> changed to \<open>f\<close>, and counters and notes of any kind.\<close>

definition fl_sets :: "nat \<Rightarrow> dirfile \<Rightarrow> filelist \<Rightarrow> filelist \<Rightarrow> bool" where
  "fl_sets a f fl fl' \<longleftrightarrow>
     fl_heap fl' = (fl_heap fl)(a \<mapsto> f) \<and> fl_next fl' = fl_next fl \<and> fl_files fl' = fl_files fl
     \<and> fl_seen fl' = fl_seen fl \<and> fl_firstsimilar fl' = fl_firstsimilar fl \<and> fl_username fl' = fl_username fl
     \<and> fl_similarchecked fl' = fl_similarchecked fl"

lemma fl_sets_trans: "fl_sets a f fl fl1 \<Longrightarrow> fl_sets a g fl1 fl2 \<Longrightarrow> fl_sets a g fl fl2"
  by (simp add: fl_sets_def)

lemma fl_sets_obj: "fl_sets a f fl fl' \<Longrightarrow> fl_obj fl' b = (if b = a then f else fl_obj fl b)"
  by (simp add: fl_sets_def fl_obj_def)

lemma fl_sets_set [simp]: "fl_sets a f fl (fl_set a f fl)"
  by (simp add: fl_sets_def)

lemma fl_sets_core: "fl_sets a f fl fl1 \<Longrightarrow> fl_core fl2 = fl_core fl1 \<Longrightarrow> fl_sets a f fl fl2"
  by (simp add: fl_sets_def fl_core_def)

lemma fl_sets_refl: "fl_heap fl a = Some (fl_obj fl a) \<Longrightarrow> fl_sets a (fl_obj fl a) fl fl"
  by (auto simp: fl_sets_def)

lemma shape_sets:
  assumes "fl_sets a f fl fl'" "fl_shape fl" "a \<in> set (fl_seen fl)" "f_name f = f_name (fl_obj fl a)"
  shows "fl_shape fl'"
proof -
  have "fl_shape (fl_set a f fl)" using assms by (intro shape_set)
  moreover have "fl_obj fl' = fl_obj (fl_set a f fl)" using fl_sets_obj [OF assms(1)] by auto
  ultimately show ?thesis using assms(1) unfolding fl_shape_def fl_sets_def by simp
qed

lemma counts_sets:
  assumes "fl_sets a f fl fl'" "a \<in> set (fl_seen fl)" "fl_counts fl"
    and "fl_totalfilesize fl' = fl_totalfilesize fl - w_size (fl_obj fl a) + w_size f"
    and "fl_uploadedfiles fl' = fl_uploadedfiles fl - w_uploaded (fl_obj fl a) + w_uploaded f"
    and "fl_uploading fl' = fl_uploading fl - w_uploading (fl_obj fl a) + w_uploading f"
  shows "fl_counts fl'"
  using assms by (simp add: fl_counts_def fl_sets_def tot_upd fl_obj_def)

lemma owns_sets:
  assumes "fl_sets a f fl fl'" "a \<in> set (fl_seen fl)" "fl_owns fl"
    and "fl_owned fl' = fl_owned fl - w_own (fl_username fl) (fl_obj fl a) + w_own (fl_username fl) f"
  shows "fl_owns fl'"
  using assms by (simp add: fl_owns_def fl_sets_def tot_upd fl_obj_def)

text \<open>The counters.\<close>

definition fl_cnts where
  "fl_cnts fl = (fl_totalfilesize fl, fl_uploadedfiles fl, fl_uploading fl, fl_owned fl)"

lemma sets_same:
  assumes "fl_sets a f fl fl'" "fl_shape fl" "a \<in> set (fl_seen fl)" "fl_cnts fl' = fl_cnts fl"
    and "f_name f = f_name (fl_obj fl a)" "f_size f = f_size (fl_obj fl a)"
    and "f_directory f = f_directory (fl_obj fl a)" "f_uploading f = f_uploading (fl_obj fl a)"
  shows "fl_shape fl'" "fl_counts fl \<Longrightarrow> fl_counts fl'"
    "fl_owns fl \<Longrightarrow> w_own (fl_username fl) f = w_own (fl_username fl) (fl_obj fl a) \<Longrightarrow> fl_owns fl'"
proof -
  show "fl_shape fl'" by (rule shape_sets [OF assms(1-3,5)])
  show "fl_counts fl \<Longrightarrow> fl_counts fl'"
    by (rule counts_sets [OF assms(1,3)])
      (use assms(4,6-8) in \<open>auto simp: fl_cnts_def w_size_def w_uploaded_def w_uploading_def\<close>)
  show "fl_owns fl \<Longrightarrow> w_own (fl_username fl) f = w_own (fl_username fl) (fl_obj fl a) \<Longrightarrow> fl_owns fl'"
    by (rule owns_sets [OF assms(1,3)]) (use assms(4) in \<open>auto simp: fl_cnts_def\<close>)
qed

lemma cnts_core: "fl_core fl' = fl_core fl \<Longrightarrow> fl_cnts fl' = fl_cnts fl"
  by (simp add: fl_core_def fl_cnts_def)

lemma fl_update_size_sets:
  "fl_sets a ((fl_obj fl a)\<lparr>f_size := n\<rparr>) fl (fl_update_size now a n fl)"
  by (simp add: fl_update_size_def Let_def fl_sets_def)

lemma fl_update_size_ok:
  assumes "fl_shape fl" "a \<in> set (fl_seen fl)"
  shows "fl_shape (fl_update_size now a n fl)" "fl_counts fl \<Longrightarrow> fl_counts (fl_update_size now a n fl)"
    "fl_owns fl \<Longrightarrow> fl_owns (fl_update_size now a n fl)"
proof -
  show "fl_shape (fl_update_size now a n fl)"
    by (rule shape_sets [OF fl_update_size_sets assms]) simp
  show "fl_counts fl \<Longrightarrow> fl_counts (fl_update_size now a n fl)"
    by (rule counts_sets [OF fl_update_size_sets assms(2)])
      (auto simp: fl_update_size_def Let_def w_size_def w_uploaded_def w_uploading_def word_neq_0_conv)
  show "fl_owns fl \<Longrightarrow> fl_owns (fl_update_size now a n fl)"
    by (rule owns_sets [OF fl_update_size_sets assms(2)])
      (auto simp: fl_update_size_def Let_def w_own_def)
qed

lemma fl_update_meta_sets:
  "fl_sets a ((fl_obj fl a)\<lparr>f_owner := f_owner new, f_group := f_group new,
      f_lastmodified := f_lastmodified new, f_touch := f_touch new\<rparr>) fl (fl_update_meta now a new fl)
   \<and> fl_cnts (fl_update_meta now a new fl) = fl_cnts fl"
  by (simp add: fl_update_meta_def Let_def fl_sets_def fl_cnts_def)

lemma fl_update_owned_sets:
  assumes "fl_heap fl a = Some (fl_obj fl a)"
  shows "fl_sets a (fl_obj fl a) fl (fl_update_owned a owner fl)"
    "fl_cnts (fl_update_owned a owner fl)
     = fl_cnts (fl\<lparr>fl_owned := fl_owned fl + (let old = f_owner (fl_obj fl a); u = fl_username fl in
         if eightCharUserCompare owner old then 0 else if eightCharUserCompare u owner then 1
         else if eightCharUserCompare u old then - 1 else 0)\<rparr>)"
  using fl_sets_refl [OF assms]
  by (simp_all add: fl_update_owned_def Let_def fl_sets_def fl_cnts_def)

lemma unset_none: "f_update f = None \<Longrightarrow> file_unsetUpdateFlag f = f" for f :: dirfile
  by (cases f) (simp add: file_unsetUpdateFlag_def)

lemma fl_update_stats_sets:
  assumes "fl_update_stats a m n fl = Some (fl', es)" "fl_heap fl a = Some (fl_obj fl a)"
  shows "fl_cnts fl' = fl_cnts fl" "fl_sets a (file_unsetUpdateFlag (fl_obj fl a)) fl fl'"
proof -
  have "fl_cnts fl' = fl_cnts fl \<and> fl_sets a (file_unsetUpdateFlag (fl_obj fl a)) fl fl'"
  proof (cases "f_update (fl_obj fl a)")
    case None
    with assms(1) have "fl' = fl" by (simp add: fl_update_stats_def)
    with fl_sets_refl [OF assms(2)] unset_none [OF None] show ?thesis by simp
  next
    case (Some uf)
    with assms(1) have "fl' = fl_set a (file_unsetUpdateFlag (fl_obj fl a)) fl"
      by (simp add: fl_update_stats_def Let_def split: option.splits)
    then show ?thesis by (simp add: fl_cnts_def)
  qed
  then show "fl_cnts fl' = fl_cnts fl" "fl_sets a (file_unsetUpdateFlag (fl_obj fl a)) fl fl'" by simp_all
qed

text \<open>What a listing line makes of the file it is for.\<close>

definition file_merge :: "dirfile \<Rightarrow> dirfile \<Rightarrow> dirfile" where
  "file_merge old new = old\<lparr>f_size := f_size new, f_owner := f_owner new, f_group := f_group new,
     f_lastmodified := f_lastmodified new, f_touch := f_touch new, f_update := None\<rparr>"

definition short_names :: "filelist \<Rightarrow> bool" where
  "short_names fl \<longleftrightarrow> length (fl_username fl) \<le> 8
     \<and> (\<forall>a \<in> set (fl_seen fl). length (f_owner (fl_obj fl a)) \<le> 8)"

lemma short_compare: "length a \<le> 8 \<Longrightarrow> length b \<le> 8 \<Longrightarrow> eightCharUserCompare a b \<longleftrightarrow> a = b"
  by (simp add: eightCharUserCompare_def)

text \<open>The owner and the other columns of a listing line for a known file.\<close>

lemma fl_update_columns:
  fixes f :: dirfile and now :: u64
  assumes shape: "fl_shape fl" and a: "a \<in> set (fl_seen fl)"
  defines "fl' \<equiv> fl_update_meta now a f (fl_update_owned a (f_owner f) fl)"
    and "g \<equiv> (fl_obj fl a)\<lparr>f_owner := f_owner f, f_group := f_group f,
      f_lastmodified := f_lastmodified f, f_touch := f_touch f\<rparr>"
  shows "fl_sets a g fl fl'" "fl_shape fl'" "fl_counts fl \<Longrightarrow> fl_counts fl'"
    "fl_owns fl \<Longrightarrow> short_names fl \<Longrightarrow> length (f_owner f) \<le> 8 \<Longrightarrow> fl_owns fl'"
proof -
  define flo where "flo = fl_update_owned a (f_owner f) fl"
  have heap: "fl_heap fl a = Some (fl_obj fl a)" using fl_shapeD(2) [OF shape a] by (auto simp: fl_obj_def)
  note so = fl_update_owned_sets [OF heap, of "f_owner f", folded flo_def]
  have objo: "fl_obj flo a = fl_obj fl a" using fl_sets_obj [OF so(1)] by simp
  note m = fl_update_meta_sets [where a = a and fl = flo and new = f and now = now, unfolded objo]
  show sets: "fl_sets a g fl fl'"
    using fl_sets_trans [OF so(1)] m unfolding fl'_def g_def flo_def by blast
  have cnts: "fl_cnts fl' = fl_cnts flo" using m by (simp add: fl'_def flo_def)
  show "fl_shape fl'" by (rule shape_sets [OF sets shape a]) (simp add: g_def)
  show "fl_counts fl \<Longrightarrow> fl_counts fl'"
    by (rule counts_sets [OF sets a])
      (use cnts so(2) in \<open>auto simp: fl_cnts_def g_def w_size_def w_uploaded_def w_uploading_def\<close>)
  show "fl_owns fl'" if "fl_owns fl" "short_names fl" "length (f_owner f) \<le> 8"
  proof (rule owns_sets [OF sets a that(1)])
    have "length (f_owner (fl_obj fl a)) \<le> 8" "length (fl_username fl) \<le> 8"
      using that(2) a by (auto simp: short_names_def)
    with that(3) show "fl_owned fl' = fl_owned fl - w_own (fl_username fl) (fl_obj fl a)
        + w_own (fl_username fl) g"
      using cnts so(2) by (auto simp: fl_cnts_def g_def w_own_def Let_def short_compare)
  qed
qed

text \<open>A listing line for a known file.\<close>

lemma fl_updateFile_known:
  assumes shape: "fl_shape fl" and a: "fl_files fl (f_name f) = Some a"
    and r: "fl_updateFile sk now f fl = Some (fl', b, es)"
    and valid: "f_valid f \<and> f_name f \<noteq> ''.'' \<and> f_name f \<noteq> ''..''"
  shows "fl_shape fl'" "fl_counts fl \<Longrightarrow> fl_counts fl'"
    "fl_owns fl \<Longrightarrow> short_names fl \<Longrightarrow> length (f_owner f) \<le> 8 \<Longrightarrow> fl_owns fl'"
    "fl_sets a (file_merge (fl_obj fl a) f) fl fl'"
proof -
  note look = fl_shape_look [OF shape a]
  define fl1 where "fl1 = fl_max (f_size f) (fl_update_size now a (f_size f) fl)"
  define fl2 where "fl2 = fl_update_meta now a f (fl_update_owned a (f_owner f) fl1)"
  define f1 where "f1 = (fl_obj fl a)\<lparr>f_size := f_size f\<rparr>"
  have core: "fl_core fl1 = fl_core (fl_update_size now a (f_size f) fl)" by (simp add: fl1_def)
  have s1: "fl_sets a f1 fl fl1" unfolding f1_def by (rule fl_sets_core [OF fl_update_size_sets core])
  have ok1: "fl_shape fl1" "fl_counts fl \<Longrightarrow> fl_counts fl1" "fl_owns fl \<Longrightarrow> fl_owns fl1"
    using fl_update_size_ok [OF shape look(1)] core_shape [OF core] core_counts [OF core] core_owns [OF core]
    by auto
  have seen1: "a \<in> set (fl_seen fl1)" using s1 look(1) by (simp add: fl_sets_def)
  have obj1: "fl_obj fl1 b = (if b = a then f1 else fl_obj fl b)" for b using fl_sets_obj [OF s1] by simp
  define f2 where "f2 = f1\<lparr>f_owner := f_owner f, f_group := f_group f,
      f_lastmodified := f_lastmodified f, f_touch := f_touch f\<rparr>"
  note cols = fl_update_columns [OF ok1(1) seen1, where f = f and now = now, folded fl2_def, unfolded obj1, simplified, folded f2_def]
  have obj2: "fl_obj fl2 a = f2" using fl_sets_obj [OF cols(1)] by simp
  have heap2: "fl_heap fl2 a = Some (fl_obj fl2 a)" using cols(1) obj2 by (simp add: fl_sets_def)
  have seen2: "a \<in> set (fl_seen fl2)" using cols(1) seen1 by (simp add: fl_sets_def)
  have short1: "short_names fl1" if "short_names fl"
    using that s1 look(1) by (auto simp: short_names_def fl_sets_def obj1 f1_def)
  from r valid a have "fl_update_stats a (f_size (fl_obj fl a)) (f_size f) fl2 = Some (fl', es)"
    by (auto simp: fl_updateFile_def Let_def fl1_def fl2_def)
  note g = fl_update_stats_sets [OF this heap2, unfolded obj2]
  define h where "h = file_unsetUpdateFlag f2"
  have gf: "f_name h = f_name f2" "f_size h = f_size f2" "f_directory h = f_directory f2"
    "f_uploading h = f_uploading f2" "f_owner h = f_owner f2"
    by (simp_all add: h_def file_unsetUpdateFlag_def)
  note same = sets_same [OF g(2) [folded h_def] cols(2) seen2 g(1), unfolded obj2, OF gf(1-4)]
  show "fl_shape fl'" "fl_counts fl \<Longrightarrow> fl_counts fl'" using same cols(3) ok1(2) by auto
  show "fl_owns fl'" if "fl_owns fl" "short_names fl" "length (f_owner f) \<le> 8"
    by (rule same(3) [OF cols(4) [OF ok1(3) [OF that(1)] short1 [OF that(2)] that(3)]])
      (simp add: w_own_def gf(5))
  show "fl_sets a (file_merge (fl_obj fl a) f) fl fl'"
    using fl_sets_trans [OF fl_sets_trans [OF s1 cols(1)] g(2)]
    by (simp add: f2_def f1_def file_merge_def file_unsetUpdateFlag_def)
qed


subsection \<open>New files\<close>

definition fl_same :: "filelist \<Rightarrow> filelist \<Rightarrow> bool" where
  "fl_same fl fl' \<longleftrightarrow>
     fl_heap fl' = fl_heap fl \<and> fl_next fl' = fl_next fl \<and> fl_files fl' = fl_files fl
     \<and> fl_seen fl' = fl_seen fl \<and> fl_firstsimilar fl' = fl_firstsimilar fl \<and> fl_username fl' = fl_username fl
     \<and> fl_similarchecked fl' = fl_similarchecked fl"

lemma shape_same: "fl_same fl fl' \<Longrightarrow> fl_shape fl \<Longrightarrow> fl_shape fl'"
  by (simp add: fl_same_def fl_shape_def fl_obj_def)

lemma short_same: "fl_same fl fl' \<Longrightarrow> short_names fl' = short_names fl"
  by (simp add: fl_same_def short_names_def fl_obj_def)

lemma fl_insert_obj: "fl_obj (fl_insert sk f fl) b = (if b = fl_next fl then f else fl_obj fl b)"
  by (simp add: fl_obj_def)

lemma fl_new_file:
  assumes "fl_shape fl" "fl_files fl (f_name f) = None" "fl_same (fl_insert sk f fl) fl'"
  shows "fl_shape fl'"
    "fl_counts fl \<Longrightarrow> fl_totalfilesize fl' = fl_totalfilesize fl + w_size f \<Longrightarrow>
       fl_uploadedfiles fl' = fl_uploadedfiles fl + w_uploaded f \<Longrightarrow>
       fl_uploading fl' = fl_uploading fl + w_uploading f \<Longrightarrow> fl_counts fl'"
    "fl_owns fl \<Longrightarrow> fl_owned fl' = fl_owned fl + w_own (fl_username fl) f \<Longrightarrow> fl_owns fl'"
    "short_names fl \<Longrightarrow> length (f_owner f) \<le> 8 \<Longrightarrow> short_names fl'"
proof -
  note n = fl_shape_next [OF assms(1)]
  show "fl_shape fl'" by (rule shape_same [OF assms(3) shape_insert [OF assms(1,2)]])
  have t: "tot w (fl_heap fl') (fl_seen fl') = tot w (fl_heap fl) (fl_seen fl) + w f" for w :: "dirfile \<Rightarrow> 'z::ab_group_add"
    using assms(3) n by (simp add: fl_same_def tot_new)
  show "fl_counts fl'" if "fl_counts fl" "fl_totalfilesize fl' = fl_totalfilesize fl + w_size f"
    "fl_uploadedfiles fl' = fl_uploadedfiles fl + w_uploaded f"
    "fl_uploading fl' = fl_uploading fl + w_uploading f"
    using that unfolding fl_counts_def t by simp
  show "fl_owns fl'" if "fl_owns fl" "fl_owned fl' = fl_owned fl + w_own (fl_username fl) f"
    using that assms(3) unfolding fl_owns_def t by (simp add: fl_same_def)
  have s: "short_names fl' = short_names (fl_insert sk f fl)" by (rule short_same [OF assms(3)])
  show "short_names fl'" if "short_names fl" "length (f_owner f) \<le> 8"
    using that n unfolding s by (auto simp: short_names_def fl_insert_obj)
qed

lemma fl_own_fields [simp]:
  "fl_same fl (fl_own owner n fl)" "fl_totalfilesize (fl_own owner n fl) = fl_totalfilesize fl"
  "fl_uploadedfiles (fl_own owner n fl) = fl_uploadedfiles fl" "fl_uploading (fl_own owner n fl) = fl_uploading fl"
  "fl_owned (fl_own owner n fl) = fl_owned fl + (if eightCharUserCompare (fl_username fl) owner then n else 0)"
  by (simp_all add: fl_own_def fl_same_def)

lemma fl_same_trans: "fl_same fl fl1 \<Longrightarrow> fl_same fl1 fl2 \<Longrightarrow> fl_same fl fl2"
  by (simp add: fl_same_def)

lemma fl_same_core: "fl_core fl1 = fl_core fl \<Longrightarrow> fl_same fl fl1"
  by (simp add: fl_core_def fl_same_def)

text \<open>A listing line for a new file, and a touched new file.\<close>

lemma fl_updateFile_new:
  assumes "fl_shape fl" "fl_files fl (f_name f) = None"
    and "fl_updateFile sk now f fl = Some (fl', b, es)" "f_valid f \<and> f_name f \<noteq> ''.'' \<and> f_name f \<noteq> ''..''"
  shows "fl_shape fl'" "fl_counts fl \<Longrightarrow> \<not> f_uploading f \<Longrightarrow> fl_counts fl'" "fl_owns fl \<Longrightarrow> fl_owns fl'"
    "short_names fl \<Longrightarrow> length (f_owner f) \<le> 8 \<Longrightarrow> short_names fl'"
proof -
  define fl1 where "fl1 = (let fl1 = fl_insert sk f fl in
    if 0 < f_size f \<and> \<not> f_directory f
    then fl1\<lparr>fl_uploadedfiles := fl_uploadedfiles fl1 + 1, fl_totalfilesize := fl_totalfilesize fl1 + f_size f\<rparr>
    else fl1)"
  define fl2 where "fl2 = fl_own (f_owner f) 1 (fl_max (f_size f) fl1)"
  have fl': "fl' = fl_note (f_name f) (fl_setChanged now (fl_recalcOwnedPercentage fl2))"
    using assms(2-4) by (auto simp: fl_updateFile_def Let_def fl1_def fl2_def)
  have core: "fl_core fl' = fl_core fl2" by (simp add: fl')
  have s1: "fl_same (fl_insert sk f fl) fl1" by (simp add: fl1_def Let_def fl_same_def)
  have "fl_same fl1 fl2" unfolding fl2_def
    by (rule fl_same_trans [OF fl_same_core fl_own_fields(1)]) simp
  then have same: "fl_same (fl_insert sk f fl) fl'"
    using fl_same_trans [OF s1] fl_same_trans [OF _ fl_same_core [OF core]] by blast
  note new = fl_new_file [OF assms(1,2) same]
  note fields = core_fields [OF core]
  have u: "fl_username fl1 = fl_username fl" using s1 by (simp add: fl_same_def)
  show "fl_shape fl'" by (rule new(1))
  show "fl_counts fl'" if "fl_counts fl" "\<not> f_uploading f"
    by (rule new(2) [OF that(1)])
      (use that(2) in \<open>auto simp: fields fl2_def fl1_def Let_def w_size_def w_uploaded_def w_uploading_def word_gt_0\<close>)
  show "fl_owns fl \<Longrightarrow> fl_owns fl'"
    by (rule new(3)) (auto simp: fields fl2_def u w_own_def fl1_def Let_def)
  show "short_names fl \<Longrightarrow> length (f_owner f) \<le> 8 \<Longrightarrow> short_names fl'" by (rule new(4))
qed


lemma file_new_weights [simp]:
  "w_size (file_new name user) = 0" "w_uploaded (file_new name user) = 0"
  "w_uploading (file_new name user) = 0" "f_name (file_new name user) = name"
  "f_owner (file_new name user) = user" "w_own u (file_new name user) = (if eightCharUserCompare u user then 1 else 0)"
  "f_uploading (file_new name user) = False"
  by (simp_all add: file_new_def w_size_def w_uploaded_def w_uploading_def w_own_def)

text \<open>The invariant with its parts, the counters and owners under conditions \<open>c\<close> and \<open>d\<close>.\<close>

definition fl_inv :: "bool \<Rightarrow> bool \<Rightarrow> filelist \<Rightarrow> bool" where
  "fl_inv c d fl \<longleftrightarrow> fl_shape fl \<and> (c \<longrightarrow> fl_counts fl) \<and> (d \<longrightarrow> fl_owns fl \<and> short_names fl)"

lemma fl_inv_core: "fl_core fl' = fl_core fl \<Longrightarrow> fl_inv c d fl \<Longrightarrow> fl_inv c d fl'"
  using fl_same_core [of fl' fl] short_same [of fl fl']
  by (simp add: fl_inv_def core_shape [of fl' fl] core_counts [of fl' fl] core_owns [of fl' fl])

lemma short_sets:
  assumes "fl_sets a f fl fl'" "a \<in> set (fl_seen fl)" "short_names fl" "length (f_owner f) \<le> 8"
  shows "short_names fl'"
  using assms fl_sets_obj [OF assms(1)] by (auto simp: short_names_def fl_sets_def)

text \<open>One file changed, nothing of weight in it.\<close>

lemma fl_inv_sets:
  assumes "fl_inv c d fl" "fl_sets a f fl fl'" "fl_files fl n = Some a" "fl_cnts fl' = fl_cnts fl"
    and "f_name f = f_name (fl_obj fl a)" "f_size f = f_size (fl_obj fl a)"
    and "f_directory f = f_directory (fl_obj fl a)" "f_uploading f = f_uploading (fl_obj fl a)"
    and "f_owner f = f_owner (fl_obj fl a)"
  shows "fl_inv c d fl'"
proof -
  have s: "fl_shape fl" using assms(1) by (simp add: fl_inv_def)
  have a: "a \<in> set (fl_seen fl)" using fl_shape_look [OF s assms(3)] by simp
  have w: "w_own u f = w_own u (fl_obj fl a)" for u by (simp add: w_own_def assms(9))
  note same = sets_same [OF assms(2) s a assms(4-8)]
  from assms(1) have "d \<longrightarrow> short_names fl'"
    using short_sets [OF assms(2) a] a assms(9) by (auto simp: fl_inv_def short_names_def)
  with same(1,2) same(3) [OF _ w] assms(1) show ?thesis by (auto simp: fl_inv_def)
qed

lemma fl_inv_updateFile:
  assumes "fl_inv c d fl" "fl_updateFile sk now f fl = Some (fl', b, es)"
    and "c \<longrightarrow> \<not> f_uploading f" "d \<longrightarrow> length (f_owner f) \<le> 8"
  shows "fl_inv c d fl'"
proof (cases "f_valid f \<and> f_name f \<noteq> ''.'' \<and> f_name f \<noteq> ''..''")
  case False
  with assms(1,2) show ?thesis by (auto simp: fl_updateFile_def)
next
  case True
  have s: "fl_shape fl" using assms(1) by (simp add: fl_inv_def)
  show ?thesis
  proof (cases "fl_files fl (f_name f)")
    case None
    from fl_updateFile_new [OF s None assms(2) True] assms show ?thesis by (auto simp: fl_inv_def)
  next
    case (Some a)
    note known = fl_updateFile_known [OF s Some assms(2) True]
    have "short_names fl'" if "short_names fl" "length (f_owner f) \<le> 8"
      by (rule short_sets [OF known(4) fl_shape_look(1) [OF s Some] that(1)])
        (use that(2) in \<open>simp add: file_merge_def\<close>)
    with known(1-3) assms show ?thesis by (auto simp: fl_inv_def)
  qed
qed

lemma fl_inv_upload:
  assumes "fl_inv c d fl" "fl_files fl n = Some a" "f_uploading (fl_obj fl a) \<noteq> up"
  shows "fl_inv c d ((fl_set a ((fl_obj fl a)\<lparr>f_uploading := up\<rparr>) fl)
    \<lparr>fl_uploading := fl_uploading fl + (if up then 1 else - 1)\<rparr>)" (is "fl_inv c d ?fl'")
proof -
  let ?f = "(fl_obj fl a)\<lparr>f_uploading := up\<rparr>"
  have s: "fl_shape fl" using assms(1) by (simp add: fl_inv_def)
  have a: "a \<in> set (fl_seen fl)" using fl_shape_look [OF s assms(2)] by simp
  have sets: "fl_sets a ?f fl ?fl'" by (simp add: fl_sets_def)
  have "fl_shape ?fl'" by (rule shape_sets [OF sets s a]) simp
  moreover have "fl_counts ?fl'" if "fl_counts fl"
    by (rule counts_sets [OF sets a that])
      (use assms(3) in \<open>auto simp: w_size_def w_uploaded_def w_uploading_def\<close>)
  moreover have "fl_owns ?fl'" if "fl_owns fl"
    by (rule owns_sets [OF sets a that]) (simp add: w_own_def)
  moreover have "short_names ?fl'" if "short_names fl"
    by (rule short_sets [OF sets a that]) (use that a in \<open>simp add: short_names_def\<close>)
  ultimately show ?thesis using assms(1) by (auto simp: fl_inv_def)
qed


lemma fl_inv_look:
  "fl_inv c d fl \<Longrightarrow> fl_files fl n = Some a \<Longrightarrow> fl_heap fl a = Some (fl_obj fl a) \<and> a \<in> set (fl_seen fl)
     \<and> f_name (fl_obj fl a) = n"
  using fl_shape_look unfolding fl_inv_def by blast

subsection \<open>Removed files\<close>

lemma fl_inv_unlink:
  assumes "fl_inv c d fl" "fl_files fl n = Some a"
    and "fl_seen fl' = remove1 a (fl_seen fl)" "fl_files fl' = (fl_files fl)(n := None)"
    and "fl_next fl' = fl_next fl" "fl_firstsimilar fl' = fl_firstsimilar fl"
    "fl_similarchecked fl' = fl_similarchecked fl"
    and heap: "fl_heap fl' = fl_heap fl \<or> fl_heap fl' = (fl_heap fl)(a := None) \<and> fl_firstsimilar fl \<noteq> Some a"
    and user: "fl_username fl' = fl_username fl"
    and "fl_totalfilesize fl' = fl_totalfilesize fl - w_size (fl_obj fl a)"
    and "fl_uploadedfiles fl' = fl_uploadedfiles fl - w_uploaded (fl_obj fl a)"
    and "fl_uploading fl' = fl_uploading fl - w_uploading (fl_obj fl a)"
    and "fl_owned fl' = fl_owned fl - w_own (fl_username fl) (fl_obj fl a)"
  shows "fl_inv c d fl'"
proof -
  have s: "fl_shape fl" using assms(1) by (simp add: fl_inv_def)
  have a: "a \<in> set (fl_seen fl)" "distinct (fl_seen fl)"
    using fl_shape_look [OF s assms(2)] fl_shapeD(1) [OF s] by auto
  have "a \<notin> set (remove1 a (fl_seen fl))" using a by simp
  with heap a have t: "tot w (fl_heap fl') (fl_seen fl') = tot w (fl_heap fl) (fl_seen fl) - w (fl_obj fl a)"
    for w :: "dirfile \<Rightarrow> 'z::ab_group_add"
    unfolding assms(3) using tot_remove [of "fl_seen fl" a w "fl_heap fl"]
    by (auto simp: tot_other fl_obj_def)
  have "fl_shape fl'" by (rule shape_unlink [OF s assms(2-8)])
  moreover have "fl_obj fl' b = fl_obj fl b" if "b \<in> set (fl_seen fl')" for b
    using that heap a assms(3) by (auto simp: fl_obj_def)
  then have "d \<longrightarrow> short_names fl'"
    using assms(1,3) user by (auto simp: fl_inv_def short_names_def dest: notin_set_remove1)
  ultimately show ?thesis
    using assms(1,10-13) unfolding fl_inv_def fl_counts_def fl_owns_def t user by auto
qed

lemma fl_inv_checkSimilar: "fl_inv c d fl \<Longrightarrow> fl_inv c d (fl_checkSimilar sk s1 s2 fl)"
proof -
  have "fl_obj (fl_checkSimilar sk s1 s2 fl) = fl_obj fl" by (simp add: fl_obj_def fun_eq_iff)
  then show "fl_inv c d fl \<Longrightarrow> fl_inv c d (fl_checkSimilar sk s1 s2 fl)"
    using shape_checkSimilar [of fl sk s1 s2]
    by (simp add: fl_inv_def fl_counts_def fl_owns_def short_names_def)
qed

lemma fl_checkSimilar_checked [simp]:
  "fl_checkSimilar sk s1 s2 (fl\<lparr>fl_similarchecked := x\<rparr>) = fl_checkSimilar sk s1 s2 fl"
  by (simp add: fl_checkSimilar_def)

lemma fl_own_other [simp]:
  "fl_heap (fl_own owner n fl) = fl_heap fl" "fl_next (fl_own owner n fl) = fl_next fl"
  "fl_files (fl_own owner n fl) = fl_files fl" "fl_seen (fl_own owner n fl) = fl_seen fl"
  "fl_firstsimilar (fl_own owner n fl) = fl_firstsimilar fl" "fl_username (fl_own owner n fl) = fl_username fl"
  "fl_similarchecked (fl_own owner n fl) = fl_similarchecked fl"
  by (simp_all add: fl_own_def)

lemma fl_inv_removeFile:
  assumes "fl_inv c d fl"
  shows "fl_inv c d (fl_removeFile sk now name fl)"
proof (cases "fl_files fl name")
  case None
  with assms show ?thesis by (simp add: fl_removeFile_def)
next
  case (Some a)
  define fl2 where "fl2 = (let f = fl_obj fl a; fl1 = fl_own (f_owner f) (- 1) fl in
    if 0 < f_size f \<and> \<not> f_directory f
    then fl1\<lparr>fl_uploadedfiles := fl_uploadedfiles fl1 - 1, fl_totalfilesize := fl_totalfilesize fl1 - f_size f\<rparr>
    else fl1)"
  define fl3 where "fl3 = (if f_uploading (fl_obj fl a) then fl2\<lparr>fl_uploading := fl_uploading fl2 - 1\<rparr> else fl2)"
  define fl4 where "fl4 = fl3\<lparr>fl_seen := remove1 a (fl_seen fl3), fl_files := (fl_files fl3)(name := None),
    fl_lower := (fl_lower fl3)(toLower name := None)\<rparr>"
  define fl5 where "fl5 = (if fl_similarchecked fl4 \<and> fl_firstsimilar fl4 = Some a
    then fl_checkSimilar sk (fl_siteskip fl4) (fl_sectionskip fl4) fl4
    else fl4\<lparr>fl_heap := (fl_heap fl4)(a := None)\<rparr>)"
  have r: "fl_removeFile sk now name fl = fl_note name (fl_setChanged now (fl_recalcOwnedPercentage fl5))"
    using Some by (simp add: fl_removeFile_def Let_def fl2_def fl3_def fl4_def fl5_def)
  have fields: "fl_heap fl4 = fl_heap fl" "fl_next fl4 = fl_next fl" "fl_firstsimilar fl4 = fl_firstsimilar fl"
    "fl_similarchecked fl4 = fl_similarchecked fl" "fl_username fl4 = fl_username fl"
    "fl_seen fl4 = remove1 a (fl_seen fl)" "fl_files fl4 = (fl_files fl)(name := None)"
    by (simp_all add: fl4_def fl3_def fl2_def Let_def)
  have cnts: "fl_totalfilesize fl4 = fl_totalfilesize fl - w_size (fl_obj fl a)"
    "fl_uploadedfiles fl4 = fl_uploadedfiles fl - w_uploaded (fl_obj fl a)"
    "fl_uploading fl4 = fl_uploading fl - w_uploading (fl_obj fl a)"
    "fl_owned fl4 = fl_owned fl - w_own (fl_username fl) (fl_obj fl a)"
    by (simp_all add: fl4_def fl3_def fl2_def Let_def w_size_def w_uploaded_def w_uploading_def w_own_def word_gt_0)
  have "fl_inv c d fl5"
  proof (cases "fl_similarchecked fl4 \<and> fl_firstsimilar fl4 = Some a")
    case True
    have "fl_inv c d fl4" by (rule fl_inv_unlink [OF assms Some]) (simp_all add: fields cnts)
    with True show ?thesis by (simp add: fl5_def fl_inv_checkSimilar)
  next
    case False
    with assms have "fl_firstsimilar fl \<noteq> Some a"
      using fl_shapeD(8) [of fl a] by (auto simp: fl_inv_def fields)
    with False show ?thesis
      unfolding fl5_def by (intro fl_inv_unlink [OF assms Some]) (auto simp: fields cnts)
  qed
  then show ?thesis unfolding r by (rule fl_inv_core [rotated]) simp
qed


subsection \<open>The other operations\<close>

lemma core_maxfilesize: "fl_core (fl\<lparr>fl_maxfilesize := n\<rparr>) = fl_core fl" for fl :: filelist
  by (simp add: fl_core_def)

lemma fl_inv_cleanSweep:
  assumes "fl_inv c d fl"
  shows "fl_inv c d (fl_cleanSweep sk now touch fl)"
proof -
  have removed: "fl_inv c d (fold (fl_removeFile sk now) ns fl)" for ns
    using assms by (induction ns arbitrary: fl) (auto intro: fl_inv_removeFile)
  have "fl_inv c d (fl_setChanged now (fold (\<lambda>f fl. if \<not> f_directory f then fl_max (f_size f) fl else fl) fs
      (fl1\<lparr>fl_maxfilesize := 0\<rparr>)))" if "fl_inv c d fl1" for fl1 :: filelist and fs :: "dirfile list"
    by (rule fl_inv_core [OF _ that]) (simp add: core_maxfilesize)
  from this [OF removed] assms show ?thesis unfolding fl_cleanSweep_def Let_def by (rule if_split [THEN iffD2, OF conjI, OF impI impI])
qed

lemma fl_inv_flush: "fl_inv c d fl \<Longrightarrow> fl_inv c d (fl_flush fl)"
  by (simp add: fl_inv_def fl_flush_def fl_shape_def fl_counts_def fl_owns_def short_names_def)

lemma fl_inv_touch_new:
  assumes "fl_inv c d fl" "fl_files fl name = None" "d \<longrightarrow> length user \<le> 8"
  shows "fl_inv c d (fl_note name (fl_setChanged now (fl_recalcOwnedPercentage (fl_own user 1
    (fl_insert sk (file_new name user) fl)))))" (is "fl_inv c d ?fl'")
proof -
  have s: "fl_shape fl" using assms(1) by (simp add: fl_inv_def)
  have "fl_same (fl_insert sk (file_new name user) fl) ?fl'"
    by (rule fl_same_trans [OF fl_own_fields(1) fl_same_core]) simp
  note new = fl_new_file [OF s _ this, simplified, OF assms(2)]
  show ?thesis using assms new by (auto simp: fl_inv_def)
qed

lemma fl_inv_touchFile:
  assumes "fl_inv c d fl" "d \<longrightarrow> length user \<le> 8"
  shows "fl_inv c d (fl_touchFile sk now name user upload fl)"
proof -
  define r where "r = (case fl_files fl name of
      Some a \<Rightarrow> (fl_set a (file_unsetUpdateFlag (fl_obj fl a)) fl, a)
    | None \<Rightarrow> (fl_note name (fl_setChanged now (fl_recalcOwnedPercentage (fl_own user 1
        (fl_insert sk (file_new name user) fl)))), fl_next fl))"
  have *: "fl_inv c d (fst r) \<and> fl_files (fst r) name = Some (snd r)"
  proof (cases "fl_files fl name")
    case None
    with fl_inv_touch_new [OF assms(1) None assms(2)] show ?thesis by (simp add: r_def)
  next
    case (Some a)
    from fl_inv_sets [OF assms(1) fl_sets_set Some, of "file_unsetUpdateFlag (fl_obj fl a)"] Some
    show ?thesis by (simp add: r_def fl_cnts_def file_unsetUpdateFlag_def)
  qed
  have "fl_touchFile sk now name user upload fl
      = (let (fl1, a) = r in if upload \<and> \<not> f_uploading (fl_obj fl1 a)
         then (fl_set a ((fl_obj fl1 a)\<lparr>f_uploading := True\<rparr>) fl1)\<lparr>fl_uploading := fl_uploading fl1 + 1\<rparr>
         else fl1)"
    by (simp add: fl_touchFile_def r_def)
  with fl_inv_upload [of c d "fst r" name "snd r" True] * show ?thesis
    by (auto simp: Let_def split: prod.split)
qed

lemma fl_inv_finishUpload:
  assumes "fl_inv c d fl"
  shows "fl_inv c d (fl_finishUpload now name fl)"
proof (cases "\<exists>a. fl_files fl name = Some a \<and> f_uploading (fl_obj fl a)")
  case True
  then obtain a where a: "fl_files fl name = Some a" "f_uploading (fl_obj fl a)" by blast
  from fl_inv_core [OF core_setChanged fl_inv_upload [OF assms a(1), of False]] a
  show ?thesis by (simp add: fl_finishUpload_def)
next
  case False
  with assms show ?thesis by (auto simp: fl_finishUpload_def split: option.split)
qed

lemma fl_inv_download: "fl_inv c d fl \<Longrightarrow> fl_inv c d (fl_download name fl)"
  using fl_inv_sets [of c d fl _ "file_download (fl_obj fl _)", OF _ fl_sets_set]
  by (auto simp: fl_download_def fl_cnts_def file_download_def split: option.split)

lemma fl_inv_finishDownload: "fl_inv c d fl \<Longrightarrow> fl_inv c d (fl_finishDownload name fl)"
  using fl_inv_sets [of c d fl _ "file_finishDownload (fl_obj fl _)", OF _ fl_sets_set]
  by (auto simp: fl_finishDownload_def fl_cnts_def file_finishDownload_def split: option.split)

text \<open>When an update flag keeps the counters: not for a directory, and not to empty a file.\<close>

definition flag_ok :: "string \<Rightarrow> u64 \<Rightarrow> filelist \<Rightarrow> bool" where
  "flag_ok name newsize fl \<longleftrightarrow> (\<forall>a. fl_files fl name = Some a \<longrightarrow>
     newsize = f_size (fl_obj fl a) \<or> \<not> f_directory (fl_obj fl a) \<and> newsize \<noteq> 0)"

lemma fl_inv_setFileUpdateFlag:
  assumes "fl_inv c d fl" "c \<longrightarrow> flag_ok name n fl"
  shows "fl_inv c d (fl_setFileUpdateFlag now name n speed uf fl)" (is "fl_inv c d ?fl'")
proof (cases "fl_files fl name")
  case None
  with assms(1) show ?thesis by (simp add: fl_setFileUpdateFlag_def)
next
  case (Some a)
  let ?g = "file_setUpdateFlag uf speed ((fl_obj fl a)\<lparr>f_size := n\<rparr>)"
  have s: "fl_shape fl" using assms(1) by (simp add: fl_inv_def)
  have a: "a \<in> set (fl_seen fl)" using fl_inv_look [OF assms(1) Some] by simp
  have sets: "fl_sets a ?g fl ?fl'"
    using Some by (simp add: fl_setFileUpdateFlag_def Let_def fl_sets_def fl_obj_def)
  have "fl_shape ?fl'" by (rule shape_sets [OF sets s a]) (simp add: file_setUpdateFlag_def)
  moreover have "fl_counts ?fl'" if "fl_counts fl" "flag_ok name n fl"
  proof (cases "n = f_size (fl_obj fl a)")
    case True
    then show ?thesis using Some
      by (intro counts_sets [OF sets a that(1)])
        (auto simp: fl_setFileUpdateFlag_def Let_def file_setUpdateFlag_def w_size_def w_uploaded_def w_uploading_def)
  next
    case False
    with that(2) Some have "\<not> f_directory (fl_obj fl a)" "n \<noteq> 0" by (auto simp: flag_ok_def)
    with False Some show ?thesis
      by (intro counts_sets [OF sets a that(1)])
        (auto simp: fl_setFileUpdateFlag_def Let_def file_setUpdateFlag_def w_size_def w_uploaded_def w_uploading_def word_gt_0)
  qed
  moreover have "fl_owns ?fl'" if "fl_owns fl"
    using Some by (intro owns_sets [OF sets a that])
      (auto simp: fl_setFileUpdateFlag_def Let_def w_own_def file_setUpdateFlag_def)
  moreover have "short_names ?fl'" if "short_names fl"
    by (rule short_sets [OF sets a that]) (use that a in \<open>simp add: short_names_def file_setUpdateFlag_def\<close>)
  ultimately show ?thesis using assms by (auto simp: fl_inv_def)
qed

lemma core_addListFailure: "fl_core (fst (fl_addListFailure now fl)) = fl_core fl"
  using core_setFailed [of now "fl\<lparr>fl_listfailures := fl_listfailures fl + 1\<rparr>"]
  by (simp add: fl_addListFailure_def Let_def, simp add: fl_core_def)

lemma fl_core_other:
  "fl_core (fl_setExists fl) = fl_core fl" "fl_core (fl_setFilled fl) = fl_core fl"
  "fl_core (fl_setPreFailed fl) = fl_core fl" "fl_core (fl_resetUpdateState fl) = fl_core fl"
  "fl_core (fl_resetScoreBoardUpdates fl) = fl_core fl" "fl_core (fl_setInScoreBoard b fl) = fl_core fl"
  "fl_core (fl_setRefreshed now fl) = fl_core fl"
  "fl_setNonExistent fl = Some fl' \<Longrightarrow> fl_core fl' = fl_core fl"
  by (auto simp: fl_core_def fl_setExists_def fl_setFilled_def fl_setPreFailed_def fl_resetUpdateState_def
      fl_resetScoreBoardUpdates_def fl_setInScoreBoard_def fl_setRefreshed_def fl_bumpUpdateState_def Let_def
      fl_setNonExistent_def split: if_splits)

text \<open>What a history must respect for the counters (\<open>c\<close>) and the own files (\<open>d\<close>).\<close>

fun fl_allowed :: "bool \<Rightarrow> bool \<Rightarrow> list_op \<Rightarrow> filelist \<Rightarrow> bool" where
  "fl_allowed c d (UpdateFile now f) fl \<longleftrightarrow> (c \<longrightarrow> \<not> f_uploading f) \<and> (d \<longrightarrow> length (f_owner f) \<le> 8)"
| "fl_allowed c d (TouchFile now name user upload) fl \<longleftrightarrow> (d \<longrightarrow> length user \<le> 8)"
| "fl_allowed c d (SetUpdateFlag now name newsize speed uf) fl \<longleftrightarrow> (c \<longrightarrow> flag_ok name newsize fl)"
| "fl_allowed c d op fl \<longleftrightarrow> True"

lemma fl_inv_step:
  assumes "fl_inv c d fl" "fl_allowed c d op fl" "fl_step sk op fl = Some fl'"
  shows "fl_inv c d fl'"
proof (cases op)
  case (UpdateFile now f)
  with assms show ?thesis by (auto intro: fl_inv_updateFile)
qed (use assms in \<open>auto intro: fl_inv_touchFile fl_inv_removeFile fl_inv_setFileUpdateFlag fl_inv_cleanSweep
    fl_inv_flush fl_inv_finishUpload fl_inv_finishDownload fl_inv_download fl_inv_checkSimilar
    fl_inv_core [OF core_setFailed] fl_inv_core [OF core_addListFailure] fl_inv_core [OF fl_core_other(1)]
    fl_inv_core [OF fl_core_other(2)] fl_inv_core [OF fl_core_other(3)] fl_inv_core [OF fl_core_other(4)]
    fl_inv_core [OF fl_core_other(5)] fl_inv_core [OF fl_core_other(6)] fl_inv_core [OF fl_core_other(7)]
    fl_inv_core [OF fl_core_other(8)]\<close>)


subsection \<open>Histories\<close>

text \<open>The lists that come about from a new list by operations that respect \<open>c\<close> and \<open>d\<close>.\<close>

inductive fl_reach :: "skip_verdict \<Rightarrow> bool \<Rightarrow> bool \<Rightarrow> string \<Rightarrow> filelist \<Rightarrow> bool" for sk c d username where
  fl_reach_new: "fl_reach sk c d username (fl_init u username path state)"
| fl_reach_step: "fl_reach sk c d username fl \<Longrightarrow> fl_allowed c d op fl \<Longrightarrow> fl_step sk op fl = Some fl' \<Longrightarrow>
    fl_reach sk c d username fl'"

lemma fl_inv_init: "(d \<longrightarrow> length username \<le> 8) \<Longrightarrow> fl_inv c d (fl_init u username path state)"
  by (simp add: fl_inv_def fl_init_def fl_shape_def fl_counts_def fl_owns_def short_names_def)

lemma fl_reach_inv: "fl_reach sk c d username fl \<Longrightarrow> (d \<longrightarrow> length username \<le> 8) \<Longrightarrow> fl_inv c d fl"
  by (induction rule: fl_reach.induct) (auto intro: fl_inv_init fl_inv_step)

text \<open>C15. No pointer of a file list to a file dangles, whatever is done to the list.  In every history, every
  address in the list of files is that of a live object, occurs once, and is what the map has for the
  object's name; every name in the map leads to a live object of the list with that name; and the
  pointer to the first similar file, though it may outlive the file's place in the list, is to a live
  object.  The pointers of a list to skip lists, which belong to others, are not part of this: the
  engine lets them outlive the list they point to.\<close>

theorem fl_no_dangling:
  assumes "fl_reach sk False False username fl"
  shows "distinct (fl_seen fl)
    \<and> (\<forall>a \<in> set (fl_seen fl). \<exists>f. fl_heap fl a = Some f \<and> fl_files fl (f_name f) = Some a)
    \<and> (\<forall>name a. fl_files fl name = Some a \<longrightarrow> a \<in> set (fl_seen fl)
        \<and> (\<exists>f. fl_heap fl a = Some f \<and> f_name f = name))
    \<and> (\<forall>a. fl_firstsimilar fl = Some a \<longrightarrow> fl_heap fl a \<noteq> None)"
proof -
  have s: "fl_shape fl" using fl_reach_inv [OF assms] by (simp add: fl_inv_def)
  note D = fl_shapeD [OF s]
  have "\<exists>f. fl_heap fl a = Some f \<and> fl_files fl (f_name f) = Some a" if "a \<in> set (fl_seen fl)" for a
    using D(2,3) [OF that] by (auto simp: fl_obj_def)
  with D(1,7) fl_shape_look [OF s] show ?thesis by blast
qed

theorem fl_no_dangling_witness:
  "\<exists>fl. fl_reach (\<lambda>_ _ _ _. SKIPLIST_ALLOW) False False ''me'' fl \<and> fl_seen fl = [0] \<and> distinct (fl_seen fl)"
proof (intro exI conjI)
  let ?fl0 = "fl_init undefined ''me'' path_empty LS_UNKNOWN"
  let ?fl = "fl_touchFile (\<lambda>_ _ _ _. SKIPLIST_ALLOW) 1 ''a.rar'' ''me'' True ?fl0"
  show r: "fl_reach (\<lambda>_ _ _ _. SKIPLIST_ALLOW) False False ''me'' ?fl"
    by (rule fl_reach_step [OF fl_reach_new, of _ _ "TouchFile 1 ''a.rar'' ''me'' True"]) simp_all
  show "fl_seen ?fl = [0]"
    by (simp add: fl_touchFile_def fl_init_def Let_def)
  show "distinct (fl_seen ?fl)" using fl_no_dangling [OF r] by (elim conjE)
qed




subsection \<open>A file list is a map from names to files\<close>

definition fl_map :: "filelist \<Rightarrow> string \<Rightarrow> dirfile option" where
  "fl_map fl name = map_option (fl_obj fl) (fl_files fl name)"

lemma fl_map_same:
  assumes "fl_heap fl' = fl_heap fl" "fl_files fl' = fl_files fl"
  shows "fl_map fl' = fl_map fl"
proof -
  have "fl_obj fl' = fl_obj fl" by (rule ext) (simp add: fl_obj_def assms(1))
  with assms(2) show ?thesis by (auto simp: fl_map_def)
qed

lemma fl_map_sets:
  assumes "fl_shape fl" "fl_sets a f fl fl'" "fl_files fl n = Some a"
  shows "fl_map fl' = (fl_map fl)(n \<mapsto> f)"
proof
  fix m
  have "fl_files fl m = Some a \<Longrightarrow> m = n" using fl_shapeD(5) [OF assms(1)] assms(3) by blast
  moreover have "fl_files fl' = fl_files fl" using assms(2) by (simp add: fl_sets_def)
  ultimately show "fl_map fl' m = ((fl_map fl)(n \<mapsto> f)) m"
    using assms(3) fl_sets_obj [OF assms(2)] by (cases "fl_files fl m") (auto simp: fl_map_def)
qed

lemma fl_map_insert:
  assumes "fl_shape fl" "fl_files fl (f_name f) = None"
  shows "fl_map (fl_insert sk f fl) = (fl_map fl)(f_name f \<mapsto> f)"
proof
  fix m
  have "fl_files fl m \<noteq> Some (fl_next fl)"
    using fl_shapeD(4) [OF assms(1)] fl_shape_next [OF assms(1)] by blast
  then show "fl_map (fl_insert sk f fl) m = ((fl_map fl)(f_name f \<mapsto> f)) m"
    by (auto simp: fl_map_def fl_insert_obj map_option_case split: option.splits)
qed

lemma fl_map_removeFile:
  assumes "fl_shape fl"
  shows "fl_map (fl_removeFile sk now name fl) = (fl_map fl)(name := None)"
proof (cases "fl_files fl name")
  case None
  then show ?thesis by (auto simp: fl_removeFile_def fl_map_def fun_eq_iff)
next
  case (Some a)
  have r: "fl_files (fl_removeFile sk now name fl) = (fl_files fl)(name := None)"
    "\<And>b. b \<noteq> a \<Longrightarrow> fl_obj (fl_removeFile sk now name fl) b = fl_obj fl b"
    using Some by (simp_all add: fl_removeFile_def Let_def fl_obj_def)
  have "b \<noteq> a" if "fl_files fl m = Some b" "m \<noteq> name" for m b
    using fl_shapeD(5) [OF assms that(1)] fl_shapeD(5) [OF assms Some] that(2) by blast
  then show ?thesis
    by (auto simp: fl_map_def r fun_eq_iff map_option_case split: option.splits)
qed

lemma fl_map_updateFile:
  assumes "fl_shape fl" "f_valid f" "f_name f \<noteq> ''.''" "f_name f \<noteq> ''..''"
    and r: "fl_updateFile sk now f fl = Some (fl', b, es)"
  shows "fl_map fl' = (fl_map fl)(f_name f \<mapsto>
    (case fl_map fl (f_name f) of Some old \<Rightarrow> file_merge old f | None \<Rightarrow> f))"
proof (cases "fl_files fl (f_name f)")
  case None
  let ?fl1 = "fl_insert sk f fl"
  have "fl_heap fl' = fl_heap ?fl1 \<and> fl_files fl' = fl_files ?fl1"
    using r None assms(2-4) by (auto simp: fl_updateFile_def Let_def)
  then have "fl_map fl' = fl_map ?fl1" by (intro fl_map_same) auto
  with fl_map_insert [OF assms(1) None] None show ?thesis by (simp add: fl_map_def)
next
  case (Some a)
  from fl_map_sets [OF assms(1) fl_updateFile_known(4) [OF assms(1) Some r] Some] assms(2-4) Some
  show ?thesis by (simp add: fl_map_def)
qed

text \<open>C17. A file list implements a map from names to files.  After every history, a listing line for a
  valid file other than the two dots changes exactly the entry of its name, to the new file or to
  the old file with the columns of the line and without update flag; removing a name removes exactly
  that entry; and looking for a name finds its file, with no entry lost to another.\<close>

theorem fl_refines_map:
  assumes "fl_reach sk False False username fl"
  shows "(f_valid f \<and> f_name f \<noteq> ''.'' \<and> f_name f \<noteq> ''..'' \<longrightarrow>
      fl_updateFile sk now f fl = Some (fl', b, es) \<longrightarrow>
      b \<and> fl_map fl' = (fl_map fl)(f_name f \<mapsto>
        (case fl_map fl (f_name f) of Some old \<Rightarrow> file_merge old f | None \<Rightarrow> f)))
    \<and> fl_map (fl_removeFile sk now name fl) = (fl_map fl)(name := None)
    \<and> (\<forall>g. fl_map fl name = Some g \<longrightarrow> map_option (fl_obj fl) (fl_getFile name fl) = Some g \<and> f_name g = name)"
proof -
  have s: "fl_shape fl" using fl_reach_inv [OF assms] by (simp add: fl_inv_def)
  have "b" if "f_valid f \<and> f_name f \<noteq> ''.'' \<and> f_name f \<noteq> ''..''"
    "fl_updateFile sk now f fl = Some (fl', b, es)"
    using that by (auto simp: fl_updateFile_def Let_def split: option.splits)
  moreover have "map_option (fl_obj fl) (fl_getFile name fl) = Some g \<and> f_name g = name"
    if "fl_map fl name = Some g" for g
    using that fl_shapeD(5) [OF s] by (auto simp: fl_map_def fl_getFile_def)
  ultimately show ?thesis using fl_map_updateFile [OF s] fl_map_removeFile [OF s] by blast
qed

theorem fl_refines_map_witness:
  "\<exists>fl. fl_map fl ''a.rar'' = Some (file_new ''a.rar'' ''me'')
     \<and> fl_map (fl_removeFile (\<lambda>_ _ _ _. SKIPLIST_ALLOW) 2 ''a.rar'' fl) = (fl_map fl)(''a.rar'' := None)"
proof (intro exI conjI)
  let ?fl0 = "fl_init undefined ''me'' path_empty LS_UNKNOWN"
  let ?fl = "fl_touchFile (\<lambda>_ _ _ _. SKIPLIST_ALLOW) 1 ''a.rar'' ''me'' False ?fl0"
  have r: "fl_reach (\<lambda>_ _ _ _. SKIPLIST_ALLOW) False False ''me'' ?fl"
    by (rule fl_reach_step [OF fl_reach_new, of _ _ "TouchFile 1 ''a.rar'' ''me'' False"]) simp_all
  show "fl_map ?fl ''a.rar'' = Some (file_new ''a.rar'' ''me'')"
    by (simp add: fl_map_def fl_touchFile_def fl_init_def Let_def fl_obj_def)
  show "fl_map (fl_removeFile (\<lambda>_ _ _ _. SKIPLIST_ALLOW) 2 ''a.rar'' ?fl) = (fl_map ?fl)(''a.rar'' := None)"
    using fl_refines_map [OF r] by blast
qed


subsection \<open>The first similar file outlives its removal\<close>

lemma similar_loop_none:
  "(\<And>b. b \<in> set as \<Longrightarrow> fl_checkSimilarFile sk b fl = (fl, False)) \<Longrightarrow> similar_loop sk as fl = fl"
  by (induction as) auto

text \<open>When the first similar file is removed and no other file is similar, the list keeps resembling
  it: the pointer stays, the object stays on the heap, and no list owns it any more.\<close>

lemma fl_removeFile_keeps_similar:
  fixes now :: u64
  assumes "fl_files fl name = Some a" "fl_heap fl a \<noteq> None" "distinct (fl_seen fl)"
    and "fl_similarchecked fl" "fl_firstsimilar fl = Some a" "fl_siteskip fl = Some skip"
    and "\<And>b. b \<in> set (fl_seen fl) \<Longrightarrow> b \<noteq> a \<Longrightarrow>
      sk skip (fl_sectionskip fl) (f_name (fl_obj fl b)) (f_directory (fl_obj fl b)) \<noteq> SKIPLIST_SIMILAR"
  defines "fl' \<equiv> fl_removeFile sk now name fl"
  shows "fl_heap fl' a \<noteq> None \<and> a \<notin> set (fl_seen fl') \<and> fl_getFirstSimilar fl' = f_name (fl_obj fl a)"
proof -
  let ?f = "fl_obj fl a"
  define fl2 where "fl2 = (let fl1 = fl_own (f_owner ?f) (- 1) fl in
    if 0 < f_size ?f \<and> \<not> f_directory ?f
    then fl1\<lparr>fl_uploadedfiles := fl_uploadedfiles fl1 - 1, fl_totalfilesize := fl_totalfilesize fl1 - f_size ?f\<rparr>
    else fl1)"
  define fl3 where "fl3 = (if f_uploading ?f then fl2\<lparr>fl_uploading := fl_uploading fl2 - 1\<rparr> else fl2)"
  define fl4 where "fl4 = fl3\<lparr>fl_seen := remove1 a (fl_seen fl3), fl_files := (fl_files fl3)(name := None),
    fl_lower := (fl_lower fl3)(toLower name := None)\<rparr>"
  have fields: "fl_heap fl4 = fl_heap fl" "fl_firstsimilar fl4 = fl_firstsimilar fl" "fl_seen fl4 = remove1 a (fl_seen fl)"
    "fl_similarchecked fl4" "fl_siteskip fl4 = fl_siteskip fl" "fl_sectionskip fl4 = fl_sectionskip fl"
    using assms(4) by (simp_all add: fl4_def fl3_def fl2_def Let_def fl_own_def)
  define fl5 where "fl5 = fl_checkSimilar sk (fl_siteskip fl4) (fl_sectionskip fl4) fl4"
  have r: "fl' = fl_note name (fl_setChanged now (fl_recalcOwnedPercentage fl5))"
    using assms(1,4,5) fields(2,4)
    by (simp add: fl'_def fl_removeFile_def Let_def fl2_def fl3_def fl4_def fl5_def)
  have obj: "fl_obj fl4 b = fl_obj fl b" for b by (simp add: fl_obj_def fields)
  have "fl5 = fl4\<lparr>fl_similarchecked := True, fl_siteskip := fl_siteskip fl4, fl_sectionskip := fl_sectionskip fl4\<rparr>"
    unfolding fl5_def fl_checkSimilar_def
    by (rule similar_loop_none) (use assms(3,6,7) in \<open>auto simp: fl_checkSimilarFile_def fields fl_obj_def\<close>)
  then have "fl_firstsimilar fl5 = Some a" "fl_obj fl5 a = ?f" "fl_heap fl5 = fl_heap fl"
    "fl_seen fl5 = remove1 a (fl_seen fl)"
    by (simp_all add: fields assms(5) fl_obj_def)
  with assms(2,3) show ?thesis unfolding r by (simp add: fl_getFirstSimilar_def)
qed

subsection \<open>Names that resemble\<close>

lemma unsimilar_prefix:
  assumes "\<forall>l<n. item ! l = similar ! l" "n \<le> ie" "n \<le> se" "k \<le> n"
  shows "unsimilar_loop item similar ie se False False k k = unsimilar_loop item similar ie se False False n n"
  using assms(4)
proof (induction "n - k" arbitrary: k)
  case (Suc d)
  then have k: "k < n" "item ! k = similar ! k" "k < ie" "k < se" "k \<noteq> ie" "k \<noteq> se" using assms(1-3) by auto
  from Suc k(1) have "unsimilar_loop item similar ie se False False (Suc k) (Suc k)
      = unsimilar_loop item similar ie se False False n n" by auto
  with k(2-6) show ?case unfolding unsimilar_loop.simps [of item similar ie se False False k k] by simp
qed simp

lemma unsimilar_digits:
  assumes "list_all is_digit x" "list_all is_digit y"
    and "drop i item = x @ e1" "drop j similar = y @ e2" "ie = i + length x" "se = j + length y"
  shows "unsimilar_loop item similar ie se diff False i j = Some (diff \<or> x \<noteq> y, ie, se)"
  using assms
proof (induction "length x + length y" arbitrary: x y i j diff rule: less_induct)
  case less
  note step = unsimilar_loop.simps [of item similar ie se diff False i j]
  have item: "drop (Suc i) item = tl x @ e1" "item ! i = hd x" "is_digit (hd x)" "list_all is_digit (tl x)"
    if "x \<noteq> []" using less.prems(1,3) that by (cases x; simp add: drop_Suc_tl_drop nth_via_drop)+
  have sim: "drop (Suc j) similar = tl y @ e2" "similar ! j = hd y" "is_digit (hd y)" "list_all is_digit (tl y)"
    if "y \<noteq> []" using less.prems(2,4) that by (cases y; simp add: drop_Suc_tl_drop nth_via_drop)+
  consider "x = []" "y = []" | "x = []" "y \<noteq> []" | "x \<noteq> []" "y = []" | "x \<noteq> []" "y \<noteq> []" by blast
  then show ?case
  proof cases
    case 1
    with less.prems show ?thesis unfolding step by simp
  next
    case 2
    have "unsimilar_loop item similar ie se True False i (Suc j) = Some (True, ie, se)"
      using less.hyps [of x "tl y" i "Suc j" True] less.prems 2 sim [OF 2(2)] by simp
    with 2 sim [OF 2(2)] less.prems(5,6) show ?thesis unfolding step by simp
  next
    case 3
    have "unsimilar_loop item similar ie se True False (Suc i) j = Some (True, ie, se)"
      using less.hyps [of "tl x" y "Suc i" j True] less.prems 3 item [OF 3(1)] by simp
    with 3 item [OF 3(1)] less.prems(5,6) show ?thesis unfolding step by simp
  next
    case 4
    have "unsimilar_loop item similar ie se b False (Suc i) (Suc j) = Some (b \<or> tl x \<noteq> tl y, ie, se)" for b
      using less.hyps [of "tl x" "tl y" "Suc i" "Suc j" b] less.prems 4 item [OF 4(1)] sim [OF 4(2)] by simp
    with 4 item [OF 4(1)] sim [OF 4(2)] less.prems(5,6) show ?thesis
      unfolding step Let_def by (cases x; cases y; cases "hd x = hd y"; simp)
  qed
qed

text \<open>A name made of a stem, a number and an extension.\<close>

definition numbered :: "string \<Rightarrow> string \<Rightarrow> string \<Rightarrow> string" where
  "numbered stem number ext = stem @ number @ CHR ''.'' # ext"

text \<open>Which numbered names resemble each other.  Two names of one stem, a number each (digits,
  possibly none) and an extension each without a dot are unsimilar exactly when both the numbers and
  the extensions differ: parts of one set are similar, and so is one number with another extension.\<close>

theorem checkUnsimilar_numbered:
  assumes "list_all is_digit n" "list_all is_digit m" "CHR ''.'' \<notin> set e" "CHR ''.'' \<notin> set g"
  shows "checkUnsimilar (numbered stem n e) (numbered stem m g) \<longleftrightarrow> n \<noteq> m \<and> e \<noteq> g"
proof -
  let ?i = "numbered stem n e" and ?s = "numbered stem m g"
  have rf: "str_rfind ?i ''.'' (length ?i) = Some (length stem + length n)"
    "str_rfind ?s ''.'' (length ?s) = Some (length stem + length m)"
    using str_rfind_last [OF assms(3), of "stem @ n"] str_rfind_last [OF assms(4), of "stem @ m"]
    by (simp_all add: numbered_def)
  have "unsimilar_loop ?i ?s (length stem + length n) (length stem + length m) False False 0 0
      = unsimilar_loop ?i ?s (length stem + length n) (length stem + length m) False False (length stem) (length stem)"
    by (rule unsimilar_prefix) (auto simp: numbered_def nth_append)
  also have "\<dots> = Some (n \<noteq> m, length stem + length n, length stem + length m)"
    using unsimilar_digits [OF assms(1,2), of "length stem" ?i "CHR ''.'' # e" "length stem" ?s "CHR ''.'' # g"]
    by (simp add: numbered_def)
  finally show ?thesis
    by (simp add: checkUnsimilar_def rf Let_def) (simp add: numbered_def)
qed

theorem checkUnsimilar_numbered_witness:
  "checkUnsimilar (numbered ''x-grp.r'' ''12'' ''rar'') (numbered ''x-grp.r'' ''7'' ''zip'')"
  using checkUnsimilar_numbered [of "''12''" "''7''" "''rar''" "''zip''" "''x-grp.r''"]
  by (simp add: is_digit_def byte_def)

end
