(* ===== verification/MonitorModel.thy ===== *)
theory MonitorModel
  imports FileListModel TransferStatusModel
begin

text \<open>
  One transfer as cbftp watches it: \<open>src/transfermonitor.cpp\<close> and \<open>src/transferprotocol.cpp\<close>.  A
  monitor is engaged for a transfer between two sites, a download, an upload or a listing, is told
  what happens on the two sides, and reports the outcome.  Calls to other objects are appended to
  the list \<open>m_out\<close>; what they answer is in the arguments.  The file lists of the two sides are
  those of \<open>FileListModel\<close>, the status the user sees is that of \<open>TransferStatusModel\<close>.

  Two calls come back into the monitor while it runs: disconnecting a connection that still carries
  the transfer reports an error for its side, and so does disconnecting the local socket.  These
  calls are made here, with \<open>fuel\<close> for the recursion.
\<close>

subsection \<open>State\<close>

datatype mon_type = TM_FXP | TM_DOWNLOAD | TM_UPLOAD | TM_LIST

datatype mon_status =
    IDLE | AWAITING_PASSIVE | AWAITING_ACTIVE | TRANSFERRING | TRANSFERRING_SOURCE_COMPLETE
  | TRANSFERRING_TARGET_COMPLETE | SOURCE_ERROR_AWAITING_TARGET | TARGET_ERROR_AWAITING_SOURCE

datatype mon_error =
    ERR_PRET | ERR_RETRSTOR | ERR_RETRSTOR_COMPLETE | ERR_OTHER | ERR_LOCK_DOWN | ERR_LOCK_UP
  | ERR_DUPE | ERR_CLEANUP

datatype mon_fault = AssertFailed | NullDeref | DivideByZero | OutOfFuel

datatype ssl_policy = ALWAYS_OFF | PREFER_OFF | PREFER_ON | ALWAYS_ON

datatype transfer_protocol = IPV4_ONLY | PREFER_IPV4 | PREFER_IPV6 | IPV6_ONLY

text \<open>What the monitor asks of a site.\<close>

record mon_site =
  s_id :: nat
  s_user :: string
  s_policy :: ssl_policy
  s_tls :: bool
  s_brokenpasv :: bool
  s_sscn :: bool
  s_cpsv :: bool
  s_protocol :: transfer_protocol
  s_maxtime :: int

datatype side = Src | Dst

datatype mon_action =
    ReturnConn side bool
  | PreparePassiveTransfer side string bool bool bool bool
  | PrepareActiveTransfer side string bool bool string int bool bool
  | PreparePassiveList bool bool
  | PrepareActiveList bool string int bool
  | SiteDownload | SiteUpload | SiteList | SiteListAll
  | DisconnectConn side | ConnectConn side | FinishGracefully
  | DownloadCompleted int | ListCompleted int
  | PushZeroSpeed
  | LocalTouch string | LocalFinishDownload string
  | ReserveLocal | LocalPassive string int | LocalDeactivate
  | StatsDown u64 | StatsUp u64
  | PrintLocalError string
  | NewStatus tstatus
  | TransferFailed "tstatus option" mon_error
  | TransferSuccessful "tstatus option"

record monitor =
  m_id :: int
  m_status :: mon_status
  m_sfile :: string
  m_dfile :: string
  m_src :: int
  m_dst :: int
  m_storeid :: int
  m_sls :: "mon_site option"
  m_sld :: "mon_site option"
  m_fls :: "filelist option"
  m_fld :: "filelist option"
  m_localfl :: bool
  m_clientactive :: bool
  m_fxpdstactive :: bool
  m_ssl :: bool
  m_sourcesslclient :: bool
  m_ipv6 :: bool
  m_type :: mon_type
  m_timestamp :: int
  m_startstamp :: int
  m_partial :: int
  m_ts :: "tstatus option"
  m_latestsrctouch :: int
  m_latestdsttouch :: int
  m_hidden :: bool
  m_lt :: bool
  m_ticker :: int
  m_error :: mon_error
  m_rawq :: "(string \<times> string) list"
  m_srcco :: "nat option"
  m_dstco :: "nat option"
  m_maxtime :: int
  m_timeout :: bool
  m_out :: "mon_action list"

text \<open>
  What the other objects answer during one call: the time, the verdict of skip lists, the time in the
  log; whether a connection is processing a command and whether it still carries the transfer;
  whether the local socket is open, how many bytes it has moved and the number it stores them under;
  and the mixture of two speeds in
  double precision, with the part of the new one in tenths.
\<close>

record mon_env =
  e_now :: u64
  e_sk :: skip_verdict
  e_stamp :: string
  e_processing :: "side \<Rightarrow> bool"
  e_busy :: "side \<Rightarrow> bool"
  e_ltopen :: bool
  e_ltsize :: u64
  e_storeid :: int
  e_mix :: "nat \<Rightarrow> u32 \<Rightarrow> u32 \<Rightarrow> u32"

definition MAX_WAIT_ERROR :: int where
  "MAX_WAIT_ERROR = 5000"

definition MAX_WAIT_SOURCE_COMPLETE :: int where
  "MAX_WAIT_SOURCE_COMPLETE = 60000"

definition TICK_INTERVAL :: int where
  "TICK_INTERVAL = 50"

definition emit :: "mon_action \<Rightarrow> monitor \<Rightarrow> monitor" where
  "emit a m = m\<lparr>m_out := m_out m @ [a]\<rparr>"

definition setStatus :: "mon_status \<Rightarrow> monitor \<Rightarrow> monitor" where
  "setStatus s m = m\<lparr>m_status := s\<rparr>"

definition mon_site :: "side \<Rightarrow> monitor \<Rightarrow> mon_site option" where
  "mon_site sd m = (case sd of Src \<Rightarrow> m_sls m | Dst \<Rightarrow> m_sld m)"

text \<open>A call through the pointer to a site, which may be null.\<close>

definition call_site :: "side \<Rightarrow> mon_action \<Rightarrow> monitor \<Rightarrow> mon_fault + monitor" where
  "call_site sd a m = (case mon_site sd m of None \<Rightarrow> Inl NullDeref | Some _ \<Rightarrow> Inr (emit a m))"

definition on_fls :: "(filelist \<Rightarrow> filelist) \<Rightarrow> monitor \<Rightarrow> monitor" where
  "on_fls f m = m\<lparr>m_fls := map_option f (m_fls m)\<rparr>"

definition on_fld :: "(filelist \<Rightarrow> filelist) \<Rightarrow> monitor \<Rightarrow> monitor" where
  "on_fld f m = m\<lparr>m_fld := map_option f (m_fld m)\<rparr>"

definition on_ts :: "(tstatus \<Rightarrow> tstatus) \<Rightarrow> monitor \<Rightarrow> monitor" where
  "on_ts f m = m\<lparr>m_ts := map_option f (m_ts m)\<rparr>"

text \<open>The same through a pointer that is not checked.\<close>

definition need_ts :: "(tstatus \<Rightarrow> mon_fault + tstatus) \<Rightarrow> monitor \<Rightarrow> mon_fault + monitor" where
  "need_ts f m = (case m_ts m of None \<Rightarrow> Inl NullDeref | Some t \<Rightarrow> and_then (f t) (\<lambda>t. Inr (m\<lparr>m_ts := Some t\<rparr>)))"

definition timeSpent :: "int \<Rightarrow> tstatus \<Rightarrow> mon_fault + tstatus" where
  "timeSpent n t = (case ts_setTimeSpent (of_int n) t of None \<Rightarrow> Inl DivideByZero | Some t \<Rightarrow> Inr t)"

definition logLine :: "string \<Rightarrow> tstatus \<Rightarrow> mon_fault + tstatus" where
  "logLine l t = (case ts_addLogLine l t of None \<Rightarrow> Inl AssertFailed | Some t \<Rightarrow> Inr t)"

fun logLines :: "(string \<times> string) list \<Rightarrow> tstatus \<Rightarrow> mon_fault + tstatus" where
  "logLines [] t = Inr t"
| "logLines ((tag, text) # ls) t = and_then (logLine (tag @ '' '' @ text) t) (logLines ls)"


subsection \<open>Sizes and speeds\<close>

definition file_at :: "string \<Rightarrow> filelist option \<Rightarrow> (mon_fault + dirfile option)" where
  "file_at name fl = (case fl of None \<Rightarrow> Inl NullDeref | Some fl \<Rightarrow> Inr (map_option (fl_obj fl) (fl_getFile name fl)))"

definition mon_span :: "monitor \<Rightarrow> int" where
  "mon_span m = (let span = m_timestamp m - m_startstamp m in if span = 0 then 10 else span)"

definition setTargetSizeSpeed :: "mon_env \<Rightarrow> u64 \<Rightarrow> int \<Rightarrow> tstatus \<Rightarrow> tstatus" where
  "setTargetSizeSpeed env filesize span t =
     (let t1 = ts_setTargetSize filesize t;
          current = ucast (ts_interpolated t1 div of_int span) :: u32;
          prev = ts_speed t1
      in if current < prev then ts_setSpeed (e_mix env 1 prev current) t1
         else ts_setSpeed (e_mix env 3 prev current) t1)"

definition updateFXPSizeSpeed :: "mon_env \<Rightarrow> monitor \<Rightarrow> mon_fault + monitor" where
  "updateFXPSizeSpeed env m =
     and_then (file_at (m_sfile m) (m_fls m)) (\<lambda>srcfile.
     and_then (case srcfile of
         None \<Rightarrow> Inr m
       | Some f \<Rightarrow>
           if m_latestsrctouch m \<noteq> f_touch f then
             need_ts (\<lambda>t. Inr (if ts_sourcesize t < f_size f then ts_setSourceSize (f_size f) t else t))
               (m\<lparr>m_latestsrctouch := f_touch f\<rparr>)
           else Inr m) (\<lambda>m.
     and_then (file_at (m_dfile m) (m_fld m)) (\<lambda>dstfile.
       case dstfile of
         None \<Rightarrow> Inr m
       | Some f \<Rightarrow>
           let span = mon_span m
           in if m_latestdsttouch m \<noteq> f_touch f then
                need_ts (\<lambda>t. timeSpent (span div 1000) (setTargetSizeSpeed env (f_size f) span t))
                  (m\<lparr>m_latestdsttouch := f_touch f\<rparr>)
              else
                need_ts (\<lambda>t. timeSpent (span div 1000)
                  (ts_interpolateAddSize ((ucast (ts_speed t * 1024) * of_int TICK_INTERVAL) div 1000) t)) m)))"

text \<open>The size of the local transfer is cut to 32 bits here.\<close>

definition updateLocalTransferSizeSpeed :: "mon_env \<Rightarrow> monitor \<Rightarrow> mon_fault + monitor" where
  "updateLocalTransferSizeSpeed env m =
     (if m_lt m then
        need_ts (\<lambda>t. timeSpent (mon_span m div 1000)
          (setTargetSizeSpeed env (ucast (ucast (e_ltsize env) :: u32)) (mon_span m) t)) m
      else Inr m)"

subsection \<open>The end of a transfer\<close>

definition deactivate_lt :: "monitor \<Rightarrow> monitor" where
  "deactivate_lt m = (if m_lt m then (emit LocalDeactivate m)\<lparr>m_lt := False\<rparr> else m)"

definition mon_transferFailed :: "mon_error \<Rightarrow> monitor \<Rightarrow> mon_fault + monitor" where
  "mon_transferFailed err0 m =
     (let err = (if (m_status m = SOURCE_ERROR_AWAITING_TARGET \<or> m_status m = TARGET_ERROR_AWAITING_SOURCE)
                     \<and> m_error m = ERR_DUPE then ERR_DUPE else err0);
          m1 = on_ts (\<lambda>t. if err = ERR_DUPE then ts_setDupe t
                 else if m_timeout m then ts_setTimeout t else ts_setFailed t) m;
          ext = getExtension (m_dfile m1)
      in and_then (if m_type m1 = TM_FXP \<and> err \<noteq> ERR_DUPE \<and> ext \<noteq> ''sfv'' \<and> ext \<noteq> ''nfo'' then
            (if m_sls m1 = None \<or> m_sld m1 = None then Inl NullDeref else Inr (emit PushZeroSpeed m1))
          else Inr m1) (\<lambda>m2.
          let m3 = deactivate_lt m2 in Inr (setStatus IDLE (emit (TransferFailed (m_ts m3) err) m3))))"

text \<open>The last figures of a transfer with a status.\<close>

definition final_status :: "u64 \<Rightarrow> int \<Rightarrow> tstatus \<Rightarrow> mon_fault + tstatus" where
  "final_status size' span t =
     timeSpent (span div 1000) (ts_setSpeed (ucast (size' div of_int span)) (ts_setTargetSize size' t))"

definition finish_sizes :: "mon_env \<Rightarrow> monitor \<Rightarrow> mon_fault + monitor" where
  "finish_sizes env m =
     (if m_type m = TM_FXP then updateFXPSizeSpeed env m
      else if m_type m = TM_DOWNLOAD \<or> m_type m = TM_UPLOAD then updateLocalTransferSizeSpeed env m
      else Inr m)"

definition finish_file :: "mon_env \<Rightarrow> int \<Rightarrow> monitor \<Rightarrow> mon_fault + monitor" where
  "finish_file env span m =
     and_then (file_at (m_sfile m) (m_fls m)) (\<lambda>srcfile.
     and_then (case (srcfile, m_ts m) of
         (None, _) \<Rightarrow> Inr m
       | (_, None) \<Rightarrow> Inl NullDeref
       | (Some f, Some t) \<Rightarrow>
           let size' = max (f_size f) (ts_known t); speed = ucast (size' div of_int span)
           in and_then (final_status size' span t) (\<lambda>t'.
              let m' = m\<lparr>m_ts := Some t'\<rparr>
              in if m_type m' = TM_FXP then
                (case (m_fld m', m_sls m', m_sld m') of
                   (Some fld, Some sls, Some sld) \<Rightarrow>
                     Inr (m'\<lparr>m_fld := Some (fl_setFileUpdateFlag (e_now env) (m_dfile m') size' speed
                       \<lparr>uf_src = s_id sls, uf_dst = s_id sld, uf_srcco = m_srcco m', uf_dstco = m_dstco m'\<rparr> fld)\<rparr>)
                 | _ \<Rightarrow> Inl NullDeref)
              else if \<not> m_lt m' then Inl NullDeref
              else call_site Src (StatsDown (e_ltsize env)) m')) (\<lambda>m.
       if m_type m = TM_DOWNLOAD then call_site Src (DownloadCompleted (m_storeid m)) m else Inr m))"

definition finish_upload :: "mon_env \<Rightarrow> int \<Rightarrow> monitor \<Rightarrow> mon_fault + monitor" where
  "finish_upload env span m =
     (if \<not> m_lt m then Inl NullDeref
      else and_then (need_ts (final_status (e_ltsize env) span) m) (call_site Dst (StatsUp (e_ltsize env))))"

definition mon_finish :: "mon_env \<Rightarrow> monitor \<Rightarrow> mon_fault + monitor" where
  "mon_finish env m =
     (let span = mon_span m
      in and_then (finish_sizes env m) (\<lambda>m.
         and_then (case m_type m of
             TM_FXP \<Rightarrow> finish_file env span m
           | TM_DOWNLOAD \<Rightarrow> finish_file env span m
           | TM_UPLOAD \<Rightarrow> finish_upload env span m
           | TM_LIST \<Rightarrow> call_site Src (ListCompleted (m_storeid m)) m) (\<lambda>m.
         let m = deactivate_lt (on_ts ts_setFinished m)
         in Inr (setStatus IDLE (emit (TransferSuccessful (m_ts m)) m)))))"

subsection \<open>Errors on the two sides\<close>

text \<open>
  \<open>sourceError\<close>, \<open>targetError\<close>, \<open>closeRemainingConnections\<close>, and the two calls that come back:
  disconnecting the connection of a side, and disconnecting the local socket.
\<close>

definition is_transfer :: "monitor \<Rightarrow> bool" where
  "is_transfer m \<longleftrightarrow> m_type m \<noteq> TM_LIST"

definition processing :: "mon_env \<Rightarrow> side \<Rightarrow> monitor \<Rightarrow> bool" where
  "processing env sd m \<longleftrightarrow> mon_site sd m = None \<or> e_processing env sd"

definition mon_newRawBufferLine :: "string \<times> string \<Rightarrow> monitor \<Rightarrow> mon_fault + monitor" where
  "mon_newRawBufferLine line m =
     (case m_ts m of
        None \<Rightarrow> Inr (m\<lparr>m_rawq := m_rawq m @ [line]\<rparr>)
      | Some t \<Rightarrow> and_then (logLines (m_rawq m @ [line]) t) (\<lambda>t. Inr (m\<lparr>m_ts := Some t, m_rawq := []\<rparr>)))"

definition mon_localInfo :: "string \<Rightarrow> mon_env \<Rightarrow> monitor \<Rightarrow> mon_fault + monitor" where
  "mon_localInfo info env m = mon_newRawBufferLine (''['' @ e_stamp env @ '']'', ''['' @ info @ '']'') m"

definition mon_localError :: "string \<Rightarrow> mon_env \<Rightarrow> monitor \<Rightarrow> mon_fault + monitor" where
  "mon_localError info = mon_localInfo (''Error: '' @ info)"

fun mon_sourceError :: "nat \<Rightarrow> mon_env \<Rightarrow> mon_error \<Rightarrow> monitor \<Rightarrow> mon_fault + monitor"
and mon_targetError :: "nat \<Rightarrow> mon_env \<Rightarrow> mon_error \<Rightarrow> monitor \<Rightarrow> mon_fault + monitor"
and closeRemaining :: "nat \<Rightarrow> mon_env \<Rightarrow> monitor \<Rightarrow> mon_fault + monitor" where
  "mon_sourceError 0 env err m = Inl OutOfFuel"
| "mon_sourceError (Suc fuel) env err m =
     (if m_status m \<notin> {AWAITING_ACTIVE, AWAITING_PASSIVE, TARGET_ERROR_AWAITING_SOURCE, TRANSFERRING,
          TRANSFERRING_TARGET_COMPLETE} then Inl AssertFailed
      else
        let m1 = (on_fls (fl_finishDownload (m_sfile m)) m)\<lparr>m_partial := m_timestamp m\<rparr>
        in if (m_status m1 = AWAITING_PASSIVE \<or> m_status m1 = AWAITING_ACTIVE) \<and> \<not> processing env Dst m1 then
             (if m_fld m1 = None then Inl NullDeref
              else mon_transferFailed err (on_fld (fl_finishUpload (e_now env) (m_dfile m1))
                (emit (ReturnConn Dst (is_transfer m1)) m1)))
           else if m_status m1 = TRANSFERRING_TARGET_COMPLETE \<or> m_status m1 = TARGET_ERROR_AWAITING_SOURCE then
             mon_transferFailed err m1
           else
             let m2 = setStatus SOURCE_ERROR_AWAITING_TARGET (m1\<lparr>m_error := err\<rparr>)
             in if m_type m2 = TM_DOWNLOAD then closeRemaining fuel env m2 else Inr m2)"
| "mon_targetError 0 env err m = Inl OutOfFuel"
| "mon_targetError (Suc fuel) env err m =
     (if m_status m \<notin> {AWAITING_ACTIVE, AWAITING_PASSIVE, SOURCE_ERROR_AWAITING_TARGET, TRANSFERRING,
          TRANSFERRING_SOURCE_COMPLETE} then Inl AssertFailed
      else
        let m1 = (on_fld (if err \<noteq> ERR_DUPE then fl_removeFile (e_sk env) (e_now env) (m_dfile m)
                    else fl_finishUpload (e_now env) (m_dfile m)) m)\<lparr>m_partial := m_timestamp m\<rparr>
        in if (m_status m1 = AWAITING_PASSIVE \<or> m_status m1 = AWAITING_ACTIVE) \<and> \<not> processing env Src m1 then
             mon_transferFailed err (on_fls (fl_finishDownload (m_sfile m1))
               (emit (ReturnConn Src (is_transfer m1)) m1))
           else if m_status m1 = TRANSFERRING_SOURCE_COMPLETE \<or> m_status m1 = SOURCE_ERROR_AWAITING_TARGET then
             mon_transferFailed err m1
           else
             let m2 = setStatus TARGET_ERROR_AWAITING_SOURCE (m1\<lparr>m_error := err\<rparr>)
             in if m_type m2 = TM_UPLOAD then closeRemaining fuel env m2 else Inr m2)"
| "closeRemaining 0 env m = Inl OutOfFuel"
| "closeRemaining (Suc fuel) env m =
     (if m_status m = IDLE then Inr m
      else and_then
        (if m_sld m \<noteq> None \<and> m_status m \<noteq> TARGET_ERROR_AWAITING_SOURCE \<and> m_status m \<noteq> TRANSFERRING_TARGET_COMPLETE
         then and_then (if e_busy env Dst then mon_targetError fuel env ERR_CLEANUP (emit (DisconnectConn Dst) m)
             else Inr (emit (DisconnectConn Dst) m)) (\<lambda>m. Inr (emit (ConnectConn Dst) m))
         else Inr m) (\<lambda>m.
      if m_status m = IDLE then Inr m
      else and_then
        (if m_sls m \<noteq> None \<and> m_status m \<noteq> SOURCE_ERROR_AWAITING_TARGET \<and> m_status m \<noteq> TRANSFERRING_SOURCE_COMPLETE
         then and_then (if e_busy env Src then mon_sourceError fuel env ERR_CLEANUP (emit (DisconnectConn Src) m)
             else Inr (emit (DisconnectConn Src) m)) (\<lambda>m. Inr (emit (ConnectConn Src) m))
         else Inr m) (\<lambda>m.
      if m_status m = IDLE then Inr m
      else if m_lt m \<and> e_ltopen env
        \<and> ((m_type m = TM_DOWNLOAD \<or> m_type m = TM_LIST) \<and> m_status m \<noteq> TARGET_ERROR_AWAITING_SOURCE
             \<and> m_status m \<noteq> TRANSFERRING_TARGET_COMPLETE
           \<or> m_type m = TM_UPLOAD \<and> m_status m \<noteq> SOURCE_ERROR_AWAITING_TARGET
             \<and> m_status m \<noteq> TRANSFERRING_SOURCE_COMPLETE) then
        and_then (mon_localInfo ''Closing connection'' env m) (\<lambda>m.
          if m_type m = TM_UPLOAD then mon_sourceError fuel env ERR_OTHER m
          else mon_targetError fuel env ERR_OTHER m)
      else Inr m)))"

declare mon_sourceError.simps [simp del] mon_targetError.simps [simp del] closeRemaining.simps [simp del]

text \<open>The fuel of a call from outside; \<open>mon_fuel_enough\<close> shows that it is never used up.\<close>

definition FUEL :: nat where
  "FUEL = 4"

subsection \<open>What the two sides tell\<close>

definition mon_sourceComplete :: "mon_env \<Rightarrow> monitor \<Rightarrow> mon_fault + monitor" where
  "mon_sourceComplete env m =
     (if m_status m \<notin> {TARGET_ERROR_AWAITING_SOURCE, TRANSFERRING, TRANSFERRING_TARGET_COMPLETE}
      then Inl AssertFailed
      else
        let m1 = on_fls (fl_finishDownload (m_sfile m)) (m\<lparr>m_partial := m_timestamp m\<rparr>)
        in if m_status m1 = TRANSFERRING then Inr (setStatus TRANSFERRING_SOURCE_COMPLETE m1)
           else if m_status m1 = TARGET_ERROR_AWAITING_SOURCE then mon_transferFailed (m_error m1) m1
           else mon_finish env m1)"

definition mon_targetComplete :: "mon_env \<Rightarrow> monitor \<Rightarrow> mon_fault + monitor" where
  "mon_targetComplete env m =
     (if m_status m \<notin> {SOURCE_ERROR_AWAITING_TARGET, TRANSFERRING, TRANSFERRING_SOURCE_COMPLETE, AWAITING_ACTIVE}
      then Inl AssertFailed
      else
        let m1 = on_fld (fl_finishUpload (e_now env) (m_dfile m)) (m\<lparr>m_partial := m_timestamp m\<rparr>);
            m2 = (if m_type m1 = TM_DOWNLOAD \<and> m_localfl m1 then emit (LocalFinishDownload (m_dfile m1)) m1 else m1)
        in if m_status m2 = TRANSFERRING \<or> m_status m2 = AWAITING_ACTIVE
           then Inr (setStatus TRANSFERRING_TARGET_COMPLETE m2)
           else if m_status m2 = SOURCE_ERROR_AWAITING_TARGET then mon_transferFailed (m_error m2) m2
           else mon_finish env m2)"

definition startClientTransfer :: "monitor \<Rightarrow> mon_fault + monitor" where
  "startClientTransfer m =
     (case m_type m of
        TM_UPLOAD \<Rightarrow> call_site Dst SiteUpload m
      | TM_DOWNLOAD \<Rightarrow> call_site Src SiteDownload m
      | TM_LIST \<Rightarrow> call_site Src (if m_hidden m then SiteListAll else SiteList) m
      | TM_FXP \<Rightarrow> Inl AssertFailed)"

text \<open>The side that failed meanwhile is told the other's readiness as a failure.\<close>

definition fail_waiting :: "mon_env \<Rightarrow> monitor \<Rightarrow> mon_fault + monitor" where
  "fail_waiting env m =
     (if m_status m = TARGET_ERROR_AWAITING_SOURCE
      then and_then (mon_sourceError FUEL env ERR_OTHER m) (\<lambda>m. call_site Src (ReturnConn Src (is_transfer m)) m)
      else and_then (mon_targetError FUEL env ERR_OTHER m) (\<lambda>m. call_site Dst (ReturnConn Dst (is_transfer m)) m))"

text \<open>The local end connects to the announced address; without a local directory it stores what it gets.\<close>

definition passive_local :: "mon_env \<Rightarrow> string \<Rightarrow> int \<Rightarrow> side \<Rightarrow> monitor \<Rightarrow> mon_fault + monitor" where
  "passive_local env host port sd m =
     (if m_lt m then
        and_then (call_site sd (LocalPassive host port) m) (\<lambda>m.
          Inr (if m_type m = TM_LIST \<or> m_type m = TM_DOWNLOAD \<and> \<not> m_localfl m
               then m\<lparr>m_storeid := e_storeid env\<rparr> else m))
      else Inl NullDeref)"

text \<open>The other side is told the address of the passive side.\<close>

definition announce :: "mon_env \<Rightarrow> string \<Rightarrow> int \<Rightarrow> monitor \<Rightarrow> mon_fault + monitor" where
  "announce env host port m =
     (case m_type m of
        TM_FXP \<Rightarrow>
          if m_fxpdstactive m
          then call_site Dst (PrepareActiveTransfer Dst (m_dfile m) True (m_ipv6 m) host port (m_ssl m) (\<not> m_sourcesslclient m)) m
          else call_site Src (PrepareActiveTransfer Src (m_sfile m) True (m_ipv6 m) host port (m_ssl m) (m_sourcesslclient m)) m
      | TM_DOWNLOAD \<Rightarrow>
          if m_clientactive m then passive_local env host port Src m
          else call_site Src (PrepareActiveTransfer Src (m_sfile m) False (m_ipv6 m) host port (m_ssl m) False) m
      | TM_UPLOAD \<Rightarrow>
          if m_clientactive m then passive_local env host port Dst m
          else call_site Dst (PrepareActiveTransfer Dst (m_dfile m) False (m_ipv6 m) host port (m_ssl m) False) m
      | TM_LIST \<Rightarrow>
          if m_clientactive m then passive_local env host port Src m
          else call_site Src (PrepareActiveList (m_ipv6 m) host port (m_ssl m)) m)"

definition mon_passiveReady :: "mon_env \<Rightarrow> string \<Rightarrow> int \<Rightarrow> monitor \<Rightarrow> mon_fault + monitor" where
  "mon_passiveReady env host port m =
     (if m_status m \<notin> {AWAITING_PASSIVE, TARGET_ERROR_AWAITING_SOURCE, SOURCE_ERROR_AWAITING_TARGET}
      then Inl AssertFailed
      else if m_status m \<noteq> AWAITING_PASSIVE then fail_waiting env m
      else announce env host port
        (on_ts (\<lambda>t. t\<lparr>ts_passiveaddr := (if m_ipv6 m then ''['' @ host @ '']'' else host) @ '':'' @ show_int port\<rparr>)
          (setStatus AWAITING_ACTIVE m)))"

definition mon_activeReady :: "mon_env \<Rightarrow> monitor \<Rightarrow> mon_fault + monitor" where
  "mon_activeReady env m =
     (if m_status m \<notin> {AWAITING_ACTIVE, TARGET_ERROR_AWAITING_SOURCE, SOURCE_ERROR_AWAITING_TARGET}
      then Inl AssertFailed
      else if m_status m \<noteq> AWAITING_ACTIVE then fail_waiting env m
      else if m_type m = TM_FXP then
        (if m_fxpdstactive m then call_site Dst SiteUpload m else call_site Src SiteDownload m)
      else startClientTransfer m)"

definition mon_activeStarted :: "monitor \<Rightarrow> mon_fault + monitor" where
  "mon_activeStarted m =
     (if m_status m \<notin> {AWAITING_ACTIVE, TARGET_ERROR_AWAITING_SOURCE, SOURCE_ERROR_AWAITING_TARGET,
          TRANSFERRING_TARGET_COMPLETE} then Inl AssertFailed
      else if m_status m = AWAITING_ACTIVE then
        let m1 = setStatus TRANSFERRING m
        in and_then (if m_type m1 = TM_FXP then
              (if m_fxpdstactive m1 then call_site Src SiteDownload m1 else call_site Dst SiteUpload m1)
            else if m_clientactive m1 then startClientTransfer m1 else Inr m1)
            (\<lambda>m. Inr (m\<lparr>m_startstamp := m_timestamp m\<rparr>))
      else Inr m)"

definition mon_sslDetails :: "string \<Rightarrow> bool \<Rightarrow> monitor \<Rightarrow> monitor" where
  "mon_sslDetails cipher reused m = on_ts (\<lambda>t. t\<lparr>ts_cipher := cipher, ts_sslreused := reused\<rparr>) m"


end
