(* ===== verification/MonitorEngage.thy ===== *)
theory MonitorEngage
  imports MonitorModel
begin

text \<open>
  How a monitor is engaged, and its clock: the remaining operations of \<open>src/transfermonitor.cpp\<close> and
  \<open>src/transferprotocol.cpp\<close>.  What the site, the local storage and the file system answer while a
  transfer is engaged is in a record of type \<open>engage_in\<close>.
\<close>

subsection \<open>Protocols\<close>

definition transferProtocolCombinationPossible :: "transfer_protocol \<Rightarrow> transfer_protocol \<Rightarrow> bool" where
  "transferProtocolCombinationPossible sprot dprot \<longleftrightarrow>
     \<not> (sprot = IPV4_ONLY \<and> dprot = IPV6_ONLY \<or> sprot = IPV6_ONLY \<and> dprot = IPV4_ONLY)"

definition useIPv6 :: "transfer_protocol \<Rightarrow> transfer_protocol \<Rightarrow> bool" where
  "useIPv6 sprot dprot \<longleftrightarrow> (sprot \<noteq> IPV4_ONLY \<and> dprot \<noteq> IPV4_ONLY) \<and> \<not> (sprot = PREFER_IPV4 \<and> dprot = PREFER_IPV4)"

subsection \<open>A fresh monitor\<close>

text \<open>The members that the constructor does not set keep what they are in \<open>any\<close>.\<close>

definition mon_new :: "monitor \<Rightarrow> monitor" where
  "mon_new any = any\<lparr>m_id := 0, m_status := IDLE, m_clientactive := True, m_fxpdstactive := True, m_timestamp := 0,
     m_ticker := 0, m_sfile := [], m_dfile := [], m_sls := None, m_sld := None, m_fls := None, m_fld := None,
     m_localfl := False, m_ts := None, m_rawq := [], m_srcco := None, m_dstco := None, m_out := []\<rparr>"

definition mon_reset :: "monitor \<Rightarrow> monitor" where
  "mon_reset m = m\<lparr>m_sls := None, m_sld := None, m_fls := None, m_fld := None, m_lt := False, m_ts := None,
     m_srcco := None, m_dstco := None, m_clientactive := True, m_fxpdstactive := True, m_ssl := False,
     m_timestamp := 0, m_startstamp := 0, m_partial := 0, m_rawq := [], m_storeid := -1, m_maxtime := -1,
     m_timeout := False, m_id := -1\<rparr>"

definition willFail :: "monitor \<Rightarrow> bool" where
  "willFail m \<longleftrightarrow> m_status m = SOURCE_ERROR_AWAITING_TARGET \<or> m_status m = TARGET_ERROR_AWAITING_SOURCE"

subsection \<open>Failures while a transfer is engaged\<close>

definition fail_status :: "bool \<Rightarrow> monitor \<Rightarrow> mon_fault + monitor" where
  "fail_status dupe = need_ts (\<lambda>t. Inr (if dupe then ts_setDupe t else ts_setFailed t))"

definition lateFXPFailure :: "mon_env \<Rightarrow> string \<Rightarrow> monitor \<Rightarrow> mon_fault + monitor" where
  "lateFXPFailure env reason m =
     and_then (mon_localError reason env m) (\<lambda>m.
     and_then (fail_status False m) (\<lambda>m.
     and_then (call_site Src (ReturnConn Src True) (emit (TransferFailed (m_ts m) ERR_OTHER) m)) (\<lambda>m.
     and_then (call_site Dst (ReturnConn Dst True) m) (\<lambda>m.
     Inr (setStatus IDLE m)))))"

text \<open>The failure of a transfer with a local end; \<open>sd\<close> is the side of the site.\<close>

definition lateLocalFailure :: "side \<Rightarrow> mon_env \<Rightarrow> bool \<Rightarrow> string \<Rightarrow> monitor \<Rightarrow> mon_fault + monitor" where
  "lateLocalFailure sd env dupe reason m =
     and_then (mon_localError reason env m) (\<lambda>m.
     and_then (fail_status dupe m) (\<lambda>m.
     let m = deactivate_lt m in
     and_then (call_site sd (ReturnConn sd True)
       (emit (TransferFailed (m_ts m) (if dupe then ERR_DUPE else ERR_OTHER)) m)) (\<lambda>m.
     Inr (setStatus IDLE m))))"

subsection \<open>The answers of the others\<close>

text \<open>
  Opening a local port: no port is free, or a proxy is asked to listen, or the local end listens and
  says so at once.
\<close>

datatype listening = NoPort | ListenViaProxy string | Listening string string int

record engage_in =
  g_lockdown :: "int option"
  g_lockup :: "int option"
  g_avgspeed :: u32
  g_maxtime :: int
  g_localprotocol :: transfer_protocol
  g_dpath :: path
  g_createdir :: "string option"
  g_existing :: "u64 option"
  g_dataproxy :: bool
  g_addrerror :: "string option"
  g_listen :: listening

definition active_mode :: "mon_env \<Rightarrow> listening \<Rightarrow> monitor \<Rightarrow> mon_fault + monitor" where
  "active_mode env l m =
     (case l of
        NoPort \<Rightarrow> Inr (m\<lparr>m_lt := False\<rparr>)
      | ListenViaProxy info \<Rightarrow> and_then (mon_localInfo info env m) (\<lambda>m. Inr (m\<lparr>m_lt := True\<rparr>))
      | Listening info host port \<Rightarrow>
          and_then (mon_localInfo info env m) (\<lambda>m.
          and_then (mon_passiveReady env host port m) (\<lambda>m. Inr (m\<lparr>m_lt := True\<rparr>))))"

text \<open>The same for a transfer into memory: the number of the store is asked of the local end.\<close>

definition active_store :: "mon_env \<Rightarrow> listening \<Rightarrow> monitor \<Rightarrow> mon_fault + monitor" where
  "active_store env l m =
     and_then (active_mode env l m) (\<lambda>m. if m_lt m then Inr (m\<lparr>m_storeid := e_storeid env\<rparr>) else Inl NullDeref)"

text \<open>The time limit of a transfer with a local end.\<close>

definition local_maxtime :: "mon_site \<Rightarrow> int \<Rightarrow> int" where
  "local_maxtime s tm = (if 0 \<le> s_maxtime s then s_maxtime s else tm)"

definition fxp_maxtime :: "mon_site \<Rightarrow> mon_site \<Rightarrow> int \<Rightarrow> int" where
  "fxp_maxtime sls sld tm =
     (if 0 < s_maxtime sld \<and> (s_maxtime sls = 0 \<or> s_maxtime sld < s_maxtime sls) then s_maxtime sld
      else if 0 \<le> s_maxtime sls then s_maxtime sls else tm)"

subsection \<open>Engaging\<close>

definition fxp_ssl :: "ssl_policy \<Rightarrow> ssl_policy \<Rightarrow> bool" where
  "fxp_ssl spol dpol \<longleftrightarrow> spol \<noteq> ALWAYS_OFF \<and> dpol \<noteq> ALWAYS_OFF
     \<and> (spol = ALWAYS_ON \<or> dpol = ALWAYS_ON \<or> spol = PREFER_ON \<and> dpol = PREFER_ON)"

definition fxp_sslclient :: "mon_site \<Rightarrow> mon_site \<Rightarrow> bool \<Rightarrow> bool" where
  "fxp_sslclient sls sld dstactive =
     (if dstactive \<and> \<not> s_sscn sls \<and> \<not> s_cpsv sls \<or> \<not> dstactive \<and> \<not> s_sscn sld \<and> \<not> s_cpsv sld
      then \<not> dstactive else dstactive)"

definition fxp_check :: "mon_site \<Rightarrow> mon_site \<Rightarrow> string option" where
  "fxp_check sls sld =
     (if s_policy sls = ALWAYS_OFF \<and> s_policy sld = ALWAYS_ON \<or> s_policy sls = ALWAYS_ON \<and> s_policy sld = ALWAYS_OFF
      then Some ''FXP transfer not possible due to conflicting TLS settings''
      else if (s_policy sls = ALWAYS_ON \<or> s_policy sld = ALWAYS_ON) \<and> \<not> s_sscn sls \<and> \<not> s_sscn sld
      then Some ''TLS FXP transfer not possible due to neither site supporting SSCN''
      else if \<not> transferProtocolCombinationPossible (s_protocol sls) (s_protocol sld)
      then Some ''FXP transfer not possible due to conflicting IPv4/IPv6 settings''
      else None)"

definition fxp_start :: "mon_env \<Rightarrow> engage_in \<Rightarrow> mon_site \<Rightarrow> mon_site \<Rightarrow> monitor \<Rightarrow> mon_fault + monitor" where
  "fxp_start env g sls sld m =
     (case fxp_check sls sld of
        Some reason \<Rightarrow> lateFXPFailure env reason m
      | None \<Rightarrow>
          if m_fxpdstactive m then
            Inr ((emit (PreparePassiveTransfer Src (m_sfile m) True (m_ipv6 m) (m_ssl m) (m_sourcesslclient m)) m)
              \<lparr>m_maxtime := fxp_maxtime sls sld (g_maxtime g)\<rparr>)
          else if s_brokenpasv sld then
            lateFXPFailure env ''FXP transfer not possible due to both sites having broken PASV'' m
          else
            Inr ((emit (PreparePassiveTransfer Dst (m_dfile m) True (m_ipv6 m) (m_ssl m) (\<not> m_sourcesslclient m)) m)
              \<lparr>m_maxtime := fxp_maxtime sls sld (g_maxtime g)\<rparr>))"

definition fxp_setup :: "engage_in \<Rightarrow> mon_site \<Rightarrow> mon_site \<Rightarrow> monitor \<Rightarrow> monitor" where
  "fxp_setup g sls sld m =
     (let dstactive = \<not> s_brokenpasv sls; ssl = fxp_ssl (s_policy sls) (s_policy sld)
      in m\<lparr>m_fxpdstactive := dstactive, m_ssl := (ssl \<or> m_ssl m),
           m_sourcesslclient := (if ssl then fxp_sslclient sls sld dstactive else m_sourcesslclient m),
           m_ipv6 := useIPv6 (s_protocol sls) (s_protocol sld)\<rparr>)"

definition fxp_touch :: "mon_env \<Rightarrow> engage_in \<Rightarrow> mon_site \<Rightarrow> monitor \<Rightarrow> mon_fault + monitor" where
  "fxp_touch env g sld m =
     (let m1 = on_fld (fl_touchFile (e_sk env) (e_now env) (m_dfile m) (s_user sld) True) m
      in and_then (file_at (m_sfile m1) (m_fls m1)) (\<lambda>sf.
         and_then (file_at (m_dfile m1) (m_fld m1)) (\<lambda>df.
         case (sf, df) of
           (Some sf, Some df) \<Rightarrow>
             let t = ts_new (f_size sf) (g_avgspeed g) (m_ssl m1)
             in Inr (emit (NewStatus t) ((on_fls (fl_download (m_sfile m1)) m1)
                  \<lparr>m_latestsrctouch := f_touch sf, m_latestdsttouch := f_touch df, m_ts := Some t\<rparr>))
         | _ \<Rightarrow> Inl NullDeref)))"

definition engageFXP :: "mon_env \<Rightarrow> engage_in \<Rightarrow> int \<Rightarrow> string \<Rightarrow> mon_site \<Rightarrow> filelist \<Rightarrow> string \<Rightarrow> mon_site \<Rightarrow> filelist
    \<Rightarrow> nat option \<Rightarrow> nat option \<Rightarrow> monitor \<Rightarrow> mon_fault + monitor" where
  "engageFXP env g tid sfile sls fls dfile sld fld srcco dstco m =
     (let m1 = (mon_reset m)\<lparr>m_id := tid, m_type := TM_FXP, m_sls := Some sls, m_sld := Some sld, m_fls := Some fls,
            m_fld := Some fld, m_sfile := sfile, m_dfile := dfile, m_srcco := srcco, m_dstco := dstco,
            m_status := AWAITING_PASSIVE\<rparr>
      in case g_lockdown g of
           None \<Rightarrow> Inr (setStatus IDLE (emit (TransferFailed (m_ts m1) ERR_LOCK_DOWN) m1))
         | Some src \<Rightarrow>
             let m2 = m1\<lparr>m_src := src\<rparr>
             in case g_lockup g of
                  None \<Rightarrow> Inr (setStatus IDLE (emit (ReturnConn Src True) (emit (TransferFailed (m_ts m2) ERR_LOCK_UP) m2)))
                | Some dst \<Rightarrow>
                    and_then (fxp_touch env g sld (fxp_setup g sls sld (m2\<lparr>m_dst := dst\<rparr>))) (fxp_start env g sls sld))"

definition local_ssl :: "mon_site \<Rightarrow> bool" where
  "local_ssl s \<longleftrightarrow> s_policy s = ALWAYS_ON \<or> s_policy s = PREFER_ON"

text \<open>What may stop a download before it starts: the reason, and whether the file is there already.\<close>

definition download_check :: "engage_in \<Rightarrow> mon_site \<Rightarrow> monitor \<Rightarrow> (string \<times> bool) option" where
  "download_check g sls m =
     (if m_localfl m \<and> g_createdir g \<noteq> None
      then Some (''Failed to create directory '' @ p_path (g_dpath g) @ '': '' @ the (g_createdir g), False)
      else if m_localfl m \<and> (case g_existing g of None \<Rightarrow> False | Some n \<Rightarrow> 0 < n)
      then Some (p_path (path_concat (g_dpath g) (path_new (m_dfile m))) @ '' already exists'', True)
      else if \<not> transferProtocolCombinationPossible (s_protocol sls) (g_localprotocol g)
      then Some (''Transfer not possible due to conflicting IPv4/IPv6 settings'', False)
      else if \<not> m_clientactive m \<and> \<not> g_dataproxy g \<and> g_addrerror g \<noteq> None
      then Some (the (g_addrerror g), False)
      else None)"

definition download_start :: "mon_env \<Rightarrow> engage_in \<Rightarrow> monitor \<Rightarrow> mon_fault + monitor" where
  "download_start env g m =
     (if m_clientactive m then
        Inr ((emit ReserveLocal (emit (PreparePassiveTransfer Src (m_sfile m) False (m_ipv6 m) (m_ssl m) False) m))
          \<lparr>m_lt := True\<rparr>)
      else if m_localfl m then active_mode env (g_listen g) m
      else active_store env (g_listen g) m)"

definition engageDownload :: "mon_env \<Rightarrow> engage_in \<Rightarrow> int \<Rightarrow> string \<Rightarrow> mon_site \<Rightarrow> filelist \<Rightarrow> bool \<Rightarrow> nat option
    \<Rightarrow> int \<Rightarrow> monitor \<Rightarrow> mon_fault + monitor" where
  "engageDownload env g tid sfile sls fls localfl co connid m =
     (let m1 = (mon_reset m)\<lparr>m_type := TM_DOWNLOAD, m_id := tid, m_sls := Some sls, m_sfile := sfile, m_dfile := sfile,
            m_fls := Some fls, m_localfl := localfl, m_srcco := co, m_src := connid\<rparr>
      in case (if connid = -1 then g_lockdown g else Some connid) of
           None \<Rightarrow> Inr m1
         | Some src \<Rightarrow>
             let m2 = m1\<lparr>m_src := src, m_status := AWAITING_PASSIVE, m_ssl := (local_ssl sls \<or> m_ssl m1),
                    m_ipv6 := useIPv6 (s_protocol sls) (g_localprotocol g), m_clientactive := (\<not> s_brokenpasv sls)\<rparr>
             in and_then (file_at sfile (m_fls m2)) (\<lambda>f. case f of
                  None \<Rightarrow> Inl NullDeref
                | Some f \<Rightarrow>
                    let t = ts_new (f_size f) 0 (m_ssl m2);
                        m3 = emit (NewStatus t) (m2\<lparr>m_ts := Some t\<rparr>);
                        m4 = (if localfl then emit (LocalTouch sfile) m3 else m3)
                    in case download_check g sls m4 of
                         Some (reason, dupe) \<Rightarrow> lateLocalFailure Src env dupe reason m4
                       | None \<Rightarrow> and_then (download_start env g m4) (\<lambda>m.
                           Inr (m\<lparr>m_maxtime := local_maxtime sls (g_maxtime g)\<rparr>))))"

definition upload_start :: "mon_env \<Rightarrow> engage_in \<Rightarrow> monitor \<Rightarrow> mon_fault + monitor" where
  "upload_start env g m =
     (if m_clientactive m then
        Inr ((emit ReserveLocal (emit (PreparePassiveTransfer Dst (m_dfile m) False (m_ipv6 m) (m_ssl m) False) m))
          \<lparr>m_lt := True\<rparr>)
      else active_mode env (g_listen g) m)"

text \<open>
  \<open>localfile\<close> is the size of the file in the local list; \<open>g_existing\<close> tells whether it still
  is on disk.  Without an address the failure is reported the way \<open>lateUploadFailure\<close> does it.
\<close>

definition upload_check :: "engage_in \<Rightarrow> mon_site \<Rightarrow> monitor \<Rightarrow> (string \<times> bool) option" where
  "upload_check g sld m =
     (if g_existing g = None
      then Some (p_path (path_concat (g_dpath g) (path_new (m_sfile m))) @ '' does not exist'', True)
      else if \<not> transferProtocolCombinationPossible (g_localprotocol g) (s_protocol sld)
      then Some (''Transfer not possible due to conflicting IPv4/IPv6 settings'', False)
      else if \<not> m_clientactive m \<and> \<not> g_dataproxy g \<and> g_addrerror g \<noteq> None
      then Some (the (g_addrerror g), False)
      else None)"

definition engageUpload :: "mon_env \<Rightarrow> engage_in \<Rightarrow> int \<Rightarrow> string \<Rightarrow> bool \<Rightarrow> u64 option \<Rightarrow> mon_site \<Rightarrow> filelist \<Rightarrow> nat option
    \<Rightarrow> monitor \<Rightarrow> mon_fault + monitor" where
  "engageUpload env g tid sfile localfl localfile sld fld co m =
     (let m0 = mon_reset m
      in if \<not> localfl then Inr m0
         else
           let m1 = m0\<lparr>m_type := TM_UPLOAD, m_id := tid, m_sld := Some sld, m_sfile := sfile, m_dfile := sfile,
                  m_fld := Some fld, m_localfl := True, m_dstco := co\<rparr>
           in case localfile of
                None \<Rightarrow> Inr m1
              | Some newsize \<Rightarrow>
                  (case g_lockup g of
                     None \<Rightarrow> Inr m1
                   | Some dst \<Rightarrow>
                       let m2 = m1\<lparr>m_dst := dst, m_status := AWAITING_PASSIVE, m_ssl := (local_ssl sld \<or> m_ssl m1),
                              m_ipv6 := useIPv6 (g_localprotocol g) (s_protocol sld),
                              m_clientactive := (\<not> s_brokenpasv sld)\<rparr>;
                           t = ts_new newsize 0 (m_ssl m2);
                           m3 = emit (NewStatus t) ((on_fld (fl_touchFile (e_sk env) (e_now env) sfile (s_user sld) True) m2)
                             \<lparr>m_ts := Some t\<rparr>)
                       in case upload_check g sld m3 of
                            Some (reason, dupe) \<Rightarrow> lateLocalFailure Dst env dupe reason m3
                          | None \<Rightarrow> and_then (upload_start env g m3) (\<lambda>m.
                              Inr (m\<lparr>m_maxtime := local_maxtime sld (g_maxtime g)\<rparr>))))"

text \<open>A listing has no status and keeps the file names of the transfer before.\<close>

definition engageList :: "mon_env \<Rightarrow> engage_in \<Rightarrow> int \<Rightarrow> mon_site \<Rightarrow> int \<Rightarrow> bool \<Rightarrow> filelist option \<Rightarrow> nat option \<Rightarrow> bool
    \<Rightarrow> monitor \<Rightarrow> mon_fault + monitor" where
  "engageList env g tid sls connid hidden fl co ipv6 m =
     (let m1 = (mon_reset m)\<lparr>m_type := TM_LIST, m_id := tid, m_sls := Some sls, m_fls := fl, m_srcco := co, m_src := connid,
            m_hidden := hidden, m_ssl := s_tls sls, m_ipv6 := ipv6, m_status := AWAITING_PASSIVE\<rparr>;
          done = (\<lambda>m. Inr (m\<lparr>m_maxtime := 30\<rparr>))
      in if \<not> s_brokenpasv sls then
           done ((emit ReserveLocal (emit (PreparePassiveList ipv6 (m_ssl m1)) m1))\<lparr>m_lt := True\<rparr>)
         else
           let m2 = m1\<lparr>m_clientactive := False\<rparr>
           in if \<not> g_dataproxy g \<and> g_addrerror g \<noteq> None
              then Inr (setStatus IDLE (emit (PrintLocalError (the (g_addrerror g))) m2))
              else and_then (active_store env (g_listen g) m2) done)"

subsection \<open>The clock\<close>

definition mon_log :: "mon_env \<Rightarrow> string \<Rightarrow> monitor \<Rightarrow> mon_fault + monitor" where
  "mon_log env line = need_ts (logLine (''['' @ e_stamp env @ ''] ['' @ line @ '']''))"

text \<open>
  Ending the transfer of the source gracefully reports it as complete; the site asserts that the
  connection has a transfer.
\<close>

definition finishGracefully :: "mon_env \<Rightarrow> monitor \<Rightarrow> mon_fault + monitor" where
  "finishGracefully env m =
     and_then (call_site Src FinishGracefully m) (\<lambda>m.
       if e_busy env Src then mon_sourceComplete env m else Inl AssertFailed)"

definition checkForDeadFXPTransfers :: "mon_env \<Rightarrow> monitor \<Rightarrow> mon_fault + monitor \<times> bool" where
  "checkForDeadFXPTransfers env m =
     (let waited = m_timestamp m - m_partial m; stop = (\<lambda>m. Inr (m, True))
      in if m_status m = SOURCE_ERROR_AWAITING_TARGET \<and> MAX_WAIT_ERROR < waited
           \<or> m_status m = TRANSFERRING_SOURCE_COMPLETE \<and> MAX_WAIT_SOURCE_COMPLETE < waited then
           and_then (mon_log env ''Partial completion timeout reached. Disconnecting target'' m) (\<lambda>m.
           and_then (closeRemaining FUEL env m) stop)
         else if m_status m = TARGET_ERROR_AWAITING_SOURCE \<and> MAX_WAIT_ERROR < waited then
           and_then (mon_log env ''Partial completion timeout reached. Disconnecting source'' m) (\<lambda>m.
           and_then (closeRemaining FUEL env m) stop)
         else if m_status m = TRANSFERRING_TARGET_COMPLETE \<and> MAX_WAIT_ERROR < waited then
           and_then (mon_log env ''Partial completion timeout reached. Disconnecting source'' m) (\<lambda>m.
           and_then (finishGracefully env m) stop)
         else Inr (m, False))"

text \<open>The flag is raised after the connections are closed.\<close>

definition checkMaxTransferTime :: "mon_env \<Rightarrow> monitor \<Rightarrow> mon_fault + monitor \<times> bool" where
  "checkMaxTransferTime env m =
     (if 0 < m_maxtime m \<and> m_maxtime m < m_timestamp m div 1000
         \<and> (m_status m = TRANSFERRING \<or> m_status m = AWAITING_ACTIVE \<or> m_status m = AWAITING_PASSIVE) then
        and_then (if m_ts m = None then Inr m
          else mon_log env (''Timeout reached after '' @ show_int (m_maxtime m) @ '' seconds. Disconnecting'') m) (\<lambda>m.
        and_then (closeRemaining FUEL env m) (\<lambda>m. Inr (m\<lparr>m_timeout := True\<rparr>, True)))
      else Inr (m, False))"

definition mon_tick :: "mon_env \<Rightarrow> monitor \<Rightarrow> mon_fault + monitor" where
  "mon_tick env m =
     (if m_status m = IDLE then Inr m
      else
        let m1 = m\<lparr>m_timestamp := m_timestamp m + TICK_INTERVAL, m_ticker := m_ticker m + 1\<rparr>;
            second = (m_ticker m1 mod 20 = 0);
            limit = (\<lambda>m. if second then and_then (checkMaxTransferTime env m) (\<lambda>(m, _). Inr m) else Inr m)
        in if m_type m1 = TM_FXP then
             and_then (updateFXPSizeSpeed env m1) (\<lambda>m.
               if second then and_then (checkForDeadFXPTransfers env m) (\<lambda>(m, dead). if dead then Inr m else limit m)
               else limit m)
           else if (m_type m1 = TM_DOWNLOAD \<or> m_type m1 = TM_UPLOAD) \<and> m_ticker m1 mod 4 = 0 then
             and_then (updateLocalTransferSizeSpeed env m1) limit
           else limit m1)"

definition mon_abortTransfer :: "mon_env \<Rightarrow> monitor \<Rightarrow> mon_fault + monitor" where
  "mon_abortTransfer env m =
     and_then (mon_log env ''Aborting transfer'' m) (\<lambda>m.
     and_then (closeRemaining FUEL env m) (need_ts (\<lambda>t. Inr (ts_setAborted t))))"

subsection \<open>Histories\<close>

datatype mon_event =
    EngageFXP engage_in int string mon_site filelist string mon_site filelist "nat option" "nat option"
  | EngageDownload engage_in int string mon_site filelist bool "nat option" int
  | EngageUpload engage_in int string bool "u64 option" mon_site filelist "nat option"
  | EngageList engage_in int mon_site int bool "filelist option" "nat option" bool
  | PassiveReady string int | ActiveReady | ActiveStarted | SslDetails string bool
  | SourceComplete | TargetComplete | SourceError mon_error | TargetError mon_error
  | RawLine "string \<times> string" | Tick | Abort

definition is_engage :: "mon_event \<Rightarrow> bool" where
  "is_engage ev = (case ev of EngageFXP _ _ _ _ _ _ _ _ _ _ \<Rightarrow> True | EngageDownload _ _ _ _ _ _ _ _ \<Rightarrow> True
     | EngageUpload _ _ _ _ _ _ _ _ \<Rightarrow> True | EngageList _ _ _ _ _ _ _ _ \<Rightarrow> True | _ \<Rightarrow> False)"

fun mon_step :: "mon_env \<Rightarrow> mon_event \<Rightarrow> monitor \<Rightarrow> mon_fault + monitor" where
  "mon_step env (EngageFXP g tid sfile sls fls dfile sld fld srcco dstco) m = engageFXP env g tid sfile sls fls dfile sld fld srcco dstco m"
| "mon_step env (EngageDownload g tid sfile sls fls localfl co connid) m = engageDownload env g tid sfile sls fls localfl co connid m"
| "mon_step env (EngageUpload g tid sfile localfl localfile sld fld co) m = engageUpload env g tid sfile localfl localfile sld fld co m"
| "mon_step env (EngageList g tid sls connid hidden fl co ipv6) m = engageList env g tid sls connid hidden fl co ipv6 m"
| "mon_step env (PassiveReady host port) m = mon_passiveReady env host port m"
| "mon_step env ActiveReady m = mon_activeReady env m"
| "mon_step env ActiveStarted m = mon_activeStarted m"
| "mon_step env (SslDetails cipher reused) m = Inr (mon_sslDetails cipher reused m)"
| "mon_step env SourceComplete m = mon_sourceComplete env m"
| "mon_step env TargetComplete m = mon_targetComplete env m"
| "mon_step env (SourceError err) m = mon_sourceError FUEL env err m"
| "mon_step env (TargetError err) m = mon_targetError FUEL env err m"
| "mon_step env (RawLine line) m = mon_newRawBufferLine line m"
| "mon_step env Tick m = mon_tick env m"
| "mon_step env Abort m = mon_abortTransfer env m"

end
