(* ===== verification/MonitorInv.thy ===== *)
theory MonitorInv
  imports MonitorEngage
begin

text \<open>
  What holds of every transfer that \<open>MonitorModel\<close> and \<open>MonitorEngage\<close> watch.  The calls of a
  monitor are followed with a small calculus: \<open>mon_ok F P r\<close> says that the result \<open>r\<close>
  is a fault of \<open>F\<close> or a state with \<open>P\<close>.  \<open>moved m m'\<close> relates the states around a
  call from outside: either the transfer goes on with the same parts, or it is over, the local end is
  given back and exactly one end is reported.  All of it is proved for any set \<open>F\<close> that holds the
  faults which the parts of the state at hand can cause, so the same lemmas give that the recursion
  never runs out of fuel, that reports are exact and that no null pointer is followed.
\<close>


subsection \<open>Results and faults\<close>

definition mon_ok :: "mon_fault set \<Rightarrow> ('a \<Rightarrow> bool) \<Rightarrow> mon_fault + 'a \<Rightarrow> bool" where
  "mon_ok F P r = (case r of Inl f \<Rightarrow> f \<in> F | Inr x \<Rightarrow> P x)"

lemma ok_Inr [simp]: "mon_ok F P (Inr x) = P x"
  and ok_Inl [simp]: "mon_ok F P (Inl f) = (f \<in> F)"
  by (simp_all add: mon_ok_def)

lemma ok_bind: "mon_ok F Q r \<Longrightarrow> (\<And>x. Q x \<Longrightarrow> mon_ok F P (f x)) \<Longrightarrow> mon_ok F P (and_then r f)"
  by (cases r) auto

lemma ok_mono: "mon_ok F Q r \<Longrightarrow> (\<And>x. Q x \<Longrightarrow> P x) \<Longrightarrow> mon_ok F P r"
  by (cases r) auto

subsection \<open>What a call keeps\<close>

definition ts_open :: "tstatus \<Rightarrow> bool" where
  "ts_open t \<longleftrightarrow> ts_state t = IN_PROGRESS \<or> ts_state t = ABORTED"

fun opens :: "mon_action \<Rightarrow> bool" where
  "opens (NewStatus _) = True" | "opens _ = False"

fun closes :: "mon_action \<Rightarrow> bool" where
  "closes (TransferFailed (Some _) _) = True" | "closes (TransferSuccessful (Some _)) = True" | "closes _ = False"

definition opened :: "monitor \<Rightarrow> nat" where
  "opened m = length (filter opens (m_out m))"

definition closed_count :: "monitor \<Rightarrow> nat" where
  "closed_count m = length (filter closes (m_out m))"

definition frame :: "monitor \<Rightarrow> mon_type \<times> mon_site option \<times> mon_site option \<times> bool \<times> bool \<times> bool option" where
  "frame m = (m_type m, m_sls m, m_sld m, m_fls m = None, m_fld m = None, map_option ts_open (m_ts m))"

definition counts :: "monitor \<Rightarrow> nat \<times> nat" where
  "counts m = (opened m, closed_count m)"

definition same :: "monitor \<Rightarrow> monitor \<Rightarrow> bool" where
  "same m m' \<longleftrightarrow> frame m' = frame m \<and> counts m' = counts m \<and> m_lt m' = m_lt m \<and> m_status m' = m_status m"

lemma same_refl [simp]: "same m m" by (simp add: same_def)
lemma same_trans [trans]: "same m m1 \<Longrightarrow> same m1 m2 \<Longrightarrow> same m m2" by (simp add: same_def)

lemma ts_open_simps [simp]:
  "ts_open (ts_setTargetSize a t) = ts_open t"
  "ts_open (ts_setSpeed b t) = ts_open t"
  "ts_open (ts_setSourceSize a t) = ts_open t"
  "ts_open (ts_interpolateAddSize a t) = ts_open t"
  "ts_open (t\<lparr>ts_passiveaddr := s\<rparr>) = ts_open t"
  "ts_open (t\<lparr>ts_cipher := s, ts_sslreused := c\<rparr>) = ts_open t"
  by (simp_all add: ts_open_def ts_setTargetSize_def ts_setSpeed_def ts_setSourceSize_def ts_interpolateAddSize_def ts_updateProgress_def Let_def)

lemma setTargetSizeSpeed_open [simp]: "ts_open (setTargetSizeSpeed env n span t) = ts_open t"
  by (simp add: setTargetSizeSpeed_def Let_def)

lemma timeSpent_ok: "DivideByZero \<in> F \<Longrightarrow> mon_ok F (\<lambda>t'. ts_open t' = ts_open t) (timeSpent n t)"
  by (auto simp: timeSpent_def ts_setTimeSpent_def Let_def ts_open_def)

lemma logLine_ok: "ts_open t \<or> AssertFailed \<in> F \<Longrightarrow> mon_ok F (\<lambda>t'. ts_open t' = ts_open t) (logLine l t)"
  by (auto simp: logLine_def ts_addLogLine_def ts_open_def)

lemma logLines_ok: "ts_open t \<or> AssertFailed \<in> F \<Longrightarrow> mon_ok F (\<lambda>t'. ts_open t' = ts_open t) (logLines ls t)"
proof (induction ls t rule: logLines.induct)
  case (2 tag body ls t)
  show ?case unfolding logLines.simps
    by (rule ok_bind [OF logLine_ok [OF 2(2)]], rule ok_mono [OF 2(1)]) (use 2(2) in auto)
qed simp

lemma same_simps [simp]:
  "same m (m\<lparr>m_latestsrctouch := i\<rparr>)" "same m (m\<lparr>m_latestdsttouch := i\<rparr>)" "same m (m\<lparr>m_partial := i\<rparr>)"
  "same m (m\<lparr>m_startstamp := i\<rparr>)" "same m (m\<lparr>m_timestamp := i, m_ticker := j\<rparr>)" "same m (m\<lparr>m_error := e\<rparr>)"
  "same m (m\<lparr>m_storeid := i\<rparr>)" "same m (m\<lparr>m_maxtime := i\<rparr>)" "same m (m\<lparr>m_timeout := b\<rparr>)"
  "same m (m\<lparr>m_rawq := q\<rparr>)" "same m (on_fls f m)" "same m (on_fld g m)"
  "same m (mon_sslDetails c b m)"
  by (simp_all add: same_def frame_def counts_def opened_def closed_count_def on_fls_def on_fld_def mon_sslDetails_def
      on_ts_def option.map_comp o_def)

lemma same_ts: "m_ts m = Some t \<Longrightarrow> ts_open t' = ts_open t \<Longrightarrow> same m (m\<lparr>m_ts := Some t'\<rparr>)"
  by (simp add: same_def frame_def counts_def opened_def closed_count_def)

lemma same_emit: "\<not> opens a \<Longrightarrow> \<not> closes a \<Longrightarrow> same m (emit a m)"
  by (simp add: same_def frame_def counts_def opened_def closed_count_def emit_def)

subsection \<open>Parts of a call\<close>

lemma need_ts_ok:
  assumes "m_ts m = None \<Longrightarrow> NullDeref \<in> F"
    and "\<And>t. m_ts m = Some t \<Longrightarrow> mon_ok F (\<lambda>t'. ts_open t' = ts_open t) (f t)"
  shows "mon_ok F (same m) (need_ts f m)"
proof (cases "m_ts m")
  case (Some t)
  then show ?thesis
    using assms(2) [OF Some] by (auto simp: need_ts_def intro!: ok_bind same_ts)
qed (use assms in \<open>simp add: need_ts_def\<close>)

lemma call_site_ok:
  assumes "mon_site sd m = None \<Longrightarrow> NullDeref \<in> F" "\<not> opens a" "\<not> closes a"
  shows "mon_ok F (same m) (call_site sd a m)"
  using assms by (auto simp: call_site_def same_emit split: option.split)

lemma ok_same_bind:
  assumes "mon_ok F (same m) r" "\<And>m1. same m m1 \<Longrightarrow> mon_ok F (same m1) (f m1)"
  shows "mon_ok F (same m) (and_then r f)"
  using assms(1) by (rule ok_bind) (blast intro: ok_mono assms(2) same_trans)

lemma same_need:
  assumes "same m m1"
  shows "(m_ts m1 = None) = (m_ts m = None)" "(m_fls m1 = None) = (m_fls m = None)" "(m_fld m1 = None) = (m_fld m = None)"
    "mon_site sd m1 = mon_site sd m" "m_type m1 = m_type m" "m_lt m1 = m_lt m" "m_status m1 = m_status m"
    "m_sls m1 = m_sls m" "m_sld m1 = m_sld m"
  using assms by (auto simp: same_def frame_def mon_site_def split: side.split)


lemma file_at_bind:
  assumes "fl = None \<Longrightarrow> NullDeref \<in> F" "\<And>f. mon_ok F P (g f)"
  shows "mon_ok F P (and_then (file_at name fl) g)"
  using assms by (cases fl) (auto simp: file_at_def)

lemma same_touch:
  "same m m' \<Longrightarrow> same m (m'\<lparr>m_latestsrctouch := i\<rparr>)" "same m m' \<Longrightarrow> same m (m'\<lparr>m_latestdsttouch := i\<rparr>)"
  by (auto intro: same_trans same_simps)

lemma ok_same_from: "mon_ok F (same m1) r \<Longrightarrow> same m m1 \<Longrightarrow> mon_ok F (same m) r"
  by (auto elim!: ok_mono intro: same_trans)

lemma updateFXP_ok:
  assumes null: "m_ts m = None \<or> m_fls m = None \<or> m_fld m = None \<Longrightarrow> NullDeref \<in> F" and F: "DivideByZero \<in> F"
  shows "mon_ok F (same m) (updateFXPSizeSpeed env m)"
  unfolding updateFXPSizeSpeed_def Let_def
proof (intro file_at_bind ok_same_bind, goal_cases)
  case (2 f)
  then show ?case
    using null by (auto split: option.split intro!: ok_same_from [OF need_ts_ok])
next
  case (4 f m1 g)
  note s = same_need [OF this]
  have "m_ts m1 = None \<Longrightarrow> NullDeref \<in> F" using null s by auto
  then show ?case
    by (auto simp: F split: option.split intro!: ok_same_from [OF need_ts_ok] ok_mono [OF timeSpent_ok])
qed (use null in \<open>auto dest: same_need\<close>)

lemma updateLocal_ok:
  assumes null: "m_ts m = None \<Longrightarrow> NullDeref \<in> F" and F: "DivideByZero \<in> F"
  shows "mon_ok F (same m) (updateLocalTransferSizeSpeed env m)"
  by (auto simp: updateLocalTransferSizeSpeed_def F intro!: need_ts_ok null ok_mono [OF timeSpent_ok])


subsection \<open>Going on or ending\<close>

definition ends :: "monitor \<Rightarrow> mon_type \<times> mon_site option \<times> mon_site option \<times> bool" where
  "ends m = (m_type m, m_sls m, m_sld m, m_ts m = None)"

definition moved :: "monitor \<Rightarrow> monitor \<Rightarrow> bool" where
  "moved m m' \<longleftrightarrow> opened m' = opened m \<and> ends m' = ends m
     \<and> (if m_status m = IDLE then m_status m' = IDLE \<and> m_lt m' = m_lt m \<and> closed_count m' = closed_count m
        else if m_status m' = IDLE then \<not> m_lt m' \<and> closed_count m' = closed_count m + (if m_ts m = None then 0 else 1)
        else frame m' = frame m \<and> m_lt m' = m_lt m \<and> closed_count m' = closed_count m)"

lemma frame_ts: "frame m' = frame m \<Longrightarrow> (m_ts m' = None) = (m_ts m = None)"
  by (auto simp: frame_def)

lemma moved_trans: "moved m m1 \<Longrightarrow> moved m1 m2 \<Longrightarrow> moved m m2"
  unfolding moved_def by (auto dest: frame_ts split: if_splits)

lemma same_moved: "same m m' \<Longrightarrow> moved m m'"
  using frame_ts [of m' m] by (auto simp: same_def moved_def counts_def frame_def ends_def)

lemma same_moved_trans: "same m m1 \<Longrightarrow> moved m1 m2 \<Longrightarrow> moved m m2"
  by (blast intro: moved_trans same_moved)

lemma ok_moved_from: "mon_ok F (moved m1) r \<Longrightarrow> moved m m1 \<Longrightarrow> mon_ok F (moved m) r"
  by (auto elim!: ok_mono intro: moved_trans)

lemma ok_moved: "mon_ok F (same m) r \<Longrightarrow> mon_ok F (moved m) r"
  by (auto elim!: ok_mono intro: same_moved)

lemma ok_moved_bind:
  assumes "mon_ok F (moved m) r" "\<And>m1. moved m m1 \<Longrightarrow> mon_ok F (moved m1) (f m1)"
  shows "mon_ok F (moved m) (and_then r f)"
  using assms(1) by (rule ok_bind) (blast intro: ok_mono assms(2) moved_trans)

lemma setStatus_moved: "m_status m \<noteq> IDLE \<Longrightarrow> s \<noteq> IDLE \<Longrightarrow> moved m (setStatus s m)"
  by (simp add: moved_def setStatus_def frame_def opened_def closed_count_def ends_def)

lemma close_moved:
  assumes "m_status m \<noteq> IDLE" "\<not> m_lt m'" "opened m' = opened m" "closed_count m' = closed_count m"
    "(m_ts m' = None) = (m_ts m = None)" "ends m' = ends m" "a = TransferFailed (m_ts m') err \<or> a = TransferSuccessful (m_ts m')"
  shows "moved m (setStatus IDLE (emit a m'))"
  using assms by (cases "m_ts m'") (auto simp: moved_def setStatus_def emit_def opened_def closed_count_def ends_def)

lemma deactivate_facts: "\<not> m_lt (deactivate_lt m)" "opened (deactivate_lt m) = opened m"
    "closed_count (deactivate_lt m) = closed_count m" "m_ts (deactivate_lt m) = m_ts m"
    "m_status (deactivate_lt m) = m_status m" "ends (deactivate_lt m) = ends m"
  by (simp_all add: deactivate_lt_def emit_def opened_def closed_count_def ends_def)

lemma on_ts_facts: "opened (on_ts f m) = opened m" "closed_count (on_ts f m) = closed_count m"
    "(m_ts (on_ts f m) = None) = (m_ts m = None)" "m_status (on_ts f m) = m_status m"
    "m_type (on_ts f m) = m_type m" "m_sls (on_ts f m) = m_sls m" "m_sld (on_ts f m) = m_sld m" "ends (on_ts f m) = ends m"
  by (simp_all add: on_ts_def opened_def closed_count_def ends_def)

lemma emit_facts: "m_status (emit a m) = m_status m" "m_ts (emit a m) = m_ts m" "m_lt (emit a m) = m_lt m" "ends (emit a m) = ends m"
    "\<not> opens a \<Longrightarrow> opened (emit a m) = opened m" "\<not> closes a \<Longrightarrow> closed_count (emit a m) = closed_count m"
  by (simp_all add: emit_def opened_def closed_count_def ends_def)

lemma transferFailed_ok:
  assumes "m_status m \<noteq> IDLE" "m_type m = TM_FXP \<and> (m_sls m = None \<or> m_sld m = None) \<Longrightarrow> NullDeref \<in> F"
  shows "mon_ok F (\<lambda>m'. moved m m' \<and> m_status m' = IDLE) (mon_transferFailed err m)"
  using assms unfolding mon_transferFailed_def Let_def
  by (auto simp: on_ts_facts setStatus_def intro!: close_moved [unfolded setStatus_def]
      simp: deactivate_facts emit_facts)


subsection \<open>The parts of a transfer\<close>

definition linked :: "monitor \<Rightarrow> bool" where
  "linked m \<longleftrightarrow> (case m_type m of
       TM_FXP \<Rightarrow> m_sls m \<noteq> None \<and> m_sld m \<noteq> None \<and> m_fls m \<noteq> None \<and> m_fld m \<noteq> None \<and> m_ts m \<noteq> None
     | TM_DOWNLOAD \<Rightarrow> m_sls m \<noteq> None \<and> m_sld m = None \<and> m_fls m \<noteq> None \<and> m_fld m = None \<and> m_ts m \<noteq> None
     | TM_UPLOAD \<Rightarrow> m_sls m = None \<and> m_sld m \<noteq> None \<and> m_fls m = None \<and> m_fld m \<noteq> None \<and> m_ts m \<noteq> None
     | TM_LIST \<Rightarrow> m_sls m \<noteq> None \<and> m_sld m = None \<and> m_fld m = None \<and> m_ts m = None)"

definition local_end :: "monitor \<Rightarrow> bool" where
  "local_end m \<longleftrightarrow> m_type m = TM_FXP \<or> m_lt m"

lemma frameD:
  assumes "frame m' = frame m"
  shows "m_type m' = m_type m" "m_sls m' = m_sls m" "m_sld m' = m_sld m" "(m_fls m' = None) = (m_fls m = None)"
    "(m_fld m' = None) = (m_fld m = None)" "(m_ts m' = None) = (m_ts m = None)"
  using assms frame_ts [OF assms] by (simp_all add: frame_def)

lemma frame_linked:
  assumes "frame m' = frame m" shows "linked m' = linked m"
  by (simp only: linked_def frameD [OF assms])

lemma same_linked: 
  assumes "same m m'" shows "linked m' = linked m" "local_end m' = local_end m"
proof -
  have f: "frame m' = frame m" using assms by (simp add: same_def)
  show "linked m' = linked m" by (rule frame_linked [OF f])
  show "local_end m' = local_end m" using same_need [OF assms] by (simp only: local_end_def)
qed

subsection \<open>Completion\<close>

lemma final_status_ok: "DivideByZero \<in> F \<Longrightarrow> mon_ok F (\<lambda>t'. ts_open t' = ts_open t) (final_status n span t)"
  unfolding final_status_def by (auto intro: ok_mono [OF timeSpent_ok])

lemma finish_sizes_ok:
  assumes null: "\<not> (linked m \<and> local_end m) \<Longrightarrow> NullDeref \<in> F" and F: "DivideByZero \<in> F"
  shows "mon_ok F (same m) (finish_sizes env m)"
  using null by (auto simp: finish_sizes_def F linked_def intro!: updateFXP_ok updateLocal_ok)

lemma finish_file_ok:
  assumes null: "\<not> (linked m \<and> local_end m) \<Longrightarrow> NullDeref \<in> F" and F: "DivideByZero \<in> F"
    and ty: "m_type m = TM_FXP \<or> m_type m = TM_DOWNLOAD"
  shows "mon_ok F (same m) (finish_file env span m)"
  unfolding finish_file_def Let_def
proof (intro file_at_bind ok_same_bind, goal_cases)
  case 1 then show ?case using null ty by (auto simp: linked_def)
next
  case (2 f)
  show ?case
  proof (cases f; cases "m_ts m")
    fix x t assume x: "f = Some x" "m_ts m = Some t"
    show ?thesis unfolding x prod.case option.case
    proof (rule ok_bind [OF final_status_ok [OF F]], goal_cases)
      case (1 t')
      have s: "same m (m\<lparr>m_ts := Some t'\<rparr>)" using x 1 by (simp add: same_ts)
      show ?case
        using null s same_trans [OF s] ty
        by (auto simp: linked_def local_end_def mon_site_def split: option.split
            intro!: ok_same_from [OF call_site_ok] same_trans [OF s])
          (auto simp: same_def frame_def counts_def opened_def closed_count_def)
    qed
  qed (use null ty in \<open>auto simp: linked_def\<close>)
next
  case (3 f m1)
  then show ?case
    using null same_linked [OF 3] same_need [OF 3]
    by (auto intro!: call_site_ok simp: linked_def mon_site_def)
qed


lemma finish_upload_ok:
  assumes null: "\<not> (linked m \<and> local_end m) \<Longrightarrow> NullDeref \<in> F" and F: "DivideByZero \<in> F"
    and ty: "m_type m = TM_UPLOAD"
  shows "mon_ok F (same m) (finish_upload env span m)"
proof -
  have "mon_ok F (same m) (and_then (need_ts (final_status (e_ltsize env) span) m) (call_site Dst (StatsUp (e_ltsize env))))"
  proof (rule ok_same_bind)
    show "mon_ok F (same m) (need_ts (final_status (e_ltsize env) span) m)"
      using null ty by (auto intro!: need_ts_ok final_status_ok F simp: linked_def)
    show "mon_ok F (same m1) (call_site Dst (StatsUp (e_ltsize env)) m1)" if "same m m1" for m1
      using null ty same_need(4) [OF that, of Dst] by (auto intro!: call_site_ok simp: linked_def mon_site_def)
  qed
  then show ?thesis using null ty by (auto simp: finish_upload_def linked_def local_end_def)
qed

lemma finish_type_ok:
  assumes null: "\<not> (linked m \<and> local_end m) \<Longrightarrow> NullDeref \<in> F" and F: "DivideByZero \<in> F"
  shows "mon_ok F (same m) (case m_type m of TM_FXP \<Rightarrow> finish_file env span m | TM_DOWNLOAD \<Rightarrow> finish_file env span m
     | TM_UPLOAD \<Rightarrow> finish_upload env span m | TM_LIST \<Rightarrow> call_site Src (ListCompleted (m_storeid m)) m)"
proof (cases "m_type m")
  case TM_LIST then show ?thesis using null by (auto intro!: call_site_ok simp: linked_def mon_site_def)
qed (use null F in \<open>auto intro!: finish_file_ok finish_upload_ok\<close>)

lemma mon_finish_ok:
  assumes null: "\<not> (linked m \<and> local_end m) \<Longrightarrow> NullDeref \<in> F" and F: "DivideByZero \<in> F" and st: "m_status m \<noteq> IDLE"
  shows "mon_ok F (\<lambda>m'. moved m m' \<and> m_status m' = IDLE) (mon_finish env m)"
proof -
  have fin: "moved m1 (setStatus IDLE (emit (TransferSuccessful (m_ts n)) n))"
    if "n = deactivate_lt (on_ts ts_setFinished m1)" "same m m1" for m1 n
    using that st same_need(7) same_need(5,8,9) [of m m1]
    by (auto intro!: close_moved simp: deactivate_facts on_ts_facts)
  show ?thesis
    unfolding mon_finish_def Let_def
  proof (rule ok_bind [OF finish_sizes_ok [OF null F]], simp)
    fix m1 assume s1: "same m m1"
    show "mon_ok F (\<lambda>m'. moved m m' \<and> m_status m' = IDLE) (and_then (case m_type m1 of TM_FXP \<Rightarrow> finish_file env (mon_span m) m1
        | TM_DOWNLOAD \<Rightarrow> finish_file env (mon_span m) m1 | TM_UPLOAD \<Rightarrow> finish_upload env (mon_span m) m1
        | TM_LIST \<Rightarrow> call_site Src (ListCompleted (m_storeid m1)) m1)
        (\<lambda>m. Inr (setStatus IDLE (emit (TransferSuccessful (m_ts (deactivate_lt (on_ts ts_setFinished m)))) (deactivate_lt (on_ts ts_setFinished m))))))"
    proof (rule ok_bind [OF finish_type_ok])
      show "\<not> (linked m1 \<and> local_end m1) \<Longrightarrow> NullDeref \<in> F" using null same_linked [OF s1] by simp
      fix m2 assume "same m1 m2"
      then have s2: "same m m2" using s1 same_trans by blast
      show "mon_ok F (\<lambda>m'. moved m m' \<and> m_status m' = IDLE)
         (Inr (setStatus IDLE (emit (TransferSuccessful (m_ts (deactivate_lt (on_ts ts_setFinished m2)))) (deactivate_lt (on_ts ts_setFinished m2)))))"
        using same_moved_trans [OF s2 fin [OF refl s2]] by (simp add: setStatus_def)
    qed (rule F)
  qed
qed

lemma localInfo_ok:
  assumes "(\<forall>t. m_ts m = Some t \<longrightarrow> ts_open t) \<or> AssertFailed \<in> F"
  shows "mon_ok F (same m) (mon_newRawBufferLine line m)"
  unfolding mon_newRawBufferLine_def
  using assms by (auto split: option.split intro!: ok_bind [OF logLines_ok] simp: same_def frame_def counts_def opened_def closed_count_def)

lemma mon_localInfo_ok:
  assumes "(\<forall>t. m_ts m = Some t \<longrightarrow> ts_open t) \<or> AssertFailed \<in> F"
  shows "mon_ok F (same m) (mon_localInfo s env m)" "mon_ok F (same m) (mon_localError s env m)"
  using assms by (auto simp: mon_localError_def mon_localInfo_def intro!: localInfo_ok)


subsection \<open>Errors on the two sides\<close>

definition opn :: "monitor \<Rightarrow> bool" where
  "opn m \<longleftrightarrow> (\<forall>t. m_ts m = Some t \<longrightarrow> ts_open t)"

lemma frame_opn:
  assumes "frame m' = frame m" shows "opn m' = opn m"
proof -
  have "map_option ts_open (m_ts m') = map_option ts_open (m_ts m)" using assms by (simp add: frame_def)
  then show ?thesis by (cases "m_ts m"; cases "m_ts m'") (simp_all add: opn_def)
qed

definition fit :: "mon_fault set \<Rightarrow> monitor \<Rightarrow> bool" where
  "fit F m \<longleftrightarrow> m_status m = IDLE \<or> (linked m \<or> NullDeref \<in> F) \<and> (opn m \<or> AssertFailed \<in> F)"

lemma moved_fit: "moved m m' \<Longrightarrow> fit F m \<Longrightarrow> fit F m'"
  using frame_linked [of m' m] frame_opn [of m' m] by (auto simp: moved_def fit_def split: if_splits)

lemma emit_same: "same m m' \<Longrightarrow> \<not> opens a \<Longrightarrow> \<not> closes a \<Longrightarrow> same m (emit a m')"
  by (rule same_trans [OF _ same_emit])

definition target_hears :: "mon_status \<Rightarrow> bool" where
  "target_hears s \<longleftrightarrow> s \<noteq> IDLE \<and> s \<noteq> TARGET_ERROR_AWAITING_SOURCE \<and> s \<noteq> TRANSFERRING_TARGET_COMPLETE"

definition source_hears :: "mon_status \<Rightarrow> bool" where
  "source_hears s \<longleftrightarrow> s \<noteq> IDLE \<and> s \<noteq> SOURCE_ERROR_AWAITING_TARGET \<and> s \<noteq> TRANSFERRING_SOURCE_COMPLETE"

text \<open>A report to one side, from a status in \<open>S\<close>, that leaves the transfer in \<open>S\<close> or over.\<close>

definition within :: "mon_status set \<Rightarrow> monitor \<Rightarrow> monitor \<Rightarrow> bool" where
  "within S m m' \<longleftrightarrow> moved m m' \<and> m_status m' \<in> insert IDLE S"

lemma within_trans: "within S m m1 \<Longrightarrow> within S m1 m2 \<Longrightarrow> within S m m2"
  by (auto simp: within_def intro: moved_trans)

lemma within_same: "same m m' \<Longrightarrow> m_status m \<in> insert IDLE S \<Longrightarrow> within S m m'"
  by (auto simp: within_def same_moved same_need)

lemma ok_within_bind:
  assumes "mon_ok F (within S m) r" "\<And>m1. within S m m1 \<Longrightarrow> mon_ok F (within S m1) (f m1)"
  shows "mon_ok F (within S m) (and_then r f)"
  using assms(1) by (rule ok_bind) (blast intro: ok_mono assms(2) within_trans)

lemma ok_within_from: "mon_ok F (within S m1) r \<Longrightarrow> within S m m1 \<Longrightarrow> mon_ok F (within S m) r"
  by (auto elim!: ok_mono intro: within_trans)

definition side_error :: "nat \<Rightarrow> mon_env \<Rightarrow> side \<Rightarrow> mon_error \<Rightarrow> monitor \<Rightarrow> mon_fault + monitor" where
  "side_error n env sd err m = (case sd of Src \<Rightarrow> mon_sourceError n env err m | Dst \<Rightarrow> mon_targetError n env err m)"

definition side_hears :: "side \<Rightarrow> mon_status \<Rightarrow> bool" where
  "side_hears sd s = (case sd of Src \<Rightarrow> source_hears s | Dst \<Rightarrow> target_hears s)"

definition hearing :: "mon_fault set \<Rightarrow> mon_status set \<Rightarrow> nat \<Rightarrow> mon_env \<Rightarrow> bool" where
  "hearing F S n env \<longleftrightarrow> (\<forall>sd err m. fit F m \<and> m_status m \<in> S \<and> side_hears sd (m_status m)
     \<longrightarrow> mon_ok F (within S m) (side_error n env sd err m))"

lemma hearingD: "hearing F S n env \<Longrightarrow> fit F m \<Longrightarrow> m_status m \<in> S \<Longrightarrow> side_hears sd (m_status m)
    \<Longrightarrow> mon_ok F (within S m) (side_error n env sd err m)"
  by (simp add: hearing_def)

lemma within_fit: "within S m m' \<Longrightarrow> fit F m \<Longrightarrow> fit F m'"
  by (auto simp: within_def intro: moved_fit)

text \<open>Disconnecting one side.\<close>

lemma close_side_ok:
  assumes h: "hearing F S n env" and m: "fit F m" "m_status m \<in> S" "side_hears sd (m_status m)"
  shows "mon_ok F (within S m) (and_then (if e_busy env sd then side_error n env sd ERR_CLEANUP (emit (DisconnectConn sd) m)
      else Inr (emit (DisconnectConn sd) m)) (\<lambda>m. Inr (emit (ConnectConn sd) m)))"
proof (rule ok_within_bind)
  have s: "same m (emit (DisconnectConn sd) m)" by (simp add: same_emit)
  then have w: "within S m (emit (DisconnectConn sd) m)" using m by (simp add: within_same)
  have "mon_ok F (within S m) (side_error n env sd ERR_CLEANUP (emit (DisconnectConn sd) m))"
    by (rule ok_within_from [OF hearingD [OF h] w])
      (use m within_fit [OF w] in \<open>simp_all add: emit_facts\<close>)
  then show "mon_ok F (within S m) (if e_busy env sd then side_error n env sd ERR_CLEANUP (emit (DisconnectConn sd) m)
      else Inr (emit (DisconnectConn sd) m))" using w by simp
  show "mon_ok F (within S m1) (Inr (emit (ConnectConn sd) m1))" if "within S m m1" for m1
    using that by (auto simp: within_def emit_facts intro!: same_moved same_emit)
qed


definition local_hears :: "monitor \<Rightarrow> bool" where
  "local_hears m \<longleftrightarrow> (m_type m = TM_DOWNLOAD \<or> m_type m = TM_LIST) \<and> target_hears (m_status m)
     \<or> m_type m = TM_UPLOAD \<and> source_hears (m_status m)"

lemma close_local_ok:
  assumes h: "hearing F S n env" and m: "fit F m" "m_status m \<in> S" "m_status m \<noteq> IDLE" "local_hears m"
  shows "mon_ok F (within S m) (and_then (mon_localInfo info env m) (\<lambda>m.
        if m_type m = TM_UPLOAD then mon_sourceError n env ERR_OTHER m else mon_targetError n env ERR_OTHER m))"
proof (rule ok_bind [OF mon_localInfo_ok(1)])
  show "(\<forall>t. m_ts m = Some t \<longrightarrow> ts_open t) \<or> AssertFailed \<in> F" using m(1,3) by (auto simp: fit_def opn_def)
  fix m3 assume s: "same m m3"
  have w: "within S m m3" using s m by (simp add: within_same)
  note n = same_need [OF s]
  have "mon_ok F (within S m3) (side_error n env (if m_type m3 = TM_UPLOAD then Src else Dst) ERR_OTHER m3)"
    by (rule hearingD [OF h within_fit [OF w m(1)]]) (use m n in \<open>auto simp: local_hears_def side_hears_def\<close>)
  then show "mon_ok F (within S m) (if m_type m3 = TM_UPLOAD then mon_sourceError n env ERR_OTHER m3 else mon_targetError n env ERR_OTHER m3)"
    using ok_within_from [OF _ w] by (auto simp: side_error_def split: if_splits)
qed

lemma closeRemaining_Suc: "closeRemaining (Suc n) env m =
     (if m_status m = IDLE then Inr m
      else and_then
        (if m_sld m \<noteq> None \<and> side_hears Dst (m_status m)
         then and_then (if e_busy env Dst then side_error n env Dst ERR_CLEANUP (emit (DisconnectConn Dst) m)
             else Inr (emit (DisconnectConn Dst) m)) (\<lambda>m. Inr (emit (ConnectConn Dst) m))
         else Inr m) (\<lambda>m.
      if m_status m = IDLE then Inr m
      else and_then
        (if m_sls m \<noteq> None \<and> side_hears Src (m_status m)
         then and_then (if e_busy env Src then side_error n env Src ERR_CLEANUP (emit (DisconnectConn Src) m)
             else Inr (emit (DisconnectConn Src) m)) (\<lambda>m. Inr (emit (ConnectConn Src) m))
         else Inr m) (\<lambda>m.
      if m_status m = IDLE then Inr m
      else if m_lt m \<and> e_ltopen env \<and> local_hears m then
        and_then (mon_localInfo ''Closing connection'' env m) (\<lambda>m.
          if m_type m = TM_UPLOAD then mon_sourceError n env ERR_OTHER m else mon_targetError n env ERR_OTHER m)
      else Inr m)))"
  unfolding closeRemaining.simps side_hears_def side_error_def side.case local_hears_def target_hears_def source_hears_def
  by (intro if_cong arg_cong2 [where f = and_then] refl ext) auto


lemma idle_guard:
  assumes "m_status m \<in> insert IDLE S" "m_status m \<noteq> IDLE \<Longrightarrow> mon_ok F (within S m) r"
  shows "mon_ok F (within S m) (if m_status m = IDLE then Inr m else r)"
  using assms by (simp add: within_same)

lemma closeRemaining_ok:
  assumes h: "hearing F S n env" and m: "fit F m" "m_status m \<in> insert IDLE S"
  shows "mon_ok F (within S m) (closeRemaining (Suc n) env m)"
proof -
  have stay: "within S m m" if "m_status m \<in> S" for m
    using that by (simp add: within_same)
  have side: "mon_ok F (within S m1) (if p \<and> side_hears sd (m_status m1)
         then and_then (if e_busy env sd then side_error n env sd ERR_CLEANUP (emit (DisconnectConn sd) m1)
             else Inr (emit (DisconnectConn sd) m1)) (\<lambda>m. Inr (emit (ConnectConn sd) m))
         else Inr m1)" if "fit F m1" "m_status m1 \<in> S" for m1 p sd
    using close_side_ok [OF h that] stay that by auto
  have fit: "fit F m1 \<and> m_status m1 \<in> insert IDLE S" if "within S m0 m1" "fit F m0" for m0 m1
    using that within_fit by (auto simp: within_def)
  show ?thesis
    unfolding closeRemaining_Suc
    by (intro idle_guard ok_within_bind side) (use m in \<open>auto intro!: close_local_ok [OF h] stay dest!: fit\<close>)
qed

lemma transferFailed_within:
  assumes "m_status m \<noteq> IDLE" "fit F m"
  shows "mon_ok F (within S m) (mon_transferFailed err m)"
  using assms by (auto simp: within_def fit_def linked_def intro!: ok_mono [OF transferFailed_ok])

lemma transferFailed_from:
  assumes "same m m1" "m_status m \<noteq> IDLE" "fit F m"
  shows "mon_ok F (within S m) (mon_transferFailed err m1)"
proof -
  have w: "within UNIV m m1" using assms(1) by (simp add: within_same)
  then have "mon_ok F (within {} m1) (mon_transferFailed err m1)"
    using assms same_need [OF assms(1)] within_fit [OF w] by (auto intro!: transferFailed_within)
  then show ?thesis
    by (rule ok_mono) (use assms(1) in \<open>auto simp: within_def intro: same_moved_trans\<close>)
qed

abbreviation erring :: "mon_status set" where
  "erring \<equiv> {SOURCE_ERROR_AWAITING_TARGET, TARGET_ERROR_AWAITING_SOURCE}"

lemma same_src [simp]: "same m ((on_fls f m)\<lparr>m_partial := i\<rparr>)" "same m ((on_fld f m)\<lparr>m_partial := i\<rparr>)"
  "same m ((on_fls f (m\<lparr>m_partial := i\<rparr>)))" "same m ((on_fld f (m\<lparr>m_partial := i\<rparr>)))"
  by (rule same_trans [OF same_simps(11) same_simps(3)] same_trans [OF same_simps(12) same_simps(3)]
     same_trans [OF same_simps(3) same_simps(11)]  same_trans [OF same_simps(3) same_simps(12)])+

lemma status_partial [simp]: "m_status ((on_fls f m)\<lparr>m_partial := i\<rparr>) = m_status m"
  "m_status ((on_fld f m)\<lparr>m_partial := i\<rparr>) = m_status m"
  by (simp_all add: on_fls_def on_fld_def)

lemma hearing_erring: "hearing F erring (Suc n) env"
  unfolding hearing_def
proof (intro allI impI, goal_cases)
  case (1 sd err m)
  then show ?case
    by (cases sd) (auto simp: side_error_def side_hears_def source_hears_def target_hears_def mon_sourceError.simps mon_targetError.simps
        Let_def intro!: transferFailed_from)
qed


lemma closeRemaining_erring:
  assumes "fit F m" "m_status m \<in> erring"
  shows "mon_ok F (within UNIV m) (closeRemaining (Suc (Suc n)) env m)"
  by (rule ok_mono [OF closeRemaining_ok [OF hearing_erring assms(1)]]) (use assms in \<open>auto simp: within_def\<close>)

text \<open>One side has failed and the transfer waits for the other, or for the local end to be closed.\<close>

lemma wait_moved:
  assumes "same m m1" "m_status m \<noteq> IDLE" "s \<noteq> IDLE"
  shows "moved m (setStatus s (m1\<lparr>m_error := err\<rparr>))"
  by (rule same_moved_trans [OF same_trans [OF assms(1) same_simps(6)] setStatus_moved])
    (use assms same_need [OF assms(1)] in auto)

lemma wait_close:
  assumes m: "same m m1" "fit F m" "m_status m \<noteq> IDLE" and s: "s \<in> erring"
  shows "mon_ok F (within UNIV m) (if b then closeRemaining (Suc (Suc n)) env (setStatus s (m1\<lparr>m_error := err\<rparr>))
      else Inr (setStatus s (m1\<lparr>m_error := err\<rparr>)))"
proof -
  have mv: "moved m (setStatus s (m1\<lparr>m_error := err\<rparr>))" using wait_moved [OF m(1,3)] s by auto
  have w: "within UNIV m (setStatus s (m1\<lparr>m_error := err\<rparr>))" using mv by (simp add: within_def)
  have "mon_ok F (within UNIV m) (closeRemaining (Suc (Suc n)) env (setStatus s (m1\<lparr>m_error := err\<rparr>)))"
    by (rule ok_within_from [OF closeRemaining_erring w]) (use moved_fit [OF mv m(2)] s in \<open>auto simp: setStatus_def\<close>)
  then show ?thesis using w by simp
qed

lemma sourceError_ok:
  assumes m: "fit F m" "m_status m \<noteq> IDLE" and h: "source_hears (m_status m) \<or> AssertFailed \<in> F"
  shows "mon_ok F (within UNIV m) (mon_sourceError (Suc (Suc (Suc n))) env err m)"
proof (cases "source_hears (m_status m)")
  case True
  define m1 where "m1 = (on_fls (fl_finishDownload (m_sfile m)) m)\<lparr>m_partial := m_timestamp m\<rparr>"
  have s1: "same m m1" by (simp add: m1_def)
  note n1 = same_need [OF s1]
  have null: "NullDeref \<in> F" if "\<not> processing env Dst m1" "m_fld m1 = None"
    using that m n1 by (auto simp: processing_def mon_site_def fit_def linked_def split: mon_type.splits)
  have s2: "same m (on_fld f (emit (ReturnConn Dst b) m1))" for f b
    by (rule same_trans [OF same_trans [OF s1 same_emit] same_simps(12)]) simp_all
  have acc: "\<not> m_status m \<notin> {AWAITING_ACTIVE, AWAITING_PASSIVE, TARGET_ERROR_AWAITING_SOURCE, TRANSFERRING, TRANSFERRING_TARGET_COMPLETE}"
    using True by (cases "m_status m") (simp_all add: source_hears_def)
  show ?thesis
    unfolding mon_sourceError.simps(2) Let_def if_not_P [OF acc] m1_def [symmetric]
    using transferFailed_from [OF s1 m(2,1)] transferFailed_from [OF s2 m(2,1)] wait_close [OF s1 m] null
    by simp
qed (use h in \<open>auto simp: mon_sourceError.simps source_hears_def\<close>)

lemma targetError_ok:
  assumes m: "fit F m" "m_status m \<noteq> IDLE" and h: "target_hears (m_status m) \<or> AssertFailed \<in> F"
  shows "mon_ok F (within UNIV m) (mon_targetError (Suc (Suc (Suc n))) env err m)"
proof (cases "target_hears (m_status m)")
  case True
  define m1 where "m1 = (on_fld (if err \<noteq> ERR_DUPE then fl_removeFile (e_sk env) (e_now env) (m_dfile m)
                    else fl_finishUpload (e_now env) (m_dfile m)) m)\<lparr>m_partial := m_timestamp m\<rparr>"
  have s1: "same m m1" by (simp add: m1_def)
  have s2: "same m (on_fls f (emit (ReturnConn Src b) m1))" for f b
    by (rule same_trans [OF same_trans [OF s1 same_emit] same_simps(11)]) simp_all
  have acc: "\<not> m_status m \<notin> {AWAITING_ACTIVE, AWAITING_PASSIVE, SOURCE_ERROR_AWAITING_TARGET, TRANSFERRING, TRANSFERRING_SOURCE_COMPLETE}"
    using True by (cases "m_status m") (simp_all add: target_hears_def)
  show ?thesis
    unfolding mon_targetError.simps(2) Let_def if_not_P [OF acc] m1_def [symmetric]
    using transferFailed_from [OF s1 m(2,1)] transferFailed_from [OF s2 m(2,1)] wait_close [OF s1 m]
    by simp
qed (use h in \<open>auto simp: mon_targetError.simps target_hears_def\<close>)

lemma hearing_all: "hearing F UNIV (Suc (Suc (Suc n))) env"
  unfolding hearing_def
proof (intro allI impI, goal_cases)
  case (1 sd err m)
  then show ?case
    by (cases sd) (auto simp: side_error_def side_hears_def source_hears_def target_hears_def
      intro!: sourceError_ok targetError_ok)
qed


subsection \<open>Calls from outside\<close>

lemma FUEL_Suc: "FUEL = Suc (Suc (Suc (Suc 0)))"
  by (simp add: FUEL_def)

lemma within_moved: "within S m m' \<Longrightarrow> moved m m'"
  by (simp add: within_def)

text \<open>The calls from outside, from a status other than \<open>IDLE\<close>.\<close>

lemma close_ok:
  assumes "fit F m" shows "mon_ok F (moved m) (closeRemaining FUEL env m)"
  unfolding FUEL_Suc by (rule ok_mono [OF closeRemaining_ok [OF hearing_all assms]]) (auto intro: within_moved)

lemma errors_ok:
  assumes "fit F m" "AssertFailed \<in> F"
  shows "mon_ok F (moved m) (mon_sourceError FUEL env err m)" "mon_ok F (moved m) (mon_targetError FUEL env err m)"
proof -
  have "mon_ok F (within UNIV m) (mon_sourceError FUEL env err m) \<and> mon_ok F (within UNIV m) (mon_targetError FUEL env err m)"
  proof (cases "m_status m = IDLE")
    case True
    then show ?thesis using assms(2) by (simp add: FUEL_Suc mon_sourceError.simps(2) mon_targetError.simps(2))
  next
    case False
    then show ?thesis unfolding FUEL_Suc using assms by (simp add: sourceError_ok targetError_ok)
  qed
  then show "mon_ok F (moved m) (mon_sourceError FUEL env err m)" "mon_ok F (moved m) (mon_targetError FUEL env err m)"
    by (blast intro: ok_mono within_moved)+
qed

lemma startClient_ok:
  assumes "linked m \<or> NullDeref \<in> F" "AssertFailed \<in> F \<or> m_type m \<noteq> TM_FXP"
  shows "mon_ok F (same m) (startClientTransfer m)"
  using assms unfolding startClientTransfer_def
  by (cases "m_type m") (auto intro!: call_site_ok simp: linked_def mon_site_def)

lemma from_same: "mon_ok F (moved m1) r \<Longrightarrow> same m m1 \<Longrightarrow> mon_ok F (moved m) r"
  by (auto elim!: ok_mono intro: same_moved_trans)

lemma fit_same: "same m m1 \<Longrightarrow> fit F m \<Longrightarrow> fit F m1"
  using moved_fit same_moved by blast

lemma finish_from:
  assumes "same m m1" "fit F m" "m_status m \<noteq> IDLE" "DivideByZero \<in> F" "local_end m \<or> NullDeref \<in> F"
  shows "mon_ok F (moved m) (mon_finish env m1)"
proof (rule from_same [OF ok_mono [OF mon_finish_ok] assms(1)])
  show "\<not> (linked m1 \<and> local_end m1) \<Longrightarrow> NullDeref \<in> F"
    using assms same_linked [OF assms(1)] by (auto simp: fit_def)
qed (use assms same_need [OF assms(1)] in auto)

lemma failed_from:
  assumes "same m m1" "fit F m" "m_status m \<noteq> IDLE"
  shows "mon_ok F (moved m) (mon_transferFailed err m1)"
  using transferFailed_from [OF assms(1,3,2)] by (rule ok_mono) (rule within_moved)

lemma setStatus_from:
  assumes "same m m1" "m_status m \<noteq> IDLE" "s \<noteq> IDLE" shows "moved m (setStatus s m1)"
  by (rule same_moved_trans [OF assms(1) setStatus_moved]) (use assms same_need [OF assms(1)] in auto)

definition robust :: "mon_fault set \<Rightarrow> monitor \<Rightarrow> bool" where
  "robust F m \<longleftrightarrow> fit F m \<and> DivideByZero \<in> F \<and> (local_end m \<or> NullDeref \<in> F)"

lemma on_list_simps [simp]:
  "m_status (on_fls f m) = m_status m" "m_status (on_fld f m) = m_status m"
  "m_type (on_fls f m) = m_type m" "m_type (on_fld f m) = m_type m"
  "m_error (on_fls f m) = m_error m" "m_error (on_fld f m) = m_error m"
  "m_dfile (on_fls f m) = m_dfile m" "m_dfile (on_fld f m) = m_dfile m"
  "m_localfl (on_fls f m) = m_localfl m" "m_localfl (on_fld f m) = m_localfl m"
  by (simp_all add: on_fls_def on_fld_def)

lemma sourceComplete_ok:
  assumes "robust F m" "AssertFailed \<in> F \<or> m_status m \<in> {TARGET_ERROR_AWAITING_SOURCE, TRANSFERRING, TRANSFERRING_TARGET_COMPLETE}"
  shows "mon_ok F (moved m) (mon_sourceComplete env m)"
  using assms unfolding mon_sourceComplete_def Let_def robust_def
  by (auto intro!: setStatus_from failed_from finish_from)

lemma targetComplete_ok:
  assumes "robust F m" "AssertFailed \<in> F"
  shows "mon_ok F (moved m) (mon_targetComplete env m)"
proof -
  have s: "same m (emit (LocalFinishDownload a) (on_fld f (m\<lparr>m_partial := i\<rparr>)))" for a f i
    by (rule emit_same) simp_all
  show ?thesis
    using assms unfolding mon_targetComplete_def Let_def robust_def
    by (auto simp: emit_facts emit_def [of _ "on_fld _ _"] intro!: s [unfolded emit_def] setStatus_from failed_from finish_from)
qed


lemma moved_site: "moved m m' \<Longrightarrow> mon_site sd m' = mon_site sd m"
  by (auto simp: moved_def ends_def mon_site_def split: side.split)

definition answering :: "mon_fault set \<Rightarrow> monitor \<Rightarrow> bool" where
  "answering F m \<longleftrightarrow> robust F m \<and> AssertFailed \<in> F \<and> (m_status m = IDLE \<or> NullDeref \<in> F \<or> m_type m = TM_FXP)"

lemma fail_waiting_ok:
  assumes a: "answering F m" and st: "m_status m = TARGET_ERROR_AWAITING_SOURCE \<or> m_status m = SOURCE_ERROR_AWAITING_TARGET"
  shows "mon_ok F (moved m) (fail_waiting env m)"
proof -
  have f: "fit F m" "AssertFailed \<in> F" using a by (simp_all add: answering_def robust_def)
  have n: "NullDeref \<in> F" if "mon_site sd m = None" for sd
    using a st that by (cases sd) (auto simp: answering_def robust_def fit_def linked_def mon_site_def)
  have call: "mon_ok F (moved m1) (call_site sd (ReturnConn sd b) m1)" if "moved m m1" for m1 sd b
    using moved_site [OF that] n by (auto intro!: ok_moved [OF call_site_ok])
  show ?thesis
    unfolding fail_waiting_def
    using errors_ok [OF f] by (auto intro!: ok_moved_bind call)
qed

lemma passive_local_ok:
  assumes "linked m \<and> m_lt m \<and> (m_type m = TM_UPLOAD \<longleftrightarrow> sd = Dst) \<and> m_type m \<noteq> TM_FXP \<or> NullDeref \<in> F"
  shows "mon_ok F (same m) (passive_local env host port sd m)"
  using assms unfolding passive_local_def
  by (cases "m_type m"; cases sd) (auto intro!: ok_same_bind call_site_ok simp: linked_def mon_site_def)

lemma announce_ok:
  assumes "fit F m" "m_status m \<noteq> IDLE" "NullDeref \<in> F \<or> m_type m = TM_FXP"
  shows "mon_ok F (same m) (announce env host port m)"
proof -
  have "linked m \<or> NullDeref \<in> F" using assms by (auto simp: fit_def)
  then show ?thesis
    using assms(3) unfolding announce_def
    by (cases "m_type m") (auto intro!: call_site_ok passive_local_ok simp: linked_def mon_site_def)
qed

lemma passiveReady_waiting:
  assumes a: "answering F m" and st: "m_status m = AWAITING_PASSIVE"
  shows "mon_ok F (\<lambda>m'. moved m m' \<and> m_status m' = AWAITING_ACTIVE) (mon_passiveReady env host port m)"
proof -
  define m1 where "m1 = on_ts (\<lambda>t. t\<lparr>ts_passiveaddr := (if m_ipv6 m then ''['' @ host @ '']'' else host) @ '':'' @ show_int port\<rparr>)
     (setStatus AWAITING_ACTIVE m)"
  have mv: "moved m m1"
    using st by (auto simp: m1_def moved_def setStatus_def on_ts_def frame_def ends_def opened_def closed_count_def
        option.map_comp o_def)
  have st1: "m_status m1 = AWAITING_ACTIVE" and ty: "m_type m1 = m_type m"
    by (simp_all add: m1_def setStatus_def on_ts_facts)
  have "mon_ok F (same m1) (announce env host port m1)"
    by (rule announce_ok) (use a st st1 ty moved_fit [OF mv] in \<open>auto simp: answering_def robust_def\<close>)
  then have "mon_ok F (\<lambda>m'. moved m m' \<and> m_status m' = AWAITING_ACTIVE) (announce env host port m1)"
    by (rule ok_mono) (use mv st1 same_need(7) in \<open>auto intro: moved_trans same_moved\<close>)
  then show ?thesis using st unfolding mon_passiveReady_def m1_def by simp
qed

lemma passiveReady_ok:
  assumes a: "answering F m"
  shows "mon_ok F (moved m) (mon_passiveReady env host port m)"
proof (cases "m_status m = AWAITING_PASSIVE")
  case True
  then show ?thesis by (auto intro: ok_mono [OF passiveReady_waiting [OF a]])
next
  case False
  then show ?thesis using fail_waiting_ok [OF a] a by (auto simp: mon_passiveReady_def answering_def)
qed

lemma activeReady_ok:
  assumes a: "answering F m"
  shows "mon_ok F (moved m) (mon_activeReady env m)"
proof -
  have "linked m \<or> NullDeref \<in> F" if "m_status m \<noteq> IDLE" using a that by (auto simp: answering_def robust_def fit_def)
  then show ?thesis
    using a fail_waiting_ok [OF a] unfolding mon_activeReady_def
    by (auto simp: answering_def linked_def mon_site_def intro!: ok_moved [OF call_site_ok] ok_moved [OF startClient_ok])
qed

lemma activeStarted_ok:
  assumes a: "robust F m" "AssertFailed \<in> F"
  shows "mon_ok F (moved m) (mon_activeStarted m)"
proof -
  define m1 where "m1 = setStatus TRANSFERRING m"
  show ?thesis
  proof (cases "m_status m = AWAITING_ACTIVE")
    case True
    then have mv: "moved m m1" by (simp add: m1_def setStatus_moved)
    have l: "linked m1 \<or> NullDeref \<in> F" using a True moved_fit [OF mv] by (auto simp: robust_def fit_def m1_def setStatus_def)
    have "mon_ok F (same m1) (if m_type m1 = TM_FXP then
              (if m_fxpdstactive m1 then call_site Src SiteDownload m1 else call_site Dst SiteUpload m1)
            else if m_clientactive m1 then startClientTransfer m1 else Inr m1)"
      using l by (auto intro!: call_site_ok startClient_ok simp: linked_def mon_site_def)
    then have "mon_ok F (moved m1) (and_then (if m_type m1 = TM_FXP then
              (if m_fxpdstactive m1 then call_site Src SiteDownload m1 else call_site Dst SiteUpload m1)
            else if m_clientactive m1 then startClientTransfer m1 else Inr m1) (\<lambda>m. Inr (m\<lparr>m_startstamp := m_timestamp m\<rparr>)))"
      by (intro ok_moved_bind ok_moved) (auto intro: same_moved)
    then show ?thesis
      using True unfolding mon_activeStarted_def Let_def m1_def [symmetric]
      by (simp add: ok_moved_from [OF _ mv])
  qed (use a in \<open>auto simp: mon_activeStarted_def intro: same_moved\<close>)
qed


lemma robust_same: "same m m1 \<Longrightarrow> robust F m \<Longrightarrow> robust F m1"
  using fit_same [of m m1 F] same_linked [of m m1] by (auto simp: robust_def)

lemma mon_log_ok:
  assumes "fit F m" "m_status m \<noteq> IDLE \<or> AssertFailed \<in> F" "m_ts m = None \<Longrightarrow> NullDeref \<in> F"
  shows "mon_ok F (same m) (mon_log env line m)"
  unfolding mon_log_def
  using assms by (intro need_ts_ok logLine_ok) (auto simp: fit_def opn_def)

text \<open>The clock fails only when a remaining time is divided by zero, as long as a source that is ended gracefully has a transfer.\<close>

lemma checkDead_ok:
  assumes r: "robust F m" and st: "m_status m \<noteq> IDLE" "m_type m = TM_FXP" and b: "e_busy env Src \<or> AssertFailed \<in> F"
  shows "mon_ok F (\<lambda>(m', dead). moved m m' \<and> (dead \<or> m' = m)) (checkForDeadFXPTransfers env m)"
proof -
  have log: "mon_ok F (same m) (mon_log env line m)" for line
    using r st by (intro mon_log_ok) (auto simp: robust_def fit_def linked_def)
  have fit: "fit F m1" if "same m m1" for m1 using fit_same [OF that] r by (simp add: robust_def)
  have close: "mon_ok F (\<lambda>(m', dead). moved m m' \<and> (dead \<or> m' = m)) (and_then (mon_log env line m) (\<lambda>m. and_then (closeRemaining FUEL env m) (\<lambda>m. Inr (m, True))))" for line
  proof (rule ok_bind [OF log], rule ok_bind [OF close_ok])
    fix m1 m2 assume "same m m1" "moved m1 m2"
    then show "mon_ok F (\<lambda>(m', dead). moved m m' \<and> (dead \<or> m' = m)) (Inr (m2, True))" by (simp add: same_moved_trans)
  qed (rule fit)
  have grace: "mon_ok F (\<lambda>(m', dead). moved m m' \<and> (dead \<or> m' = m)) (and_then (mon_log env line m) (\<lambda>m. and_then (finishGracefully env m) (\<lambda>m. Inr (m, True))))"
    if tc: "m_status m = TRANSFERRING_TARGET_COMPLETE" for line
  proof (rule ok_bind [OF log])
    fix m1 assume s: "same m m1"
    have "mon_ok F (moved m1) (finishGracefully env m1)"
      unfolding finishGracefully_def
    proof (rule ok_bind [OF call_site_ok])
      show "mon_site Src m1 = None \<Longrightarrow> NullDeref \<in> F"
        using r st same_need(4) [OF s, of Src] by (auto simp: robust_def fit_def linked_def mon_site_def)
      fix m2 assume s2: "same m1 m2"
      have "mon_ok F (moved m2) (if e_busy env Src then mon_sourceComplete env m2 else Inl AssertFailed)"
        using b sourceComplete_ok [OF robust_same [OF same_trans [OF s s2] r]] same_need(7) [OF same_trans [OF s s2]] tc by auto
      then show "mon_ok F (moved m1) (if e_busy env Src then mon_sourceComplete env m2 else Inl AssertFailed)"
        by (rule from_same) (rule s2)
    qed simp_all
    then show "mon_ok F (\<lambda>(m', dead). moved m m' \<and> (dead \<or> m' = m)) (and_then (finishGracefully env m1) (\<lambda>m. Inr (m, True)))"
      by (rule ok_bind) (simp add: same_moved_trans [OF s])
  qed
  show ?thesis
    unfolding checkForDeadFXPTransfers_def Let_def
    using close grace by (auto intro: same_moved)
qed


lemma checkMax_ok:
  assumes r: "robust F m" and st: "m_status m \<noteq> IDLE"
  shows "mon_ok F (\<lambda>(m', _). moved m m') (checkMaxTransferTime env m)"
proof -
  have log: "mon_ok F (same m) (if m_ts m = None then Inr m else mon_log env line m)" for line
    using mon_log_ok [of F m env line] r st by (auto simp: robust_def)
  have fit: "fit F m1" if "same m m1" for m1 using fit_same [OF that] r by (simp add: robust_def)
  have close: "mon_ok F (\<lambda>(m', _). moved m m') (and_then (if m_ts m = None then Inr m else mon_log env line m)
      (\<lambda>m. and_then (closeRemaining FUEL env m) (\<lambda>m. Inr (m\<lparr>m_timeout := True\<rparr>, True))))" for line
  proof (rule ok_bind [OF log], rule ok_bind [OF close_ok])
    fix m1 m2 assume "same m m1" "moved m1 m2"
    then show "mon_ok F (\<lambda>(m', _). moved m m') (Inr (m2\<lparr>m_timeout := True\<rparr>, True))"
      using moved_trans [OF same_moved_trans same_moved [OF same_simps(9)]] by auto
  qed (rule fit)
  show ?thesis
    unfolding checkMaxTransferTime_def using close by (auto intro: same_moved)
qed

lemma drop_flag: "mon_ok F (\<lambda>(m', _). moved m m') r \<Longrightarrow> mon_ok F (moved m) (and_then r (\<lambda>(m, _). Inr m))"
  by (cases r) auto

lemma tick_ok:
  assumes r: "robust F m" and b: "m_type m = TM_FXP \<Longrightarrow> e_busy env Src \<or> AssertFailed \<in> F"
  shows "mon_ok F (moved m) (mon_tick env m)"
proof (cases "m_status m = IDLE")
  case st: False
  define m1 where "m1 = m\<lparr>m_timestamp := m_timestamp m + TICK_INTERVAL, m_ticker := m_ticker m + 1\<rparr>"
  define limit where "limit = (\<lambda>m. if m_ticker m1 mod 20 = 0 then and_then (checkMaxTransferTime env m) (\<lambda>(m, _). Inr m) else Inr m)"
  have s1: "same m m1" by (simp add: m1_def)
  have lim: "mon_ok F (moved m2) (limit m2)" if "same m m2" for m2
    unfolding limit_def
    using drop_flag [OF checkMax_ok [OF robust_same [OF that r]]] st same_need(7) [OF that] by (auto intro: same_moved)
  have fxp: "mon_ok F (moved m2) (if m_ticker m1 mod 20 = 0 then and_then (checkForDeadFXPTransfers env m2)
       (\<lambda>(m, dead). if dead then Inr m else limit m) else limit m2)" if "same m m2" "m_type m = TM_FXP" for m2
  proof -
    have st2: "m_status m2 \<noteq> IDLE" "m_type m2 = TM_FXP" using that st same_need [OF that(1)] by auto
    show ?thesis
      using checkDead_ok [OF robust_same [OF that(1) r] st2 b [OF that(2)]] lim [OF that(1)]
      by (auto intro!: ok_bind)
  qed
  have null: "NullDeref \<in> F" if "\<not> linked m" using r st that by (auto simp: robust_def fit_def)
  have D: "DivideByZero \<in> F" using r by (simp add: robust_def)
  have "mon_ok F (moved m) (if m_type m1 = TM_FXP then and_then (updateFXPSizeSpeed env m1) (\<lambda>m.
               if m_ticker m1 mod 20 = 0 then and_then (checkForDeadFXPTransfers env m) (\<lambda>(m, dead). if dead then Inr m else limit m)
               else limit m)
           else if (m_type m1 = TM_DOWNLOAD \<or> m_type m1 = TM_UPLOAD) \<and> m_ticker m1 mod 4 = 0 then
             and_then (updateLocalTransferSizeSpeed env m1) limit
           else limit m1)"
  proof -
    have u: "mon_ok F (same m1) (updateFXPSizeSpeed env m1)" if "m_type m1 = TM_FXP"
      using null that same_linked [OF s1] D by (intro updateFXP_ok) (auto simp: linked_def)
    have l: "mon_ok F (same m1) (updateLocalTransferSizeSpeed env m1)" if "m_type m1 = TM_DOWNLOAD \<or> m_type m1 = TM_UPLOAD"
      using null that same_linked [OF s1] D by (intro updateLocal_ok) (auto simp: linked_def)
    have t: "m_type m1 = m_type m" by (simp add: m1_def)
    have "mon_ok F (moved m1) (limit m1)" by (rule lim [OF s1])
    moreover have "mon_ok F (moved m1) (and_then (updateLocalTransferSizeSpeed env m1) limit)"
      if "m_type m1 = TM_DOWNLOAD \<or> m_type m1 = TM_UPLOAD"
      by (rule ok_bind [OF l [OF that]]) (blast intro: from_same lim same_trans s1)
    moreover have "mon_ok F (moved m1) (and_then (updateFXPSizeSpeed env m1) (\<lambda>m.
               if m_ticker m1 mod 20 = 0 then and_then (checkForDeadFXPTransfers env m) (\<lambda>(m, dead). if dead then Inr m else limit m)
               else limit m))" if "m_type m1 = TM_FXP"
      by (rule ok_bind [OF u [OF that]], rule from_same [OF fxp]) (use that t in \<open>auto intro: same_trans s1\<close>)
    ultimately show ?thesis by (intro from_same [OF _ s1]) auto
  qed
  then show ?thesis
    using st unfolding mon_tick_def Let_def m1_def [symmetric] limit_def by simp
qed (simp add: mon_tick_def same_moved)

lemma mon_log_open: "mon_log env line m = Inr m' \<Longrightarrow> opn m' \<and> m_ts m' \<noteq> None"
  by (auto simp: mon_log_def need_ts_def logLine_def ts_addLogLine_def and_then_Inr opn_def ts_open_def split: option.splits if_splits)

lemma setAborted_ok:
  assumes "moved m m1" "opn m" "m_ts m \<noteq> None"
  shows "mon_ok F (moved m1) (need_ts (\<lambda>t. Inr (ts_setAborted t)) m1)"
proof -
  have "m_ts m1 \<noteq> None" using assms(1,3) by (auto simp: moved_def ends_def)
  then obtain t where t: "m_ts m1 = Some t" by auto
  have "opn m1" if "m_status m1 \<noteq> IDLE"
    using assms that frame_opn [of m1 m] by (auto simp: moved_def split: if_splits)
  then show ?thesis
    using t by (auto simp: need_ts_def moved_def ends_def frame_def opened_def closed_count_def opn_def ts_setAborted_def ts_open_def)
qed

lemma abort_ok:
  assumes f: "fit F m" and n: "AssertFailed \<in> F \<or> m_status m \<noteq> IDLE" "m_ts m = None \<Longrightarrow> NullDeref \<in> F"
  shows "mon_ok F (moved m) (mon_abortTransfer env m)"
proof (cases "mon_log env ''Aborting transfer'' m")
  case (Inr m1)
  have s: "same m m1" using mon_log_ok [OF f _ n(2), of env "''Aborting transfer''"] n(1) Inr by auto
  have "mon_ok F (moved m1) (and_then (closeRemaining FUEL env m1) (need_ts (\<lambda>t. Inr (ts_setAborted t))))"
    using mon_log_open [OF Inr] by (intro ok_moved_bind close_ok fit_same [OF s f] setAborted_ok) auto
  then show ?thesis using Inr by (auto simp: mon_abortTransfer_def intro: from_same [OF _ s])
qed (use mon_log_ok [OF f _ n(2), of env "''Aborting transfer''"] n(1) in \<open>auto simp: mon_abortTransfer_def\<close>)

text \<open>Every call from outside.\<close>

lemma step_ok:
  assumes "\<not> is_engage ev" "answering F m"
    "m_ts m = None \<Longrightarrow> NullDeref \<in> F"
  shows "mon_ok F (moved m) (mon_step env ev m)"
proof -
  have r: "robust F m" "AssertFailed \<in> F" "fit F m" using assms(2) by (simp_all add: answering_def robust_def)
  have raw: "mon_ok F (moved m) (mon_newRawBufferLine l m)" for l
    using r(2) by (intro ok_moved [OF localInfo_ok]) simp
  show ?thesis
    using assms r raw
    by (cases ev) (auto simp: is_engage_def intro!: passiveReady_ok activeReady_ok activeStarted_ok sourceComplete_ok targetComplete_ok
      errors_ok tick_ok abort_ok same_moved)
qed

subsection \<open>Engaging\<close>

abbreviation returns :: "mon_fault set" where
  "returns \<equiv> - {OutOfFuel}"

lemma answering_returns: "answering returns m" "robust returns m" "fit returns m"
  by (auto simp: answering_def robust_def fit_def)

lemma step_returns:
  assumes "\<not> is_engage ev" shows "mon_ok returns (moved m) (mon_step env ev m)"
  by (rule step_ok [OF assms answering_returns(1)]) simp

definition mon_wf :: "monitor \<Rightarrow> bool" where
  "mon_wf m \<longleftrightarrow> (if m_status m = IDLE then opened m = closed_count m
     else linked m \<and> opn m \<and> (m_type m = TM_FXP \<longrightarrow> \<not> m_lt m)
       \<and> opened m = closed_count m + (if m_ts m = None then 0 else 1))"

lemma moved_wf: "moved m m' \<Longrightarrow> mon_wf m \<Longrightarrow> mon_wf m'"
  using frame_linked [of m' m] frame_opn [of m' m] frameD [of m' m]
  by (auto simp: mon_wf_def moved_def split: if_splits)

lemma ok_wf: "mon_ok F (moved m) r \<Longrightarrow> mon_wf m \<Longrightarrow> mon_ok F mon_wf r"
  by (auto elim!: ok_mono intro: moved_wf)

lemma wf_lt: "mon_wf m \<Longrightarrow> m_status m \<noteq> IDLE \<Longrightarrow> m_type m \<noteq> TM_FXP \<Longrightarrow> mon_wf (m\<lparr>m_lt := b\<rparr>)"
  by (cases "m_type m") (auto simp: mon_wf_def linked_def opn_def opened_def closed_count_def)

lemma wf_maxtime: "mon_wf m \<Longrightarrow> mon_wf (m\<lparr>m_maxtime := i\<rparr>)" "mon_wf m \<Longrightarrow> mon_wf (m\<lparr>m_storeid := i\<rparr>)"
  by (erule moved_wf [OF same_moved [OF same_simps(8)]] moved_wf [OF same_moved [OF same_simps(7)]])+

lemma fail_status_ok: "mon_ok returns (\<lambda>m'. opened m' = opened m \<and> closed_count m' = closed_count m \<and> ends m' = ends m
    \<and> m_lt m' = m_lt m \<and> m_status m' = m_status m) (fail_status d m)"
  by (auto simp: fail_status_def need_ts_def opened_def closed_count_def ends_def split: option.split)

lemma localError_ok: "mon_ok returns (same m) (mon_localError reason env m)" "mon_ok returns (same m) (mon_localInfo reason env m)"
  by (rule mon_localInfo_ok; simp)+

lemma lateLocal_ok:
  assumes "m_status m \<noteq> IDLE"
  shows "mon_ok returns (moved m) (lateLocalFailure sd env d reason m)"
  unfolding lateLocalFailure_def Let_def
proof (rule ok_bind [OF localError_ok(1)], rule ok_bind [OF fail_status_ok])
  fix m1 m2 assume s: "same m m1" and f: "opened m2 = opened m1 \<and> closed_count m2 = closed_count m1 \<and> ends m2 = ends m1
    \<and> m_lt m2 = m_lt m1 \<and> m_status m2 = m_status m1"
  have "m_ts m2 = None \<longleftrightarrow> m_ts m1 = None" using f by (simp add: ends_def)
  then have "moved m1 ((emit a (emit (TransferFailed (m_ts (deactivate_lt m2)) e) (deactivate_lt m2)))\<lparr>m_status := IDLE\<rparr>)"
    if "\<not> opens a" "\<not> closes a" for a e
    using f that assms same_need [OF s] by (cases "m_ts m2")
      (auto simp: moved_def emit_def opened_def closed_count_def ends_def deactivate_lt_def)
  then show "mon_ok returns (moved m) (and_then (call_site sd (ReturnConn sd True)
       (emit (TransferFailed (m_ts (deactivate_lt m2)) (if d then ERR_DUPE else ERR_OTHER)) (deactivate_lt m2)))
       (\<lambda>m. Inr (setStatus IDLE m)))"
    by (auto simp: call_site_def setStatus_def intro: same_moved_trans [OF s] split: option.split)
qed

lemma lateFXP_ok:
  assumes "m_status m \<noteq> IDLE" "\<not> m_lt m"
  shows "mon_ok returns (moved m) (lateFXPFailure env reason m)"
  unfolding lateFXPFailure_def
proof (rule ok_bind [OF localError_ok(1)], rule ok_bind [OF fail_status_ok])
  fix m1 m2 assume s: "same m m1" and f: "opened m2 = opened m1 \<and> closed_count m2 = closed_count m1 \<and> ends m2 = ends m1
    \<and> m_lt m2 = m_lt m1 \<and> m_status m2 = m_status m1"
  have "m_ts m2 = None \<longleftrightarrow> m_ts m1 = None" using f by (simp add: ends_def)
  then have "moved m1 ((emit a (emit b (emit (TransferFailed (m_ts m2) e) m2)))\<lparr>m_status := IDLE\<rparr>)"
    if "\<not> opens a" "\<not> closes a" "\<not> opens b" "\<not> closes b" for a b e
    using f that assms same_need [OF s] by (cases "m_ts m2")
      (auto simp: moved_def emit_def opened_def closed_count_def ends_def)
  then show "mon_ok returns (moved m) (and_then (call_site Src (ReturnConn Src True) (emit (TransferFailed (m_ts m2) ERR_OTHER) m2))
       (\<lambda>m. and_then (call_site Dst (ReturnConn Dst True) m) (\<lambda>m. Inr (setStatus IDLE m))))"
    by (auto simp: call_site_def setStatus_def intro: same_moved_trans [OF s] split: option.split)
qed

lemma active_mode_ok:
  assumes w: "mon_wf m" and st: "m_status m = AWAITING_PASSIVE" "m_type m \<noteq> TM_FXP"
  shows "mon_ok returns (\<lambda>m. mon_wf m \<and> m_status m \<noteq> IDLE) (active_mode env l m)"
proof (cases l)
  case NoPort
  then show ?thesis using w st by (auto simp: active_mode_def intro: wf_lt)
next
  case (ListenViaProxy info)
  have "mon_ok returns (\<lambda>m. mon_wf m \<and> m_status m \<noteq> IDLE) (Inr (m1\<lparr>m_lt := True\<rparr>))" if "same m m1" for m1
    using moved_wf [OF same_moved [OF that] w] same_need [OF that] st by (auto intro: wf_lt)
  then show ?thesis using ListenViaProxy localError_ok(2) by (auto simp: active_mode_def intro!: ok_bind)
next
  case (Listening info host port)
  have "mon_ok returns (\<lambda>m. mon_wf m \<and> m_status m \<noteq> IDLE)
      (and_then (mon_passiveReady env host port m1) (\<lambda>m. Inr (m\<lparr>m_lt := True\<rparr>)))" if s: "same m m1" for m1
  proof (rule ok_bind [OF passiveReady_waiting [OF answering_returns(1)]])
    show "m_status m1 = AWAITING_PASSIVE" using same_need [OF s] st by simp
    fix m2 assume "moved m1 m2 \<and> m_status m2 = AWAITING_ACTIVE"
    then have m2: "moved m m2" "m_status m2 = AWAITING_ACTIVE" using s same_moved_trans by auto
    then have "mon_wf m2" "m_type m2 \<noteq> TM_FXP" using moved_wf [OF m2(1) w] st by (simp_all add: moved_def ends_def)
    then show "mon_ok returns (\<lambda>m. mon_wf m \<and> m_status m \<noteq> IDLE) (Inr (m2\<lparr>m_lt := True\<rparr>))"
      using m2 by (auto intro: wf_lt)
  qed
  then show ?thesis unfolding active_mode_def Listening listening.case by (rule ok_bind [OF localError_ok(2)])
qed

lemma active_store_ok:
  assumes "mon_wf m" "m_status m = AWAITING_PASSIVE" "m_type m \<noteq> TM_FXP"
  shows "mon_ok returns (\<lambda>m. mon_wf m \<and> m_status m \<noteq> IDLE) (active_store env l m)"
  unfolding active_store_def by (rule ok_bind [OF active_mode_ok [OF assms]]) (auto intro: wf_maxtime)


lemma reset_facts: "m_ts (mon_reset m) = None" "m_lt (mon_reset m) = False" "m_status (mon_reset m) = m_status m"
    "opened (mon_reset m) = opened m" "closed_count (mon_reset m) = closed_count m"
  by (simp_all add: mon_reset_def opened_def closed_count_def)

lemma ts_new_open: "ts_open (ts_new a b c)"
  by (simp add: ts_new_def ts_open_def Let_def)

lemma fxp_start_ok:
  assumes "mon_wf m" "m_status m \<noteq> IDLE" "m_type m = TM_FXP"
  shows "mon_ok returns mon_wf (fxp_start env g sls sld m)"
proof -
  have lt: "\<not> m_lt m" using assms by (simp add: mon_wf_def)
  have "mon_wf (emit (PreparePassiveTransfer sd f fxp v6 s c) m\<lparr>m_maxtime := i\<rparr>)" for sd f fxp v6 s c i
    using assms(1) by (intro wf_maxtime moved_wf [OF same_moved [OF same_emit]]) simp_all
  then show ?thesis
    using ok_wf [OF lateFXP_ok [OF assms(2) lt] assms(1)]
    by (auto simp: fxp_start_def split: option.split)
qed

lemma fxp_touch_ok:
  assumes "m_status m \<noteq> IDLE" "m_type m = TM_FXP" "\<not> m_lt m" "m_sls m \<noteq> None" "m_sld m \<noteq> None"
    "opened m = closed_count m"
  shows "mon_ok returns (\<lambda>m. mon_wf m \<and> m_status m \<noteq> IDLE \<and> m_type m = TM_FXP) (fxp_touch env g sld m)"
  unfolding fxp_touch_def Let_def
  using assms
  by (auto simp: file_at_def on_fld_def on_fls_def mon_wf_def linked_def opn_def ts_new_open opened_def closed_count_def emit_def
      split: option.split)

lemma engageFXP_ok:
  assumes "mon_wf m" "m_status m = IDLE"
  shows "mon_ok returns mon_wf (engageFXP env g tid sfile sls fls dfile sld fld srcco dstco m)"
proof -
  have c: "opened m = closed_count m" using assms by (simp add: mon_wf_def)
  show ?thesis
    unfolding engageFXP_def Let_def fxp_setup_def
    by (auto intro!: ok_bind [OF fxp_touch_ok] fxp_start_ok split: option.split)
      (use c in \<open>auto simp: mon_wf_def emit_def setStatus_def mon_reset_def opened_def closed_count_def\<close>)
qed


lemma wf_emit: "mon_wf m \<Longrightarrow> \<not> opens a \<Longrightarrow> \<not> closes a \<Longrightarrow> mon_wf (emit a m)"
  by (rule moved_wf [OF same_moved [OF same_emit]])

lemma download_start_ok:
  assumes "mon_wf m" "m_status m = AWAITING_PASSIVE" "m_type m \<noteq> TM_FXP"
  shows "mon_ok returns mon_wf (download_start env g m)" "mon_ok returns mon_wf (upload_start env g m)"
proof -
  have "mon_wf ((emit ReserveLocal (emit (PreparePassiveTransfer sd f fxp v6 s c) m))\<lparr>m_lt := True\<rparr>)" for sd f fxp v6 s c
    using assms by (intro wf_lt wf_emit) (simp_all add: emit_def)
  moreover have "mon_ok returns mon_wf (active_mode env l m)" "mon_ok returns mon_wf (active_store env l m)" for l
    by (rule ok_mono [OF active_mode_ok [OF assms]] ok_mono [OF active_store_ok [OF assms]]; simp)+
  ultimately show "mon_ok returns mon_wf (download_start env g m)" "mon_ok returns mon_wf (upload_start env g m)"
    by (simp_all add: download_start_def upload_start_def)
qed

lemma and_maxtime: "mon_ok F mon_wf r \<Longrightarrow> mon_ok F mon_wf (and_then r (\<lambda>m. Inr (m\<lparr>m_maxtime := i\<rparr>)))"
  by (erule ok_bind) (simp add: wf_maxtime)

lemma download_go:
  assumes w: "mon_wf m" "m_status m = AWAITING_PASSIVE" "m_type m \<noteq> TM_FXP"
  shows "mon_ok returns mon_wf (case c of Some (reason, d) \<Rightarrow> lateLocalFailure sd env d reason m
     | None \<Rightarrow> and_then (download_start env g m) (\<lambda>m. Inr (m\<lparr>m_maxtime := i\<rparr>)))"
    "mon_ok returns mon_wf (case c of Some (reason, d) \<Rightarrow> lateLocalFailure sd env d reason m
     | None \<Rightarrow> and_then (upload_start env g m) (\<lambda>m. Inr (m\<lparr>m_maxtime := i\<rparr>)))"
  using ok_wf [OF lateLocal_ok w(1)] download_start_ok [OF w] w(2)
  by (auto split: option.split intro: and_maxtime)

lemma engageDownload_ok:
  assumes "mon_wf m" "m_status m = IDLE"
  shows "mon_ok returns mon_wf (engageDownload env g tid sfile sls fls localfl co connid m)"
proof -
  have c: "opened m = closed_count m" using assms by (simp add: mon_wf_def)
  note facts = mon_wf_def emit_def setStatus_def mon_reset_def opened_def closed_count_def linked_def opn_def ts_new_open
  show ?thesis
  proof (cases "if connid = -1 then g_lockdown g else Some connid")
    case None
    then show ?thesis unfolding engageDownload_def Let_def None option.case using c assms(2) by (simp add: facts)
  next
    case (Some src)
    have go: "mon_ok returns mon_wf (case f of None \<Rightarrow> Inl NullDeref | Some f \<Rightarrow> h f)"
      if "\<And>f. mon_ok returns mon_wf (h f)" for f :: "dirfile option" and h
      using that by (auto split: option.split)
    show ?thesis
      unfolding engageDownload_def Let_def Some option.case
      by (rule file_at_bind, simp, rule go, rule download_go) (use c in \<open>simp_all add: facts\<close>)
  qed
qed

lemma engageUpload_ok:
  assumes "mon_wf m" "m_status m = IDLE"
  shows "mon_ok returns mon_wf (engageUpload env g tid sfile localfl localfile sld fld co m)"
proof -
  have c: "opened m = closed_count m" using assms by (simp add: mon_wf_def)
  note facts = mon_wf_def emit_def setStatus_def mon_reset_def opened_def closed_count_def linked_def opn_def ts_new_open on_fld_def
  show ?thesis
  proof (cases "localfl \<and> localfile \<noteq> None \<and> g_lockup g \<noteq> None")
    case True
    then obtain n d where x: "localfl = True" "localfile = Some n" "g_lockup g = Some d" by auto
    show ?thesis
      unfolding engageUpload_def Let_def x option.case not_True_eq_False if_False
      by (rule download_go) (use c in \<open>simp_all add: facts\<close>)
  next
    case False
    then show ?thesis
      using c assms(2) by (auto simp: engageUpload_def Let_def facts split: option.split)
  qed
qed

lemma engageList_ok:
  assumes "mon_wf m" "m_status m = IDLE"
  shows "mon_ok returns mon_wf (engageList env g tid sls connid hidden fl co ipv6 m)"
proof -
  have c: "opened m = closed_count m" using assms by (simp add: mon_wf_def)
  show ?thesis
    unfolding engageList_def Let_def
    by (auto intro!: and_maxtime ok_mono [OF active_store_ok])
      (use c in \<open>auto simp: mon_wf_def emit_def setStatus_def mon_reset_def opened_def closed_count_def linked_def opn_def\<close>)
qed

lemma engage_ok: "is_engage ev \<Longrightarrow> mon_wf m \<Longrightarrow> m_status m = IDLE \<Longrightarrow> mon_ok returns mon_wf (mon_step env ev m)"
  by (cases ev) (simp_all add: is_engage_def engageFXP_ok engageDownload_ok engageUpload_ok engageList_ok)


subsection \<open>No call runs out of fuel\<close>

abbreviation fuelled :: "mon_fault + 'a \<Rightarrow> bool" where
  "fuelled \<equiv> mon_ok returns (\<lambda>_. True)"

lemma fuelled_bind: "fuelled r \<Longrightarrow> (\<And>x. fuelled (f x)) \<Longrightarrow> fuelled (and_then r f)"
  by (cases r) auto

lemma fuelled_ok: "mon_ok returns P r \<Longrightarrow> fuelled r"
  by (erule ok_mono) simp

lemma fuelled_parts:
  "fuelled (mon_passiveReady env host port m)" "fuelled (mon_localInfo i env m)" "fuelled (mon_localError i env m)"
  "fuelled (fail_status d m)" "fuelled (call_site sd a m)" "fuelled (file_at name fl)"
  using fuelled_ok [OF passiveReady_ok [OF answering_returns(1)]] fuelled_ok [OF localError_ok(1)] fuelled_ok [OF localError_ok(2)]
    fuelled_ok [OF fail_status_ok]
  by (simp_all add: call_site_def file_at_def split: option.split)

lemma fuelled_late: "fuelled (lateLocalFailure sd env d reason m)" "fuelled (lateFXPFailure env reason m)"
    "fuelled (active_mode env l m)"
  unfolding lateLocalFailure_def lateFXPFailure_def active_mode_def Let_def
  by (auto intro!: fuelled_bind fuelled_parts split: listening.split)

lemma fuelled_start: "fuelled (active_store env l m)" "fuelled (download_start env g m)" "fuelled (upload_start env g m)"
    "fuelled (fxp_start env g sls sld m)" "fuelled (fxp_touch env g sld m)"
  unfolding active_store_def download_start_def upload_start_def fxp_start_def fxp_touch_def Let_def
  by (auto intro!: fuelled_bind fuelled_late fuelled_parts split: option.split)

lemma fuelled_engage: "is_engage ev \<Longrightarrow> fuelled (mon_step env ev m)"
  unfolding is_engage_def
  by (cases ev) (auto simp: engageFXP_def engageDownload_def engageUpload_def engageList_def Let_def
      intro!: fuelled_bind fuelled_start fuelled_late fuelled_parts split: option.split)

text \<open>C6. Termination: however a monitor is called, in whatever state and whatever the connections and the
  local socket do in return, the calls of \<open>sourceError\<close>, \<open>targetError\<close> and
  \<open>closeRemainingConnections\<close> into each other come to an end within four levels.\<close>

theorem mon_fuel_enough: "mon_step env ev m \<noteq> Inl OutOfFuel"
proof (cases "is_engage ev")
  case True
  then show ?thesis using fuelled_engage [of ev, where env = env and m = m] by auto
next
  case False
  then show ?thesis using step_returns [of ev, where env = env and m = m] by auto
qed

subsection \<open>Reachable states\<close>

inductive mon_reach :: "monitor \<Rightarrow> bool" where
  fresh: "mon_reach (mon_new any)"
| step: "mon_reach m'" if "mon_reach m" "is_engage ev \<Longrightarrow> m_status m = IDLE" "mon_step env ev m = Inr m'"

lemma reach_wf: "mon_reach m \<Longrightarrow> mon_wf m"
proof (induction rule: mon_reach.induct)
  case (fresh any)
  show ?case by (simp add: mon_wf_def mon_new_def opened_def closed_count_def)
next
  case (step m ev env m')
  have "mon_ok returns mon_wf (mon_step env ev m)"
    using step engage_ok [where env = env] ok_wf [OF step_returns [where env = env]] by (cases "is_engage ev") force+
  then show ?case using step by simp
qed

end
