(* ===== verification/MonitorOutcome.thy ===== *)
theory MonitorOutcome
  imports MonitorInv
begin

text \<open>
  How transfers end: the settings an FXP transfer is engaged with, the outcome of an FXP transfer as an abstract
  machine of two sides, the timeouts that end a transfer whose other side is silent, and the download
  that nothing ends.
\<close>

subsection \<open>A transfer to try the theorems on\<close>

definition demo_site :: mon_site where
  "demo_site = \<lparr>s_id = 1, s_user = ''u'', s_policy = PREFER_ON, s_tls = True, s_brokenpasv = False, s_sscn = True, s_cpsv = True,
     s_protocol = PREFER_IPV4, s_maxtime = -1\<rparr>"

definition demo_env :: mon_env where
  "demo_env = \<lparr>e_now = 0, e_sk = (\<lambda>_ _ _ _. SKIPLIST_ALLOW), e_stamp = ''0'', e_processing = (\<lambda>_. True), e_busy = (\<lambda>_. True),
     e_ltopen = False, e_ltsize = 0, e_storeid = 0, e_mix = (\<lambda>_ a b. a)\<rparr>"

definition demo_in :: engage_in where
  "demo_in = \<lparr>g_lockdown = Some 0, g_lockup = Some 0, g_avgspeed = 0, g_maxtime = 0, g_localprotocol = PREFER_IPV4,
     g_dpath = path_empty, g_createdir = None, g_existing = None, g_dataproxy = False, g_addrerror = None, g_listen = NoPort\<rparr>"

definition demo_list :: filelist where
  "demo_list = fl_touchFile (e_sk demo_env) 0 ''a'' ''u'' False (fl_init undefined ''u'' path_empty LS_UNKNOWN)"

definition demo_fxp :: mon_event where
  "demo_fxp = EngageFXP demo_in 1 ''a'' demo_site demo_list ''a'' demo_site (fl_init undefined ''u'' path_empty LS_UNKNOWN) None None"

lemma demo_getFile: "fl_getFile ''a'' demo_list = Some 0"
 "fl_getFile ''a'' (fl_touchFile sk 0 ''a'' ''u'' True (fl_init undefined ''u'' path_empty LS_UNKNOWN)) = Some 0"
  by (simp_all add: demo_list_def demo_env_def fl_touchFile_def fl_init_def Let_def fl_getFile_def fl_insert_def fl_note_def fl_setChanged_def
   fl_recalcOwnedPercentage_def fl_own_def fl_set_def fl_obj_def fl_getFileCaseSensitive_def fl_bumpUpdateState_def file_new_def)

lemma demo_engaged: "\<exists>m. mon_step demo_env demo_fxp m0 = Inr m \<and> m_status m = AWAITING_PASSIVE \<and> m_type m = TM_FXP
   \<and> m_partial m = 0 \<and> m_timestamp m = 0"
  by (simp add: demo_fxp_def demo_in_def engageFXP_def Let_def fxp_touch_def fxp_setup_def fxp_start_def fxp_check_def demo_site_def
   transferProtocolCombinationPossible_def file_at_def on_fld_def on_fls_def demo_env_def mon_reset_def emit_def
   fxp_ssl_def fxp_sslclient_def demo_getFile)

lemma demo_reach: "\<exists>m. mon_reach m \<and> m_status m = AWAITING_PASSIVE \<and> m_type m = TM_FXP \<and> m_partial m = 0 \<and> m_timestamp m = 0"
proof -
  define m0 :: monitor where "m0 = mon_new undefined"
  obtain m where m: "mon_step demo_env demo_fxp m0 = Inr m" "m_status m = AWAITING_PASSIVE" "m_type m = TM_FXP"
     "m_partial m = 0" "m_timestamp m = 0"
    using demo_engaged by blast
  have "mon_reach m"
    by (rule mon_reach.step [OF _ _ m(1)]) (simp_all add: m0_def mon_reach.fresh, simp add: mon_new_def)
  then show ?thesis using m by blast
qed

subsection \<open>Every transfer in every history\<close>

text \<open>C5. Invariant: in every history of a monitor that is engaged only while it is idle, each status that was
  handed to the transfer manager is handed back as failed or successful exactly once; only the one of
  the running transfer, if it has any, is still out.\<close>

theorem mon_reports:
  assumes "mon_reach m"
  shows "opened m = closed_count m + (if m_status m \<noteq> IDLE \<and> m_ts m \<noteq> None then 1 else 0)"
  using reach_wf [OF assms] by (simp add: mon_wf_def split: if_splits)

theorem mon_reports_witness:
  "\<exists>m. mon_reach m \<and> m_status m = AWAITING_PASSIVE \<and> opened m = closed_count m + (if m_status m \<noteq> IDLE \<and> m_ts m \<noteq> None then 1 else 0)"
  using demo_reach mon_reports by blast



subsection \<open>What FXP transfers are engaged with\<close>

lemma late_idle: "lateFXPFailure env r m = Inr m' \<Longrightarrow> m_status m' = IDLE"
  by (auto simp: lateFXPFailure_def and_then_Inr setStatus_def)

lemma fxp_start_cases:
  assumes "fxp_start env g sls sld m = Inr m'" "m_status m' \<noteq> IDLE"
  shows "fxp_check sls sld = None"
    "m' = (if m_fxpdstactive m
       then emit (PreparePassiveTransfer Src (m_sfile m) True (m_ipv6 m) (m_ssl m) (m_sourcesslclient m)) m
       else emit (PreparePassiveTransfer Dst (m_dfile m) True (m_ipv6 m) (m_ssl m) (\<not> m_sourcesslclient m)) m)
       \<lparr>m_maxtime := fxp_maxtime sls sld (g_maxtime g)\<rparr>"
    "m_fxpdstactive m \<or> \<not> s_brokenpasv sld"
  using assms late_idle by (auto simp: fxp_start_def split: option.splits if_splits)

lemma fxp_touch_keeps:
  assumes "fxp_touch env g sld m = Inr m'"
  shows "m_fxpdstactive m' = m_fxpdstactive m \<and> m_ipv6 m' = m_ipv6 m \<and> m_ssl m' = m_ssl m \<and> m_sourcesslclient m' = m_sourcesslclient m
    \<and> m_sfile m' = m_sfile m \<and> m_dfile m' = m_dfile m"
proof -
  have "mon_ok returns (\<lambda>m'. m_fxpdstactive m' = m_fxpdstactive m \<and> m_ipv6 m' = m_ipv6 m \<and> m_ssl m' = m_ssl m
      \<and> m_sourcesslclient m' = m_sourcesslclient m \<and> m_sfile m' = m_sfile m \<and> m_dfile m' = m_dfile m) (fxp_touch env g sld m)"
    unfolding fxp_touch_def Let_def
    by (auto simp: emit_def on_fls_def on_fld_def split: option.split intro!: file_at_bind)
  then show ?thesis using assms by simp
qed

lemma engageFXP_cases:
  assumes "engageFXP env g tid sfile sls fls dfile sld fld srcco dstco m = Inr m'" "m_status m' \<noteq> IDLE"
  shows "fxp_check sls sld = None" "m_fxpdstactive m' \<longleftrightarrow> \<not> s_brokenpasv sls" "m_ssl m' \<longleftrightarrow> fxp_ssl (s_policy sls) (s_policy sld)"
    "m_ipv6 m' \<longleftrightarrow> useIPv6 (s_protocol sls) (s_protocol sld)"
    "m_ssl m' \<Longrightarrow> m_sourcesslclient m' \<longleftrightarrow> fxp_sslclient sls sld (m_fxpdstactive m')"
    "\<not> s_brokenpasv sls \<or> \<not> s_brokenpasv sld"
    "last (m_out m') = (if m_fxpdstactive m'
       then PreparePassiveTransfer Src sfile True (m_ipv6 m') (m_ssl m') (m_sourcesslclient m')
       else PreparePassiveTransfer Dst dfile True (m_ipv6 m') (m_ssl m') (\<not> m_sourcesslclient m'))"
proof -
  obtain src dst where l: "g_lockdown g = Some src" "g_lockup g = Some dst"
    using assms by (auto simp: engageFXP_def Let_def setStatus_def split: option.split_asm)
  define m0 where "m0 = (mon_reset m)\<lparr>m_id := tid, m_type := TM_FXP, m_sls := Some sls, m_sld := Some sld, m_fls := Some fls,
            m_fld := Some fld, m_sfile := sfile, m_dfile := dfile, m_srcco := srcco, m_dstco := dstco,
            m_status := AWAITING_PASSIVE, m_src := src, m_dst := dst\<rparr>"
  obtain m1 where m1: "fxp_touch env g sld (fxp_setup g sls sld m0) = Inr m1" "fxp_start env g sls sld m1 = Inr m'"
    using assms(1) by (auto simp: engageFXP_def Let_def l m0_def and_then_Inr)
  note st = fxp_start_cases [OF m1(2) assms(2)] and k = fxp_touch_keeps [OF m1(1)]
  have "m_ssl m0 = False" "m_sfile m0 = sfile" "m_dfile m0 = dfile" by (simp_all add: m0_def mon_reset_def)
  then have f: "m_fxpdstactive m1 \<longleftrightarrow> \<not> s_brokenpasv sls" "m_ssl m1 \<longleftrightarrow> fxp_ssl (s_policy sls) (s_policy sld)"
    "m_ipv6 m1 \<longleftrightarrow> useIPv6 (s_protocol sls) (s_protocol sld)" "m_sfile m1 = sfile" "m_dfile m1 = dfile"
    "m_ssl m1 \<Longrightarrow> m_sourcesslclient m1 \<longleftrightarrow> fxp_sslclient sls sld (m_fxpdstactive m1)"
    using k by (auto simp: fxp_setup_def Let_def)
  show "fxp_check sls sld = None" by (rule st(1))
  show "\<not> s_brokenpasv sls \<or> \<not> s_brokenpasv sld" using st(3) f(1) by auto
  show "m_fxpdstactive m' \<longleftrightarrow> \<not> s_brokenpasv sls" "m_ssl m' \<longleftrightarrow> fxp_ssl (s_policy sls) (s_policy sld)"
    "m_ipv6 m' \<longleftrightarrow> useIPv6 (s_protocol sls) (s_protocol sld)"
    "m_ssl m' \<Longrightarrow> m_sourcesslclient m' \<longleftrightarrow> fxp_sslclient sls sld (m_fxpdstactive m')"
    "last (m_out m') = (if m_fxpdstactive m'
       then PreparePassiveTransfer Src sfile True (m_ipv6 m') (m_ssl m') (m_sourcesslclient m')
       else PreparePassiveTransfer Dst dfile True (m_ipv6 m') (m_ssl m') (\<not> m_sourcesslclient m'))"
    using f unfolding st(2) by (auto simp: emit_def split: if_splits)
qed

lemma fxp_ssl_policy: "fxp_check sls sld = None \<Longrightarrow>
    (s_policy sls = ALWAYS_ON \<or> s_policy sld = ALWAYS_ON \<longrightarrow> fxp_ssl (s_policy sls) (s_policy sld))
    \<and> (s_policy sls = ALWAYS_OFF \<or> s_policy sld = ALWAYS_OFF \<longrightarrow> \<not> fxp_ssl (s_policy sls) (s_policy sld))"
  by (cases "s_policy sls"; cases "s_policy sld") (simp_all add: fxp_check_def fxp_ssl_def)

lemma fxp_ipv6_protocol: "fxp_check sls sld = None \<Longrightarrow>
    (s_protocol sls = IPV4_ONLY \<or> s_protocol sld = IPV4_ONLY \<longrightarrow> \<not> useIPv6 (s_protocol sls) (s_protocol sld))
    \<and> (s_protocol sls = IPV6_ONLY \<or> s_protocol sld = IPV6_ONLY \<longrightarrow> useIPv6 (s_protocol sls) (s_protocol sld))"
  by (cases "s_protocol sls"; cases "s_protocol sld")
    (simp_all add: fxp_check_def useIPv6_def transferProtocolCombinationPossible_def split: if_splits)

text \<open>The side that acts as the TLS client is able to.\<close>

definition client_able :: "mon_site \<Rightarrow> bool \<Rightarrow> bool" where
  "client_able s passive \<longleftrightarrow> s_sscn s \<or> s_cpsv s \<and> passive"

lemma fxp_client_able:
  assumes "fxp_check sls sld = None" "s_policy sls = ALWAYS_ON \<or> s_policy sld = ALWAYS_ON"
  shows "if fxp_sslclient sls sld act then client_able sls act else client_able sld (\<not> act)"
proof -
  have "s_sscn sls \<or> s_sscn sld" using assms by (auto simp: fxp_check_def split: if_splits)
  then show ?thesis by (cases act) (auto simp: fxp_sslclient_def client_able_def)
qed

text \<open>C8. Safety: an FXP transfer that is started keeps to the settings of both sites.  A site that always wants TLS gets it,
  a site that never wants it does not, and conflicting settings start no transfer; the address family is one both
  sites may use; the passive side, which is asked first, is one whose PASV works and is told the
  same; and if a site insists on TLS then the side that acts as the TLS client is able to: by SSCN, or by CPSV if it is
  the passive one.\<close>

theorem fxp_settings:
  assumes "engageFXP env g tid sfile sls fls dfile sld fld srcco dstco m = Inr m'" "m_status m' \<noteq> IDLE"
  shows "(s_policy sls = ALWAYS_ON \<or> s_policy sld = ALWAYS_ON \<longrightarrow> m_ssl m')
    \<and> (s_policy sls = ALWAYS_OFF \<or> s_policy sld = ALWAYS_OFF \<longrightarrow> \<not> m_ssl m')
    \<and> (s_protocol sls = IPV4_ONLY \<or> s_protocol sld = IPV4_ONLY \<longrightarrow> \<not> m_ipv6 m')
    \<and> (s_protocol sls = IPV6_ONLY \<or> s_protocol sld = IPV6_ONLY \<longrightarrow> m_ipv6 m')
    \<and> last (m_out m') = (if m_fxpdstactive m'
         then PreparePassiveTransfer Src sfile True (m_ipv6 m') (m_ssl m') (m_sourcesslclient m')
         else PreparePassiveTransfer Dst dfile True (m_ipv6 m') (m_ssl m') (\<not> m_sourcesslclient m'))
    \<and> \<not> s_brokenpasv (if m_fxpdstactive m' then sls else sld)
    \<and> (s_policy sls = ALWAYS_ON \<or> s_policy sld = ALWAYS_ON \<longrightarrow>
       (if m_sourcesslclient m' then client_able sls (m_fxpdstactive m') else client_able sld (\<not> m_fxpdstactive m')))"
proof -
  note c = engageFXP_cases [OF assms]
  have "if m_sourcesslclient m' then client_able sls (m_fxpdstactive m') else client_able sld (\<not> m_fxpdstactive m')"
    if on: "s_policy sls = ALWAYS_ON \<or> s_policy sld = ALWAYS_ON"
  proof -
    have "m_ssl m'" using c(3) fxp_ssl_policy [OF c(1)] on by blast
    then have e: "m_sourcesslclient m' \<longleftrightarrow> fxp_sslclient sls sld (m_fxpdstactive m')" by (rule c(5))
    show ?thesis unfolding e by (rule fxp_client_able [OF c(1) on])
  qed
  moreover have "\<not> s_brokenpasv (if m_fxpdstactive m' then sls else sld)" using c(2,6) by simp
  ultimately show ?thesis
    unfolding c(3,4) using c(7) [unfolded c(3,4)] fxp_ssl_policy [OF c(1)] fxp_ipv6_protocol [OF c(1)] by blast
qed

theorem fxp_settings_witness:
  "\<exists>m'. engageFXP demo_env demo_in 1 ''a'' (demo_site\<lparr>s_policy := ALWAYS_ON\<rparr>) demo_list ''a'' demo_site
      (fl_init undefined ''u'' path_empty LS_UNKNOWN) None None undefined = Inr m' \<and> m_status m' = AWAITING_PASSIVE \<and> m_ssl m'"
proof -
  let ?s = "demo_site\<lparr>s_policy := ALWAYS_ON\<rparr>" and ?l = "fl_init undefined ''u'' path_empty LS_UNKNOWN"
  obtain m' where m': "engageFXP demo_env demo_in 1 ''a'' ?s demo_list ''a'' demo_site ?l None None undefined = Inr m'"
      "m_status m' = AWAITING_PASSIVE"
    by (simp add: demo_in_def engageFXP_def Let_def fxp_touch_def fxp_setup_def fxp_start_def fxp_check_def demo_site_def
     transferProtocolCombinationPossible_def file_at_def on_fld_def on_fls_def demo_env_def mon_reset_def emit_def
     fxp_ssl_def fxp_sslclient_def demo_getFile)
  have "m_ssl m'" using fxp_settings [OF m'(1)] m'(2) by simp
  then show ?thesis using m' by blast
qed


subsection \<open>The outcome of an FXP transfer\<close>

text \<open>
  The abstract machine: each side is going, done or failed; a side reports once; when both have reported,
  the transfer is over, and it succeeded if both are done.
\<close>

datatype side_state = Going | Done | Failed

type_synonym phase = "side_state \<times> side_state"

definition phase_report :: "side \<Rightarrow> bool \<Rightarrow> phase \<Rightarrow> phase option" where
  "phase_report sd ok p = (case (sd, p) of
     (Src, (Going, t)) \<Rightarrow> Some (if ok then Done else Failed, t)
   | (Dst, (s, Going)) \<Rightarrow> Some (s, if ok then Done else Failed)
   | _ \<Rightarrow> None)"

fun mon_phase :: "mon_status \<Rightarrow> phase option" where
  "mon_phase TRANSFERRING = Some (Going, Going)"
| "mon_phase TRANSFERRING_SOURCE_COMPLETE = Some (Done, Going)"
| "mon_phase TRANSFERRING_TARGET_COMPLETE = Some (Going, Done)"
| "mon_phase SOURCE_ERROR_AWAITING_TARGET = Some (Failed, Going)"
| "mon_phase TARGET_ERROR_AWAITING_SOURCE = Some (Going, Failed)"
| "mon_phase _ = None"

definition mon_report :: "mon_env \<Rightarrow> side \<Rightarrow> mon_error option \<Rightarrow> monitor \<Rightarrow> mon_fault + monitor" where
  "mon_report env sd err m = (case (sd, err) of
     (Src, None) \<Rightarrow> mon_sourceComplete env m
   | (Src, Some e) \<Rightarrow> mon_sourceError FUEL env e m
   | (Dst, None) \<Rightarrow> mon_targetComplete env m
   | (Dst, Some e) \<Rightarrow> mon_targetError FUEL env e m)"

lemma finish_outcome:
  "mon_finish env m = Inr m' \<Longrightarrow> m_status m' = IDLE \<and> last (m_out m') = TransferSuccessful (m_ts m')"
  by (auto simp: mon_finish_def Let_def and_then_Inr setStatus_def emit_def)

lemma failed_outcome:
  "mon_transferFailed err m = Inr m' \<Longrightarrow> m_status m' = IDLE \<and> (\<exists>e. last (m_out m') = TransferFailed (m_ts m') e)"
  by (auto simp: mon_transferFailed_def Let_def and_then_Inr setStatus_def emit_def split: if_splits)

definition phase_outcome :: "phase \<Rightarrow> monitor \<Rightarrow> bool" where
  "phase_outcome q m' \<longleftrightarrow> (if fst q = Going \<or> snd q = Going then mon_phase (m_status m') = Some q
     else m_status m' = IDLE \<and> (if q = (Done, Done) then last (m_out m') = TransferSuccessful (m_ts m')
       else \<exists>e. last (m_out m') = TransferFailed (m_ts m') e))"

lemma failed_total:
  assumes "same m m1" "linked m" "m_status m \<noteq> IDLE"
  shows "\<exists>m'. mon_transferFailed err m1 = Inr m' \<and> m_status m' = IDLE \<and> (\<exists>e. last (m_out m') = TransferFailed (m_ts m') e)"
proof -
  have "mon_ok {} (\<lambda>m'. moved m1 m' \<and> m_status m' = IDLE) (mon_transferFailed err m1)"
    using assms same_linked [OF assms(1)] same_need [OF assms(1)] by (intro transferFailed_ok) (auto simp: linked_def)
  then obtain m' where "mon_transferFailed err m1 = Inr m'" by (cases "mon_transferFailed err m1") auto
  then show ?thesis using failed_outcome by blast
qed

lemma finish_total:
  assumes "same m m1" "linked m" "local_end m" "m_status m \<noteq> IDLE"
  shows "mon_finish env m1 = Inl DivideByZero
    \<or> (\<exists>m'. mon_finish env m1 = Inr m' \<and> m_status m' = IDLE \<and> last (m_out m') = TransferSuccessful (m_ts m'))"
proof -
  have "mon_ok {DivideByZero} (\<lambda>m'. moved m1 m' \<and> m_status m' = IDLE) (mon_finish env m1)"
    using assms same_linked [OF assms(1)] same_need [OF assms(1)] by (intro mon_finish_ok) auto
  then show ?thesis using finish_outcome by (cases "mon_finish env m1") auto
qed

lemma fxp_linked: "mon_reach m \<Longrightarrow> m_type m = TM_FXP \<Longrightarrow> m_status m \<noteq> IDLE \<Longrightarrow> linked m \<and> local_end m \<and> opn m"
  using reach_wf by (auto simp: mon_wf_def local_end_def)

lemma complete_outcome:
  assumes m: "linked m" "local_end m" "m_type m = TM_FXP" and p: "mon_phase (m_status m) = Some p"
  shows "case phase_report Src True p of None \<Rightarrow> mon_sourceComplete env m = Inl AssertFailed
    | Some q \<Rightarrow> q = (Done, Done) \<and> mon_sourceComplete env m = Inl DivideByZero
        \<or> (\<exists>m'. mon_sourceComplete env m = Inr m' \<and> phase_outcome q m')" (is ?src)
    and "case phase_report Dst True p of None \<Rightarrow> mon_targetComplete env m = Inl AssertFailed
    | Some q \<Rightarrow> q = (Done, Done) \<and> mon_targetComplete env m = Inl DivideByZero
        \<or> (\<exists>m'. mon_targetComplete env m = Inr m' \<and> phase_outcome q m')" (is ?dst)
proof -
  have s: "same m (on_fls f (m\<lparr>m_partial := i\<rparr>))" "same m (on_fld f (m\<lparr>m_partial := i\<rparr>))" for f i by simp_all
  have ni: "m_status m \<noteq> IDLE" using p by auto
  note t = failed_total [OF s(1) m(1) ni] failed_total [OF s(2) m(1) ni] finish_total [OF s(1) m(1,2) ni] finish_total [OF s(2) m(1,2) ni]
  show ?src using p t
    by (cases "m_status m") (auto simp: mon_sourceComplete_def Let_def phase_report_def phase_outcome_def setStatus_def)
  show ?dst using p t m(3)
    by (cases "m_status m") (auto simp: mon_targetComplete_def Let_def phase_report_def phase_outcome_def setStatus_def)
qed

lemma error_outcome:
  assumes m: "linked m" "m_type m = TM_FXP" and p: "mon_phase (m_status m) = Some p"
  shows "case phase_report Src False p of None \<Rightarrow> mon_sourceError FUEL env e m = Inl AssertFailed
    | Some q \<Rightarrow> (\<exists>m'. mon_sourceError FUEL env e m = Inr m' \<and> phase_outcome q m')" (is ?src)
    and "case phase_report Dst False p of None \<Rightarrow> mon_targetError FUEL env e m = Inl AssertFailed
    | Some q \<Rightarrow> (\<exists>m'. mon_targetError FUEL env e m = Inr m' \<and> phase_outcome q m')" (is ?dst)
proof -
  have s: "same m ((on_fls f m)\<lparr>m_partial := i\<rparr>)" "same m ((on_fld f m)\<lparr>m_partial := i\<rparr>)" for f i by simp_all
  have ni: "m_status m \<noteq> IDLE" using p by auto
  note t = failed_total [OF s(1) m(1) ni] failed_total [OF s(2) m(1) ni]
  have ty: "m_type ((on_fls f m)\<lparr>m_partial := i\<rparr>) = TM_FXP" "m_type ((on_fld f m)\<lparr>m_partial := i\<rparr>) = TM_FXP" for f i
    using m by (simp_all add: on_fls_def on_fld_def)
  show ?src unfolding FUEL_Suc using p t ty m
    by (cases "m_status m") (auto simp: mon_sourceError.simps(2) Let_def phase_report_def phase_outcome_def setStatus_def)
  show ?dst unfolding FUEL_Suc using p t ty m
    by (cases "m_status m") (auto simp: mon_targetError.simps(2) Let_def phase_report_def phase_outcome_def setStatus_def)
qed

text \<open>C4. Refinement: once an FXP transfer is running, the monitor is the abstract machine.  A report that the machine does not
  take fails the assertion, a first report is remembered, and the second one ends the transfer, as
  successful exactly when both sides are done.  Nothing else can go wrong than the division of the remaining time
  by a speed of zero when both sides are done.\<close>

theorem mon_refines_phases:
  assumes "mon_reach m" "m_type m = TM_FXP" "mon_phase (m_status m) = Some p"
  shows "case phase_report sd (err = None) p of
      None \<Rightarrow> mon_report env sd err m = Inl AssertFailed
    | Some q \<Rightarrow> q = (Done, Done) \<and> mon_report env sd err m = Inl DivideByZero
        \<or> (\<exists>m'. mon_report env sd err m = Inr m' \<and> phase_outcome q m')"
proof -
  have ni: "m_status m \<noteq> IDLE" using assms(3) by auto
  have l: "linked m" "local_end m" using fxp_linked [OF assms(1,2) ni] by auto
  show ?thesis
  proof (cases sd; cases err)
    fix e assume "sd = Src" "err = Some e"
    then show ?thesis using error_outcome(1) [OF l(1) assms(2,3), of env e] by (auto simp: mon_report_def split: option.splits)
  next
    fix e assume "sd = Dst" "err = Some e"
    then show ?thesis using error_outcome(2) [OF l(1) assms(2,3), of env e] by (auto simp: mon_report_def split: option.splits)
  next
    assume x: "sd = Src" "err = None"
    show ?thesis unfolding mon_report_def x using complete_outcome(1) [OF l assms(2,3), of env] by (auto split: option.splits)
  next
    assume x: "sd = Dst" "err = None"
    show ?thesis unfolding mon_report_def x using complete_outcome(2) [OF l assms(2,3), of env] by (auto split: option.splits)
  qed
qed


lemma demo_transferring:
  "\<exists>m. mon_reach m \<and> m_status m = TRANSFERRING \<and> m_type m = TM_FXP \<and> m_partial m = 0 \<and> m_timestamp m = 0"
proof -
  obtain m where m: "mon_reach m" "m_status m = AWAITING_PASSIVE" "m_type m = TM_FXP" "m_partial m = 0" "m_timestamp m = 0"
    using demo_reach by blast
  have l: "\<exists>s. m_sls m = Some s" "\<exists>s. m_sld m = Some s" using fxp_linked [OF m(1,3)] m by (auto simp: linked_def)
  then have "\<exists>m1. mon_step demo_env (PassiveReady ''h'' 1) m = Inr m1 \<and> m_status m1 = AWAITING_ACTIVE \<and> m_type m1 = TM_FXP
      \<and> m_sls m1 = m_sls m \<and> m_sld m1 = m_sld m \<and> m_partial m1 = 0 \<and> m_timestamp m1 = 0"
    using m by (cases "m_fxpdstactive m")
      (auto simp: mon_passiveReady_def announce_def call_site_def mon_site_def on_ts_def setStatus_def emit_def)
  then obtain m1 where m1: "mon_step demo_env (PassiveReady ''h'' 1) m = Inr m1" "m_status m1 = AWAITING_ACTIVE" "m_type m1 = TM_FXP"
      "m_sls m1 = m_sls m" "m_sld m1 = m_sld m" "m_partial m1 = 0" "m_timestamp m1 = 0" by blast
  have r1: "mon_reach m1" by (rule mon_reach.step [OF m(1) _ m1(1)]) (simp add: is_engage_def)
  have "\<exists>m2. mon_step demo_env ActiveStarted m1 = Inr m2 \<and> m_status m2 = TRANSFERRING \<and> m_type m2 = TM_FXP
      \<and> m_partial m2 = 0 \<and> m_timestamp m2 = 0"
    using l m1 by (cases "m_fxpdstactive m1")
      (auto simp: mon_activeStarted_def call_site_def mon_site_def setStatus_def emit_def Let_def)
  then obtain m2 where m2: "mon_step demo_env ActiveStarted m1 = Inr m2" "m_status m2 = TRANSFERRING" "m_type m2 = TM_FXP"
      "m_partial m2 = 0" "m_timestamp m2 = 0" by blast
  have "mon_reach m2" by (rule mon_reach.step [OF r1 _ m2(1)]) (simp add: is_engage_def)
  then show ?thesis using m2 by blast
qed

theorem mon_refines_phases_witness:
  "\<exists>m m'. mon_reach m \<and> m_status m = TRANSFERRING \<and> mon_report demo_env Src None m = Inr m' \<and> phase_outcome (Done, Going) m'"
proof -
  obtain m where m: "mon_reach m" "m_status m = TRANSFERRING" "m_type m = TM_FXP" using demo_transferring by blast
  have "mon_phase (m_status m) = Some (Going, Going)" using m by simp
  from mon_refines_phases [OF m(1,3) this, where sd = Src and err = None and env = demo_env] show ?thesis
    using m by (auto simp: phase_report_def)
qed

subsection \<open>A transfer whose other side never reports\<close>

fun mon_ticks :: "mon_env list \<Rightarrow> monitor \<Rightarrow> mon_fault + monitor" where
  "mon_ticks [] m = Inr m"
| "mon_ticks (env # envs) m = and_then (mon_tick env m) (mon_ticks envs)"

text \<open>How long a status that waits for one side is waited for.\<close>

fun patience :: "mon_status \<Rightarrow> int option" where
  "patience SOURCE_ERROR_AWAITING_TARGET = Some MAX_WAIT_ERROR"
| "patience TARGET_ERROR_AWAITING_SOURCE = Some MAX_WAIT_ERROR"
| "patience TRANSFERRING_TARGET_COMPLETE = Some MAX_WAIT_ERROR"
| "patience TRANSFERRING_SOURCE_COMPLETE = Some MAX_WAIT_SOURCE_COMPLETE"
| "patience _ = None"

definition clock :: "monitor \<Rightarrow> int \<times> int \<times> int" where
  "clock m = (m_timestamp m, m_partial m, m_ticker m)"

lemma need_ts_clock: "clock m1 = clock m \<Longrightarrow> mon_ok UNIV (\<lambda>m'. clock m' = clock m) (need_ts f m1)"
proof (cases "m_ts m1")
  case (Some t)
  assume "clock m1 = clock m"
  then show ?thesis using Some by (cases "f t") (auto simp: need_ts_def clock_def)
qed (simp add: need_ts_def)

lemma updateFXP_clock: "mon_ok UNIV (\<lambda>m'. clock m' = clock m) (updateFXPSizeSpeed env m)"
proof -
  have c: "clock (m\<lparr>m_latestsrctouch := i\<rparr>) = clock m" "clock (m\<lparr>m_latestdsttouch := i\<rparr>) = clock m" for m i
    by (simp_all add: clock_def)
  show ?thesis
    unfolding updateFXPSizeSpeed_def Let_def
    by (intro file_at_bind ok_bind [where Q = "\<lambda>m'. clock m' = clock m"])
      (auto simp: c split: option.split intro!: need_ts_clock)
qed

text \<open>The states of a running FXP transfer in which one side has reported.\<close>

definition half_done :: "monitor \<Rightarrow> bool" where
  "half_done m \<longleftrightarrow> m_type m = TM_FXP \<and> linked m \<and> opn m \<and> \<not> m_lt m \<and> patience (m_status m) \<noteq> None"

lemma half_done_nonidle: "half_done m \<Longrightarrow> m_status m \<noteq> IDLE"
  by (auto simp: half_done_def)

lemma same_opn: "same m m' \<Longrightarrow> opn m' = opn m"
  by (rule frame_opn) (simp add: same_def)

lemma same_half_done: "same m m' \<Longrightarrow> half_done m' = half_done m"
  using same_need [of m m'] same_linked [of m m'] same_opn [of m m'] by (auto simp: half_done_def)

lemma half_done_robust: "half_done m \<Longrightarrow> robust {DivideByZero} m"
  by (auto simp: robust_def fit_def local_end_def half_done_def)

lemma checkMax_skips: "half_done m \<Longrightarrow> checkMaxTransferTime env m = Inr (m, False)"
  by (auto simp: half_done_def checkMaxTransferTime_def)

text \<open>When the patience is at an end, both connections still carrying the transfer, it is over.\<close>

lemma error_ends:
  assumes "half_done m"
  shows "m_status m \<in> {SOURCE_ERROR_AWAITING_TARGET, TRANSFERRING_SOURCE_COMPLETE} \<Longrightarrow>
      \<exists>m'. mon_targetError (Suc n) env e m = Inr m' \<and> m_status m' = IDLE"
    and "m_status m = TARGET_ERROR_AWAITING_SOURCE \<Longrightarrow>
      \<exists>m'. mon_sourceError (Suc n) env e m = Inr m' \<and> m_status m' = IDLE"
proof -
  have l: "linked m" "m_status m \<noteq> IDLE" using assms half_done_nonidle by (auto simp: half_done_def)
  have s: "same m ((on_fls f m)\<lparr>m_partial := i\<rparr>)" "same m ((on_fld f m)\<lparr>m_partial := i\<rparr>)" for f i by simp_all
  have t: "\<exists>m'. mon_transferFailed err ((on_fls f m)\<lparr>m_partial := i\<rparr>) = Inr m' \<and> m_status m' = IDLE"
     "\<exists>m'. mon_transferFailed err ((on_fld f m)\<lparr>m_partial := i\<rparr>) = Inr m' \<and> m_status m' = IDLE" for f i err
    using failed_total [OF s(1) l] failed_total [OF s(2) l] by blast+
  show "m_status m \<in> {SOURCE_ERROR_AWAITING_TARGET, TRANSFERRING_SOURCE_COMPLETE} \<Longrightarrow>
      \<exists>m'. mon_targetError (Suc n) env e m = Inr m' \<and> m_status m' = IDLE"
    using t(2) by (cases "m_status m") (simp_all add: mon_targetError.simps(2) Let_def)
  show "m_status m = TARGET_ERROR_AWAITING_SOURCE \<Longrightarrow>
      \<exists>m'. mon_sourceError (Suc n) env e m = Inr m' \<and> m_status m' = IDLE"
    using t(1) by (simp add: mon_sourceError.simps(2) Let_def)
qed

lemma close_ends:
  assumes m: "half_done m" "m_status m \<noteq> TRANSFERRING_TARGET_COMPLETE" and b: "e_busy env Src" "e_busy env Dst"
  shows "\<exists>m'. closeRemaining FUEL env m = Inr m' \<and> m_status m' = IDLE"
proof -
  have ni: "m_status m \<noteq> IDLE" and ends: "m_sls m \<noteq> None" "m_sld m \<noteq> None"
    using m half_done_nonidle by (auto simp: half_done_def linked_def)
  have e: "half_done (emit (DisconnectConn sd) m)" for sd
    using m(1) same_half_done [OF same_emit] by simp
  have st: "m_status (emit a m) = m_status m" for a m by (simp_all add: emit_def)
  show ?thesis
  proof (cases "m_status m = TARGET_ERROR_AWAITING_SOURCE")
    case True
    then obtain m' where "mon_sourceError (Suc (Suc (Suc 0))) env ERR_CLEANUP (emit (DisconnectConn Src) m) = Inr m'" "m_status m' = IDLE"
      using error_ends(2) [OF e, of Src "Suc (Suc 0)" env ERR_CLEANUP] st by auto
    then show ?thesis
      using True ni ends b by (simp add: FUEL_Suc closeRemaining_Suc side_hears_def target_hears_def source_hears_def side_error_def st)
  next
    case False
    then obtain m' where "mon_targetError (Suc (Suc (Suc 0))) env ERR_CLEANUP (emit (DisconnectConn Dst) m) = Inr m'" "m_status m' = IDLE"
      using error_ends(1) [OF e, of Dst "Suc (Suc 0)" env ERR_CLEANUP] st m by (cases "m_status m") (auto simp: half_done_def)
    then show ?thesis
      using False ni ends b m(2) by (simp add: FUEL_Suc closeRemaining_Suc side_hears_def target_hears_def side_error_def st)
  qed
qed

lemma log_total: "half_done m \<Longrightarrow> \<exists>m'. mon_log env l m = Inr m' \<and> same m m'"
  using mon_log_ok [of "{}" m env l] half_done_nonidle [of m]
  by (cases "mon_log env l m") (auto simp: half_done_def fit_def linked_def)

lemma grace_ends:
  assumes m: "half_done m" "m_status m = TRANSFERRING_TARGET_COMPLETE" and b: "e_busy env Src"
  shows "finishGracefully env m = Inl DivideByZero \<or> (\<exists>m'. finishGracefully env m = Inr m' \<and> m_status m' = IDLE)"
proof -
  have s: "same m (on_fls f ((emit FinishGracefully m)\<lparr>m_partial := i\<rparr>))" for f i
    by (rule same_trans [where ?m1.0 = "emit FinishGracefully m"]) (simp_all add: same_emit)
  have fin: "mon_finish env (on_fls f ((emit FinishGracefully m)\<lparr>m_partial := i\<rparr>)) = Inl DivideByZero
      \<or> (\<exists>m'. mon_finish env (on_fls f ((emit FinishGracefully m)\<lparr>m_partial := i\<rparr>)) = Inr m' \<and> m_status m' = IDLE)" for f i
    using finish_total [OF s, of env] m half_done_nonidle [OF m(1)] by (auto simp: half_done_def local_end_def)
  obtain sls where "m_sls m = Some sls" using m by (auto simp: half_done_def linked_def)
  then show ?thesis
    using m(2) b fin by (simp add: finishGracefully_def call_site_def mon_site_def mon_sourceComplete_def Let_def emit_facts)
qed

lemma dead_check:
  assumes m: "half_done m" and b: "e_busy env Src" "e_busy env Dst" and p: "patience (m_status m) = Some w"
  shows "if w < m_timestamp m - m_partial m
     then checkForDeadFXPTransfers env m = Inl DivideByZero \<or> (\<exists>m'. checkForDeadFXPTransfers env m = Inr (m', True) \<and> m_status m' = IDLE)
     else checkForDeadFXPTransfers env m = Inr (m, False)"
proof -
  have close: "\<exists>m'. and_then (mon_log env l m) (\<lambda>m. and_then (closeRemaining FUEL env m) (\<lambda>m. Inr (m, True))) = Inr (m', True) \<and> m_status m' = IDLE"
    if "m_status m \<noteq> TRANSFERRING_TARGET_COMPLETE" for l
  proof -
    obtain m1 where "mon_log env l m = Inr m1" "same m m1" using log_total [OF m] by blast
    moreover have "\<exists>m'. closeRemaining FUEL env m1 = Inr m' \<and> m_status m' = IDLE"
      using calculation m that same_half_done same_need(7) by (intro close_ends b) auto
    ultimately show ?thesis by auto
  qed
  have grace: "and_then (mon_log env l m) (\<lambda>m. and_then (finishGracefully env m) (\<lambda>m. Inr (m, True))) = Inl DivideByZero
      \<or> (\<exists>m'. and_then (mon_log env l m) (\<lambda>m. and_then (finishGracefully env m) (\<lambda>m. Inr (m, True))) = Inr (m', True) \<and> m_status m' = IDLE)"
    if "m_status m = TRANSFERRING_TARGET_COMPLETE" for l
  proof -
    obtain m1 where "mon_log env l m = Inr m1" "same m m1" using log_total [OF m] by blast
    moreover have "finishGracefully env m1 = Inl DivideByZero \<or> (\<exists>m'. finishGracefully env m1 = Inr m' \<and> m_status m' = IDLE)"
      using calculation m that same_half_done same_need(7) by (intro grace_ends b) auto
    ultimately show ?thesis by auto
  qed
  show ?thesis
    using p close grace by (cases "m_status m") (simp_all add: checkForDeadFXPTransfers_def Let_def)
qed


definition half_clock :: "monitor \<Rightarrow> int \<Rightarrow> int \<Rightarrow> mon_status \<Rightarrow> monitor \<Rightarrow> bool" where
  "half_clock m0 n p st m \<longleftrightarrow> half_done m \<and> m_status m = st \<and> m_partial m = p \<and> m_timestamp m = m_timestamp m0 + TICK_INTERVAL * n
     \<and> m_ticker m = m_ticker m0 + n"

lemma tick_half:
  assumes h: "half_clock m0 n p st m" and w: "patience st = Some w" and b: "e_busy env Src" "e_busy env Dst"
  shows "mon_tick env m = Inl DivideByZero \<or> (\<exists>m'. mon_tick env m = Inr m' \<and> (m_status m' = IDLE \<or> half_clock m0 (n + 1) p st m'
      \<and> (20 dvd m_ticker m0 + n + 1 \<longrightarrow> m_timestamp m0 + TICK_INTERVAL * (n + 1) - p \<le> w)))"
proof -
  define m1 where "m1 = m\<lparr>m_timestamp := m_timestamp m + TICK_INTERVAL, m_ticker := m_ticker m + 1\<rparr>"
  have s1: "same m m1" by (simp add: m1_def)
  have hm: "half_done m" "m_status m = st" using h by (simp_all add: half_clock_def)
  have c1: "clock m1 = (m_timestamp m0 + TICK_INTERVAL * (n + 1), p, m_ticker m0 + n + 1)"
    using h by (simp add: clock_def m1_def half_clock_def distrib_left)
  have ty: "m_type m1 = TM_FXP" and ni: "m_status m \<noteq> IDLE" using hm(1) half_done_nonidle [OF hm(1)] by (simp_all add: m1_def half_done_def)
  have u: "mon_ok {DivideByZero} (same m1) (updateFXPSizeSpeed env m1)"
    using hm(1) same_half_done [OF s1] by (intro updateFXP_ok) (auto simp: half_done_def linked_def)
  show ?thesis
  proof (cases "updateFXPSizeSpeed env m1")
    case (Inl f)
    then show ?thesis using u ni ty by (simp add: mon_tick_def m1_def)
  next
    case (Inr m2)
    then have s2: "same m1 m2" and c2: "clock m2 = clock m1" using u updateFXP_clock [of m1 env] by auto
    have s: "same m m2" by (rule same_trans [OF s1 s2])
    have st2: "half_done m2" "m_status m2 = st" using hm same_half_done [OF s] same_need(7) [OF s] by auto
    have hc: "half_clock m0 (n + 1) p st m2" using st2 c1 c2 by (simp add: half_clock_def clock_def)
    have tick: "mon_tick env m = (if m_ticker m1 mod 20 = 0
        then and_then (checkForDeadFXPTransfers env m2) (\<lambda>(m, dead). if dead then Inr m
          else if m_ticker m1 mod 20 = 0 then and_then (checkMaxTransferTime env m) (\<lambda>(m, _). Inr m) else Inr m)
        else Inr m2)"
      using Inr ni ty unfolding mon_tick_def Let_def m1_def [symmetric] by simp
    have tk: "m_ticker m1 mod 20 = 0 \<longleftrightarrow> 20 dvd m_ticker m0 + n + 1" using c1 by (simp add: clock_def dvd_eq_mod_eq_0)
    have wt: "m_timestamp m2 - m_partial m2 = m_timestamp m0 + TICK_INTERVAL * (n + 1) - p" using c1 c2 by (simp add: clock_def)
    have dead: "if w < m_timestamp m0 + TICK_INTERVAL * (n + 1) - p
       then checkForDeadFXPTransfers env m2 = Inl DivideByZero \<or> (\<exists>m'. checkForDeadFXPTransfers env m2 = Inr (m', True) \<and> m_status m' = IDLE)
       else checkForDeadFXPTransfers env m2 = Inr (m2, False)"
      using dead_check [OF st2(1) b, of w] w st2(2) wt by simp
    show ?thesis
      unfolding tick using tk dead hc checkMax_skips [OF st2(1), of env] by (auto split: if_splits)
  qed
qed

text \<open>Until the end of its patience the transfer waits, and at the first full second after that it is over.\<close>

lemma ticks_idle: "m_status m = IDLE \<Longrightarrow> mon_ticks envs m = Inr m"
  by (induction envs) (simp_all add: mon_tick_def)

lemma ticks_half:
  assumes "half_clock m0 n p st m" "patience st = Some w" "\<forall>env \<in> set envs. e_busy env Src \<and> e_busy env Dst"
  shows "mon_ticks envs m = Inl DivideByZero \<or> (\<exists>m'. mon_ticks envs m = Inr m' \<and> (m_status m' = IDLE
     \<or> (\<forall>k. n < k \<and> k \<le> n + int (length envs) \<and> 20 dvd m_ticker m0 + k \<longrightarrow> m_timestamp m0 + TICK_INTERVAL * k - p \<le> w)))"
  using assms
proof (induction envs arbitrary: m n)
  case (Cons env envs)
  have b: "e_busy env Src" "e_busy env Dst" using Cons.prems(3) by simp_all
  consider "mon_tick env m = Inl DivideByZero"
    | m' where "mon_tick env m = Inr m'" "m_status m' = IDLE"
    | m' where "mon_tick env m = Inr m'" "half_clock m0 (n + 1) p st m'"
        "20 dvd m_ticker m0 + n + 1 \<longrightarrow> m_timestamp m0 + TICK_INTERVAL * (n + 1) - p \<le> w"
    using tick_half [OF Cons.prems(1,2) b] by blast
  then show ?case
  proof cases
    case 3
    have more: "\<forall>k. n < k \<and> k \<le> n + int (length (env # envs)) \<and> 20 dvd m_ticker m0 + k \<longrightarrow> m_timestamp m0 + TICK_INTERVAL * k - p \<le> w"
      if later: "\<forall>k. n + 1 < k \<and> k \<le> n + 1 + int (length envs) \<and> 20 dvd m_ticker m0 + k \<longrightarrow> m_timestamp m0 + TICK_INTERVAL * k - p \<le> w"
    proof (intro allI impI)
      fix k assume k: "n < k \<and> k \<le> n + int (length (env # envs)) \<and> 20 dvd m_ticker m0 + k"
      show "m_timestamp m0 + TICK_INTERVAL * k - p \<le> w"
      proof (cases "k = n + 1")
        case True then show ?thesis using 3(3) k by (simp add: add.assoc)
      next
        case False then show ?thesis using later k by simp
      qed
    qed
    have "\<forall>env \<in> set envs. e_busy env Src \<and> e_busy env Dst" using Cons.prems(3) by simp
    from Cons.IH [OF 3(2) Cons.prems(2) this] show ?thesis
      unfolding mon_ticks.simps 3(1) and_then.simps using more by blast
  qed (simp_all add: ticks_idle)
qed simp

lemma multiple_between: "\<exists>k. a < k \<and> k \<le> a + 20 \<and> 20 dvd b + k" for a b :: int
proof -
  let ?r = "(b + a) mod 20"
  have r: "?r < 20" "0 \<le> ?r" by simp_all
  have "20 dvd (b + a - ?r) + 20" by (intro dvd_add dvd_minus_mod dvd_refl)
  also have "(b + a - ?r) + 20 = b + (a + 20 - ?r)" by simp
  finally have "20 dvd b + (a + 20 - ?r)" .
  then show ?thesis using r by (intro exI [of _ "a + 20 - ?r"]) simp
qed




subsection \<open>A download that is never over\<close>

definition stranded :: "monitor \<Rightarrow> bool" where
  "stranded m \<longleftrightarrow> m_type m = TM_DOWNLOAD \<and> m_sld m = None \<and> m_status m = SOURCE_ERROR_AWAITING_TARGET"

lemma same_stranded: "same m m' \<Longrightarrow> stranded m \<Longrightarrow> stranded m'"
  using same_need [of m m'] by (auto simp: stranded_def)

lemma close_stranded:
  "stranded m \<Longrightarrow> \<not> e_ltopen env \<Longrightarrow> closeRemaining (Suc n) env m = Inr m"
  by (simp add: stranded_def closeRemaining.simps)

lemma tick_stranded:
  assumes "stranded m" "\<not> e_ltopen env"
  shows "mon_ok UNIV stranded (mon_tick env m)"
proof -
  define m1 where "m1 = m\<lparr>m_timestamp := m_timestamp m + TICK_INTERVAL, m_ticker := m_ticker m + 1\<rparr>"
  have s1: "same m m1" by (simp add: m1_def)
  have u: "mon_ok UNIV stranded (updateLocalTransferSizeSpeed env m1)"
    by (rule ok_mono [OF updateLocal_ok]) (auto intro: same_stranded [OF same_trans [OF s1]] assms)
  have mx: "checkMaxTransferTime env m2 = Inr (m2, False)" if "stranded m2" for m2
    using that by (simp add: stranded_def checkMaxTransferTime_def)
  have lim: "mon_ok UNIV stranded (if b then and_then (checkMaxTransferTime env m2) (\<lambda>(m, _). Inr m) else Inr m2)" if "stranded m2" for m2 b
    using that mx by simp
  have "stranded m1" by (rule same_stranded [OF s1 assms(1)])
  then show ?thesis
    using assms u lim unfolding mon_tick_def Let_def m1_def [symmetric]
    by (auto simp: stranded_def [of m] m1_def intro!: ok_bind [where Q = stranded])
qed

text \<open>C10. Error: a download whose source fails before the passive address is known, while the local socket is not open yet, is
  never over.  The error leaves the monitor waiting for the local end, which has nothing to close; no
  number of ticks ends that, and aborting the transfer does not either.\<close>

theorem mon_download_stranded:
  assumes "linked m" "m_type m = TM_DOWNLOAD" "m_status m = AWAITING_PASSIVE" "\<forall>env \<in> set (e # envs). \<not> e_ltopen env"
  shows "\<exists>m1. mon_sourceError FUEL e err m = Inr m1 \<and> m_status m1 = SOURCE_ERROR_AWAITING_TARGET
    \<and> (\<forall>m2. mon_ticks envs m1 = Inr m2 \<longrightarrow> m_status m2 = SOURCE_ERROR_AWAITING_TARGET
      \<and> (\<forall>m3. mon_abortTransfer e m2 = Inr m3 \<longrightarrow> m_status m3 = SOURCE_ERROR_AWAITING_TARGET))"
proof -
  have sld: "m_sld m = None" using assms by (simp add: linked_def)
  define m1 where "m1 = setStatus SOURCE_ERROR_AWAITING_TARGET (((on_fls (fl_finishDownload (m_sfile m)) m)\<lparr>m_partial := m_timestamp m\<rparr>)\<lparr>m_error := err\<rparr>)"
  have st1: "stranded m1" using sld assms(2) by (simp add: m1_def stranded_def setStatus_def on_fls_def)
  have "mon_sourceError FUEL e err m = closeRemaining (Suc (Suc (Suc 0))) e m1"
    unfolding FUEL_Suc mon_sourceError.simps(2) Let_def using assms sld
    by (simp add: m1_def processing_def mon_site_def setStatus_def on_fls_def)
  also have "\<dots> = Inr m1" by (rule close_stranded [OF st1]) (use assms(4) in simp)
  finally have e1: "mon_sourceError FUEL e err m = Inr m1" .
  have ticks: "mon_ok UNIV stranded (mon_ticks envs m)" if "stranded m" "\<forall>env \<in> set envs. \<not> e_ltopen env" for m envs
    using that by (induction envs arbitrary: m) (auto intro: ok_bind [OF tick_stranded])
  have abort: "m_status m3 = SOURCE_ERROR_AWAITING_TARGET" if st: "stranded m2" and ab: "mon_abortTransfer e m2 = Inr m3" for m2 m3
  proof -
    obtain m4 where m4: "mon_log e ''Aborting transfer'' m2 = Inr m4"
        "and_then (closeRemaining FUEL e m4) (need_ts (\<lambda>t. Inr (ts_setAborted t))) = Inr m3"
      using ab by (auto simp: mon_abortTransfer_def and_then_Inr)
    have "mon_ok UNIV (same m2) (mon_log e ''Aborting transfer'' m2)" by (rule mon_log_ok) (simp_all add: fit_def)
    then have "stranded m4" using m4(1) same_stranded st by simp
    moreover from this have "closeRemaining FUEL e m4 = Inr m4" unfolding FUEL_Suc by (rule close_stranded) (use assms(4) in simp)
    ultimately show ?thesis using m4(2) by (auto simp: need_ts_def stranded_def split: option.splits)
  qed
  have "mon_ok UNIV stranded (mon_ticks envs m1)" by (rule ticks [OF st1]) (use assms(4) in simp)
  then have "stranded m2" if "mon_ticks envs m1 = Inr m2" for m2 using that by simp
  then show ?thesis using e1 st1 abort unfolding stranded_def by blast
qed

theorem mon_download_stranded_witness:
  "\<exists>m m1. linked m \<and> m_type m = TM_DOWNLOAD \<and> m_lt m \<and> mon_sourceError FUEL demo_env ERR_OTHER m = Inr m1
    \<and> (\<forall>m2. mon_ticks (replicate 100 demo_env) m1 = Inr m2 \<longrightarrow> m_status m2 \<noteq> IDLE)"
proof -
  define m where "m = (mon_new undefined)\<lparr>m_type := TM_DOWNLOAD, m_status := AWAITING_PASSIVE, m_sls := Some demo_site,
     m_fls := Some demo_list, m_ts := Some (ts_new 1 0 False), m_lt := True\<rparr>"
  have m: "linked m" "m_type m = TM_DOWNLOAD" "m_status m = AWAITING_PASSIVE" "m_lt m"
    by (simp_all add: m_def linked_def mon_new_def)
  have "\<forall>env \<in> set (demo_env # replicate 100 demo_env). \<not> e_ltopen env" by (simp add: demo_env_def)
  from mon_download_stranded [OF m(1-3) this, of ERR_OTHER] obtain m1 where
    "mon_sourceError FUEL demo_env ERR_OTHER m = Inr m1"
    "\<forall>m2. mon_ticks (replicate 100 demo_env) m1 = Inr m2 \<longrightarrow> m_status m2 = SOURCE_ERROR_AWAITING_TARGET" by blast
  then show ?thesis using m by (intro exI [of _ m] exI [of _ m1]) auto
qed

end
