(* ===== verification/SizeTrack.thy ===== *)
theory SizeTrack
  imports Prelude "HOL-Library.AList" "HOL-Library.Multiset"
begin

text \<open>
  The estimate of a file's size from what the sites of a job report: \<open>src/sizelocationtrack.cpp\<close>.
  A hash map is an association list whose keys are distinct; where the code walks one, the order is
  that of the list the walk is given, so what holds for every list holds for every order.  The scan
  of the sizes is shared with \<open>Race::recalculateBestUnknownFileSizeEstimate\<close>, which has the same
  code over a hash map.
\<close>

subsection \<open>Counting and scanning\<close>

definition count_sizes :: "u64 list \<Rightarrow> (u64 \<times> nat) list" where
  "count_sizes sizes =
     fold (\<lambda>size common. if size = 0 then common else AList.map_default size 1 (\<lambda>n. n + 1) common) sizes []"

record size_scan =
  mostcommon :: u64
  mostcommoncount :: nat
  largest :: u64
  largestcount :: nat

definition scan_step :: "u64 \<times> nat \<Rightarrow> size_scan \<Rightarrow> size_scan" where
  "scan_step p s =
     (let s1 = (if mostcommoncount s < snd p
                then s\<lparr>mostcommon := fst p, mostcommoncount := snd p\<rparr> else s)
      in if largest s1 < fst p then s1\<lparr>largest := fst p, largestcount := 1\<rparr>
         else if fst p = largest s1 then s1\<lparr>largestcount := largestcount s1 + 1\<rparr>
         else s1)"

definition scan_sizes :: "(u64 \<times> nat) list \<Rightarrow> size_scan" where
  "scan_sizes common =
     fold scan_step common \<lparr>mostcommon = 0, mostcommoncount = 0, largest = 0, largestcount = 1\<rparr>"

definition best_size :: "(u64 \<times> nat) list \<Rightarrow> u64" where
  "best_size common =
     (let s = scan_sizes common
      in if 2 \<le> largestcount s \<or> largestcount s = mostcommoncount s
           \<or> mostcommon s = 0 \<and> mostcommoncount s + 1 < length common
         then largest s else mostcommon s)"

subsection \<open>The tracker of one file\<close>

record size_track =
  st_sizes :: "(nat \<times> u64) list"
  st_estimate :: u64

definition st_new :: size_track where
  "st_new = \<lparr>st_sizes = [], st_estimate = 0\<rparr>"

definition st_numSites :: "size_track \<Rightarrow> nat" where
  "st_numSites t = length (st_sizes t)"

definition st_recalculate :: "size_track \<Rightarrow> size_track" where
  "st_recalculate t = t\<lparr>st_estimate := best_size (sort_key fst (count_sizes (map snd (st_sizes t))))\<rparr>"

definition st_add :: "nat \<Rightarrow> u64 \<Rightarrow> size_track \<Rightarrow> size_track \<times> bool" where
  "st_add site sz t =
     (if map_of (st_sizes t) site = Some sz then (t, False)
      else (st_recalculate (t\<lparr>st_sizes := AList.update site sz (st_sizes t)\<rparr>), True))"

definition st_remove :: "nat \<Rightarrow> size_track \<Rightarrow> size_track" where
  "st_remove site t =
     (if map_of (st_sizes t) site = None then t
      else st_recalculate (t\<lparr>st_sizes := AList.delete site (st_sizes t)\<rparr>))"

datatype track_op = TrackAdd nat u64 | TrackRemove nat

fun st_step :: "track_op \<Rightarrow> size_track \<Rightarrow> size_track" where
  "st_step (TrackAdd site sz) t = fst (st_add site sz t)"
| "st_step (TrackRemove site) t = st_remove site t"

subsection \<open>What the estimate is\<close>

definition counts_ok :: "(u64 \<times> nat) list \<Rightarrow> bool" where
  "counts_ok common \<longleftrightarrow> distinct (map fst common) \<and> (\<forall>p\<in>set common. fst p \<noteq> 0 \<and> 0 < snd p)"

lemma find_append: "find P (xs @ ys) = (case find P xs of None \<Rightarrow> find P ys | Some x \<Rightarrow> Some x)"
  by (induction xs) auto

lemma scan_sizes_snoc: "scan_sizes (cs @ [p]) = scan_step p (scan_sizes cs)"
  by (simp add: scan_sizes_def)

lemma scan_sizes_result:
  assumes "counts_ok cs"
  shows "largestcount (scan_sizes cs) = 1"
    "largest (scan_sizes cs) = Max (insert 0 (fst ` set cs))"
    "mostcommoncount (scan_sizes cs) = Max (insert 0 (snd ` set cs))"
    "find (\<lambda>p. snd p = mostcommoncount (scan_sizes cs)) cs =
       (if cs = [] then None else Some (mostcommon (scan_sizes cs), mostcommoncount (scan_sizes cs)))"
    "cs = [] \<Longrightarrow> mostcommon (scan_sizes cs) = 0"
proof -
  have "largestcount (scan_sizes cs) = 1 \<and> largest (scan_sizes cs) = Max (insert 0 (fst ` set cs))
    \<and> mostcommoncount (scan_sizes cs) = Max (insert 0 (snd ` set cs))
    \<and> find (\<lambda>p. snd p = mostcommoncount (scan_sizes cs)) cs =
       (if cs = [] then None else Some (mostcommon (scan_sizes cs), mostcommoncount (scan_sizes cs)))
    \<and> (cs = [] \<longrightarrow> mostcommon (scan_sizes cs) = 0)"
    using assms
  proof (induction cs rule: rev_induct)
    case Nil
    then show ?case by (simp add: scan_sizes_def)
  next
    case (snoc p cs)
    let ?s = "scan_sizes cs"
    have ok: "counts_ok cs" "fst p \<notin> fst ` set cs" "fst p \<noteq> 0" "0 < snd p"
      using snoc.prems by (auto simp: counts_ok_def)
    note ih = snoc.IH [OF ok(1)]
    have mem: "Max (insert 0 (fst ` set cs)) \<in> insert 0 (fst ` set cs)" by (rule Max_in) auto
    have "largest ?s = Max (insert 0 (fst ` set cs))" using ih by blast
    then have "largest ?s \<in> insert 0 (fst ` set cs)" using mem by simp
    then have ne: "fst p \<noteq> largest ?s" using ok(2,3) by (metis insert_iff)
    have mx1: "Max (insert 0 (fst ` set (cs @ [p]))) = max (fst p) (Max (insert 0 (fst ` set cs)))"
      by (simp add: insert_commute [of 0])
    have mx2: "Max (insert 0 (snd ` set (cs @ [p]))) = max (snd p) (Max (insert 0 (snd ` set cs)))"
      by (simp add: insert_commute [of 0])
    have le: "\<And>q. q \<in> set cs \<Longrightarrow> snd q \<le> mostcommoncount ?s"
      using ih by simp
    have new: "find (\<lambda>q. snd q = snd p) (cs @ [p]) = Some p" if "mostcommoncount ?s < snd p"
    proof -
      have "find (\<lambda>q. snd q = snd p) cs = None"
        unfolding find_None_iff using le that by fastforce
      then show ?thesis by (simp add: find_append)
    qed
    have old: "cs \<noteq> []" if "\<not> mostcommoncount ?s < snd p"
    proof
      assume "cs = []"
      then have "mostcommoncount ?s = 0" using ih by simp
      then show False using that ok(4) by simp
    qed
    have one: "largestcount ?s = 1" using ih by blast
    have st: "mostcommoncount (scan_step p ?s) = max (snd p) (mostcommoncount ?s)"
      "largest (scan_step p ?s) = max (fst p) (largest ?s)"
      "mostcommon (scan_step p ?s) = (if mostcommoncount ?s < snd p then fst p else mostcommon ?s)"
      "largestcount (scan_step p ?s) = 1"
      using ne one by (auto simp: scan_step_def Let_def max_def)
    have fd: "find (\<lambda>q. snd q = max (snd p) (mostcommoncount ?s)) (cs @ [p]) =
      Some (mostcommon (scan_step p ?s), mostcommoncount (scan_step p ?s))"
    proof (cases "mostcommoncount ?s < snd p")
      case True
      then show ?thesis using new [OF True] by (simp add: st max_def)
    next
      case False
      have "find (\<lambda>q. snd q = mostcommoncount ?s) cs = Some (mostcommon ?s, mostcommoncount ?s)"
        using ih old [OF False] by argo
      then show ?thesis using False by (simp add: st max_def find_append)
    qed
    show ?case
      unfolding scan_sizes_snoc mx1 mx2 st(1,2,4) using ih fd unfolding st(1) by simp
  qed
  then show "largestcount (scan_sizes cs) = 1"
    "largest (scan_sizes cs) = Max (insert 0 (fst ` set cs))"
    "mostcommoncount (scan_sizes cs) = Max (insert 0 (snd ` set cs))"
    "find (\<lambda>p. snd p = mostcommoncount (scan_sizes cs)) cs =
       (if cs = [] then None else Some (mostcommon (scan_sizes cs), mostcommoncount (scan_sizes cs)))"
    "cs = [] \<Longrightarrow> mostcommon (scan_sizes cs) = 0" by auto
qed

text \<open>The test of \<open>largestcount\<close> never succeeds, and the last disjunct never does either.\<close>

lemma best_size_cases:
  assumes "counts_ok cs"
  shows "best_size cs =
    (if cs = [] then 0
     else if \<forall>p\<in>set cs. snd p = 1 then Max (fst ` set cs)
     else fst (the (find (\<lambda>p. snd p = Max (snd ` set cs)) cs)))"
proof (cases "cs = []")
  case True
  then show ?thesis using scan_sizes_result [OF assms] by (simp add: best_size_def Let_def)
next
  case False
  note r = scan_sizes_result [OF assms]
  have pos: "\<And>p. p \<in> set cs \<Longrightarrow> 0 < snd p" "\<And>p. p \<in> set cs \<Longrightarrow> fst p \<noteq> 0"
    using assms by (auto simp: counts_ok_def)
  have mc: "mostcommoncount (scan_sizes cs) = Max (snd ` set cs)"
    using False r(3) by simp
  have lg: "largest (scan_sizes cs) = Max (fst ` set cs)"
    using False r(2) by simp
  have one: "Max (snd ` set cs) = 1 \<longleftrightarrow> (\<forall>p\<in>set cs. snd p = 1)"
  proof
    assume m: "Max (snd ` set cs) = 1"
    show "\<forall>p\<in>set cs. snd p = 1"
    proof
      fix p assume p: "p \<in> set cs"
      then have "snd p \<le> 1" using m Max_ge [of "snd ` set cs" "snd p"] by auto
      then show "snd p = 1" using pos(1) [OF p] by simp
    qed
  next
    assume "\<forall>p\<in>set cs. snd p = 1"
    then have "snd ` set cs = {1}" using False by (auto simp: image_iff neq_Nil_conv)
    then show "Max (snd ` set cs) = 1" by simp
  qed
  have f: "find (\<lambda>p. snd p = Max (snd ` set cs)) cs = Some (mostcommon (scan_sizes cs), Max (snd ` set cs))"
    using r(4) False by (simp add: mc)
  then have "(mostcommon (scan_sizes cs), Max (snd ` set cs)) \<in> set cs"
    by (auto simp: find_Some_iff)
  then have nz: "mostcommon (scan_sizes cs) \<noteq> 0" using pos(2) by force
  have "best_size cs = (if Max (snd ` set cs) = 1 then Max (fst ` set cs) else mostcommon (scan_sizes cs))"
    using r(1) nz by (auto simp: best_size_def Let_def mc lg)
  then show ?thesis
    unfolding one using False f by (cases "\<forall>p\<in>set cs. snd p = 1") (simp_all only: if_True if_False option.sel fst_conv)
qed


lemma count_sizes_snoc:
  "count_sizes (vs @ [v]) =
     (if v = 0 then count_sizes vs else AList.map_default v 1 (\<lambda>n. n + 1) (count_sizes vs))"
  by (simp add: count_sizes_def)

lemma map_of_count_sizes:
  "map_of (count_sizes vs) v = (if v \<noteq> 0 \<and> v \<in> set vs then Some (count_list vs v) else None)"
proof (induction vs rule: rev_induct)
  case Nil
  then show ?case by (simp add: count_sizes_def)
next
  case (snoc x vs)
  then show ?case by (auto simp: count_sizes_snoc map_of_map_default)
qed

lemma distinct_count_sizes: "distinct (map fst (count_sizes vs))"
proof (induction vs rule: rev_induct)
  case (snoc x vs)
  then show ?case by (simp add: count_sizes_snoc distinct_map_default)
qed (simp add: count_sizes_def)

lemma set_count_sizes: "set (count_sizes vs) = (\<lambda>v. (v, count_list vs v)) ` (set vs - {0})"
proof -
  have "(v, n) \<in> set (count_sizes vs) \<longleftrightarrow> v \<noteq> 0 \<and> v \<in> set vs \<and> n = count_list vs v" for v n
    using map_of_eq_Some_iff [OF distinct_count_sizes, of vs v n] by (auto simp: map_of_count_sizes split: if_splits)
  then show ?thesis by auto
qed

lemma counts_ok_count_sizes:
  assumes "mset cs = mset (count_sizes vs)"
  shows "counts_ok cs"
proof -
  have "set cs = set (count_sizes vs)" using assms by (rule mset_eq_setD)
  moreover have "distinct (map fst cs)"
    using assms distinct_count_sizes [of vs] by (metis mset_map mset_eq_imp_distinct_iff)
  moreover have "0 < count_list vs v" if "v \<in> set vs" for v
    using that count_list_0_iff [of vs v] by simp
  ultimately show ?thesis by (auto simp: counts_ok_def set_count_sizes)
qed

lemma find_sorted_key:
  assumes "sorted (map fst xs)" "find P xs = Some p" "q \<in> set xs" "P q"
  shows "fst p \<le> fst q"
proof -
  obtain i where i: "i < length xs" "p = xs ! i" "\<forall>j<i. \<not> P (xs ! j)"
    using assms(2) by (auto simp: find_Some_iff)
  obtain j where j: "j < length xs" "q = xs ! j" using assms(3) by (auto simp: in_set_conv_nth)
  then have "i \<le> j" using i(3) assms(4) by (meson not_le)
  then show ?thesis using sorted_nth_mono [OF assms(1), of i j] i j by simp
qed

text \<open>The sizes that are not zero, and those of them that are the most frequent.\<close>

definition known_sizes :: "u64 list \<Rightarrow> u64 set" where
  "known_sizes vs = set vs - {0}"

definition commonest_sizes :: "u64 list \<Rightarrow> u64 set" where
  "commonest_sizes vs = {v \<in> known_sizes vs. \<forall>w\<in>known_sizes vs. count_list vs w \<le> count_list vs v}"

lemma best_size_of_counts:
  assumes "mset cs = mset (count_sizes vs)"
  shows "known_sizes vs = {} \<Longrightarrow> best_size cs = 0"
    "known_sizes vs \<noteq> {} \<Longrightarrow> \<forall>v\<in>known_sizes vs. count_list vs v = 1 \<Longrightarrow> best_size cs = Max (known_sizes vs)"
    "known_sizes vs \<noteq> {} \<Longrightarrow> \<not> (\<forall>v\<in>known_sizes vs. count_list vs v = 1) \<Longrightarrow>
       best_size cs \<in> commonest_sizes vs \<and>
       (sorted (map fst cs) \<longrightarrow> best_size cs = Min (commonest_sizes vs))"
proof -
  have st: "set cs = (\<lambda>v. (v, count_list vs v)) ` known_sizes vs"
    using mset_eq_setD [OF assms] by (simp add: set_count_sizes known_sizes_def)
  note b = best_size_cases [OF counts_ok_count_sizes [OF assms]]
  have nil: "cs = [] \<longleftrightarrow> known_sizes vs = {}" using st by (metis image_is_empty set_empty)
  have fs: "fst ` set cs = known_sizes vs" by (simp add: st image_image)
  have sd: "snd ` set cs = count_list vs ` known_sizes vs" by (simp add: st image_image)
  have fin: "finite (known_sizes vs)" by (simp add: known_sizes_def)
  have all: "(\<forall>p\<in>set cs. snd p = 1) \<longleftrightarrow> (\<forall>v\<in>known_sizes vs. count_list vs v = 1)" by (simp add: st)
  show "known_sizes vs = {} \<Longrightarrow> best_size cs = 0" using b nil by simp
  show "known_sizes vs \<noteq> {} \<Longrightarrow> \<forall>v\<in>known_sizes vs. count_list vs v = 1 \<Longrightarrow> best_size cs = Max (known_sizes vs)"
    using b nil all fs by simp
  assume ne: "known_sizes vs \<noteq> {}" and na: "\<not> (\<forall>v\<in>known_sizes vs. count_list vs v = 1)"
  let ?M = "Max (snd ` set cs)"
  have "?M \<in> snd ` set cs" using ne nil by (intro Max_in) auto
  then have "find (\<lambda>p. snd p = ?M) cs \<noteq> None" by (auto simp: find_None_iff)
  then obtain p where p: "find (\<lambda>p. snd p = ?M) cs = Some p" by auto
  then have "p \<in> set cs" "snd p = ?M" by (auto simp: find_Some_iff)
  then have pk: "fst p \<in> known_sizes vs" "count_list vs (fst p) = ?M" by (auto simp: st)
  have mx: "count_list vs w \<le> ?M" if "w \<in> known_sizes vs" for w
    using that fin by (auto simp: sd intro!: Max_ge)
  have bp: "best_size cs = fst p" unfolding b all using ne nil na p by (simp only: if_False option.sel)
  have mem: "fst p \<in> commonest_sizes vs" using pk mx by (auto simp: commonest_sizes_def)
  have "best_size cs = Min (commonest_sizes vs)" if "sorted (map fst cs)"
  proof -
    have "fst p \<le> w" if "w \<in> commonest_sizes vs" for w
    proof -
      have w: "w \<in> known_sizes vs" "count_list vs w = ?M"
        using that pk mx [of w] by (auto simp: commonest_sizes_def intro: antisym)
      then have "(w, ?M) \<in> set cs" by (auto simp: st)
      then show ?thesis using find_sorted_key [OF \<open>sorted (map fst cs)\<close> p, of "(w, ?M)"] by simp
    qed
    then show ?thesis
      using bp mem fin by (auto simp: commonest_sizes_def intro!: Min_eqI [symmetric])
  qed
  then show "best_size cs \<in> commonest_sizes vs \<and>
       (sorted (map fst cs) \<longrightarrow> best_size cs = Min (commonest_sizes vs))"
    using bp mem by simp
qed

text \<open>What a tracker promises, of the sizes its sites reported last.\<close>

definition estimate_of :: "u64 list \<Rightarrow> u64" where
  "estimate_of vs =
     (if known_sizes vs = {} then 0
      else if \<forall>v\<in>known_sizes vs. count_list vs v = 1 then Max (known_sizes vs)
      else Min (commonest_sizes vs))"

lemma best_size_sorted: "best_size (sort_key fst (count_sizes vs)) = estimate_of vs"
  using best_size_of_counts [of "sort_key fst (count_sizes vs)" vs, OF mset_sort]
  by (auto simp: estimate_of_def)

definition st_ok :: "size_track \<Rightarrow> bool" where
  "st_ok t \<longleftrightarrow> distinct (map fst (st_sizes t)) \<and> st_estimate t = estimate_of (map snd (st_sizes t))"

lemma st_new_ok: "st_ok st_new"
  by (simp add: st_ok_def st_new_def estimate_of_def known_sizes_def)

lemma st_recalculate_ok: "distinct (map fst (st_sizes t)) \<Longrightarrow> st_ok (st_recalculate t)"
  by (simp add: st_ok_def st_recalculate_def best_size_sorted)

lemma st_step_ok: "st_ok t \<Longrightarrow> st_ok (st_step c t)"
  by (cases c) (auto simp: st_add_def st_remove_def st_ok_def [of t] distinct_update distinct_delete
      intro: st_recalculate_ok)

text \<open>The sizes reported last, as a map.\<close>

fun reported :: "track_op \<Rightarrow> (nat \<rightharpoonup> u64) \<Rightarrow> (nat \<rightharpoonup> u64)" where
  "reported (TrackAdd site sz) r = r(site \<mapsto> sz)"
| "reported (TrackRemove site) r = r(site := None)"

lemma st_step_map: "map_of (st_sizes (st_step c t)) = reported c (map_of (st_sizes t))"
  by (cases c) (auto simp: st_add_def st_remove_def st_recalculate_def update_conv' delete_conv' fun_eq_iff)

text \<open>
  A file's estimated size after any reports and withdrawals: it rests on the size each site
  reported last, not counting zeros.  It is 0 if there is none, the largest if no two sites agree,
  and otherwise the smallest of the sizes most sites agree on.  So agreement on the largest size
  never decides, though the code counts it.
\<close>

theorem size_track_history:
  fixes ops :: "track_op list"
  defines "t \<equiv> fold st_step ops st_new"
  shows "map_of (st_sizes t) = fold reported ops Map.empty \<and> distinct (map fst (st_sizes t))
    \<and> st_estimate t = estimate_of (map snd (st_sizes t))"
proof -
  have "map_of (st_sizes (fold st_step ops t0)) = fold reported ops (map_of (st_sizes t0))
    \<and> (st_ok t0 \<longrightarrow> st_ok (fold st_step ops t0))" for t0
    by (induction ops arbitrary: t0) (simp_all add: st_step_map st_step_ok)
  from this [of st_new] show ?thesis
    unfolding t_def using st_new_ok by (simp add: st_ok_def) (simp add: st_new_def)
qed

end
