(* ===== verification/RaceModel.thy ===== *)
theory RaceModel
  imports FileListModel SizeTrack
begin

text \<open>
  Spread jobs: \<open>src/race.cpp\<close> is a job, \<open>src/siterace.cpp\<close> the job on one of its sites.  A job knows
  its sites, what they have reported done, what was tried between two file lists, and what it guesses
  of the size of each directory; a site of a job owns the file lists of the job's directories there.
  Jobs, sites of jobs and file lists are objects of one store and are named by numbers; a weak pointer
  to a job that is gone finds \<^term>\<open>None\<close>.  Hash maps are association lists; where the order of a walk
  through one may matter, the order is an argument.  The argument \<open>sk\<close> is what the skip list of a site
  with the one of a section behind it says of a name (\<open>sl_check\<close>, whose caches never change a
  verdict).
\<close>

subsection \<open>State\<close>

datatype race_status = RUNNING | RACE_DONE | ABORTED | TIMEOUT

datatype spread_profile = SPREAD_RACE | SPREAD_DISTRIBUTE | SPREAD_PREPARE

text \<open>What was moved from or to one other site.\<close>

record moved_stat =
  mv_size :: u64
  mv_files :: u32
  mv_speed :: u32

record siterace =
  sr_race :: nat
  sr_sitename :: string
  sr_username :: string
  sr_path :: path
  sr_recent :: "string list"
  sr_complete :: "string list"
  sr_lists :: "(string \<times> nat) list"
  sr_status :: race_status
  sr_sizeestimated :: "nat set"
  sr_observe :: "nat \<Rightarrow> u64 option"
  sr_sfvobserve :: "nat \<Rightarrow> u64 option"
  sr_maxfilesize :: u64
  sr_totalfilesize :: u64
  sr_uploaded :: u32
  sr_skip :: nat
  sr_downloadonly :: bool
  sr_downby :: "string \<Rightarrow> moved_stat option"
  sr_upby :: "string \<Rightarrow> moved_stat option"
  sr_down :: moved_stat
  sr_up :: moved_stat

text \<open>A pair of file lists and a file; no first list stands for any source.\<close>

type_synonym attempt_key = "string \<times> nat option \<times> nat"

record race =
  r_id :: nat
  r_profile :: spread_profile
  r_sectionskip :: nat
  r_sites :: "(nat \<times> nat) list"
  r_sizes :: "(nat \<times> (string \<times> u32) list) list"
  r_semidone :: "nat list"
  r_done :: "nat list"
  r_maxprogress :: u32
  r_sfvreports :: "(string \<times> nat list) list"
  r_estimatedsize :: "(string \<times> u32) list"
  r_estimatedfilesizes :: "(string \<times> u64) list"
  r_bestunknown :: u64
  r_subpaths :: "string list"
  r_guessed :: "(string \<times> (string \<times> u64) list) list"
  r_guessedsums :: "(string \<times> u64) list"
  r_guessedtotal :: u64
  r_guessedfiles :: u32
  r_trackers :: "(string \<times> (string \<times> size_track) list) list"
  r_attempts :: "(attempt_key \<times> int \<times> int) list"
  r_checkcount :: int
  r_timespent :: u32
  r_status :: race_status
  r_worst :: u32
  r_avg :: u32
  r_best :: u32
  r_cleared :: bool
  r_movedsize :: u64
  r_movedfiles :: u32
  r_poke :: bool

record world =
  w_race :: "nat \<Rightarrow> race option"
  w_sr :: "nat \<Rightarrow> siterace"
  w_fl :: "nat \<Rightarrow> filelist"
  w_nextfl :: nat

type_synonym 'x race_skip = "nat \<Rightarrow> nat option \<Rightarrow> string \<Rightarrow> bool \<Rightarrow> 'x skip_match"

definition on_race :: "nat \<Rightarrow> (race \<Rightarrow> race) \<Rightarrow> 'w world_scheme \<Rightarrow> 'w world_scheme" where
  "on_race r f w = w\<lparr>w_race := (w_race w)(r := map_option f (w_race w r))\<rparr>"

definition on_sr :: "nat \<Rightarrow> (siterace \<Rightarrow> siterace) \<Rightarrow> 'w world_scheme \<Rightarrow> 'w world_scheme" where
  "on_sr s f w = w\<lparr>w_sr := (w_sr w)(s := f (w_sr w s))\<rparr>"

definition on_fl :: "nat \<Rightarrow> (filelist \<Rightarrow> filelist) \<Rightarrow> 'w world_scheme \<Rightarrow> 'w world_scheme" where
  "on_fl l f w = w\<lparr>w_fl := (w_fl w)(l := f (w_fl w l))\<rparr>"

text \<open>\<open>race.lock()\<close>.\<close>

definition lock :: "'w world_scheme \<Rightarrow> nat \<Rightarrow> race option" where
  "lock w s = w_race w (sr_race (w_sr w s))"

text \<open>\<open>make_shared<FileList>\<close>: a list at the next address.\<close>

definition new_list :: "string \<Rightarrow> path \<Rightarrow> list_state \<Rightarrow> 'w world_scheme \<Rightarrow> 'w world_scheme \<times> nat" where
  "new_list username path state w =
     (let n = w_nextfl w
      in (w\<lparr>w_fl := (w_fl w)(n := fl_init (w_fl w n) username path state), w_nextfl := n + 1\<rparr>, n))"

subsection \<open>Attempts\<close>

definition MAX_SINGLE_PAIR_FILE_TRANSFER_ATTEMPTS :: int where
  "MAX_SINGLE_PAIR_FILE_TRANSFER_ATTEMPTS = 4"

definition MAX_TRANSFER_ATTEMPTS_BEFORE_SKIP :: int where
  "MAX_TRANSFER_ATTEMPTS_BEFORE_SKIP = 7"

definition BACKOFF_AFTER_TWO_FAILS_MS :: int where
  "BACKOFF_AFTER_TWO_FAILS_MS = 3000"

definition BACKOFF_AFTER_THREE_FAILS_MS :: int where
  "BACKOFF_AFTER_THREE_FAILS_MS = 10000"

text \<open>A counter is the number of attempts and the time of the last one.\<close>

definition count_attempt :: "attempt_key \<Rightarrow> race \<Rightarrow> race" where
  "count_attempt k r =
     (let stamp = sint (r_timespent r)
      in r\<lparr>r_attempts := AList.map_default k (1, stamp) (\<lambda>(n, _). (n + 1, stamp)) (r_attempts r)\<rparr>)"

definition race_addTransferAttempt :: "string \<Rightarrow> nat \<Rightarrow> nat \<Rightarrow> race \<Rightarrow> race" where
  "race_addTransferAttempt file src dst r =
     count_attempt (file, Some src, dst) (count_attempt (file, None, dst) r)"

definition race_hasFailedTransfer :: "string \<Rightarrow> nat \<Rightarrow> nat \<Rightarrow> race \<Rightarrow> bool" where
  "race_hasFailedTransfer file fls fld r \<longleftrightarrow>
     (case map_of (r_attempts r) (file, None, fld) of
        Some (n, _) \<Rightarrow> MAX_TRANSFER_ATTEMPTS_BEFORE_SKIP \<le> n | None \<Rightarrow> False)
     \<or> (case map_of (r_attempts r) (file, Some fls, fld) of
        Some (n, _) \<Rightarrow> MAX_SINGLE_PAIR_FILE_TRANSFER_ATTEMPTS \<le> n | None \<Rightarrow> False)"

text \<open>The difference is one of unsigned numbers and is read as a signed one.\<close>

definition race_hasTransferRetryBackoff :: "string \<Rightarrow> nat \<Rightarrow> nat \<Rightarrow> race \<Rightarrow> bool" where
  "race_hasTransferRetryBackoff file fls fld r \<longleftrightarrow>
     (case map_of (r_attempts r) (file, Some fls, fld) of
        None \<Rightarrow> False
      | Some (n, lastfail) \<Rightarrow>
          (let since = sint (r_timespent r - of_int lastfail)
           in n = 2 \<and> since < BACKOFF_AFTER_TWO_FAILS_MS \<or> 3 \<le> n \<and> since < BACKOFF_AFTER_THREE_FAILS_MS))"

definition race_clearTransferAttempts :: "bool \<Rightarrow> race \<Rightarrow> race \<times> bool" where
  "race_clearTransferAttempts clearstate r =
     (r\<lparr>r_attempts := [], r_cleared := clearstate\<rparr>, r_attempts r \<noteq> [])"

definition race_addTransferStatsFile :: "u64 \<Rightarrow> race \<Rightarrow> race" where
  "race_addTransferStatsFile sz r =
     r\<lparr>r_movedsize := r_movedsize r + sz, r_movedfiles := r_movedfiles r + 1\<rparr>"

subsection \<open>Progress\<close>

definition percent_of :: "race \<Rightarrow> siterace \<Rightarrow> u32" where
  "percent_of r s =
     (let p = (if r_status r = RUNNING then
                 (if r_guessedtotal r \<noteq> 0 then ucast ((sr_totalfilesize s * 100) div r_guessedtotal r) else 0)
               else
                 (if r_guessedfiles r \<noteq> 0 then (sr_uploaded s * 100) div r_guessedfiles r else 0))
      in if 100 < p then 100 else p)"

definition race_calculatePercentages :: "(nat \<Rightarrow> siterace) \<Rightarrow> race \<Rightarrow> race" where
  "race_calculatePercentages srs r =
     (let (total, worst, best) =
            fold (\<lambda>(s, _) (total, worst, best).
              let p = percent_of r (srs s)
              in (total + p, if p < worst then p else worst, if best < p then p else best))
              (r_sites r) (0 :: u32, 100, 0)
      in r\<lparr>r_avg := (if r_sites r \<noteq> [] then ucast (ucast total div (of_nat (length (r_sites r)) :: u64)) else r_avg r),
           r_worst := worst, r_best := best\<rparr>)"

definition RACE_UPDATE_INTERVAL_MS :: u32 where
  "RACE_UPDATE_INTERVAL_MS = 250"

definition race_tick :: "(nat \<Rightarrow> siterace) \<Rightarrow> race \<Rightarrow> race" where
  "race_tick srs r =
     race_calculatePercentages srs (r\<lparr>r_timespent := r_timespent r + RACE_UPDATE_INTERVAL_MS\<rparr>)"

definition race_getTimeSpent :: "race \<Rightarrow> u32" where
  "race_getTimeSpent r = r_timespent r div 1000"

definition race_calculateTotal :: "race \<Rightarrow> race" where
  "race_calculateTotal r =
     r\<lparr>r_guessedtotal := sum_list (map snd (r_guessedsums r)),
       r_guessedfiles := sum_list (map (\<lambda>p. of_nat (length (snd p))) (r_guessed r))\<rparr>"

definition race_updateSiteProgress :: "u32 \<Rightarrow> race \<Rightarrow> race" where
  "race_updateSiteProgress n r = (if r_maxprogress r < n then r\<lparr>r_maxprogress := n\<rparr> else r)"

subsection \<open>Running and done\<close>

definition race_isDone :: "race \<Rightarrow> bool" where
  "race_isDone r \<longleftrightarrow> r_status r \<noteq> RUNNING"

definition race_resetUpdateCheckCounter :: "race \<Rightarrow> race" where
  "race_resetUpdateCheckCounter r = r\<lparr>r_checkcount := 0\<rparr>"

definition race_setDone :: "(nat \<Rightarrow> siterace) \<Rightarrow> race \<Rightarrow> race" where
  "race_setDone srs r = race_calculatePercentages srs (r\<lparr>r_status := RACE_DONE, r_poke := False\<rparr>)"

definition race_setUndone :: "race \<Rightarrow> race" where
  "race_setUndone r =
     (race_resetUpdateCheckCounter (fst (race_clearTransferAttempts False (r\<lparr>r_status := RUNNING\<rparr>))))
       \<lparr>r_poke := True\<rparr>"

definition race_abort :: "(nat \<Rightarrow> siterace) \<Rightarrow> race \<Rightarrow> race" where
  "race_abort srs r = (race_setDone srs r)\<lparr>r_status := ABORTED\<rparr>"

definition race_setTimeout :: "(nat \<Rightarrow> siterace) \<Rightarrow> race \<Rightarrow> race" where
  "race_setTimeout srs r = (race_setDone srs r)\<lparr>r_status := TIMEOUT\<rparr>"

definition DEFAULT_UNKNOWN_SIZE :: u64 where
  "DEFAULT_UNKNOWN_SIZE = 50000000"

definition race_reset :: "race \<Rightarrow> race" where
  "race_reset r =
     (let r1 = race_resetUpdateCheckCounter (fst (race_clearTransferAttempts False r));
          r2 = (if race_isDone r1 then race_setUndone r1 else r1)
      in r2\<lparr>r_semidone := [], r_done := [], r_sizes := [], r_subpaths := [[]], r_guessed := [([], [])],
            r_sfvreports := [], r_estimatedsize := [], r_estimatedfilesizes := [], r_guessedsums := [],
            r_trackers := [], r_maxprogress := 0, r_timespent := 0, r_worst := 0, r_avg := 0, r_best := 0,
            r_guessedtotal := 0, r_bestunknown := DEFAULT_UNKNOWN_SIZE\<rparr>)"

definition race_new :: "nat \<Rightarrow> spread_profile \<Rightarrow> nat \<Rightarrow> race" where
  "race_new i profile sectionskip =
     race_setUndone
       \<lparr>r_id = i, r_profile = profile, r_sectionskip = sectionskip, r_sites = [], r_sizes = [],
        r_semidone = [], r_done = [], r_maxprogress = 0, r_sfvreports = [], r_estimatedsize = [],
        r_estimatedfilesizes = [], r_bestunknown = DEFAULT_UNKNOWN_SIZE, r_subpaths = [[]],
        r_guessed = [([], [])], r_guessedsums = [], r_guessedtotal = 0, r_guessedfiles = 0, r_trackers = [],
        r_attempts = [], r_checkcount = 0, r_timespent = 0, r_status = RUNNING, r_worst = 0, r_avg = 0,
        r_best = 0, r_cleared = False, r_movedsize = 0, r_movedfiles = 0, r_poke = False\<rparr>"

text \<open>The set of sites is ordered by site name, and a second site of one name is not added.\<close>

fun site_insert :: "(nat \<Rightarrow> siterace) \<Rightarrow> nat \<times> nat \<Rightarrow> (nat \<times> nat) list \<Rightarrow> (nat \<times> nat) list" where
  "site_insert srs p [] = [p]"
| "site_insert srs p (q # qs) =
     (if sr_sitename (srs (fst p)) < sr_sitename (srs (fst q)) then p # q # qs
      else if sr_sitename (srs (fst q)) < sr_sitename (srs (fst p)) then q # site_insert srs p qs
      else q # qs)"

definition race_addSite :: "(nat \<Rightarrow> siterace) \<Rightarrow> nat \<Rightarrow> nat \<Rightarrow> race \<Rightarrow> race" where
  "race_addSite srs s sl r = r\<lparr>r_sites := site_insert srs (s, sl) (r_sites r)\<rparr>"

fun remove_site :: "nat \<Rightarrow> (nat \<times> nat) list \<Rightarrow> (nat \<times> nat) list" where
  "remove_site s [] = []"
| "remove_site s (p # ps) = (if fst p = s then ps else p # remove_site s ps)"

text \<open>
  The site of a job is given by a reference; \<open>inside\<close>: by one into the set of sites itself.  Then the
  erasure of its node ends the object it refers to, and what the code does with it afterwards is
  undefined, \<^term>\<open>None\<close>.  So it is whenever a site is removed by its \<open>SiteLogic\<close>.
\<close>

definition race_removeSite :: "bool \<Rightarrow> nat \<Rightarrow> race \<Rightarrow> race option" where
  "race_removeSite inside s r =
     (if inside \<and> s \<in> fst ` set (r_sites r) then None
      else Some (r\<lparr>r_sites := remove_site s (r_sites r), r_semidone := removeAll s (r_semidone r),
       r_done := removeAll s (r_done r), r_sizes := AList.delete s (r_sizes r),
       r_sfvreports := map (\<lambda>(sub, ss). (sub, removeAll s ss)) (r_sfvreports r)\<rparr>))"

definition race_removeSiteLogic :: "nat \<Rightarrow> race \<Rightarrow> race option" where
  "race_removeSiteLogic sl r =
     (case find (\<lambda>p. snd p = sl) (r_sites r) of None \<Rightarrow> Some r | Some p \<Rightarrow> race_removeSite True (fst p) r)"

definition remainingSitesAreDownloadOnly :: "(nat \<Rightarrow> siterace) \<Rightarrow> (nat \<times> nat) list \<Rightarrow> nat list \<Rightarrow> bool" where
  "remainingSitesAreDownloadOnly srs allsites donesites \<longleftrightarrow>
     list_all (\<lambda>p. fst p \<in> set donesites \<or> sr_downloadonly (srs (fst p))) allsites"

text \<open>\<open>SiteRace::complete(false)\<close> of one site.\<close>

definition sr_finish :: "race_status \<Rightarrow> siterace \<Rightarrow> siterace" where
  "sr_finish st s = (if sr_status s = RUNNING then s\<lparr>sr_status := st\<rparr> else s)"

definition complete_quietly :: "nat \<Rightarrow> 'w world_scheme \<Rightarrow> 'w world_scheme" where
  "complete_quietly s w = (case lock w s of None \<Rightarrow> w | Some _ \<Rightarrow> on_sr s (sr_finish RACE_DONE) w)"

definition race_checkIfAllSemiDone :: "nat \<Rightarrow> 'w world_scheme \<Rightarrow> 'w world_scheme" where
  "race_checkIfAllSemiDone rid w =
     (case w_race w rid of
        None \<Rightarrow> w
      | Some r \<Rightarrow>
          if length (r_semidone r) = length (r_sites r)
             \<or> remainingSitesAreDownloadOnly (w_sr w) (r_sites r) (r_semidone r)
          then fold complete_quietly (map fst (r_sites r)) (on_race rid (race_setDone (w_sr w)) w)
          else w)"

definition race_reportSemiDone :: "nat \<Rightarrow> nat \<Rightarrow> 'w world_scheme \<Rightarrow> 'w world_scheme" where
  "race_reportSemiDone rid s w =
     (case w_race w rid of
        None \<Rightarrow> w
      | Some r \<Rightarrow>
          if s \<in> set (r_semidone r) then w
          else race_checkIfAllSemiDone rid (on_race rid (\<lambda>r. r\<lparr>r_semidone := r_semidone r @ [s]\<rparr>) w))"

definition race_reportDone :: "nat \<Rightarrow> nat \<Rightarrow> 'w world_scheme \<Rightarrow> 'w world_scheme" where
  "race_reportDone rid s w =
     (case w_race w rid of
        None \<Rightarrow> w
      | Some r0 \<Rightarrow>
          if s \<in> set (r_done r0) then w
          else
            let w1 = on_race rid (\<lambda>r. r\<lparr>r_done := r_done r @ [s]\<rparr>) (race_reportSemiDone rid s w)
            in (case w_race w1 rid of
                  None \<Rightarrow> w1
                | Some r \<Rightarrow>
                    if length (r_done r) = length (r_sites r)
                       \<or> remainingSitesAreDownloadOnly (w_sr w1) (r_sites r) (r_done r)
                    then on_race rid (race_setDone (w_sr w1)) w1 else w1))"

definition sr_completeReport :: "bool \<Rightarrow> nat \<Rightarrow> 'w world_scheme \<Rightarrow> 'w world_scheme" where
  "sr_completeReport report s w =
     (case lock w s of
        None \<Rightarrow> w
      | Some r \<Rightarrow>
          let w1 = complete_quietly s w
          in if report then race_reportDone (sr_race (w_sr w s)) s w1 else w1)"

subsection \<open>Sizes of directories\<close>

definition race_sizeEstimated :: "string \<Rightarrow> race \<Rightarrow> bool" where
  "race_sizeEstimated sub r \<longleftrightarrow> map_of (r_estimatedsize r) sub \<noteq> None"

definition race_estimatedSize :: "string \<Rightarrow> race \<Rightarrow> u32" where
  "race_estimatedSize sub r = (case map_of (r_estimatedsize r) sub of Some n \<Rightarrow> n | None \<Rightarrow> 0)"

definition race_guessedSize :: "string \<Rightarrow> race \<Rightarrow> u32" where
  "race_guessedSize sub r = (case map_of (r_guessed r) sub of Some l \<Rightarrow> of_nat (length l) | None \<Rightarrow> 10)"

definition race_guessedFileSize :: "string \<Rightarrow> string \<Rightarrow> race \<Rightarrow> u64" where
  "race_guessedFileSize sub file r =
     (case map_of (r_trackers r) sub of
        None \<Rightarrow> r_bestunknown r
      | Some ts \<Rightarrow> (case map_of ts file of
          None \<Rightarrow> r_bestunknown r
        | Some t \<Rightarrow> if st_estimate t = 0 then r_bestunknown r else st_estimate t))"

definition race_SFVReported :: "string \<Rightarrow> race \<Rightarrow> bool" where
  "race_SFVReported sub r \<longleftrightarrow> map_of (r_sfvreports r) sub \<noteq> None"

definition race_reportNewSubDir :: "string \<Rightarrow> race \<Rightarrow> race" where
  "race_reportNewSubDir sub r =
     (if sub \<in> set (r_subpaths r) then r
      else r\<lparr>r_subpaths := r_subpaths r @ [sub], r_guessed := AList.update sub [] (r_guessed r)\<rparr>)"

definition race_reportSFV :: "nat \<Rightarrow> string \<Rightarrow> race \<Rightarrow> race" where
  "race_reportSFV s sub r =
     r\<lparr>r_sfvreports := AList.map_default sub [s] (List.insert s) (r_sfvreports r)\<rparr>"

definition tracker_of :: "string \<Rightarrow> string \<Rightarrow> race \<Rightarrow> size_track" where
  "tracker_of sub name r =
     (case map_of (r_trackers r) sub of
        None \<Rightarrow> st_new
      | Some ts \<Rightarrow> (case map_of ts name of None \<Rightarrow> st_new | Some t \<Rightarrow> t))"

text \<open>
  One name of a report: the size on the site, or 0 for a name whose file the list does not have.  The
  second component of the result tells whether the guess for unknown sizes is to be made again.
\<close>

definition report_name :: "nat \<Rightarrow> filelist \<Rightarrow> string \<Rightarrow> string \<Rightarrow> race \<times> bool \<Rightarrow> race \<times> bool" where
  "report_name s fl sub name st =
     (let (r, recalc) = st;
          set_tracker = (\<lambda>t r. r\<lparr>r_trackers := AList.map_default sub [(name, t)] (AList.update name t) (r_trackers r)\<rparr>)
      in case fl_getFile name fl of
           Some a \<Rightarrow>
             (let (t, changed) = st_add s (f_size (fl_obj fl a)) (tracker_of sub name r); r1 = set_tracker t r
              in if changed
                 then (r1\<lparr>r_estimatedfilesizes := AList.update name (st_estimate t) (r_estimatedfilesizes r1)\<rparr>, True)
                 else (r1, recalc))
         | None \<Rightarrow> (set_tracker (fst (st_add s 0 (tracker_of sub name r))) r, recalc))"

text \<open>The argument \<open>ord\<close> is the order of the hash map of sizes.\<close>

definition race_recalculateBestUnknown :: "((u64 \<times> nat) list \<Rightarrow> (u64 \<times> nat) list) \<Rightarrow> race \<Rightarrow> race" where
  "race_recalculateBestUnknown ord r =
     r\<lparr>r_bestunknown := best_size (ord (count_sizes (map snd (r_estimatedfilesizes r))))\<rparr>"

definition guess_files :: "race \<Rightarrow> (string \<times> size_track) list \<Rightarrow> (string \<times> u64) list" where
  "guess_files r ts =
     (let highest = fold (\<lambda>p h. if h < st_numSites (snd p) then st_numSites (snd p) else h) ts 0;
          least = highest div 2
      in map (\<lambda>(name, t). (name, if st_estimate t = 0 then r_bestunknown r else st_estimate t))
           (filter (\<lambda>p. least < st_numSites (snd p) \<or> length (r_sites r) = 2) ts))"

text \<open>The comparison with eight tenths of the sites is one of whole numbers.\<close>

definition enough_reports :: "nat \<Rightarrow> race \<Rightarrow> bool" where
  "enough_reports n r \<longleftrightarrow>
     n = length (r_sites r) \<or> 8 * length (r_sites r) \<le> 10 * n \<and> 2 < length (r_sites r)
     \<or> 20 \<le> race_getTimeSpent r"

definition race_reportSize :: "((u64 \<times> nat) list \<Rightarrow> (u64 \<times> nat) list) \<Rightarrow> nat \<Rightarrow> filelist \<Rightarrow> string \<Rightarrow>
    string list \<Rightarrow> bool \<Rightarrow> race \<Rightarrow> race" where
  "race_reportSize ord s fl sub uniques final r =
     (let r0 = r\<lparr>r_trackers := AList.map_default sub [] id (r_trackers r)\<rparr>;
          (r1, recalc) = fold (report_name s fl sub) uniques (r0, False);
          r2 = (if recalc then race_recalculateBestUnknown ord r1 else r1);
          r3 = r2\<lparr>r_sizes := AList.map_default s [] id (r_sizes r2)\<rparr>
      in if map_of (r_guessed r3) sub = None then r3
         else
           let guessed = guess_files r3 (case map_of (r_trackers r3) sub of Some ts \<Rightarrow> ts | None \<Rightarrow> []);
               aggregated = sum_list (map snd guessed);
               r4 = r3\<lparr>r_guessed := AList.update sub guessed (r_guessed r3)\<rparr>;
               known = (case map_of (r_guessedsums r4) sub of Some n \<Rightarrow> n | None \<Rightarrow> 0);
               r5 = r4\<lparr>r_guessedsums := AList.update sub aggregated (r_guessedsums r4)\<rparr>;
               r6 = (if known \<noteq> aggregated then race_calculateTotal r5 else r5)
           in if final then
                let r7 = r6\<lparr>r_sizes := AList.map_default s [] (AList.update sub (of_nat (length uniques))) (r_sizes r6)\<rparr>;
                    reports = length (filter (\<lambda>p. map_of (snd p) sub \<noteq> None) (r_sizes r7))
                in if enough_reports reports r7
                   then r7\<lparr>r_estimatedsize := AList.update sub (of_nat (length guessed)) (r_estimatedsize r7)\<rparr>
                   else r7
              else r6)"

subsection \<open>A job on a site\<close>

definition sr_getFileListForPath :: "string \<Rightarrow> siterace \<Rightarrow> nat option" where
  "sr_getFileListForPath sub s = map_of (sr_lists s) sub"

definition sr_getSubPathForFileList :: "nat \<Rightarrow> siterace \<Rightarrow> string" where
  "sr_getSubPathForFileList l s = (case find (\<lambda>p. snd p = l) (sr_lists s) of Some p \<Rightarrow> fst p | None \<Rightarrow> [])"

definition sr_getFileListForFullPath :: "'w world_scheme \<Rightarrow> path \<Rightarrow> siterace \<Rightarrow> nat option" where
  "sr_getFileListForFullPath w path s =
     map_option snd (find (\<lambda>p. path_eq (fl_path (w_fl w (snd p))) path) (sr_lists s))"

definition sr_isSubPathComplete :: "string \<Rightarrow> siterace \<Rightarrow> bool" where
  "sr_isSubPathComplete sub s \<longleftrightarrow> sub \<in> set (sr_complete s)"

definition is_present :: "list_state \<Rightarrow> bool" where
  "is_present st \<longleftrightarrow> st \<noteq> LS_NONEXISTENT \<and> st \<noteq> LS_FAILED"

definition sr_anyFileListNotNonExistent :: "'w world_scheme \<Rightarrow> siterace \<Rightarrow> bool" where
  "sr_anyFileListNotNonExistent w s \<longleftrightarrow> list_ex (\<lambda>p. is_present (fl_state (w_fl w (snd p)))) (sr_lists s)"

text \<open>\<open>filelists[""]\<close>, which is there from the start and is never erased.\<close>

definition sr_root :: "siterace \<Rightarrow> nat" where
  "sr_root s = the (map_of (sr_lists s) [])"

definition no_stat :: moved_stat where
  "no_stat = \<lparr>mv_size = 0, mv_files = 0, mv_speed = 1\<rparr>"

definition sr_init :: "nat \<Rightarrow> string \<Rightarrow> path \<Rightarrow> string \<Rightarrow> string \<Rightarrow> nat \<Rightarrow> bool \<Rightarrow> nat \<Rightarrow> siterace" where
  "sr_init rid sitename section jobname username skip downloadonly root =
     \<lparr>sr_race = rid, sr_sitename = sitename, sr_username = username,
      sr_path = path_concat section (path_new jobname), sr_recent = [[]], sr_complete = [],
      sr_lists = [([], root)], sr_status = RUNNING, sr_sizeestimated = {}, sr_observe = (\<lambda>_. None),
      sr_sfvobserve = (\<lambda>_. None), sr_maxfilesize = 0, sr_totalfilesize = 0, sr_uploaded = 0, sr_skip = skip,
      sr_downloadonly = downloadonly, sr_downby = (\<lambda>_. None), sr_upby = (\<lambda>_. None), sr_down = no_stat,
      sr_up = no_stat\<rparr>"

definition sr_new :: "nat \<Rightarrow> nat \<Rightarrow> string \<Rightarrow> path \<Rightarrow> string \<Rightarrow> string \<Rightarrow> nat \<Rightarrow> bool \<Rightarrow>
    'w world_scheme \<Rightarrow> 'w world_scheme" where
  "sr_new s rid sitename section jobname username skip downloadonly w =
     (let (w1, root) = new_list username (path_concat section (path_new jobname)) LS_UNKNOWN w
      in on_sr s (\<lambda>_. sr_init rid sitename section jobname username skip downloadonly root) w1)"

definition sr_addSubDirectory :: "'x race_skip \<Rightarrow> nat \<Rightarrow> string \<Rightarrow> bool \<Rightarrow> 'w world_scheme \<Rightarrow> 'w world_scheme \<times> bool" where
  "sr_addSubDirectory sk s sub knownexists w =
     (case lock w s of
        None \<Rightarrow> (w, False)
      | Some r \<Rightarrow>
          let sr = w_sr w s; m = sk (sr_skip sr) (Some (r_sectionskip r)) sub True
          in if sm_action m = SKIPLIST_DENY then (w, False)
             else if sr_getFileListForPath sub sr \<noteq> None then (w, True)
             else if sm_action m = SKIPLIST_UNIQUE
                  \<and> fl_containsPatternBefore (sm_pattern m) True sub (w_fl w (sr_root sr)) then (w, False)
             else
               let (w1, l) = new_list (sr_username sr) (path_concat (sr_path sr) (path_new sub))
                     (if knownexists then LS_EXISTS else LS_UNKNOWN) w;
                   w2 = on_sr s (\<lambda>sr. sr\<lparr>sr_lists := AList.update sub l (sr_lists sr),
                          sr_recent := sr_recent sr @ [sub]\<rparr>) w1
               in (if knownexists then on_race (sr_race sr) (race_reportNewSubDir sub) w2 else w2, True))"

text \<open>
  The directory to list next: one that has not been looked at since the last check, in the order of
  the hash map, or else the one visited least recently.  The bound of the loop is read again after each
  round, in which the list may have become shorter.
\<close>

function relevant_loop :: "(string \<Rightarrow> bool) \<Rightarrow> (string \<Rightarrow> bool) \<Rightarrow> nat \<Rightarrow> string list \<Rightarrow> string list \<times> string" where
  "relevant_loop complete present i recent =
     (if i < length recent then
        let sub = hd recent; recent1 = tl recent
        in if \<not> complete sub then
             (if present sub then (recent1 @ [sub], sub)
              else relevant_loop complete present (i + 1) (recent1 @ [sub]))
           else relevant_loop complete present (i + 1) recent1
      else (recent, []))"
  by pat_completeness auto
termination
  by (relation "measure (\<lambda>(c, p, i, recent). length recent - i)") auto

declare relevant_loop.simps [simp del]

definition sr_getRelevantSubPath :: "((string \<times> nat) list \<Rightarrow> (string \<times> nat) list) \<Rightarrow> 'w world_scheme \<Rightarrow>
    siterace \<Rightarrow> siterace \<times> string" where
  "sr_getRelevantSubPath ord w s =
     (case find (\<lambda>p. fl_updatestate (w_fl w (snd p)) = US_NONE) (ord (sr_lists s)) of
        Some p \<Rightarrow> (s, fst p)
      | None \<Rightarrow>
          (let base = fl_state (w_fl w (sr_root s))
           in if base = LS_UNKNOWN \<or> base = LS_NONEXISTENT \<or> base = LS_FAILED then (s, [])
              else
                let (recent, sub) = relevant_loop (\<lambda>sub. sr_isSubPathComplete sub s)
                      (\<lambda>sub. is_present (fl_state (w_fl w (the (sr_getFileListForPath sub s))))) 0 (sr_recent s)
                in (s\<lparr>sr_recent := recent\<rparr>, sub)))"

subsection \<open>A file list of the job has changed\<close>

text \<open>
  The sums over the directories, in the order \<open>ord\<close> of the hash map: of two largest sizes the one
  of a directory with five files or more is preferred, but only if it was the largest when it was met.
\<close>

definition max_sizes :: "'w world_scheme \<Rightarrow> (string \<times> nat) list \<Rightarrow> u64 \<times> u64" where
  "max_sizes w ls =
     fold (\<lambda>p (maxsize, withfiles).
       let fl = w_fl w (snd p); m = fl_maxfilesize fl
       in if maxsize < m then (m, if 5 \<le> length (fl_seen fl) then m else withfiles) else (maxsize, withfiles))
       ls (0, 0)"

definition sr_updateNumFilesUploaded :: "((string \<times> nat) list \<Rightarrow> (string \<times> nat) list) \<Rightarrow> nat \<Rightarrow> nat \<Rightarrow>
    'w world_scheme \<Rightarrow> 'w world_scheme" where
  "sr_updateNumFilesUploaded ord s l w =
     (case lock w s of
        None \<Rightarrow> w
      | Some _ \<Rightarrow>
          let sr = w_sr w s; ls = ord (sr_lists sr);
              uploaded = sum_list (map (\<lambda>p. fl_uploadedfiles (w_fl w (snd p))) ls);
              total = sum_list (map (\<lambda>p. fl_totalfilesize (w_fl w (snd p))) ls);
              (maxsize, withfiles) = max_sizes w ls;
              sfvs = filter (\<lambda>p. snd p = l \<and> fl_hasExtension ''sfv'' (w_fl w (snd p))) ls;
              w1 = on_race (sr_race sr) (fold (\<lambda>p. race_reportSFV s (fst p)) sfvs) w;
              w2 = on_sr s (\<lambda>sr. sr\<lparr>sr_maxfilesize := (if 0 < withfiles then withfiles else maxsize),
                     sr_uploaded := uploaded, sr_totalfilesize := total\<rparr>) w1
          in on_race (sr_race sr) (race_updateSiteProgress uploaded) w2)"

definition add_directory :: "'x race_skip \<Rightarrow> nat \<Rightarrow> nat \<Rightarrow> nat \<Rightarrow> dirfile \<Rightarrow> 'w world_scheme \<Rightarrow> 'w world_scheme" where
  "add_directory sk s l section f w =
     (let name = f_name f; sr = w_sr w s; m = sk (sr_skip sr) (Some section) name True
      in if \<not> f_directory f then w
         else if sm_action m = SKIPLIST_DENY
                 \<or> sm_action m = SKIPLIST_UNIQUE \<and> fl_containsPatternBefore (sm_pattern m) True name (w_fl w l) then w
         else case sr_getFileListForPath name sr of
                None \<Rightarrow> fst (sr_addSubDirectory sk s name True w)
              | Some sub \<Rightarrow>
                  if fl_state (w_fl w sub) \<in> {LS_UNKNOWN, LS_NONEXISTENT, LS_FAILED}
                  then on_race (sr_race sr) (race_reportNewSubDir name) (on_fl sub fl_setExists w)
                  else w)"

definition sr_addNewDirectories :: "'x race_skip \<Rightarrow> nat \<Rightarrow> nat \<Rightarrow> 'w world_scheme \<Rightarrow> 'w world_scheme" where
  "sr_addNewDirectories sk s l w =
     (case lock w s of
        None \<Rightarrow> w
      | Some r \<Rightarrow>
          if sr_getFileListForPath [] (w_sr w s) \<noteq> Some l \<or> fl_state (w_fl w l) \<noteq> LS_LISTED then w
          else fold (add_directory sk s l (r_sectionskip r)) (fl_view (w_fl w l)) w)"

text \<open>The directories below one that is gone, by recursion, with \<open>fuel\<close>.\<close>

definition to_mark :: "'w world_scheme \<Rightarrow> nat \<Rightarrow> nat \<Rightarrow> bool" where
  "to_mark w l k \<longleftrightarrow>
     (let fl = w_fl w l; sub = w_fl w k
      in k \<noteq> l \<and> path_contains (fl_path sub) (fl_path fl)
         \<and> (fl_state fl = LS_NONEXISTENT
            \<or> \<not> fl_contains (p_path (path_level 1 (path_minus (fl_path sub) (fl_path fl)))) fl))"

fun mark_lists :: "(nat \<Rightarrow> 'w world_scheme \<Rightarrow> 'w world_scheme option) \<Rightarrow> nat \<Rightarrow> nat list \<Rightarrow> 'w world_scheme \<Rightarrow>
    'w world_scheme option" where
  "mark_lists rec l [] w = Some w"
| "mark_lists rec l (k # ks) w =
     (if \<not> to_mark w l k then mark_lists rec l ks w
      else
        let w1 = (if fl_state (w_fl w k) = LS_UNKNOWN
                  then on_fl k (\<lambda>f. f\<lparr>fl_state := LS_NONEXISTENT\<rparr>) w else w)
        in if fl_state (w_fl w1 k) = LS_NONEXISTENT
           then Option.bind (rec k (on_fl k (\<lambda>f. fst (fl_bumpUpdateState US_REFRESHED f)) w1)) (mark_lists rec l ks)
           else mark_lists rec l ks w1)"

fun sr_markNonExistent :: "nat \<Rightarrow> ((string \<times> nat) list \<Rightarrow> (string \<times> nat) list) \<Rightarrow> nat \<Rightarrow> nat \<Rightarrow>
    'w world_scheme \<Rightarrow> 'w world_scheme option" where
  "sr_markNonExistent 0 ord s l w = None"
| "sr_markNonExistent (Suc fuel) ord s l w =
     (let ls = map snd (ord (sr_lists (w_sr w s)))
      in if l \<notin> set ls then Some w else mark_lists (sr_markNonExistent fuel ord s) l ls w)"

definition sr_fileListUpdated :: "nat \<Rightarrow> ((string \<times> nat) list \<Rightarrow> (string \<times> nat) list) \<Rightarrow> 'x race_skip \<Rightarrow> nat \<Rightarrow> nat \<Rightarrow>
    'w world_scheme \<Rightarrow> 'w world_scheme option" where
  "sr_fileListUpdated fuel ord sk s l w =
     sr_markNonExistent fuel ord s l (sr_addNewDirectories sk s l (sr_updateNumFilesUploaded ord s l w))"

subsection \<open>Restarting, finishing and looking for changes\<close>

definition sr_isDone :: "siterace \<Rightarrow> bool" where
  "sr_isDone s \<longleftrightarrow> sr_status s \<noteq> RUNNING"

definition sr_isGlobalDone :: "'w world_scheme \<Rightarrow> nat \<Rightarrow> bool" where
  "sr_isGlobalDone w s = (case lock w s of None \<Rightarrow> True | Some r \<Rightarrow> race_isDone r)"

definition sr_reset :: "siterace \<Rightarrow> siterace" where
  "sr_reset s =
     s\<lparr>sr_status := RUNNING, sr_sfvobserve := (\<lambda>_. None), sr_observe := (\<lambda>_. None), sr_sizeestimated := {},
       sr_complete := [], sr_maxfilesize := 0, sr_totalfilesize := 0, sr_uploaded := 0\<rparr>"

definition renew_list :: "nat \<Rightarrow> string \<times> nat \<Rightarrow> 'w world_scheme \<times> (string \<times> nat) list \<Rightarrow>
    'w world_scheme \<times> (string \<times> nat) list" where
  "renew_list s p st =
     (let (w, ls) = st; sr = w_sr w s; state = fl_state (w_fl w (snd p));
          (w1, l) = new_list (sr_username sr) (path_concat (sr_path sr) (path_new (fst p)))
            (if state = LS_LISTED then LS_EXISTS else state) w
      in (w1, ls @ [(fst p, l)]))"

definition sr_softReset :: "nat \<Rightarrow> 'w world_scheme \<Rightarrow> 'w world_scheme" where
  "sr_softReset s w =
     (let (w1, ls) = fold (renew_list s) (sr_lists (w_sr w s)) (w, [])
      in on_sr s (\<lambda>sr. sr_reset (sr\<lparr>sr_recent := map fst (sr_lists sr), sr_lists := ls\<rparr>)) w1)"

definition sr_hardReset :: "nat \<Rightarrow> 'w world_scheme \<Rightarrow> 'w world_scheme" where
  "sr_hardReset s w =
     (let (w1, root) = new_list (sr_username (w_sr w s)) (sr_path (w_sr w s)) LS_UNKNOWN w
      in on_sr s (\<lambda>sr. sr_reset (sr\<lparr>sr_lists := [([], root)], sr_recent := [[]]\<rparr>)) w1)"

definition sr_subPathComplete :: "nat \<Rightarrow> nat \<Rightarrow> 'w world_scheme \<Rightarrow> 'w world_scheme" where
  "sr_subPathComplete s l w =
     (let sub = sr_getSubPathForFileList l (w_sr w s)
      in if sr_isSubPathComplete sub (w_sr w s) then w
         else on_sr s (\<lambda>sr. sr\<lparr>sr_complete := sr_complete sr @ [sub]\<rparr>)
                (on_fl l (\<lambda>fl. fst (fl_bumpUpdateState US_REFRESHED fl)) w))"

definition sr_resetListsRefreshed :: "nat \<Rightarrow> 'w world_scheme \<Rightarrow> 'w world_scheme" where
  "sr_resetListsRefreshed s w =
     fold (\<lambda>p w. if \<not> sr_isSubPathComplete (sr_getSubPathForFileList (snd p) (w_sr w s)) (w_sr w s)
                  then on_fl (snd p) fl_resetUpdateState w else w)
       (sr_lists (w_sr w s)) w"

definition sr_reportSize :: "((u64 \<times> nat) list \<Rightarrow> (u64 \<times> nat) list) \<Rightarrow> nat \<Rightarrow> nat \<Rightarrow> string list \<Rightarrow> bool \<Rightarrow>
    'w world_scheme \<Rightarrow> 'w world_scheme" where
  "sr_reportSize ord s l uniques final w =
     (case lock w s of
        None \<Rightarrow> w
      | Some _ \<Rightarrow>
          (case find (\<lambda>p. snd p = l) (sr_lists (w_sr w s)) of
             None \<Rightarrow> w
           | Some p \<Rightarrow>
               let w1 = on_race (sr_race (w_sr w s)) (race_reportSize ord s (w_fl w l) (fst p) uniques final) w
               in if final then on_sr s (\<lambda>sr. sr\<lparr>sr_sizeestimated := insert l (sr_sizeestimated sr)\<rparr>) w1 else w1))"

text \<open>The time passed is a 64-bit difference returned as an \<open>int\<close>.\<close>

definition sr_getObservedTime :: "u64 \<Rightarrow> nat \<Rightarrow> 'w world_scheme \<Rightarrow> siterace \<Rightarrow> siterace \<times> int" where
  "sr_getObservedTime now l w s =
     (case sr_observe s l of
        Some t \<Rightarrow> (s, sint (ucast (now - t) :: u32))
      | None \<Rightarrow> (if fl_seen (w_fl w l) \<noteq> [] then s\<lparr>sr_observe := (sr_observe s)(l \<mapsto> now)\<rparr> else s, 0))"

definition sr_getSFVObservedTime :: "u64 \<Rightarrow> nat \<Rightarrow> siterace \<Rightarrow> siterace \<times> int" where
  "sr_getSFVObservedTime now l s =
     (case sr_sfvobserve s l of
        Some t \<Rightarrow> (s, sint (ucast (now - t) :: u32))
      | None \<Rightarrow> (s\<lparr>sr_sfvobserve := (sr_sfvobserve s)(l \<mapsto> now)\<rparr>, 0))"

definition sr_listsChangedSinceLastCheck :: "nat \<Rightarrow> 'w world_scheme \<Rightarrow> 'w world_scheme \<times> bool" where
  "sr_listsChangedSinceLastCheck s w =
     fold (\<lambda>p (w, changed).
         if fl_updatestate (w_fl w (snd p)) = US_CHANGED then (on_fl (snd p) fl_resetUpdateState w, True)
         else (w, changed \<or> fl_hasFilesUploading (w_fl w (snd p))))
       (sr_lists (w_sr w s)) (w, False)"

definition sr_allListsRefreshed :: "'w world_scheme \<Rightarrow> siterace \<Rightarrow> bool" where
  "sr_allListsRefreshed w s \<longleftrightarrow>
     list_all (\<lambda>p. sr_isSubPathComplete (sr_getSubPathForFileList (snd p) s) s
       \<or> US_REFRESHED \<le> fl_updatestate (w_fl w (snd p))) (sr_lists s)"

text \<open>
  The mean speed after \<open>sz\<close> more bytes at \<open>speed\<close>; \<^term>\<open>None\<close> is a division by zero.
\<close>

definition mv_mix :: "u64 \<Rightarrow> u32 \<Rightarrow> moved_stat \<Rightarrow> moved_stat option" where
  "mv_mix sz speed t =
     (if speed \<noteq> 0 \<and> sz \<noteq> 0 \<and> (ucast speed :: u64) < sz then
        (if mv_speed t = 0 then None
         else
           let d = mv_size t div ucast (mv_speed t) + sz div ucast speed
           in if d = 0 then None
              else
                let q = ucast ((mv_size t + sz) div d) :: u32
                in Some (t\<lparr>mv_speed := (if q = 0 then 1 else q)\<rparr>))
      else Some t)"

definition mv_add :: "u64 \<Rightarrow> u32 \<Rightarrow> moved_stat \<Rightarrow> moved_stat option" where
  "mv_add sz speed t =
     map_option (\<lambda>t. t\<lparr>mv_size := mv_size t + sz, mv_files := mv_files t + 1\<rparr>) (mv_mix sz speed t)"

definition sr_addTransferStatsFile :: "stats_dir \<Rightarrow> string \<Rightarrow> u64 \<Rightarrow> u32 \<Rightarrow> nat \<Rightarrow> 'w world_scheme \<Rightarrow>
    'w world_scheme option" where
  "sr_addTransferStatsFile dir other sz speed s w =
     (case lock w s of
        None \<Rightarrow> Some w
      | Some _ \<Rightarrow>
          let sr = w_sr w s
          in if dir = STATS_DOWN then
               (case (mv_add sz speed (case sr_downby sr other of Some t \<Rightarrow> t | None \<Rightarrow> no_stat),
                      mv_add sz speed (sr_down sr)) of
                  (Some t, Some u) \<Rightarrow>
                    Some (on_sr s (\<lambda>sr. sr\<lparr>sr_downby := (sr_downby sr)(other \<mapsto> t), sr_down := u\<rparr>)
                      (on_race (sr_race sr) (race_addTransferStatsFile sz) w))
                | _ \<Rightarrow> None)
             else
               (case (mv_add sz speed (case sr_upby sr other of Some t \<Rightarrow> t | None \<Rightarrow> no_stat),
                      mv_add sz speed (sr_up sr)) of
                  (Some t, Some u) \<Rightarrow>
                    Some (on_sr s (\<lambda>sr. sr\<lparr>sr_upby := (sr_upby sr)(other \<mapsto> t), sr_up := u\<rparr>) w)
                | _ \<Rightarrow> None))"

subsection \<open>The periodic check of a job\<close>

definition MAX_CHECKS_BEFORE_TIMEOUT :: int where
  "MAX_CHECKS_BEFORE_TIMEOUT = 60"

definition MAX_CHECKS_BEFORE_HARD_TIMEOUT :: int where
  "MAX_CHECKS_BEFORE_HARD_TIMEOUT = 1200"

text \<open>One site in the loop of \<open>timeoutCheck\<close>; \<open>logins\<close> are the logins of the sites.\<close>

definition check_site :: "(nat \<Rightarrow> int) \<Rightarrow> nat \<times> nat \<Rightarrow> 'w world_scheme \<times> int \<times> bool \<Rightarrow> 'w world_scheme \<times> int \<times> bool" where
  "check_site logins p st =
     (let (w, checkcount, refreshed) = st; s = fst p
      in if sr_isDone (w_sr w s) then st
         else
           let (w1, changed) = sr_listsChangedSinceLastCheck s w
           in if changed then (w1, 0, refreshed)
              else if checkcount mod 10 = 0 \<and> checkcount \<le> MAX_CHECKS_BEFORE_TIMEOUT
              then (sr_resetListsRefreshed s w1, checkcount, refreshed)
              else if MAX_CHECKS_BEFORE_TIMEOUT < checkcount
              then (w1, checkcount, refreshed \<and> \<not> (logins (snd p) \<noteq> 0 \<and> \<not> sr_allListsRefreshed w1 (w_sr w1 s)))
              else (w1, checkcount, refreshed))"

definition race_timeoutCheck :: "(nat \<Rightarrow> int) \<Rightarrow> nat \<Rightarrow> 'w world_scheme \<Rightarrow> ('w world_scheme \<times> int) option" where
  "race_timeoutCheck logins rid w =
     (case w_race w rid of
        None \<Rightarrow> None
      | Some r \<Rightarrow> Some (
          if MAX_CHECKS_BEFORE_HARD_TIMEOUT \<le> r_checkcount r then (w, MAX_CHECKS_BEFORE_HARD_TIMEOUT)
          else
            let (w1, checkcount, refreshed) = fold (check_site logins) (r_sites r) (w, r_checkcount r, True)
            in if MAX_CHECKS_BEFORE_TIMEOUT < checkcount \<and> refreshed
               then (on_race rid (\<lambda>r. r\<lparr>r_checkcount := checkcount\<rparr>) w1, MAX_CHECKS_BEFORE_TIMEOUT)
               else (on_race rid (\<lambda>r. r\<lparr>r_checkcount := checkcount + 1\<rparr>) w1, - 1)))"

subsection \<open>What is shown of a job\<close>

datatype site_list_type = LIST_ALL | LIST_DLONLY | LIST_INCOMPLETE | LIST_COMPLETE

fun on_site_list :: "site_list_type \<Rightarrow> siterace \<Rightarrow> bool" where
  "on_site_list LIST_ALL s = True"
| "on_site_list LIST_DLONLY s = sr_downloadonly s"
| "on_site_list LIST_INCOMPLETE s = (sr_status s \<noteq> RACE_DONE)"
| "on_site_list LIST_COMPLETE s = sr_isDone s"

definition race_getSiteListText :: "(nat \<Rightarrow> siterace) \<Rightarrow> site_list_type \<Rightarrow> race \<Rightarrow> string" where
  "race_getSiteListText srs t r =
     butlast (concat (map (\<lambda>p. sr_sitename (srs (fst p)) @ '','')
       (filter (\<lambda>p. on_site_list t (srs (fst p))) (r_sites r))))"

definition race_getSiteRace :: "(nat \<Rightarrow> siterace) \<Rightarrow> string \<Rightarrow> race \<Rightarrow> nat option" where
  "race_getSiteRace srs name r =
     map_option fst (find (\<lambda>p. sr_sitename (srs (fst p)) = name) (r_sites r))"

end
