(* ===== verification/RaceInv.thy ===== *)
theory RaceInv
  imports RaceModel
begin

text \<open>
  Proofs on jobs (\<open>src/race.cpp\<close>): the percentages shown, the limits on attempts, when a job is done,
  what holds in every history of calls, the statistics of what was moved, and that a job to which nothing
  happens is given up.
\<close>

subsection \<open>Percentages\<close>

lemma percent_le: "percent_of r s \<le> 100"
  by (auto simp: percent_of_def Let_def)

lemma percent_fold:
  "fold (\<lambda>(s, _) (total, worst, best).
      let p = percent_of r (srs s)
      in (total + p, if p < worst then p else worst, if best < p then p else best)) xs (t, w, b) =
   (t + sum_list (map (\<lambda>x. percent_of r (srs (fst x))) xs),
    fold (\<lambda>x v. min (percent_of r (srs (fst x))) v) xs w,
    fold (\<lambda>x v. max (percent_of r (srs (fst x))) v) xs b)"
  by (induction xs arbitrary: t w b)
    (auto simp: Let_def min_def max_def algebra_simps split: prod.splits)

lemma fold_min_le: "fold (\<lambda>x v. min (f x) v) xs w \<le> (w :: u32) \<and> (\<forall>x\<in>set xs. fold (\<lambda>x v. min (f x) v) xs w \<le> f x)"
proof (induction xs arbitrary: w)
  case (Cons a xs)
  show ?case using Cons.IH [of "min (f a) w"] by auto
qed simp

lemma fold_max_ge: "w \<le> fold (\<lambda>x v. max (f x) v) xs (w :: u32) \<and> (\<forall>x\<in>set xs. f x \<le> fold (\<lambda>x v. max (f x) v) xs w)"
proof (induction xs arbitrary: w)
  case (Cons a xs)
  show ?case using Cons.IH [of "max (f a) w"] by auto
qed simp

lemma fold_max_le: "w \<le> (m :: u32) \<Longrightarrow> (\<And>x. f x \<le> m) \<Longrightarrow> fold (\<lambda>x v. max (f x) v) xs w \<le> m"
  by (induction xs arbitrary: w) auto

lemma unat_sum_percent:
  fixes f :: "'a \<Rightarrow> u32"
  assumes "\<And>x. f x \<le> 100" "100 * length xs < 2 ^ 32"
  shows "unat (sum_list (map f xs)) = sum_list (map (\<lambda>x. unat (f x)) xs) \<and> unat (sum_list (map f xs)) \<le> 100 * length xs"
  using assms(2)
proof (induction xs)
  case (Cons x xs)
  have x: "unat (f x) \<le> 100" using assms(1) [of x] by (simp add: word_le_nat_alt)
  have ih: "unat (sum_list (map f xs)) = sum_list (map (\<lambda>x. unat (f x)) xs)"
    "unat (sum_list (map f xs)) \<le> 100 * length xs" using Cons by auto
  have "unat (f x) + unat (sum_list (map f xs)) < 2 ^ 32" using x ih Cons.prems by simp
  then have "unat (f x + sum_list (map f xs)) = unat (f x) + unat (sum_list (map f xs))"
    by (simp add: unat_word_ariths)
  then show ?case using x ih by simp
qed simp

lemma sum_list_bounds:
  fixes f :: "'a \<Rightarrow> nat"
  assumes "\<And>x. x \<in> set xs \<Longrightarrow> lo \<le> f x \<and> f x \<le> hi"
  shows "length xs * lo \<le> sum_list (map f xs) \<and> sum_list (map f xs) \<le> length xs * hi"
  using assms by (induction xs) (auto simp: add_mono)

text \<open>
  The percentages shown for a job: the worst is no more than the average, the average no more than
  the best, and the best no more than 100, whatever sizes and counts the sites report, for a job with
  sites (fewer than 42 million of them).
\<close>

theorem race_percentages:
  assumes "r_sites r \<noteq> []" and "100 * length (r_sites r) < 2 ^ 32"
  shows "r_worst (race_calculatePercentages srs r) \<le> r_avg (race_calculatePercentages srs r)
    \<and> r_avg (race_calculatePercentages srs r) \<le> r_best (race_calculatePercentages srs r)
    \<and> r_best (race_calculatePercentages srs r) \<le> 100"
proof -
  let ?f = "\<lambda>x. percent_of r (srs (fst x))" and ?xs = "r_sites r"
  let ?t = "sum_list (map ?f ?xs)" and ?w = "fold (\<lambda>x v. min (?f x) v) ?xs 100"
  let ?b = "fold (\<lambda>x v. max (?f x) v) ?xs 0" and ?n = "length ?xs"
  have lo: "?w \<le> ?f x" and hi: "?f x \<le> ?b" if "x \<in> set ?xs" for x
    using fold_min_le [of ?f ?xs 100] fold_max_ge [of 0 ?f ?xs] that by auto
  have b: "?b \<le> 100" by (rule fold_max_le) (simp_all add: percent_le)
  have t: "unat ?t = sum_list (map (\<lambda>x. unat (?f x)) ?xs)" "unat ?t \<le> 100 * ?n"
    using unat_sum_percent [of ?f, OF percent_le assms(2)] by auto
  have s: "?n * unat ?w \<le> unat ?t \<and> unat ?t \<le> ?n * unat ?b"
    unfolding t(1) using lo hi by (intro sum_list_bounds) (auto simp: word_le_nat_alt)
  have tl: "unat ?t < 2 ^ 32" using t(2) assms(2) by linarith
  have n: "0 < ?n" "?n < 2 ^ 32" using assms by auto
  let ?a = "ucast (ucast ?t div (of_nat ?n :: u64)) :: u32"
  have "unat (of_nat ?n :: u64) = ?n" using n(2) by (simp add: unat_of_nat)
  moreover have "unat (ucast ?t :: u64) = unat ?t"
    using tl by (simp add: unsigned_ucast_eq take_bit_nat_eq_self)
  ultimately have "unat (ucast ?t div (of_nat ?n :: u64)) = unat ?t div ?n"
    by (simp add: unat_div)
  moreover have "unat ?t div ?n < 2 ^ 32"
    by (rule le_less_trans [OF div_le_dividend tl])
  ultimately have a: "unat ?a = unat ?t div ?n" by (simp add: unsigned_ucast_eq take_bit_nat_eq_self)
  have "unat ?w \<le> unat ?a"
    unfolding a using s n(1) by (metis div_le_mono nonzero_mult_div_cancel_left not_gr_zero)
  moreover have "unat ?a \<le> unat ?b"
    unfolding a using s n(1) by (metis div_le_mono nonzero_mult_div_cancel_left not_gr_zero)
  moreover have "race_calculatePercentages srs r = r\<lparr>r_avg := ?a, r_worst := ?w, r_best := ?b\<rparr>"
    using assms(1) by (simp add: race_calculatePercentages_def percent_fold)
  ultimately show ?thesis using b by (simp add: word_le_nat_alt)
qed

text \<open>A job on two sites for the witnesses.\<close>

definition demo_srs :: "nat \<Rightarrow> siterace" where
  "demo_srs n = (sr_init 1 ''S'' path_empty ''J'' ''u'' 0 (n = 3) n)
     \<lparr>sr_totalfilesize := (if n = 1 then 50 else 150), sr_sitename := replicate n CHR ''S''\<rparr>"

definition demo_race :: race where
  "demo_race = (race_new 1 SPREAD_RACE 0)\<lparr>r_sites := [(1, 1), (2, 2), (3, 3)], r_guessedtotal := 200\<rparr>"

lemma demo_race_simps [simp]:
  "r_sites demo_race = [(1, 1), (2, 2), (3, 3)]" "r_semidone demo_race = []" "r_done demo_race = []"
  "r_status demo_race = RUNNING" "r_poke demo_race" "r_guessedtotal demo_race = 200" "r_attempts demo_race = []"
  by (simp_all add: demo_race_def race_new_def race_setUndone_def race_clearTransferAttempts_def
      race_resetUpdateCheckCounter_def)

lemma demo_srs_simps [simp]:
  "sr_downloadonly (demo_srs n) \<longleftrightarrow> n = 3" "sr_race (demo_srs n) = 1" "sr_status (demo_srs n) = RUNNING"
  "sr_totalfilesize (demo_srs n) = (if n = 1 then 50 else 150)"
  by (simp_all add: demo_srs_def sr_init_def)

theorem race_percentages_witness:
  "r_worst (race_calculatePercentages demo_srs demo_race) = 25
   \<and> r_worst (race_calculatePercentages demo_srs demo_race) \<le> r_avg (race_calculatePercentages demo_srs demo_race)"
proof -
  have "r_worst (race_calculatePercentages demo_srs demo_race) = 25"
    by (simp add: race_calculatePercentages_def percent_of_def)
  then show ?thesis using race_percentages [of demo_race demo_srs] by simp
qed

subsection \<open>Attempts\<close>

definition attempts_of :: "race \<Rightarrow> attempt_key \<Rightarrow> int \<times> int" where
  "attempts_of r k = (case map_of (r_attempts r) k of Some p \<Rightarrow> p | None \<Rightarrow> (0, 0))"

lemma attempts_count:
  "attempts_of (count_attempt k r) j =
     (if j = k then (fst (attempts_of r k) + 1, sint (r_timespent r)) else attempts_of r j)"
  by (auto simp: attempts_of_def count_attempt_def Let_def map_of_map_default split: option.split)

lemma attempts_add:
  "attempts_of (race_addTransferAttempt f s d r) j =
     (if j = (f, None, d) \<or> j = (f, Some s, d)
      then (fst (attempts_of r j) + 1, sint (r_timespent r)) else attempts_of r j)"
proof -
  have "r_timespent (count_attempt k r) = r_timespent r" for k by (simp add: count_attempt_def Let_def)
  then show ?thesis by (auto simp: race_addTransferAttempt_def attempts_count)
qed

lemma failed_attempts:
  "race_hasFailedTransfer f s d r \<longleftrightarrow>
     7 \<le> fst (attempts_of r (f, None, d)) \<or> 4 \<le> fst (attempts_of r (f, Some s, d))"
  by (auto simp: race_hasFailedTransfer_def attempts_of_def MAX_TRANSFER_ATTEMPTS_BEFORE_SKIP_def
      MAX_SINGLE_PAIR_FILE_TRANSFER_ATTEMPTS_def split: option.split)

lemma backoff_attempts:
  "race_hasTransferRetryBackoff f s d r \<longleftrightarrow>
     (let (n, stamp) = attempts_of r (f, Some s, d); since = sint (r_timespent r - of_int stamp)
      in n = 2 \<and> since < 3000 \<or> 3 \<le> n \<and> since < 10000)"
  by (auto simp: race_hasTransferRetryBackoff_def attempts_of_def BACKOFF_AFTER_TWO_FAILS_MS_def
      BACKOFF_AFTER_THREE_FAILS_MS_def Let_def split: option.split)

text \<open>A history of attempts: the time, the file and the two lists of each.\<close>

definition attempt_run :: "(u32 \<times> string \<times> nat \<times> nat) list \<Rightarrow> race \<Rightarrow> race" where
  "attempt_run as r = fold (\<lambda>(t, f, s, d) r. race_addTransferAttempt f s d (r\<lparr>r_timespent := t\<rparr>)) as r"

definition is_attempt :: "attempt_key \<Rightarrow> u32 \<times> string \<times> nat \<times> nat \<Rightarrow> bool" where
  "is_attempt k a \<longleftrightarrow>
     (case (k, a) of ((f, src, d), (_, f', s', d')) \<Rightarrow> f' = f \<and> d' = d \<and> (src = None \<or> src = Some s'))"

lemma attempt_run_counts:
  assumes "r_attempts r = []"
  shows "attempts_of (attempt_run as r) k =
    (let ts = map fst (filter (is_attempt k) as)
     in if ts = [] then (0, 0) else (int (length ts), sint (last ts)))"
proof (induction as rule: rev_induct)
  case Nil
  then show ?case by (simp add: attempt_run_def attempts_of_def assms)
next
  case (snoc a as)
  obtain t f s d where a: "a = (t, f, s, d)" by (cases a)
  obtain f' src d' where k: "k = (f', src, d')" by (cases k)
  have at: "attempts_of (q\<lparr>r_timespent := t\<rparr>) j = attempts_of q j" for q j by (simp add: attempts_of_def)
  have m: "is_attempt k a \<longleftrightarrow> k = (f, None, d) \<or> k = (f, Some s, d)"
    by (auto simp: is_attempt_def a k)
  have "attempt_run (as @ [a]) r = race_addTransferAttempt f s d ((attempt_run as r)\<lparr>r_timespent := t\<rparr>)"
    by (simp add: attempt_run_def a)
  then have "attempts_of (attempt_run (as @ [a]) r) k =
      (if is_attempt k a then (fst (attempts_of (attempt_run as r) k) + 1, sint t)
       else attempts_of (attempt_run as r) k)"
    by (simp add: attempts_add at m)
  then show ?case using snoc.IH by (auto simp: Let_def a)
qed

text \<open>
  The limits on attempts, after any history of attempts at any times: a file is given up for a pair
  of lists exactly when it was tried four times between them or seven times into the destination from
  anywhere; and a pair waits after its second attempt for three seconds, after a third or later one for
  ten, counted from the last.
\<close>

theorem race_attempt_limits:
  fixes as :: "(u32 \<times> string \<times> nat \<times> nat) list" and r :: race and name :: string and src dst :: nat
  assumes "r_attempts r = []"
  defines "into \<equiv> filter (\<lambda>(_, f, _, d). f = name \<and> d = dst) as"
    and "pair \<equiv> filter (\<lambda>(_, f, s, d). f = name \<and> s = src \<and> d = dst) as"
  shows "(race_hasFailedTransfer name src dst (attempt_run as r) \<longleftrightarrow> 7 \<le> length into \<or> 4 \<le> length pair)
    \<and> (race_hasTransferRetryBackoff name src dst ((attempt_run as r)\<lparr>r_timespent := now\<rparr>) \<longleftrightarrow>
         length pair = 2 \<and> sint (now - fst (last pair)) < 3000
         \<or> 3 \<le> length pair \<and> sint (now - fst (last pair)) < 10000)"
proof -
  have into: "filter (is_attempt (name, None, dst)) as = into"
    by (auto simp: into_def is_attempt_def intro!: filter_cong)
  have pair: "filter (is_attempt (name, Some src, dst)) as = pair"
    by (auto simp: pair_def is_attempt_def intro!: filter_cong)
  have i: "fst (attempts_of (attempt_run as r) (name, None, dst)) = int (length into)"
    by (simp add: attempt_run_counts [OF assms(1)] into Let_def)
  have p: "attempts_of (attempt_run as r) (name, Some src, dst) =
      (if pair = [] then (0, 0) else (int (length pair), sint (fst (last pair))))"
    by (simp add: attempt_run_counts [OF assms(1)] pair Let_def last_map)
  have upd: "attempts_of (q\<lparr>r_timespent := now\<rparr>) j = attempts_of q j" for q j by (simp add: attempts_of_def)
  show ?thesis
    by (auto simp: failed_attempts backoff_attempts upd i p Let_def)
qed

theorem race_attempt_limits_witness:
  "race_hasFailedTransfer ''a'' 1 2 (attempt_run (replicate 4 (0, ''a'', 1, 2)) demo_race)
   \<and> \<not> race_hasFailedTransfer ''a'' 3 2 (attempt_run (replicate 4 (0, ''a'', 1, 2)) demo_race)"
  using race_attempt_limits [of demo_race "''a''" 1 2 "replicate 4 (0, ''a'', 1, 2)" 0]
    race_attempt_limits [of demo_race "''a''" 3 2 "replicate 4 (0, ''a'', 1, 2)" 0]
  by (simp add: numeral_eq_Suc)

subsection \<open>Running and done\<close>

definition race_ok :: "race \<Rightarrow> bool" where
  "race_ok r \<longleftrightarrow>
     distinct (map fst (r_sites r)) \<and> distinct (r_semidone r) \<and> distinct (r_done r)
     \<and> set (r_done r) \<subseteq> set (r_semidone r) \<and> set (r_semidone r) \<subseteq> fst ` set (r_sites r)
     \<and> (r_poke r \<longleftrightarrow> r_status r = RUNNING)"

named_theorems race_fields "what the operations of a job do to the fields of its state machine"

lemma percentages_fields [race_fields]:
  "r_sites (race_calculatePercentages srs r) = r_sites r"
  "r_semidone (race_calculatePercentages srs r) = r_semidone r"
  "r_done (race_calculatePercentages srs r) = r_done r"
  "r_status (race_calculatePercentages srs r) = r_status r"
  "r_poke (race_calculatePercentages srs r) = r_poke r"
  by (simp_all add: race_calculatePercentages_def split: prod.split)

lemma setDone_fields [race_fields]:
  "r_sites (race_setDone srs r) = r_sites r" "r_semidone (race_setDone srs r) = r_semidone r"
  "r_done (race_setDone srs r) = r_done r" "r_status (race_setDone srs r) = RACE_DONE"
  "r_poke (race_setDone srs r) = False"
  by (simp_all add: race_setDone_def race_fields)

lemma setUndone_fields [race_fields]:
  "r_sites (race_setUndone r) = r_sites r" "r_semidone (race_setUndone r) = r_semidone r"
  "r_done (race_setUndone r) = r_done r" "r_status (race_setUndone r) = RUNNING" "r_poke (race_setUndone r)"
  by (simp_all add: race_setUndone_def race_clearTransferAttempts_def race_resetUpdateCheckCounter_def)

lemma reset_fields [race_fields]:
  "r_sites (race_reset r) = r_sites r" "r_semidone (race_reset r) = []" "r_done (race_reset r) = []"
  "r_status (race_reset r) = RUNNING" "r_poke (race_reset r) \<longleftrightarrow> r_poke r \<or> r_status r \<noteq> RUNNING"
  by (simp_all add: race_reset_def race_isDone_def race_clearTransferAttempts_def
      race_resetUpdateCheckCounter_def race_fields Let_def)

lemma on_race_same [simp]: "w_race (on_race rid f w) rid = map_option f (w_race w rid)"
  by (simp add: on_race_def)

lemma on_race_sr [simp]: "w_sr (on_race rid f w) = w_sr w"
  by (simp add: on_race_def)

lemma on_sr_race [simp]: "w_race (on_sr s f w) = w_race w"
  by (simp add: on_sr_def)

lemma complete_quietly_race [simp]: "w_race (complete_quietly s w) = w_race w"
  by (simp add: complete_quietly_def split: option.split)

lemma complete_quietly_sr:
  "w_sr (complete_quietly s w) x =
     (if x = s \<and> lock w s \<noteq> None then sr_finish RACE_DONE (w_sr w x) else w_sr w x)"
  by (auto simp: complete_quietly_def on_sr_def split: option.split)

lemma sr_finish_simps [simp]:
  "sr_race (sr_finish st s) = sr_race s" "sr_downloadonly (sr_finish st s) = sr_downloadonly s"
  "sr_finish st (sr_finish st s) = sr_finish st s" "st \<noteq> RUNNING \<Longrightarrow> sr_status (sr_finish st s) \<noteq> RUNNING"
  by (auto simp: sr_finish_def)

lemma complete_all_both:
  "w_race (fold complete_quietly ss w) = w_race w
   \<and> w_sr (fold complete_quietly ss w) x =
     (if x \<in> set ss \<and> lock w x \<noteq> None then sr_finish RACE_DONE (w_sr w x) else w_sr w x)"
proof (induction ss arbitrary: w)
  case (Cons s ss)
  have "lock (complete_quietly s w) x = lock w x" by (simp add: lock_def complete_quietly_sr)
  then show ?case using Cons [of "complete_quietly s w"] by (auto simp: complete_quietly_sr)
qed simp

lemmas complete_all = complete_all_both [THEN conjunct1] complete_all_both [THEN conjunct2]

text \<open>Every site that is to receive the job has reported.\<close>

definition all_reported :: "(nat \<Rightarrow> siterace) \<Rightarrow> race \<Rightarrow> nat set \<Rightarrow> bool" where
  "all_reported srs r ss \<longleftrightarrow> (\<forall>p\<in>set (r_sites r). fst p \<in> ss \<or> sr_downloadonly (srs (fst p)))"

lemma enough_reported:
  assumes "distinct (map fst (r_sites r))" "distinct ss" "set ss \<subseteq> fst ` set (r_sites r)"
  shows "length ss = length (r_sites r) \<or> remainingSitesAreDownloadOnly srs (r_sites r) ss
    \<longleftrightarrow> all_reported srs r (set ss)"
proof -
  have "fst ` set (r_sites r) = set ss" if "length ss = length (r_sites r)"
  proof -
    have "card (set ss) = card (set (map fst (r_sites r)))"
      using that assms(1,2) by (simp only: distinct_card length_map)
    then show ?thesis using assms(3) card_subset_eq [of "fst ` set (r_sites r)" "set ss"] by simp
  qed
  then show ?thesis
    by (auto simp: all_reported_def remainingSitesAreDownloadOnly_def list_all_iff)
qed

lemma reportSemiDone_result:
  assumes "w_race w rid = Some r" "race_ok r" "s \<in> fst ` set (r_sites r)" "s \<notin> set (r_semidone r)"
  defines "w' \<equiv> race_reportSemiDone rid s w" and "r1 \<equiv> r\<lparr>r_semidone := r_semidone r @ [s]\<rparr>"
  shows "if all_reported (w_sr w) r (insert s (set (r_semidone r)))
    then w_race w' rid = Some (race_setDone (w_sr w) r1)
         \<and> w_sr w' = (\<lambda>x. if x \<in> fst ` set (r_sites r) \<and> lock w x \<noteq> None then sr_finish RACE_DONE (w_sr w x) else w_sr w x)
    else w_race w' rid = Some r1 \<and> w_sr w' = w_sr w"
proof -
  let ?w1 = "on_race rid (\<lambda>r. r\<lparr>r_semidone := r_semidone r @ [s]\<rparr>) w"
  have r1: "w_race ?w1 rid = Some r1" by (simp add: assms(1) r1_def)
  have t: "length (r_semidone r1) = length (r_sites r1)
      \<or> remainingSitesAreDownloadOnly (w_sr ?w1) (r_sites r1) (r_semidone r1)
    \<longleftrightarrow> all_reported (w_sr w) r (insert s (set (r_semidone r)))"
    using enough_reported [of r "r_semidone r1" "w_sr w"] assms(2-4)
    by (simp add: r1_def race_ok_def)
  have lk: "lock (on_race rid f ?w1) x = None \<longleftrightarrow> lock w x = None" for f x
    by (auto simp: lock_def on_race_def)
  have "w' = (if all_reported (w_sr w) r (insert s (set (r_semidone r)))
      then fold complete_quietly (map fst (r_sites r)) (on_race rid (race_setDone (w_sr w)) ?w1) else ?w1)"
    unfolding w'_def race_reportSemiDone_def race_checkIfAllSemiDone_def r1
    using t assms(1,4) by (simp add: r1_def)
  then show ?thesis
    using r1 by (auto simp: complete_all lk fun_eq_iff)
qed

text \<open>
  When a site of a running job reports that it has all it can get for now, and had not reported
  before, the job is done exactly if every site that is to receive it has reported, whether one counts
  sites or only looks at those that are not download-only; then the job's poke is stopped and no site
  of the job runs on.  Otherwise nothing but the report is recorded.
\<close>

theorem race_semidone:
  assumes "w_race w rid = Some r" and "race_ok r" and "r_status r = RUNNING"
    and "s \<in> fst ` set (r_sites r)" and "s \<notin> set (r_semidone r)"
  shows "\<exists>r'. w_race (race_reportSemiDone rid s w) rid = Some r' \<and> race_ok r'
    \<and> set (r_semidone r') = insert s (set (r_semidone r)) \<and> r_done r' = r_done r
    \<and> (r_status r' \<noteq> RUNNING \<longleftrightarrow>
         (\<forall>p\<in>set (r_sites r). fst p \<in> insert s (set (r_semidone r)) \<or> sr_downloadonly (w_sr w (fst p))))
    \<and> (\<forall>p\<in>set (r_sites r). sr_race (w_sr w (fst p)) = rid \<longrightarrow> r_status r' \<noteq> RUNNING \<longrightarrow>
         sr_status (w_sr (race_reportSemiDone rid s w) (fst p)) \<noteq> RUNNING)"
proof (cases "all_reported (w_sr w) r (insert s (set (r_semidone r)))")
  case True
  then have a: "w_race (race_reportSemiDone rid s w) rid =
      Some (race_setDone (w_sr w) (r\<lparr>r_semidone := r_semidone r @ [s]\<rparr>))"
    "w_sr (race_reportSemiDone rid s w) =
      (\<lambda>x. if x \<in> fst ` set (r_sites r) \<and> lock w x \<noteq> None then sr_finish RACE_DONE (w_sr w x) else w_sr w x)"
    using reportSemiDone_result [OF assms(1,2,4,5)] by auto
  show ?thesis
    using True assms unfolding a
    by (auto simp: race_fields race_ok_def all_reported_def lock_def)
next
  case False
  then have a: "w_race (race_reportSemiDone rid s w) rid = Some (r\<lparr>r_semidone := r_semidone r @ [s]\<rparr>)"
    using reportSemiDone_result [OF assms(1,2,4,5)] by auto
  show ?thesis
    using False assms unfolding a by (auto simp: race_ok_def all_reported_def)
qed

definition demo_world :: world where
  "demo_world = \<lparr>w_race = [1 \<mapsto> demo_race], w_sr = demo_srs, w_fl = (\<lambda>_. fl_init undefined [] path_empty LS_UNKNOWN),
     w_nextfl = 4\<rparr>"

lemma demo_race_ok: "race_ok demo_race"
  by (simp add: race_ok_def)

theorem race_semidone_witness:
  "\<exists>r'. w_race (race_reportSemiDone 1 1 demo_world) 1 = Some r' \<and> r_status r' = RUNNING \<and> r_semidone r' = [1]"
proof -
  have r: "w_race demo_world 1 = Some demo_race" by (simp add: demo_world_def)
  obtain r' where r': "w_race (race_reportSemiDone 1 1 demo_world) 1 = Some r'"
    "\<not> (r_status r' \<noteq> RUNNING)" "set (r_semidone r') = {1}" "race_ok r'"
    using race_semidone [OF r demo_race_ok, of 1] by (auto simp: demo_world_def)
  then have "r_semidone r' = [1]"
    by (cases "r_semidone r'") (auto simp: race_ok_def subset_singleton_iff)
  then show ?thesis using r' by simp
qed

subsection \<open>Histories of a job\<close>

text \<open>
  The states of the world a job can be in, by the calls the rest of the program makes on it; a step
  that leaves the job alone may change everything else.
\<close>

inductive race_reach :: "nat \<Rightarrow> world \<Rightarrow> bool" for rid where
  new: "w_race w rid = Some (race_new i profile k) \<Longrightarrow> race_reach rid w"
| elsewhere: "race_reach rid w \<Longrightarrow> w_race w' rid = w_race w rid \<Longrightarrow> race_reach rid w'"
| add_site: "race_reach rid w \<Longrightarrow> w_race w rid = Some r \<Longrightarrow> s \<notin> fst ` set (r_sites r) \<Longrightarrow>
    race_reach rid (on_race rid (race_addSite (w_sr w) s sl) w)"
| remove_site: "race_reach rid w \<Longrightarrow> w_race w rid = Some r \<Longrightarrow> race_removeSite inside s r = Some r' \<Longrightarrow>
    race_reach rid (on_race rid (\<lambda>_. r') w)"
| semidone: "race_reach rid w \<Longrightarrow> w_race w rid = Some r \<Longrightarrow> s \<in> fst ` set (r_sites r) \<Longrightarrow>
    race_reach rid (race_reportSemiDone rid s w)"
| report: "race_reach rid w \<Longrightarrow> w_race w rid = Some r \<Longrightarrow> s \<in> fst ` set (r_sites r) \<Longrightarrow>
    race_reach rid (race_reportDone rid s w)"
| undone: "race_reach rid w \<Longrightarrow> race_reach rid (on_race rid race_setUndone w)"
| reset: "race_reach rid w \<Longrightarrow> race_reach rid (on_race rid race_reset w)"
| abort: "race_reach rid w \<Longrightarrow> race_reach rid (on_race rid (race_abort (w_sr w)) w)"
| timeout: "race_reach rid w \<Longrightarrow> race_reach rid (on_race rid (race_setTimeout (w_sr w)) w)"
| tick: "race_reach rid w \<Longrightarrow> race_reach rid (on_race rid (race_tick (w_sr w)) w)"
| attempt: "race_reach rid w \<Longrightarrow> race_reach rid (on_race rid (race_addTransferAttempt f src dst) w)"
| sizes: "race_reach rid w \<Longrightarrow> race_reach rid (on_race rid (race_reportSize ord s fl sub uniques final) w)"

definition race_core :: "race \<Rightarrow> (nat \<times> nat) list \<times> nat list \<times> nat list \<times> race_status \<times> bool" where
  "race_core r = (r_sites r, r_semidone r, r_done r, r_status r, r_poke r)"

lemma race_ok_core: "race_core r' = race_core r \<Longrightarrow> race_ok r' = race_ok r"
  by (simp add: race_core_def race_ok_def)

lemma report_names_core: "race_core (fst (fold (report_name s fl sub) ns (r, b))) = race_core r"
proof (induction ns arbitrary: r b)
  case (Cons n ns)
  obtain r1 b1 where p: "report_name s fl sub n (r, b) = (r1, b1)" by fastforce
  then have "race_core r1 = race_core r"
    by (auto simp: report_name_def Let_def race_core_def split: option.splits prod.splits if_splits)
  then show ?case using p Cons.IH by simp
qed simp

lemma reportSize_core: "race_core (race_reportSize ord s fl sub uniques final r) = race_core r"
proof -
  obtain r1 b where p: "fold (report_name s fl sub) uniques
      (r\<lparr>r_trackers := AList.map_default sub [] id (r_trackers r)\<rparr>, False) = (r1, b)" by fastforce
  have "race_core r1 = race_core r"
    using report_names_core [of s fl sub uniques "r\<lparr>r_trackers := AList.map_default sub [] id (r_trackers r)\<rparr>" False]
    unfolding p by (simp add: race_core_def)
  then show ?thesis
    unfolding race_reportSize_def p Let_def
    by (simp add: race_core_def race_recalculateBestUnknown_def race_calculateTotal_def)
qed

lemma addAttempt_core: "race_core (race_addTransferAttempt f src dst r) = race_core r"
  by (simp add: race_core_def race_addTransferAttempt_def count_attempt_def Let_def)

lemma set_site_insert: "set (site_insert srs p ps) \<subseteq> insert p (set ps)" "set ps \<subseteq> set (site_insert srs p ps)"
  by (induction ps) auto

lemma distinct_site_insert:
  "distinct (map fst ps) \<Longrightarrow> fst p \<notin> fst ` set ps \<Longrightarrow> distinct (map fst (site_insert srs p ps))"
proof (induction ps)
  case (Cons q qs)
  then show ?case using set_site_insert(1) [of srs p qs] by (force simp: image_iff)
qed simp

lemma remove_site_filter: "distinct (map fst ps) \<Longrightarrow> remove_site s ps = filter (\<lambda>p. fst p \<noteq> s) ps"
proof (induction ps)
  case (Cons p ps)
  then have "filter (\<lambda>q. fst q \<noteq> fst p) ps = ps" by (auto simp: filter_id_conv image_iff)
  then show ?case using Cons by auto
qed simp

lemma race_new_ok: "race_ok (race_new i profile k)"
  by (simp add: race_ok_def race_new_def race_fields)

lemma race_removeSite_ok: "race_ok r \<Longrightarrow> race_removeSite inside s r = Some r' \<Longrightarrow> race_ok r'"
proof -
  assume ok: "race_ok r" and "race_removeSite inside s r = Some r'"
  then have r': "r' = r\<lparr>r_sites := remove_site s (r_sites r), r_semidone := removeAll s (r_semidone r),
       r_done := removeAll s (r_done r), r_sizes := AList.delete s (r_sizes r),
       r_sfvreports := map (\<lambda>(sub, ss). (sub, removeAll s ss)) (r_sfvreports r)\<rparr>"
    by (simp add: race_removeSite_def split: if_splits)
  show ?thesis
    using ok by (auto simp: r' race_ok_def remove_site_filter distinct_removeAll distinct_map_filter)
qed

text \<open>Removing a site that is there by its \<open>SiteLogic\<close> uses a reference into the erased node.\<close>

lemma removeSiteLogic_dangles: "race_removeSiteLogic sl r = None \<longleftrightarrow> sl \<in> snd ` set (r_sites r)"
proof (cases "find (\<lambda>p. snd p = sl) (r_sites r)")
  case None
  then have "sl \<notin> snd ` set (r_sites r)" by (auto simp: find_None_iff)
  with None show ?thesis by (simp add: race_removeSiteLogic_def)
next
  case (Some p)
  then have "p \<in> set (r_sites r)" "snd p = sl" by (auto simp: find_Some_iff)
  with Some show ?thesis by (auto simp: race_removeSiteLogic_def race_removeSite_def)
qed

lemma race_addSite_ok:
  assumes "race_ok r" "s \<notin> fst ` set (r_sites r)"
  shows "race_ok (race_addSite srs s sl r)"
proof -
  have "fst ` set (r_sites r) \<subseteq> fst ` set (site_insert srs (s, sl) (r_sites r))"
    by (intro image_mono set_site_insert)
  then show ?thesis
    using assms by (simp add: race_ok_def race_addSite_def distinct_site_insert) blast
qed

lemma reportSemiDone_ok:
  assumes "w_race w rid = Some r" "race_ok r" "s \<in> fst ` set (r_sites r)"
  shows "\<exists>r'. w_race (race_reportSemiDone rid s w) rid = Some r' \<and> race_ok r' \<and> s \<in> set (r_semidone r')
    \<and> r_sites r' = r_sites r \<and> r_done r' = r_done r"
proof (cases "s \<in> set (r_semidone r)")
  case True
  then show ?thesis using assms by (simp add: race_reportSemiDone_def)
next
  case False
  have "race_ok (r\<lparr>r_semidone := r_semidone r @ [s]\<rparr>)" using assms False by (auto simp: race_ok_def)
  moreover have "race_ok (race_setDone srs q)" if "race_ok q" for srs q
    using that by (simp add: race_ok_def race_fields)
  ultimately show ?thesis
    using reportSemiDone_result [OF assms False]
    by (cases "all_reported (w_sr w) r (insert s (set (r_semidone r)))") (auto simp: race_fields)
qed

lemma reportDone_ok:
  assumes "w_race w rid = Some r" "race_ok r" "s \<in> fst ` set (r_sites r)"
  shows "\<exists>r'. w_race (race_reportDone rid s w) rid = Some r' \<and> race_ok r'"
proof (cases "s \<in> set (r_done r)")
  case True
  then show ?thesis using assms by (simp add: race_reportDone_def)
next
  case False
  obtain r1 where r1: "w_race (race_reportSemiDone rid s w) rid = Some r1" "race_ok r1" "s \<in> set (r_semidone r1)"
      "r_done r1 = r_done r"
    using reportSemiDone_ok [OF assms] by blast
  have "race_ok (r1\<lparr>r_done := r_done r1 @ [s]\<rparr>)" using r1 False by (auto simp: race_ok_def)
  moreover have "race_ok (race_setDone srs q)" if "race_ok q" for srs q
    using that by (simp add: race_ok_def race_fields)
  ultimately show ?thesis
    using r1(1) False assms(1) by (simp add: race_reportDone_def Let_def)
qed

text \<open>
  C21. In every history of a job: no site is recorded twice, neither among its sites nor among those that
  have reported or are done; the sites that are done are among those that have reported, and these
  among its sites, also after sites were removed; and the job's clock runs exactly while its status is
  running.  Nothing is said of a removal after which every site left has reported: the job runs on.
\<close>

theorem race_history:
  assumes "race_reach rid w"
  shows "\<exists>r. w_race w rid = Some r \<and> race_ok r"
  using assms
proof (induction rule: race_reach.induct)
  case (semidone w r s)
  then show ?case using reportSemiDone_ok by fastforce
next
  case (report w r s)
  then show ?case using reportDone_ok by fastforce
next
  case (add_site w r s sl)
  then show ?case using race_addSite_ok by fastforce
next
  case (remove_site w r inside s r')
  then show ?case using race_removeSite_ok by fastforce
qed (auto simp: race_new_ok race_ok_core [OF reportSize_core] race_ok_core [OF addAttempt_core],
  auto simp: race_ok_def race_abort_def race_setTimeout_def race_tick_def race_fields)

theorem race_history_witness:
  "\<exists>w r. race_reach 1 w \<and> w_race w 1 = Some r \<and> race_ok r \<and> r_status r \<noteq> RUNNING"
proof -
  let ?w0 = "demo_world\<lparr>w_race := [1 \<mapsto> race_new 1 SPREAD_RACE 0]\<rparr>"
  have "race_reach 1 ?w0" by (rule race_reach.new) simp
  then have w: "race_reach 1 (on_race 1 (race_abort (w_sr ?w0)) ?w0)" (is "race_reach 1 ?w") by (rule race_reach.abort)
  then obtain r where r: "w_race ?w 1 = Some r" "race_ok r" using race_history [OF w] by blast
  then have "r_status r = ABORTED" by (auto simp: race_abort_def)
  then show ?thesis using w r by auto
qed

subsection \<open>What is moved\<close>

lemma unat_ucast_64: "unat (ucast (x :: u32) :: u64) = unat x"
proof -
  have "unat x < 2 ^ 64" by (rule order.strict_trans2 [OF unsigned_less]) simp
  then show ?thesis by (simp add: unsigned_ucast_eq take_bit_nat_eq_self)
qed

lemma mv_mix_ok:
  assumes "mv_speed t \<noteq> 0" "unat (mv_size t) + unat sz < 2 ^ 64"
  shows "\<exists>u. mv_mix sz speed t = Some u \<and> mv_speed u \<noteq> 0 \<and> mv_size u = mv_size t \<and> mv_files u = mv_files t"
proof (cases "speed \<noteq> 0 \<and> sz \<noteq> 0 \<and> (ucast speed :: u64) < sz")
  case True
  let ?a = "mv_size t div ucast (mv_speed t)" and ?b = "sz div (ucast speed :: u64)"
  have sp: "(ucast speed :: u64) \<noteq> 0" using True unat_ucast_64 [of speed] by (metis unat_eq_0)
  have "unat ?a \<le> unat (mv_size t)" "unat ?b \<le> unat sz" by (simp_all add: unat_div)
  then have "unat ?a + unat ?b < 2 ^ 64" using assms(2) by linarith
  then have s: "unat (?a + ?b) = unat ?a + unat ?b" by (simp add: unat_word_ariths)
  have "0 < unat ?b"
    using True sp by (simp add: unat_div div_greater_zero_iff word_less_nat_alt unat_gt_0 less_imp_le)
  then have "?a + ?b \<noteq> 0" using s by (metis add_gr_0 less_irrefl unat_0)
  then show ?thesis using True assms(1) by (auto simp: mv_mix_def Let_def)
qed (use assms in \<open>auto simp: mv_mix_def\<close>)

text \<open>
  The speed kept beside what was moved is never zero, so that no division by it fails: after any
  files of any sizes and speeds, starting from nothing, as long as the sizes together are below two to
  the sixty-fourth, the size is their sum and the number of files is right modulo the width.
\<close>

theorem moved_speed_safe:
  assumes "sum_list (map (\<lambda>(sz, _). unat sz) hs) < 2 ^ 64"
  shows "\<exists>t. fold (\<lambda>(sz, speed) t. Option.bind t (mv_add sz speed)) hs (Some no_stat) = Some t
    \<and> mv_speed t \<noteq> 0 \<and> unat (mv_size t) = sum_list (map (\<lambda>(sz, _). unat sz) hs)
    \<and> mv_files t = of_nat (length hs)"
  using assms
proof (induction hs rule: rev_induct)
  case Nil
  then show ?case by (simp add: no_stat_def)
next
  case (snoc h hs)
  obtain sz speed where h: "h = (sz, speed)" by (cases h)
  have lt: "sum_list (map (\<lambda>(sz, _). unat sz) hs) + unat sz < 2 ^ 64" using snoc.prems by (simp add: h)
  then obtain t where t: "fold (\<lambda>(sz, speed) t. Option.bind t (mv_add sz speed)) hs (Some no_stat) = Some t"
      "mv_speed t \<noteq> 0" "unat (mv_size t) = sum_list (map (\<lambda>(sz, _). unat sz) hs)" "mv_files t = of_nat (length hs)"
    using snoc.IH by auto
  obtain u where u: "mv_mix sz speed t = Some u" "mv_speed u \<noteq> 0" "mv_size u = mv_size t" "mv_files u = mv_files t"
    using mv_mix_ok [of t sz speed] t lt by auto
  have "unat (mv_size t + sz) = unat (mv_size t) + unat sz" using t(3) lt by (simp add: unat_word_ariths)
  moreover have "mv_add sz speed t = Some (u\<lparr>mv_size := mv_size t + sz, mv_files := mv_files t + 1\<rparr>)"
    using u by (simp add: mv_add_def)
  ultimately show ?case using t u by (simp add: h)
qed

theorem moved_speed_safe_witness:
  "\<exists>t. fold (\<lambda>(sz, speed) t. Option.bind t (mv_add sz speed)) [(1000, 10), (5, 7)] (Some no_stat) = Some t
    \<and> mv_speed t \<noteq> 0 \<and> unat (mv_size t) = 1005"
  using moved_speed_safe [of "[(1000, 10), (5, 7)]"] by auto

subsection \<open>Jobs nothing happens to\<close>

text \<open>A list nothing happens to.\<close>

definition still_list :: "filelist \<Rightarrow> bool" where
  "still_list fl \<longleftrightarrow> fl_updatestate fl \<noteq> US_CHANGED \<and> \<not> fl_hasFilesUploading fl"

definition still_job :: "(nat \<times> nat) list \<Rightarrow> 'w world_scheme \<Rightarrow> bool" where
  "still_job sites w \<longleftrightarrow>
     (\<forall>p\<in>set sites. \<forall>q\<in>set (sr_lists (w_sr w (fst p))). \<not> sr_isDone (w_sr w (fst p)) \<longrightarrow> still_list (w_fl w (snd q)))"

text \<open>Nothing but update states of lists goes down.\<close>

definition only_calmer :: "'w world_scheme \<Rightarrow> 'w world_scheme \<Rightarrow> bool" where
  "only_calmer w w' \<longleftrightarrow> w_race w' = w_race w \<and> w_sr w' = w_sr w
     \<and> (\<forall>l. w_fl w' l = w_fl w l \<or> w_fl w' l = fl_resetUpdateState (w_fl w l))"

lemma still_reset: "still_list fl \<Longrightarrow> still_list (fl_resetUpdateState fl)"
  by (simp add: still_list_def fl_resetUpdateState_def fl_hasFilesUploading_def)

lemma only_calmer_refl: "only_calmer w w"
  by (simp add: only_calmer_def)

lemma only_calmer_trans: "only_calmer u v \<Longrightarrow> only_calmer v w \<Longrightarrow> only_calmer u w"
proof -
  have "fl_resetUpdateState (fl_resetUpdateState fl) = fl_resetUpdateState fl" for fl
    by (simp add: fl_resetUpdateState_def)
  then show "only_calmer u v \<Longrightarrow> only_calmer v w \<Longrightarrow> only_calmer u w"
    unfolding only_calmer_def by metis
qed

lemma only_calmer_still: "only_calmer w w' \<Longrightarrow> still_job sites w \<Longrightarrow> still_job sites w'"
  unfolding only_calmer_def still_job_def using still_reset by metis

lemma resetListsRefreshed_calmer: "only_calmer w (sr_resetListsRefreshed s w)"
proof -
  have "only_calmer w (fold (\<lambda>p w. if \<not> sr_isSubPathComplete (sr_getSubPathForFileList (snd p) (w_sr w s)) (w_sr w s)
                  then on_fl (snd p) fl_resetUpdateState w else w) ls w)" for ls :: "(string \<times> nat) list"
  proof (induction ls arbitrary: w)
    case (Cons p ls)
    have "only_calmer w (on_fl (snd p) fl_resetUpdateState w)"
      by (simp add: only_calmer_def on_fl_def)
    then show ?case using Cons.IH only_calmer_trans by fastforce
  qed (simp add: only_calmer_refl)
  then show ?thesis by (simp add: sr_resetListsRefreshed_def)
qed

lemma still_no_change:
  assumes "\<And>q. q \<in> set (sr_lists (w_sr w s)) \<Longrightarrow> still_list (w_fl w (snd q))"
  shows "sr_listsChangedSinceLastCheck s w = (w, False)"
proof -
  have "\<forall>q\<in>set ls. still_list (w_fl w (snd q)) \<Longrightarrow>
      fold (\<lambda>p (w, changed).
         if fl_updatestate (w_fl w (snd p)) = US_CHANGED then (on_fl (snd p) fl_resetUpdateState w, True)
         else (w, changed \<or> fl_hasFilesUploading (w_fl w (snd p)))) ls (w, False) = (w, False)" for ls :: "(string \<times> nat) list"
    by (induction ls) (auto simp: still_list_def)
  then show ?thesis using assms by (simp add: sr_listsChangedSinceLastCheck_def)
qed

lemma check_site_still:
  assumes "still_job sites w" "p \<in> set sites"
  shows "\<exists>w' f. check_site logins p (w, c, refreshed) = (w', c, f) \<and> only_calmer w w'
    \<and> (logins (snd p) = 0 \<longrightarrow> f = refreshed)"
proof (cases "sr_isDone (w_sr w (fst p))")
  case True
  then show ?thesis by (simp add: check_site_def only_calmer_refl)
next
  case False
  then have "sr_listsChangedSinceLastCheck (fst p) w = (w, False)"
    using assms by (intro still_no_change) (auto simp: still_job_def)
  then show ?thesis
    using False resetListsRefreshed_calmer only_calmer_refl by (auto simp: check_site_def Let_def)
qed

lemma check_sites_still:
  assumes "still_job sites w" "set ps \<subseteq> set sites"
  shows "\<exists>w' f. fold (check_site logins) ps (w, c, refreshed) = (w', c, f) \<and> only_calmer w w'
    \<and> ((\<forall>p\<in>set ps. logins (snd p) = 0) \<longrightarrow> f = refreshed)"
  using assms
proof (induction ps arbitrary: w refreshed)
  case Nil
  then show ?case by (simp add: only_calmer_refl)
next
  case (Cons p ps)
  obtain w1 f1 where 1: "check_site logins p (w, c, refreshed) = (w1, c, f1)" "only_calmer w w1"
      "logins (snd p) = 0 \<longrightarrow> f1 = refreshed"
    using check_site_still [OF Cons.prems(1), of p] Cons.prems(2) by auto blast
  have "still_job sites w1" using 1(2) Cons.prems(1) by (rule only_calmer_still)
  then obtain w2 f2 where 2: "fold (check_site logins) ps (w1, c, f1) = (w2, c, f2)" "only_calmer w1 w2"
      "(\<forall>p\<in>set ps. logins (snd p) = 0) \<longrightarrow> f2 = f1"
    using Cons.IH [of w1 f1] Cons.prems(2) by auto
  then show ?case using 1 only_calmer_trans by (intro exI [of _ w2] exI [of _ f2]) auto
qed

text \<open>Checks one after the other until one gives the job up; the logins may change between them.\<close>

fun checks :: "(nat \<Rightarrow> nat \<Rightarrow> int) \<Rightarrow> nat \<Rightarrow> nat \<Rightarrow> 'w world_scheme \<Rightarrow> int option" where
  "checks logins rid 0 w = None"
| "checks logins rid (Suc n) w =
     (case race_timeoutCheck (logins n) rid w of
        None \<Rightarrow> None
      | Some (w', res) \<Rightarrow> if res \<noteq> - 1 then Some res else checks logins rid n w')"

lemma timeoutCheck_still:
  assumes "w_race w rid = Some r" "still_job (r_sites r) w" "r_checkcount r < 1200"
  shows "\<exists>w' res. race_timeoutCheck logins rid w = Some (w', res)
    \<and> (res = 60 \<or> res = - 1 \<and> w_race w' rid = Some (r\<lparr>r_checkcount := r_checkcount r + 1\<rparr>) \<and> still_job (r_sites r) w')
    \<and> ((\<forall>p\<in>set (r_sites r). logins (snd p) = 0) \<longrightarrow> 60 < r_checkcount r \<longrightarrow> res = 60)"
proof -
  obtain w1 f where w1: "fold (check_site logins) (r_sites r) (w, r_checkcount r, True) = (w1, r_checkcount r, f)"
      "only_calmer w w1" "(\<forall>p\<in>set (r_sites r). logins (snd p) = 0) \<longrightarrow> f = True"
    using check_sites_still [OF assms(2) order_refl] by blast
  have "still_job (r_sites r) w1" using w1(2) assms(2) by (rule only_calmer_still)
  moreover have "still_job ss (on_race i g w1) = still_job ss w1" for ss i g
    by (simp add: still_job_def on_race_def)
  moreover have "w_race w1 rid = Some r" using w1(2) assms(1) by (simp add: only_calmer_def)
  ultimately show ?thesis
    using assms(1,3) w1(1,3)
    by (auto simp: race_timeoutCheck_def MAX_CHECKS_BEFORE_HARD_TIMEOUT_def MAX_CHECKS_BEFORE_TIMEOUT_def Let_def)
qed

lemma checks_hard:
  "w_race w rid = Some r \<Longrightarrow> still_job (r_sites r) w \<Longrightarrow> 1200 - r_checkcount r < int n \<Longrightarrow> 0 < n \<Longrightarrow>
     checks logins rid n w \<in> {Some 60, Some 1200}"
proof (induction n arbitrary: w r)
  case (Suc n)
  show ?case
  proof (cases "r_checkcount r < 1200")
    case True
    then obtain w' res where c: "race_timeoutCheck (logins n) rid w = Some (w', res)"
      "res = 60 \<or> res = - 1 \<and> w_race w' rid = Some (r\<lparr>r_checkcount := r_checkcount r + 1\<rparr>) \<and> still_job (r_sites r) w'"
      using timeoutCheck_still [OF Suc.prems(1,2)] by blast
    then show ?thesis
      using Suc.IH [of w' "r\<lparr>r_checkcount := r_checkcount r + 1\<rparr>"] Suc.prems(3) True by auto
  next
    case False
    then show ?thesis
      using Suc.prems(1) by (simp add: race_timeoutCheck_def MAX_CHECKS_BEFORE_HARD_TIMEOUT_def)
  qed
qed simp

lemma checks_soft:
  "w_race w rid = Some r \<Longrightarrow> still_job (r_sites r) w \<Longrightarrow> 61 - r_checkcount r < int n \<Longrightarrow> r_checkcount r \<le> 61 \<Longrightarrow>
     \<forall>k. \<forall>p\<in>set (r_sites r). logins k (snd p) = 0 \<Longrightarrow> checks logins rid n w = Some 60"
proof (induction n arbitrary: w r)
  case (Suc n)
  have lt: "r_checkcount r < 1200" using Suc.prems(4) by simp
  obtain w' res where c: "race_timeoutCheck (logins n) rid w = Some (w', res)"
      "res = 60 \<or> res = - 1 \<and> w_race w' rid = Some (r\<lparr>r_checkcount := r_checkcount r + 1\<rparr>) \<and> still_job (r_sites r) w'"
      "(\<forall>p\<in>set (r_sites r). logins n (snd p) = 0) \<longrightarrow> 60 < r_checkcount r \<longrightarrow> res = 60"
    using timeoutCheck_still [OF Suc.prems(1,2) lt] by blast
  show ?case
  proof (cases "res = 60")
    case False
    with c(2,3) Suc.prems(4,5) have "r_checkcount r \<le> 60" by (meson not_le)
    then show ?thesis
      using False c(1,2) Suc.IH [of w' "r\<lparr>r_checkcount := r_checkcount r + 1\<rparr>"] Suc.prems(3,5) by auto
  qed (use c(1) in auto)
qed simp

text \<open>
  C22. A job to which nothing happens is given up.  If no list of a site that is still running changes
  or has uploads, then of a row of 1201 checks that starts with any check count from 0 on one gives the
  job up, whatever logins come and go and whether or not its lists are ever refreshed; and if none of
  its sites has a login, then one of the first 62 checks does.
\<close>

theorem race_checks_end:
  assumes "w_race w rid = Some r" and "0 \<le> r_checkcount r"
    and "\<forall>p\<in>set (r_sites r). sr_isDone (w_sr w (fst p)) \<or> (\<forall>q\<in>set (sr_lists (w_sr w (fst p))).
      fl_updatestate (w_fl w (snd q)) \<noteq> US_CHANGED \<and> \<not> fl_hasFilesUploading (w_fl w (snd q)))"
  shows "checks logins rid 1201 w \<in> {Some 60, Some 1200}
    \<and> (r_checkcount r \<le> 61 \<longrightarrow> (\<forall>k. \<forall>p\<in>set (r_sites r). logins k (snd p) = 0) \<longrightarrow> checks logins rid 62 w = Some 60)"
proof -
  have s: "still_job (r_sites r) w" using assms(3) by (auto simp: still_job_def still_list_def)
  show ?thesis
    using checks_hard [OF assms(1) s, of 1201 logins] checks_soft [OF assms(1) s, of 62 logins] assms(2)
    by simp
qed

theorem race_checks_end_witness:
  "checks (\<lambda>_ _. 0) 1 62 demo_world = Some 60"
proof -
  have r: "w_race demo_world 1 = Some demo_race" "r_checkcount demo_race = 0"
    by (simp_all add: demo_world_def demo_race_def race_new_def race_setUndone_def
        race_clearTransferAttempts_def race_resetUpdateCheckCounter_def)
  then show ?thesis
    using race_checks_end [OF r(1), of "\<lambda>_ _. 0"]
    by (simp add: demo_world_def fl_init_def fl_hasFilesUploading_def)
qed

end
