(* ===== verification/SiteRaceInv.thy ===== *)
theory SiteRaceInv
  imports RaceInv
begin

text \<open>
  What holds of the directories of a job on a site (\<open>src/siterace.cpp\<close>) in every history, and why
  marking nonexistent directories ends.
\<close>

subsection \<open>The lists of a job on a site\<close>

definition lists_ok :: "'w world_scheme \<Rightarrow> siterace \<Rightarrow> bool" where
  "lists_ok w s \<longleftrightarrow>
     distinct (map fst (sr_lists s)) \<and> distinct (map snd (sr_lists s)) \<and> [] \<in> fst ` set (sr_lists s)
     \<and> set (sr_recent s) \<subseteq> fst ` set (sr_lists s) \<and> set (sr_complete s) \<subseteq> fst ` set (sr_lists s)
     \<and> (\<forall>p\<in>set (sr_lists s). snd p < w_nextfl w)"

lemma lists_ok_mono: "lists_ok w s \<Longrightarrow> w_nextfl w \<le> w_nextfl w' \<Longrightarrow> lists_ok w' s"
  unfolding lists_ok_def using order_less_le_trans by blast

lemma on_race_frame [simp]: "w_fl (on_race r f w) = w_fl w" "w_nextfl (on_race r f w) = w_nextfl w"
  by (simp_all add: on_race_def)

lemma on_fl_frame [simp]: "w_sr (on_fl l f w) = w_sr w" "w_race (on_fl l f w) = w_race w"
  "w_nextfl (on_fl l f w) = w_nextfl w"
  by (simp_all add: on_fl_def)

lemma on_sr_frame [simp]: "w_fl (on_sr s f w) = w_fl w" "w_nextfl (on_sr s f w) = w_nextfl w"
  "w_sr (on_sr s f w) s = f (w_sr w s)"
  by (simp_all add: on_sr_def)

lemma lists_ok_frame [simp]:
  "lists_ok (on_race r f w) = lists_ok w" "lists_ok (on_fl l g w) = lists_ok w" "lists_ok (on_sr s h w) = lists_ok w"
  by (simp_all add: lists_ok_def fun_eq_iff)

lemma new_list_props:
  assumes "new_list u p st w = (w', l)"
  shows "l = w_nextfl w" "w_nextfl w' = w_nextfl w + 1" "w_sr w' = w_sr w" "w_race w' = w_race w"
    "w_fl w' = (w_fl w)(l := fl_init (w_fl w l) u p st)"
  using assms by (auto simp: new_list_def Let_def)

lemma sr_root_mem: "lists_ok w s \<Longrightarrow> ([], sr_root s) \<in> set (sr_lists s)"
  by (auto simp: lists_ok_def sr_root_def)

lemma subPath_mem: "lists_ok w s \<Longrightarrow> sr_getSubPathForFileList l s \<in> fst ` set (sr_lists s)"
proof (cases "find (\<lambda>p. snd p = l) (sr_lists s)")
  case (Some p)
  then have "p \<in> set (sr_lists s)" by (auto simp: find_Some_iff)
  then show ?thesis using Some by (simp add: sr_getSubPathForFileList_def)
qed (simp add: sr_getSubPathForFileList_def lists_ok_def)

lemma update_new: "map_of xs k = None \<Longrightarrow> AList.update k v xs = xs @ [(k, v)]"
  by (induction xs) (auto split: if_splits)

lemma addSubDirectory_lists:
  assumes "lists_ok w (w_sr w s)"
  shows "lists_ok (fst (sr_addSubDirectory sk s sub known w)) (w_sr (fst (sr_addSubDirectory sk s sub known w)) s)"
proof -
  let ?sr = "w_sr w s"
  obtain w1 l where n: "new_list (sr_username ?sr) (path_concat (sr_path ?sr) (path_new sub))
      (if known then LS_EXISTS else LS_UNKNOWN) w = (w1, l)" by fastforce
  note p = new_list_props [OF n]
  have ok: "lists_ok w1 (?sr\<lparr>sr_lists := AList.update sub l (sr_lists ?sr), sr_recent := sr_recent ?sr @ [sub]\<rparr>)"
    if "sr_getFileListForPath sub ?sr = None"
  proof -
    have "AList.update sub l (sr_lists ?sr) = sr_lists ?sr @ [(sub, l)]"
      using that by (simp add: sr_getFileListForPath_def update_new)
    then show ?thesis
      using assms that p(1,2) by (auto simp: lists_ok_def sr_getFileListForPath_def map_of_eq_None_iff)
  qed
  show ?thesis
    using assms ok p(3) n by (cases known) (auto simp: sr_addSubDirectory_def Let_def split: option.split)
qed


lemma updateNumFiles_lists:
  "lists_ok w (w_sr w s) \<Longrightarrow>
     lists_ok (sr_updateNumFilesUploaded ord s l w) (w_sr (sr_updateNumFilesUploaded ord s l w) s)"
  by (auto simp: sr_updateNumFilesUploaded_def Let_def lists_ok_def split: option.split prod.split)

lemma add_directory_lists:
  assumes "lists_ok w (w_sr w s)"
  shows "lists_ok (add_directory sk s l k f w) (w_sr (add_directory sk s l k f w) s)"
  using assms addSubDirectory_lists [OF assms]
  by (auto simp: add_directory_def Let_def split: option.split)

lemma addNewDirectories_lists:
  assumes "lists_ok w (w_sr w s)"
  shows "lists_ok (sr_addNewDirectories sk s l w) (w_sr (sr_addNewDirectories sk s l w) s)"
proof -
  have "lists_ok v (w_sr v s) \<Longrightarrow> lists_ok (fold (add_directory sk s l k) fs v) (w_sr (fold (add_directory sk s l k) fs v) s)"
    for k fs and v :: "'a world_scheme"
    by (induction fs arbitrary: v) (simp_all add: add_directory_lists)
  then show ?thesis using assms by (auto simp: sr_addNewDirectories_def split: option.split)
qed

text \<open>Marking changes states of lists only.\<close>

definition marked :: "'w world_scheme \<Rightarrow> 'w world_scheme \<Rightarrow> bool" where
  "marked w w' \<longleftrightarrow> w_sr w' = w_sr w \<and> w_race w' = w_race w \<and> w_nextfl w' = w_nextfl w
     \<and> (\<forall>x. fl_path (w_fl w' x) = fl_path (w_fl w x)
          \<and> (fl_state (w_fl w' x) = fl_state (w_fl w x)
             \<or> fl_state (w_fl w x) = LS_UNKNOWN \<and> fl_state (w_fl w' x) = LS_NONEXISTENT))"

lemma marked_refl: "marked w w"
  by (simp add: marked_def)

lemma marked_trans: "marked u v \<Longrightarrow> marked v w \<Longrightarrow> marked u w"
  unfolding marked_def by (metis list_state.distinct(1))

lemma marked_bump: "marked w (on_fl k (\<lambda>f. fst (fl_bumpUpdateState US_REFRESHED f)) w)"
  by (auto simp: marked_def on_fl_def fl_bumpUpdateState_def Let_def)

lemma marked_gone: "fl_state (w_fl w k) = LS_UNKNOWN \<Longrightarrow> marked w (on_fl k (\<lambda>f. f\<lparr>fl_state := LS_NONEXISTENT\<rparr>) w)"
  by (auto simp: marked_def on_fl_def)

definition below :: "'w world_scheme \<Rightarrow> nat \<Rightarrow> nat \<Rightarrow> bool" where
  "below w l k \<longleftrightarrow> k \<noteq> l \<and> path_contains (fl_path (w_fl w k)) (fl_path (w_fl w l))"

lemma below_marked: "marked w w' \<Longrightarrow> below w' l k = below w l k"
  by (simp add: below_def marked_def)

lemma mark_lists_returns:
  assumes "\<And>k v. k \<in> set ks \<Longrightarrow> below w l k \<Longrightarrow> marked w v \<Longrightarrow> \<exists>v'. rec k v = Some v' \<and> marked v v'"
  shows "\<exists>w'. mark_lists rec l ks w = Some w' \<and> marked w w'"
  using assms
proof (induction ks arbitrary: w)
  case Nil
  then show ?case by (simp add: marked_refl)
next
  case (Cons k ks)
  have rest: "\<exists>v'. mark_lists rec l ks v = Some v' \<and> marked v v'" if "marked w v" for v
    using Cons.IH [of v] Cons.prems below_marked [OF that] marked_trans [OF that] by simp
  show ?case
  proof (cases "to_mark w l k")
    case False
    then show ?thesis using rest [OF marked_refl] by simp
  next
    case True
    then have b: "below w l k" by (auto simp: to_mark_def below_def Let_def)
    define w1 where "w1 = (if fl_state (w_fl w k) = LS_UNKNOWN then on_fl k (\<lambda>f. f\<lparr>fl_state := LS_NONEXISTENT\<rparr>) w else w)"
    have w1: "marked w w1" by (auto simp: w1_def marked_refl marked_gone)
    have step: "mark_lists rec l (k # ks) w =
      (if fl_state (w_fl w1 k) = LS_NONEXISTENT
       then Option.bind (rec k (on_fl k (\<lambda>f. fst (fl_bumpUpdateState US_REFRESHED f)) w1)) (mark_lists rec l ks)
       else mark_lists rec l ks w1)"
      using True by (simp add: Let_def w1_def)
    obtain w2 where w2: "rec k (on_fl k (\<lambda>f. fst (fl_bumpUpdateState US_REFRESHED f)) w1) = Some w2"
        "marked w w2"
      using Cons.prems [of k "on_fl k (\<lambda>f. fst (fl_bumpUpdateState US_REFRESHED f)) w1"]
        b marked_trans [OF w1 marked_bump] marked_trans by fastforce
    show ?thesis
      unfolding step using rest [OF w1] rest [OF w2(2)] w2 w1 marked_trans by fastforce
  qed
qed

lemma contains_longer:
  assumes "path_contains p q" "p_unix p \<noteq> p_unix q"
  shows "length (p_unix q) < length (p_unix p)"
  using assms by (cases "length (p_unix p) = length (p_unix q)") (auto simp: path_contains_def)

definition path_length :: "'w world_scheme \<Rightarrow> nat \<Rightarrow> nat" where
  "path_length w l = length (p_unix (fl_path (w_fl w l)))"

text \<open>
  C23. Marking the directories below one that is gone ends: if the lists of the site have paths that
  differ, then a depth of recursion above the length of the longest path is enough; and all that happens
  to lists is that unknown ones become nonexistent and that update states rise.
\<close>

theorem mark_nonexistent_ends:
  fixes w :: "'w world_scheme" and s :: nat
  defines "ls \<equiv> snd ` set (sr_lists (w_sr w s))"
  assumes "\<And>xs. set (ord xs) = set xs"
    and "inj_on (\<lambda>l. p_unix (fl_path (w_fl w l))) ls"
    and "\<And>x. x \<in> ls \<Longrightarrow> path_length w x < fuel"
  shows "\<exists>w'. sr_markNonExistent (Suc fuel) ord s l w = Some w' \<and> marked w w'"
proof -
  have "\<exists>v'. sr_markNonExistent (Suc n) ord s k v = Some v' \<and> marked v v'"
    if "marked w v" "k \<in> ls \<Longrightarrow> fuel \<le> path_length w k + n" for n k v
    using that
  proof (induction n arbitrary: k v)
    case (0 k v)
    then have "k \<notin> ls" using assms(4) by fastforce
    then have "k \<notin> snd ` set (ord (sr_lists (w_sr v s)))" using 0(1) assms(2) by (simp add: marked_def ls_def)
    then show ?case by (simp add: Let_def marked_refl)
  next
    case (Suc n k v)
    have sv: "snd ` set (ord (sr_lists (w_sr v s))) = ls" using Suc.prems(1) assms(2) by (simp add: marked_def ls_def)
    show ?case
    proof (cases "k \<in> ls")
      case False
      then show ?thesis using sv by (simp add: Let_def marked_refl)
    next
      case True
      have "\<exists>u'. sr_markNonExistent (Suc n) ord s j u = Some u' \<and> marked u u'"
        if j: "j \<in> ls" "below v k j" "marked v u" for j u
      proof (rule Suc.IH)
        show "marked w u" using Suc.prems(1) j(3) by (rule marked_trans)
        have "below w k j" using j(2) below_marked [OF Suc.prems(1)] by simp
        then have "path_length w k < path_length w j"
          using contains_longer assms(3) True j(1) by (auto simp: below_def path_length_def inj_on_def)
        then show "fuel \<le> path_length w j + n" using Suc.prems(2) [OF True] by simp
      qed
      then have "\<exists>v'. mark_lists (sr_markNonExistent (Suc n) ord s) k (map snd (ord (sr_lists (w_sr v s)))) v = Some v'
          \<and> marked v v'"
        using sv by (intro mark_lists_returns) auto
      then show ?thesis using True sv by (subst sr_markNonExistent.simps(2)) (simp add: Let_def)
    qed
  qed
  from this [OF marked_refl] show ?thesis by simp
qed

text \<open>Two directories below each other for the witness.\<close>

definition nested_world :: world where
  "nested_world =
     (let sub = path_concat path_empty (path_new ''A'')
      in demo_world\<lparr>w_sr := (\<lambda>n. (demo_srs n)\<lparr>sr_lists := [([], 1), (''A'', 2)]\<rparr>),
           w_fl := (\<lambda>l. if l = 1 then fl_init undefined [] path_empty LS_NONEXISTENT
                        else fl_init undefined [] sub LS_UNKNOWN)\<rparr>)"

theorem mark_nonexistent_ends_witness:
  "\<exists>w'. sr_markNonExistent (Suc 8) (\<lambda>xs. xs) 1 1 nested_world = Some w' \<and> marked nested_world w'"
proof -
  have e: "p_unix (fl_path (w_fl nested_world (Suc 0))) = []" "p_unix (fl_path (w_fl nested_world 2)) = ''A''"
    by (simp_all add: nested_world_def Let_def fl_init_def path_empty_def) code_simp
  have ls: "sr_lists (w_sr nested_world (Suc 0)) = [([], Suc 0), (''A'', 2)]"
    by (simp add: nested_world_def Let_def)
  show ?thesis
    by (rule mark_nonexistent_ends) (auto simp: ls e path_length_def)
qed

subsection \<open>Histories of a job on a site\<close>

lemma softReset_lists:
  assumes "lists_ok w (w_sr w s)"
  shows "lists_ok (sr_softReset s w) (w_sr (sr_softReset s w) s)"
proof -
  have "\<exists>w' ls'. fold (renew_list s) xs (v, ls) = (w', ls @ ls') \<and> w_sr w' = w_sr v \<and> w_nextfl v \<le> w_nextfl w'
      \<and> map fst ls' = map fst xs \<and> distinct (map snd ls')
      \<and> (\<forall>p\<in>set ls'. w_nextfl v \<le> snd p \<and> snd p < w_nextfl w')"
    for xs ls and v :: "'a world_scheme"
  proof (induction xs arbitrary: v ls)
    case (Cons x xs)
    obtain v1 l where n: "new_list (sr_username (w_sr v s)) (path_concat (sr_path (w_sr v s)) (path_new (fst x)))
        (if fl_state (w_fl v (snd x)) = LS_LISTED then LS_EXISTS else fl_state (w_fl v (snd x))) v = (v1, l)" by fastforce
    note p = new_list_props [OF n]
    obtain w' ls' where *: "fold (renew_list s) xs (v1, ls @ [(fst x, l)]) = (w', (ls @ [(fst x, l)]) @ ls')"
        "w_sr w' = w_sr v1" "w_nextfl v1 \<le> w_nextfl w'" "map fst ls' = map fst xs" "distinct (map snd ls')"
        "\<forall>p\<in>set ls'. w_nextfl v1 \<le> snd p \<and> snd p < w_nextfl w'"
      using Cons.IH [of v1 "ls @ [(fst x, l)]"] by blast
    have "renew_list s x (v, ls) = (v1, ls @ [(fst x, l)])" using n by (simp add: renew_list_def Let_def)
    then show ?case
      using * p(1-3) by (intro exI [of _ w'] exI [of _ "(fst x, l) # ls'"]) auto
  qed simp
  from this [of "sr_lists (w_sr w s)" w "[]"] obtain w' ls' where
    *: "fold (renew_list s) (sr_lists (w_sr w s)) (w, []) = (w', ls')" "w_sr w' = w_sr w"
      "map fst ls' = map fst (sr_lists (w_sr w s))" "distinct (map snd ls')" "\<forall>p\<in>set ls'. snd p < w_nextfl w'"
    by auto
  have "fst ` set ls' = fst ` set (sr_lists (w_sr w s))" using *(3) by (metis set_map)
  then show ?thesis
    using * assms by (simp add: sr_softReset_def sr_reset_def lists_ok_def)
qed

lemma hardReset_lists: "lists_ok (sr_hardReset s w) (w_sr (sr_hardReset s w) s)"
  by (simp add: sr_hardReset_def new_list_def sr_reset_def lists_ok_def Let_def)

lemma subPathComplete_lists:
  "lists_ok w (w_sr w s) \<Longrightarrow> lists_ok (sr_subPathComplete s l w) (w_sr (sr_subPathComplete s l w) s)"
  using subPath_mem [of w "w_sr w s" l] by (simp add: sr_subPathComplete_def Let_def lists_ok_def)

lemma relevant_loop_set: "set (fst (relevant_loop c p i recent)) \<subseteq> set recent"
proof (induction c p i recent rule: relevant_loop.induct)
  case (1 c p i recent)
  show ?case
  proof (cases "i < length recent")
    case True
    then obtain x xs where x: "recent = x # xs" by (cases recent) auto
    have "set (fst (relevant_loop c p (i + 1) xs)) \<subseteq> set recent" if "c x"
      using 1(2) [OF True refl refl] that by (auto simp: x)
    moreover have "set (fst (relevant_loop c p (i + 1) (xs @ [x]))) \<subseteq> set recent" if "\<not> c x" "\<not> p x"
      using 1(1) [OF True refl refl] that by (auto simp: x)
    ultimately show ?thesis using True by (subst relevant_loop.simps) (auto simp: Let_def x)
  qed (simp add: relevant_loop.simps)
qed

lemma getRelevantSubPath_lists:
  assumes "lists_ok w s"
  shows "lists_ok w (fst (sr_getRelevantSubPath ord w s))"
proof -
  have "lists_ok w (s\<lparr>sr_recent := r\<rparr>)" if "set r \<subseteq> set (sr_recent s)" for r
    using assms that by (auto simp: lists_ok_def)
  then show ?thesis
    using assms relevant_loop_set
    by (auto simp: sr_getRelevantSubPath_def Let_def split: option.split prod.split) (metis fst_conv)
qed

lemma mark_lists_marked:
  assumes "\<And>k v v'. rec k v = Some v' \<Longrightarrow> marked v v'"
  shows "mark_lists rec l ks w = Some w' \<Longrightarrow> marked w w'"
proof (induction ks arbitrary: w)
  case (Cons k ks)
  define w1 where "w1 = (if fl_state (w_fl w k) = LS_UNKNOWN then on_fl k (\<lambda>f. f\<lparr>fl_state := LS_NONEXISTENT\<rparr>) w else w)"
  have w1: "marked w w1" by (auto simp: w1_def marked_refl marked_gone)
  show ?case
  proof (cases "\<not> to_mark w l k \<or> fl_state (w_fl w1 k) \<noteq> LS_NONEXISTENT")
    case True
    then show ?thesis
      using Cons.IH [of w] Cons.IH [of w1] Cons.prems marked_trans [OF w1]
      by (auto simp: Let_def w1_def [symmetric] split: if_splits)
  next
    case False
    then obtain w2 where w2: "rec k (on_fl k (\<lambda>f. fst (fl_bumpUpdateState US_REFRESHED f)) w1) = Some w2"
        "mark_lists rec l ks w2 = Some w'"
      using Cons.prems by (auto simp: Let_def w1_def [symmetric] bind_eq_Some_conv)
    show ?thesis
      using marked_trans [OF marked_trans [OF w1 marked_bump] marked_trans [OF assms [OF w2(1)] Cons.IH [OF w2(2)]]] .
  qed
qed (simp add: marked_refl)

lemma markNonExistent_marked: "sr_markNonExistent n ord s l w = Some w' \<Longrightarrow> marked w w'"
proof (induction n arbitrary: l w w')
  case (Suc n)
  show ?case
  proof (cases "l \<in> set (map snd (ord (sr_lists (w_sr w s))))")
    case True
    then show ?thesis using Suc.prems mark_lists_marked [OF Suc.IH] by (simp add: Let_def)
  next
    case False
    then show ?thesis using Suc.prems by (simp add: Let_def marked_refl)
  qed
qed simp

lemma fileListUpdated_lists:
  assumes "lists_ok w (w_sr w s)" "sr_fileListUpdated fuel ord sk s l w = Some w'"
  shows "lists_ok w' (w_sr w' s)"
proof -
  let ?v = "sr_addNewDirectories sk s l (sr_updateNumFilesUploaded ord s l w)"
  have "lists_ok ?v (w_sr ?v s)"
    by (intro addNewDirectories_lists updateNumFiles_lists assms(1))
  moreover have "marked ?v w'" using assms(2) by (auto simp: sr_fileListUpdated_def dest: markNonExistent_marked)
  ultimately show ?thesis by (simp add: marked_def lists_ok_def)
qed

text \<open>Compiled regular expressions are named by numbers here.\<close>

inductive sr_reach :: "nat \<Rightarrow> world \<Rightarrow> bool" for s where
  new: "sr_reach s (sr_new s rid sitename sec jobname username skip downloadonly w)"
| elsewhere: "sr_reach s w \<Longrightarrow> w_sr w' s = w_sr w s \<Longrightarrow> w_nextfl w \<le> w_nextfl w' \<Longrightarrow> sr_reach s w'"
| finish: "sr_reach s w \<Longrightarrow> sr_reach s (on_sr s (sr_finish st) w)"
| sub_directory: "sr_reach s w \<Longrightarrow> sr_reach s (fst (sr_addSubDirectory (sk :: nat race_skip) s sub known w))"
| updated: "sr_reach s w \<Longrightarrow> sr_fileListUpdated fuel ord (sk :: nat race_skip) s l w = Some w' \<Longrightarrow> sr_reach s w'"
| soft: "sr_reach s w \<Longrightarrow> sr_reach s (sr_softReset s w)"
| hard: "sr_reach s w \<Longrightarrow> sr_reach s (sr_hardReset s w)"
| sub_complete: "sr_reach s w \<Longrightarrow> sr_reach s (sr_subPathComplete s l w)"
| visit: "sr_reach s w \<Longrightarrow> sr_reach s (on_sr s (\<lambda>sr. fst (sr_getRelevantSubPath ord w sr)) w)"

text \<open>
  In every history of a job on a site: its directories have names and list objects of their own,
  the objects exist, the directory of the job itself is always there, and every directory that waits to
  be visited or is complete is one that has a list.  So no lookup of the code that takes a directory for
  granted fails, also after resets.
\<close>

theorem siterace_lists_safe:
  assumes "sr_reach s w"
  shows "distinct (map fst (sr_lists (w_sr w s))) \<and> distinct (map snd (sr_lists (w_sr w s)))
    \<and> (\<forall>p\<in>set (sr_lists (w_sr w s)). snd p < w_nextfl w)
    \<and> map_of (sr_lists (w_sr w s)) [] = Some (sr_root (w_sr w s))
    \<and> (\<forall>sub\<in>set (sr_recent (w_sr w s)) \<union> set (sr_complete (w_sr w s)).
         sr_getFileListForPath sub (w_sr w s) \<noteq> None)"
proof -
  have ok: "lists_ok w (w_sr w s)"
    using assms
  proof (induction rule: sr_reach.induct)
    case (new rid sitename sec jobname username skip downloadonly w)
    then show ?case by (simp add: sr_new_def new_list_def Let_def lists_ok_def sr_init_def)
  next
    case (elsewhere w w')
    then show ?case using lists_ok_mono by fastforce
  next
    case (finish w st)
    then show ?case by (simp add: lists_ok_def sr_finish_def)
  next
    case (updated w fuel ord sk l w')
    then show ?case using fileListUpdated_lists by blast
  next
    case (visit w ord)
    then show ?case using getRelevantSubPath_lists by simp
  qed (simp_all add: addSubDirectory_lists softReset_lists hardReset_lists subPathComplete_lists)
  have "map_of (sr_lists (w_sr w s)) [] = Some (sr_root (w_sr w s))"
    using sr_root_mem [OF ok] ok by (simp add: lists_ok_def)
  then show ?thesis
    using ok by (auto simp: lists_ok_def sr_getFileListForPath_def map_of_eq_None_iff)
qed

theorem siterace_lists_safe_witness:
  "\<exists>w. sr_reach 1 w \<and> map_of (sr_lists (w_sr w 1)) [] = Some (sr_root (w_sr w 1))"
proof -
  have w: "sr_reach 1 (sr_softReset 1 (sr_new 1 1 ''S'' path_empty ''J'' ''u'' 0 False demo_world))"
    by (intro sr_reach.soft sr_reach.new)
  then show ?thesis using siterace_lists_safe [OF w] by blast
qed

end
