(* ===== verification/EngineModel.thy ===== *)
theory EngineModel
  imports RaceInv ScoreBoard MonitorEngage
begin

text \<open>
  The engine that decides what is transferred between the sites of the jobs: the core of
  \<open>src/engine.cpp\<close>, with what it asks of a site (\<open>src/site.cpp\<close>).  This theory has which transfers are
  possible between two sites of a job, and the score of a transfer; \<open>EngineBoards\<close> keeps the boards.  The
  state extends the store of jobs, sites of jobs and file lists by the sites and the two boards of
  possible transfers, the score board and the board of those that failed too often.
\<close>

subsection \<open>Sites\<close>

datatype allow_transfer = ALLOW_NO | ALLOW_YES | ALLOW_MATCH_ONLY

datatype site_priority = P_VERY_LOW | P_LOW | P_NORMAL | P_HIGH | P_VERY_HIGH

text \<open>What the engine asks of a site; the numbers are as configured.\<close>

record race_site = mon_site +
  x_name :: string
  x_allowdown :: allow_transfer
  x_allowup :: allow_transfer
  x_logins :: int
  x_maxup :: int
  x_maxdn :: int
  x_maxdnpre :: int
  x_maxdncomplete :: int
  x_maxdntransferjob :: int
  x_freeslot :: bool
  x_targetsblocked :: bool
  x_excepttargets :: "nat set"
  x_priority :: site_priority
  x_avgspeed :: "string \<Rightarrow> int option"
  x_skip :: nat

definition REPORT_LOGINS_IF_UNLIMITED :: int where
  "REPORT_LOGINS_IF_UNLIMITED = 10"

definition site_getMaxLogins :: "'s race_site_scheme \<Rightarrow> int" where
  "site_getMaxLogins s = (if x_logins s = - 1 then REPORT_LOGINS_IF_UNLIMITED else x_logins s)"

definition site_getMaxUp :: "'s race_site_scheme \<Rightarrow> int" where
  "site_getMaxUp s = (if x_maxup s = - 1 then site_getMaxLogins s else x_maxup s)"

definition site_getMaxDown :: "'s race_site_scheme \<Rightarrow> int" where
  "site_getMaxDown s = (if x_maxdn s = - 1 then site_getMaxLogins s else x_maxdn s)"

definition site_getMaxDownPre :: "'s race_site_scheme \<Rightarrow> int" where
  "site_getMaxDownPre s =
     (if x_maxdnpre s = - 1 then site_getMaxLogins s
      else if x_maxdnpre s = - 2 then site_getMaxDown s else x_maxdnpre s)"

definition site_getMaxDownComplete :: "'s race_site_scheme \<Rightarrow> int" where
  "site_getMaxDownComplete s =
     (if x_maxdncomplete s = - 1 then site_getMaxLogins s
      else if x_maxdncomplete s = - 2 then site_getMaxDown s else x_maxdncomplete s)"

definition site_isAllowedTargetSite :: "'s race_site_scheme \<Rightarrow> 's race_site_scheme \<Rightarrow> bool" where
  "site_isAllowedTargetSite s d \<longleftrightarrow> (s_id d \<in> x_excepttargets s \<longleftrightarrow> x_targetsblocked s)"

definition site_getAverageSpeed :: "string \<Rightarrow> 's race_site_scheme \<Rightarrow> int" where
  "site_getAverageSpeed target s = (case x_avgspeed s target of None \<Rightarrow> 1024 | Some v \<Rightarrow> v)"

definition site_setAverageSpeed :: "string \<Rightarrow> int \<Rightarrow> 's race_site_scheme \<Rightarrow> 's race_site_scheme" where
  "site_setAverageSpeed target speed s = s\<lparr>x_avgspeed := (x_avgspeed s)(target \<mapsto> speed)\<rparr>"

subsection \<open>State\<close>

record engine = world +
  en_site :: "nat \<Rightarrow> race_site"
  en_logins :: "nat \<Rightarrow> int"
  en_sb :: scoreboard
  en_fb :: scoreboard
  en_maxavgspeed :: int
  en_changed :: "(nat \<times> nat \<times> nat) list"
  en_current :: "nat list"

definition MAX_POINTS_FILE_SIZE :: int where
  "MAX_POINTS_FILE_SIZE = 2000"

definition MAX_POINTS_AVG_SPEED :: int where
  "MAX_POINTS_AVG_SPEED = 3000"

definition MAX_POINTS_PRIORITY :: int where
  "MAX_POINTS_PRIORITY = 2500"

definition MAX_POINTS_PERCENTAGE_OWNED :: int where
  "MAX_POINTS_PERCENTAGE_OWNED = 2000"

definition MAX_POINTS_LOW_PROGRESS :: int where
  "MAX_POINTS_LOW_PROGRESS = 2000"

definition NFO_PRIO_AFTER_SEC :: u32 where
  "NFO_PRIO_AFTER_SEC = 15"

subsection \<open>Which transfers are possible\<close>

definition transfer_settings_ok :: "'s race_site_scheme \<Rightarrow> 's race_site_scheme \<Rightarrow> bool" where
  "transfer_settings_ok s d \<longleftrightarrow>
     \<not> (s_brokenpasv s \<and> s_brokenpasv d)
     \<and> transferProtocolCombinationPossible (s_protocol s) (s_protocol d)
     \<and> \<not> (s_policy s = ALWAYS_OFF \<and> s_policy d = ALWAYS_ON \<or> s_policy s = ALWAYS_ON \<and> s_policy d = ALWAYS_OFF)
     \<and> \<not> ((s_policy s = ALWAYS_ON \<or> s_policy d = ALWAYS_ON) \<and> \<not> s_sscn s \<and> \<not> s_sscn d)"

text \<open>For the sites \<open>sls\<close> and \<open>sld\<close> of a job with the parts \<open>srs\<close> and \<open>srd\<close> in it.\<close>

definition raceTransferPossible :: "'e engine_scheme \<Rightarrow> nat \<Rightarrow> nat \<Rightarrow> nat \<Rightarrow> nat \<Rightarrow> bool" where
  "raceTransferPossible e sls srs sld srd \<longleftrightarrow>
     (let s = en_site e sls; d = en_site e sld
      in sls \<noteq> sld
         \<and> x_allowdown s \<noteq> ALLOW_NO
         \<and> (if sr_downloadonly (w_sr e srs) then site_getMaxDownPre s \<noteq> 0
            else if x_allowdown s = ALLOW_MATCH_ONLY then False
            else if sr_isDone (w_sr e srs) then site_getMaxDownComplete s \<noteq> 0
            else site_getMaxDown s \<noteq> 0 \<or> site_getMaxDownComplete s \<noteq> 0)
         \<and> site_getMaxUp d \<noteq> 0
         \<and> x_allowup d \<noteq> ALLOW_NO
         \<and> site_isAllowedTargetSite s d
         \<and> \<not> sr_downloadonly (w_sr e srd)
         \<and> transfer_settings_ok s d)"

text \<open>The check before a job is started, of two sites without parts.\<close>

definition siteTransferPossible :: "race_site \<Rightarrow> bool \<Rightarrow> race_site \<Rightarrow> bool \<Rightarrow> bool" where
  "siteTransferPossible s sdownloadonly d ddownloadonly \<longleftrightarrow>
     s_id s \<noteq> s_id d
     \<and> x_allowdown s \<noteq> ALLOW_NO
     \<and> x_allowup d \<noteq> ALLOW_NO
     \<and> \<not> ddownloadonly
     \<and> (if sdownloadonly then site_getMaxDownPre s \<noteq> 0
        else if site_getMaxDown s = 0 \<and> site_getMaxDownComplete s = 0 then False
        else x_allowdown s \<noteq> ALLOW_MATCH_ONLY)
     \<and> site_getMaxUp d \<noteq> 0
     \<and> site_isAllowedTargetSite s d
     \<and> transfer_settings_ok s d"

definition transferExpectedSoon :: "'e engine_scheme \<Rightarrow> sb_elem \<Rightarrow> bool" where
  "transferExpectedSoon e el \<longleftrightarrow>
     sr_status (w_sr e (e_dstsr el)) = RUNNING
     \<and> en_logins e (e_src el) \<noteq> 0 \<and> en_logins e (e_dst el) \<noteq> 0
     \<and> \<not> e_attempted el
     \<and> fl_contains (e_filename el) (w_fl e (e_fls el))
     \<and> \<not> fl_contains (e_filename el) (w_fl e (e_fld el))"

subsection \<open>Scores\<close>

definition getPrioType :: "dirfile \<Rightarrow> prio_type" where
  "getPrioType f =
     (if f_extension f = ''sfv'' then PRIO else if f_extension f = ''nfo'' then PRIO_LATER else NORMAL)"

text \<open>The products with the doubles 0.2, 0.4 and 0.6 are the whole numbers below.\<close>

fun getPriorityPoints :: "site_priority \<Rightarrow> int" where
  "getPriorityPoints P_VERY_LOW = 0"
| "getPriorityPoints P_LOW = MAX_POINTS_PRIORITY * 2 div 10"
| "getPriorityPoints P_NORMAL = MAX_POINTS_PRIORITY * 4 div 10"
| "getPriorityPoints P_HIGH = MAX_POINTS_PRIORITY * 6 div 10"
| "getPriorityPoints P_VERY_HIGH = MAX_POINTS_PRIORITY"

definition getSpeedPoints :: "int \<Rightarrow> int \<Rightarrow> int" where
  "getSpeedPoints maxavgspeed avgspeed =
     (if maxavgspeed \<noteq> 0
      then sint (ucast ((of_int MAX_POINTS_AVG_SPEED * of_int avgspeed :: u64) div of_int maxavgspeed) :: u32) else 0)"

definition limit_speed :: "int \<Rightarrow> int \<Rightarrow> int" where
  "limit_speed maxavgspeed avgspeed = (if maxavgspeed < avgspeed then maxavgspeed else avgspeed)"

text \<open>Points are added in 16 bits.\<close>

definition size_points :: "u64 \<Rightarrow> u64 \<Rightarrow> u16" where
  "size_points maxfilesize filesize =
     (let m = (if maxfilesize < filesize then filesize else maxfilesize)
      in if m \<noteq> 0 then ucast ((of_int MAX_POINTS_FILE_SIZE * filesize) div m) else 0)"

definition destination_points :: "site_priority \<Rightarrow> bool \<Rightarrow> u32 \<Rightarrow> filelist \<Rightarrow> u16" where
  "destination_points priority racemode maxprogress fld =
     (if racemode then
        (if priority = P_VERY_HIGH then of_int MAX_POINTS_PERCENTAGE_OWNED
         else ucast ((of_int MAX_POINTS_PERCENTAGE_OWNED * of_int (100 - fl_ownpercentage fld) :: u64) div 100))
      else
        (if priority = P_VERY_HIGH then of_int MAX_POINTS_LOW_PROGRESS
         else if sint maxprogress \<noteq> 0
         then ucast ((of_int MAX_POINTS_LOW_PROGRESS * ucast (fl_uploadedfiles fld) :: u64) div of_int (sint maxprogress))
         else 0))"

definition calculateScore :: "int \<Rightarrow> prio_type \<Rightarrow> u64 \<Rightarrow> race \<Rightarrow> siterace \<Rightarrow> filelist \<Rightarrow> int \<Rightarrow> site_priority \<Rightarrow> bool \<Rightarrow> u16" where
  "calculateScore maxavgspeed priotype filesize r srs fld avgspeed priority racemode =
     (if priotype = PRIO \<or> priotype = PRIO_LATER \<and> NFO_PRIO_AFTER_SEC < race_getTimeSpent r then 65535
      else
        size_points (sr_maxfilesize srs) filesize
        + of_int (getSpeedPoints maxavgspeed (limit_speed maxavgspeed avgspeed))
        + destination_points priority racemode (r_maxprogress r) fld
        + of_int (getPriorityPoints priority))"

definition racemode :: "race \<Rightarrow> bool" where
  "racemode r \<longleftrightarrow> r_profile r = SPREAD_RACE"

text \<open>The score of an element anew; a job that is gone does not happen, as the element holds it.\<close>

definition rescore :: "'e engine_scheme \<Rightarrow> sb_elem \<Rightarrow> u16" where
  "rescore e el =
     (let r = the (w_race e (e_race el)); d = en_site e (e_dst el)
      in calculateScore (en_maxavgspeed e) (e_priotype el) (e_filesize el) r (w_sr e (e_srcsr el))
           (w_fl e (e_fld el)) (site_getAverageSpeed (x_name d) (en_site e (e_src el))) (x_priority d) (racemode r))"

definition setSpeedScale :: "'e engine_scheme \<Rightarrow> 'e engine_scheme" where
  "setSpeedScale e =
     e\<lparr>en_maxavgspeed :=
       fold (\<lambda>(s, d) m. let v = site_getAverageSpeed (x_name (en_site e d)) (en_site e s) in if m < v then v else m)
         (concat (map (\<lambda>rid. case w_race e rid of
              None \<Rightarrow> []
            | Some r \<Rightarrow> List.product (map snd (r_sites r)) (map snd (r_sites r))) (en_current e))) 1024\<rparr>"

end
