(* ===== verification/EngineInv.thy ===== *)
theory EngineInv
  imports EngineModel
begin

text \<open>
  What the scores of the engine are: the points as whole numbers, without the wrap-around of the 16
  bits they are added in.
\<close>


lemma unat_u64_of_int: "0 \<le> i \<Longrightarrow> i < 2 ^ 64 \<Longrightarrow> unat (of_int i :: u64) = nat i"
  by (simp add: unat_eq_nat_uint uint_word_of_int_eq take_bit_int_eq_self)

lemma uint_less_of_unat: "unat w < 2 ^ 31 \<Longrightarrow> uint w < 2 ^ 31"
proof -
  assume "unat w < 2 ^ 31"
  then have "int (unat w) < int (2 ^ 31)" by (simp only: of_nat_less_iff)
  then show ?thesis by simp
qed

lemma sint_small: "uint (w :: u32) < 2 ^ 31 \<Longrightarrow> sint w = uint w"
proof -
  assume "uint w < 2 ^ 31"
  moreover have "- (2 ^ 31) \<le> uint w" by (rule order_trans [of _ 0]) simp_all
  ultimately show ?thesis
    using signed_take_bit_int_eq_self [of 31 "uint w"] by (simp add: sint_uint)
qed

lemma unat_small_u16: "unat (w :: u64) < 2 ^ 16 \<Longrightarrow> unat (ucast w :: u16) = unat w"
  by (simp add: unsigned_ucast_eq take_bit_nat_eq_self)

lemma sint_small_u32: "unat (w :: u64) < 2 ^ 31 \<Longrightarrow> sint (ucast w :: u32) = int (unat w)"
proof -
  assume a: "unat w < 2 ^ 31"
  then have "unat (ucast w :: u32) = unat w" by (simp add: unsigned_ucast_eq take_bit_nat_eq_self)
  then have "uint (ucast w :: u32) = int (unat w)" by (metis uint_nat)
  then show ?thesis using uint_less_of_unat [OF a] sint_small [of "ucast w"] by simp
qed

lemma unat_scaled:
  fixes x m :: u64
  assumes "k * unat x < 2 ^ 64" "x \<le> m" "k < 2 ^ 64"
  shows "unat ((of_nat k * x) div m) = k * unat x div unat m \<and> k * unat x div unat m \<le> k"
proof -
  have "unat (of_nat k :: u64) = k" using assms(3) by (simp add: unat_of_nat)
  then have "unat (of_nat k * x) = k * unat x" using assms(1) by (simp add: unat_word_ariths)
  moreover have "k * unat x div unat m \<le> k * unat m div unat m"
    using assms(2) by (intro div_le_mono mult_le_mono2) (simp add: word_le_nat_alt)
  moreover have "k * unat m div unat m \<le> k" by simp
  ultimately show ?thesis by (simp add: unat_div)
qed

lemma size_points_bound:
  "unat (size_points m fs) \<le> 2000 \<and>
   (2000 * unat fs < 2 ^ 64 \<longrightarrow> unat (size_points m fs) = 2000 * unat fs div max (unat m) (unat fs))"
proof -
  let ?m = "if m < fs then fs else m"
  have m: "unat ?m = max (unat m) (unat fs)" "fs \<le> ?m" by (auto simp: word_less_nat_alt word_le_nat_alt max_def)
  have two: "(of_int MAX_POINTS_FILE_SIZE :: u64) = of_nat 2000" by (simp add: MAX_POINTS_FILE_SIZE_def)
  show ?thesis
  proof (cases "2000 * unat fs < 2 ^ 64")
    case True
    then have s: "unat ((of_nat 2000 * fs) div ?m) = 2000 * unat fs div unat ?m" "2000 * unat fs div unat ?m \<le> 2000"
      using unat_scaled [of 2000 fs ?m] m(2) by simp_all
    then have "unat (size_points m fs) = 2000 * unat fs div unat ?m"
      using unat_small_u16 [of "(of_nat 2000 * fs) div ?m"]
      by (auto simp: size_points_def Let_def two)
    then show ?thesis using s m by simp
  next
    case False
    let ?p = "of_nat 2000 * fs"
    have "unat ?p < 2 ^ 64" by (rule order.strict_trans2 [OF unsigned_less]) simp
    then have "unat ?p \<le> 2000 * unat ?m" using False m(2) by (simp add: word_le_nat_alt)
    then have "unat ?p div unat ?m \<le> 2000 * unat ?m div unat ?m" by (rule div_le_mono)
    moreover have "2000 * unat ?m div unat ?m \<le> 2000" by simp
    ultimately have "unat (?p div ?m) \<le> 2000" unfolding unat_div by linarith
    then show ?thesis
      using False unat_small_u16 [of "(of_nat 2000 * fs) div ?m"]
      by (auto simp: size_points_def Let_def two)
  qed
qed


lemma speed_points_bound:
  assumes "0 \<le> v" "0 < m" "m < 2 ^ 31"
  shows "getSpeedPoints m (limit_speed m v) = 3000 * min v m div m \<and> 3000 * min v m div m \<le> 3000"
proof -
  have l: "limit_speed m v = min v m" by (simp add: limit_speed_def min_def)
  have three: "(of_int MAX_POINTS_AVG_SPEED :: u64) = of_nat 3000" by (simp add: MAX_POINTS_AVG_SPEED_def)
  have u: "unat (of_int (min v m) :: u64) = nat (min v m)" "unat (of_int m :: u64) = nat m"
    using assms by (auto intro!: unat_u64_of_int)
  have d: "unat ((of_nat 3000 * of_int (min v m)) div (of_int m :: u64)) = 3000 * nat (min v m) div nat m
      \<and> 3000 * nat (min v m) div nat m \<le> 3000"
    using unat_scaled [of 3000 "of_int (min v m)" "of_int m"] u assms by (simp add: word_le_nat_alt)
  have "3000 * min v m div m = int (3000 * nat (min v m) div nat m)"
    using assms by (simp add: zdiv_int)
  moreover have "getSpeedPoints m (min v m) = int (3000 * nat (min v m) div nat m)"
    using d assms(2) sint_small_u32 [of "(of_nat 3000 * of_int (min v m)) div (of_int m :: u64)"]
    by (simp add: getSpeedPoints_def three)
  ultimately show ?thesis using d l by simp
qed

text \<open>The points for the destination as whole numbers.\<close>

fun destination_value :: "site_priority \<Rightarrow> bool \<Rightarrow> nat \<Rightarrow> filelist \<Rightarrow> nat" where
  "destination_value priority True progress fl =
     (if priority = P_VERY_HIGH then 2000 else 2000 * nat (100 - fl_ownpercentage fl) div 100)"
| "destination_value priority False progress fl =
     (if priority = P_VERY_HIGH then 2000 else 2000 * unat (fl_uploadedfiles fl) div progress)"

lemma destination_points_bound:
  assumes "if race then 0 \<le> fl_ownpercentage fl \<and> fl_ownpercentage fl \<le> 100
      else unat (fl_uploadedfiles fl) \<le> unat mp \<and> unat mp < 2 ^ 31"
  shows "unat (destination_points p race mp fl) = destination_value p race (unat mp) fl
    \<and> destination_value p race (unat mp) fl \<le> 2000"
proof (cases "p = P_VERY_HIGH")
  case True
  then show ?thesis
    by (cases race) (simp_all add: destination_points_def MAX_POINTS_PERCENTAGE_OWNED_def MAX_POINTS_LOW_PROGRESS_def)
next
  case False
  note nvh = False
  show ?thesis
  proof (cases race)
    case True
    let ?o = "100 - fl_ownpercentage fl"
    have o: "0 \<le> ?o" "?o \<le> 100" using assms True by auto
    have "unat (of_int ?o :: u64) = nat ?o" using o by (intro unat_u64_of_int) auto
    moreover have "unat (100 :: u64) = 100" by simp
    ultimately have d: "unat ((of_nat 2000 * of_int ?o) div (100 :: u64)) = 2000 * nat ?o div 100"
        "2000 * nat ?o div 100 \<le> 2000"
      using unat_scaled [of 2000 "of_int ?o :: u64" 100] o by (simp_all add: word_le_nat_alt nat_le_iff)
    then show ?thesis
      using unat_small_u16 [of "(of_nat 2000 * of_int ?o) div (100 :: u64)"] nvh True
      by (simp add: destination_points_def MAX_POINTS_PERCENTAGE_OWNED_def)
  next
    case False
    let ?u = "ucast (fl_uploadedfiles fl) :: u64"
    have b: "unat (fl_uploadedfiles fl) \<le> unat mp" "unat mp < 2 ^ 31" using assms False by auto
    have s: "sint mp = int (unat mp)"
    proof -
      show ?thesis using uint_less_of_unat [OF b(2)] sint_small [of mp] by simp
    qed
    have s0: "sint mp = 0 \<longleftrightarrow> unat mp = 0" using s by linarith
    have m: "unat (of_int (sint mp) :: u64) = unat mp"
    proof -
      have "uint mp < 2 ^ 64" using uint_less_of_unat [OF b(2)] by simp
      then have "unat (of_int (uint mp) :: u64) = nat (uint mp)" by (intro unat_u64_of_int) simp_all
      then show ?thesis using sint_small [OF uint_less_of_unat [OF b(2)]] by (simp only: unat_eq_nat_uint)
    qed
    have d: "unat ((of_nat 2000 * ?u) div (of_int (sint mp) :: u64)) = 2000 * unat (fl_uploadedfiles fl) div unat mp"
        "2000 * unat (fl_uploadedfiles fl) div unat mp \<le> 2000"
      using unat_scaled [of 2000 ?u "of_int (sint mp)"] b
      by (simp_all only: word_le_nat_alt m unat_ucast_64) simp_all
    then show ?thesis
      using unat_small_u16 [of "(of_nat 2000 * ?u) div (of_int (sint mp) :: u64)"] nvh False s0
      by (auto simp: destination_points_def MAX_POINTS_LOW_PROGRESS_def)
  qed
qed

lemma priority_points_bound: "0 \<le> getPriorityPoints p \<and> getPriorityPoints p \<le> 2500"
  by (cases p) (simp_all add: MAX_POINTS_PRIORITY_def)

lemma unat_u16_of_int: "0 \<le> i \<Longrightarrow> i < 2 ^ 16 \<Longrightarrow> unat (of_int i :: u16) = nat i"
  by (simp add: unat_eq_nat_uint uint_word_of_int_eq take_bit_int_eq_self)

text \<open>
  C24. The score of a possible transfer never wraps around in its 16 bits.  It is 65535 for a file to be
  moved first, and otherwise the sum of the points for the size of the file beside the largest, for the
  speed, for what the destination has or lacks and for its priority, at most 9500: with the speeds the
  engine keeps, a percentage between 0 and 100 for a race and a count of files no higher than the
  progress recorded for a distribution.
\<close>

theorem score_points:
  fixes prio :: prio_type and filesize :: u64 and srs :: siterace and priority :: site_priority
  assumes "0 \<le> avgspeed" and "0 < maxavgspeed" and "maxavgspeed < 2 ^ 31"
    and "if race then 0 \<le> fl_ownpercentage fld \<and> fl_ownpercentage fld \<le> 100
      else unat (fl_uploadedfiles fld) \<le> unat (r_maxprogress r) \<and> unat (r_maxprogress r) < 2 ^ 31"
  defines "score \<equiv> unat (calculateScore maxavgspeed prio filesize r srs fld avgspeed priority race)"
    and "first \<equiv> prio = PRIO \<or> prio = PRIO_LATER \<and> 15 < race_getTimeSpent r"
  shows "(first \<longrightarrow> score = 65535) \<and> (\<not> first \<longrightarrow> score \<le> 9500)
    \<and> (\<not> first \<longrightarrow> 2000 * unat filesize < 2 ^ 64 \<longrightarrow>
         score = 2000 * unat filesize div max (unat (sr_maxfilesize srs)) (unat filesize)
           + 3000 * nat (min avgspeed maxavgspeed) div nat maxavgspeed
           + destination_value priority race (unat (r_maxprogress r)) fld + nat (getPriorityPoints priority))"
proof (cases first)
  case True
  then show ?thesis by (simp add: score_def first_def calculateScore_def NFO_PRIO_AFTER_SEC_def)
next
  case False
  let ?s = "size_points (sr_maxfilesize srs) filesize" and ?v = "getSpeedPoints maxavgspeed (limit_speed maxavgspeed avgspeed)"
  let ?d = "destination_points priority race (r_maxprogress r) fld" and ?p = "getPriorityPoints priority"
  note s = size_points_bound [of "sr_maxfilesize srs" filesize] and v = speed_points_bound [OF assms(1-3)]
    and d = destination_points_bound [OF assms(4), of priority] and p = priority_points_bound [of priority]
  have vn: "?v = int (3000 * nat (min avgspeed maxavgspeed) div nat maxavgspeed)"
    using v assms(1,2) by (simp add: zdiv_int)
  have uv: "unat (of_int ?v :: u16) = 3000 * nat (min avgspeed maxavgspeed) div nat maxavgspeed"
  proof -
    have "unat (of_int ?v :: u16) = nat ?v" using v vn by (intro unat_u16_of_int) auto
    then show ?thesis unfolding vn by simp
  qed
  have up: "unat (of_int ?p :: u16) = nat ?p" using p by (intro unat_u16_of_int) auto
  have b: "unat ?s \<le> 2000" "unat (of_int ?v :: u16) \<le> 3000" "unat ?d \<le> 2000" "unat (of_int ?p :: u16) \<le> 2500"
    using s v vn uv d up p by (auto simp: nat_le_iff)
  then have *: "unat (?s + of_int ?v + ?d + of_int ?p) = unat ?s + unat (of_int ?v :: u16) + unat ?d + unat (of_int ?p :: u16)"
    by (simp add: unat_word_ariths)
  then have sc: "score = unat ?s + unat (of_int ?v :: u16) + unat ?d + unat (of_int ?p :: u16)"
  proof -
    have "calculateScore maxavgspeed prio filesize r srs fld avgspeed priority race = ?s + of_int ?v + ?d + of_int ?p"
      using False by (auto simp: first_def calculateScore_def NFO_PRIO_AFTER_SEC_def)
    then show ?thesis using * by (simp only: score_def)
  qed
  have "score \<le> 9500" unfolding sc using b by linarith
  then show ?thesis using False s d unfolding sc uv up by auto
qed


theorem score_points_witness:
  "unat (calculateScore 4096 NORMAL 500 ((race_new 1 SPREAD_RACE 0)\<lparr>r_maxprogress := 4\<rparr>)
     (sr_init 1 ''A'' path_empty ''rel'' ''me'' 0 False 0\<lparr>sr_maxfilesize := 1000\<rparr>)
     ((fl_init undefined [] path_empty LS_LISTED)\<lparr>fl_ownpercentage := 40\<rparr>) 2048 P_HIGH True) = 1000 + 1500 + 1200 + 1500"
  using score_points [of 2048 4096 True "(fl_init undefined [] path_empty LS_LISTED)\<lparr>fl_ownpercentage := 40\<rparr>"
    "(race_new 1 SPREAD_RACE 0)\<lparr>r_maxprogress := 4\<rparr>" NORMAL 500
    "sr_init 1 ''A'' path_empty ''rel'' ''me'' 0 False 0\<lparr>sr_maxfilesize := 1000\<rparr>" P_HIGH]
  by (simp add: sr_init_def MAX_POINTS_PRIORITY_def)

end
