(* ===== verification/PotentialModel.thy ===== *)
theory PotentialModel
  imports Prelude "HOL-Library.Multiset"
begin

text \<open>
  How much a site could send: \<open>src/potentialtracker.cpp\<close> with \<open>potentiallistelement.cpp\<close> and
  \<open>potentialelement.cpp\<close>.  The engine notes the score of every transfer it would like to start from a
  site; the site keeps the best of the last three seconds in slices of equal time, as many as it has
  download slots, and asks for the potential its slots could have if they were given to the best, with
  no more to a destination than that has upload slots.  The lists of the code hold pointers, each to an
  object of its own of which every field is written at once, so that lists of values model them.
\<close>

subsection \<open>Slices\<close>

record pot_elem =
  pe_site :: "nat option"
  pe_potential :: int
  pe_upslots :: int
  pe_file :: string

definition pe_empty :: pot_elem where
  "pe_empty = \<lparr>pe_site = None, pe_potential = 0, pe_upslots = 0, pe_file = []\<rparr>"

definition pe_new :: "nat \<Rightarrow> int \<Rightarrow> int \<Rightarrow> string \<Rightarrow> pot_elem" where
  "pe_new site upslots potential file =
     \<lparr>pe_site = Some site, pe_potential = potential, pe_upslots = upslots, pe_file = file\<rparr>"

definition site_count :: "nat option \<Rightarrow> pot_elem list \<Rightarrow> nat" where
  "site_count d es = length (filter (\<lambda>e. pe_site e = d) es)"

definition ple_allSlotsUsed :: "nat \<Rightarrow> int \<Rightarrow> pot_elem list \<Rightarrow> bool" where
  "ple_allSlotsUsed dst dstup es \<longleftrightarrow> int (site_count (Some dst) es) = dstup"

text \<open>The slot to overwrite: the first with the lowest potential of those looked at.\<close>

fun ple_lowest :: "(pot_elem \<Rightarrow> bool) \<Rightarrow> nat \<Rightarrow> pot_elem list \<Rightarrow> (nat \<times> int) option \<Rightarrow> (nat \<times> int) option" where
  "ple_lowest P i [] low = low"
| "ple_lowest P i (e # es) low =
     (if \<not> P e then ple_lowest P (i + 1) es low
      else case low of
        None \<Rightarrow> ple_lowest P (i + 1) es (Some (i, pe_potential e))
      | Some (j, l) \<Rightarrow> ple_lowest P (i + 1) es (if pe_potential e < l then Some (i, pe_potential e) else low))"

definition ple_update :: "nat \<Rightarrow> int \<Rightarrow> int \<Rightarrow> string \<Rightarrow> pot_elem list \<Rightarrow> pot_elem list \<times> bool" where
  "ple_update dst dstup potential file es =
     (let used = ple_allSlotsUsed dst dstup es
      in case ple_lowest (\<lambda>e. \<not> used \<or> pe_site e = Some dst) 0 es None of
           Some (i, lowest) \<Rightarrow>
             (if lowest < potential then (es[i := pe_new dst dstup potential file], True) else (es, False))
         | None \<Rightarrow> (es, False))"

definition ple_reset :: "pot_elem list \<Rightarrow> pot_elem list" where
  "ple_reset es = map (\<lambda>_. pe_empty) es"

definition ple_updateSlots :: "nat \<Rightarrow> pot_elem list \<Rightarrow> pot_elem list" where
  "ple_updateSlots n es = take n es @ replicate (n - length es) pe_empty"

subsection \<open>The tracker\<close>

definition POTENTIALITY_SLICES :: nat where
  "POTENTIALITY_SLICES = 10"

record ptrack =
  pt_slices :: "pot_elem list list"
  pt_top :: "pot_elem list"
  pt_calculated :: bool

definition pt_new :: "nat \<Rightarrow> ptrack" where
  "pt_new n =
     \<lparr>pt_slices = replicate POTENTIALITY_SLICES (replicate n pe_empty), pt_top = replicate n pe_empty,
      pt_calculated = True\<rparr>"

definition pt_pushPotential :: "int \<Rightarrow> string \<Rightarrow> nat \<Rightarrow> int \<Rightarrow> ptrack \<Rightarrow> ptrack" where
  "pt_pushPotential score file dst dstup t =
     (case pt_slices t of
        [] \<Rightarrow> t
      | es # ss \<Rightarrow>
          let (es', changed) = ple_update dst dstup score file es
          in if changed then t\<lparr>pt_slices := es' # ss, pt_calculated := False\<rparr> else t)"

definition pt_tick :: "ptrack \<Rightarrow> ptrack" where
  "pt_tick t = t\<lparr>pt_slices := ple_reset (last (pt_slices t)) # butlast (pt_slices t), pt_calculated := False\<rparr>"

definition pt_updateSlots :: "nat \<Rightarrow> ptrack \<Rightarrow> ptrack" where
  "pt_updateSlots n t =
     t\<lparr>pt_slices := map (ple_updateSlots n) (pt_slices t), pt_top := ple_updateSlots n (pt_top t),
       pt_calculated := False\<rparr>"

definition pt_allTopSlotsUsed :: "pot_elem \<Rightarrow> pot_elem list \<Rightarrow> bool" where
  "pt_allTopSlotsUsed e tops \<longleftrightarrow> int (site_count (pe_site e) tops) = pe_upslots e"

fun first_index :: "(pot_elem \<Rightarrow> bool) \<Rightarrow> pot_elem list \<Rightarrow> nat option" where
  "first_index P [] = None"
| "first_index P (e # es) = (if P e then Some 0 else map_option Suc (first_index P es))"

definition remove_at :: "nat \<Rightarrow> 'a list \<Rightarrow> 'a list" where
  "remove_at i xs = take i xs @ drop (Suc i) xs"

definition insert_at :: "nat \<Rightarrow> 'a \<Rightarrow> 'a list \<Rightarrow> 'a list" where
  "insert_at i x xs = take i xs @ x # drop i xs"

text \<open>
  One element is brought into the top list, which ascends: \<open>r\<close> is the place of the element that goes
  for it, the first of all or, when its destination has all its slots there, the first of the
  destination.  \<^term>\<open>None\<close> is the return from the middle of the loop.
\<close>

definition pt_place :: "pot_elem \<Rightarrow> pot_elem list \<Rightarrow> pot_elem list option" where
  "pt_place e tops =
     (case (if pe_site e \<noteq> None \<and> pt_allTopSlotsUsed e tops
            then first_index (\<lambda>t. pe_site t = pe_site e) tops else Some 0) of
        None \<Rightarrow> None
      | Some r \<Rightarrow> Some (
          case first_index (\<lambda>t. pe_potential e < pe_potential t) tops of
            Some j \<Rightarrow>
              (if j = 0 then tops
               else if list_ex (\<lambda>t. pe_site e = pe_site t \<and> pe_file e = pe_file t) tops then tops
               else remove_at (if r < j then r else Suc r) (insert_at j e tops))
          | None \<Rightarrow>
              (if pe_potential (last tops) \<le> pe_potential e then remove_at r tops @ [e] else tops)))"

fun pt_scan :: "pot_elem list \<Rightarrow> pot_elem list \<Rightarrow> pot_elem list \<times> bool" where
  "pt_scan [] tops = (tops, True)"
| "pt_scan (e # es) tops =
     (case pt_place e tops of None \<Rightarrow> (tops, False) | Some tops' \<Rightarrow> pt_scan es tops')"

definition pt_calculate :: "ptrack \<Rightarrow> ptrack" where
  "pt_calculate t =
     (if pt_top t = [] then t
      else
        let (tops, finished) = pt_scan (concat (pt_slices t)) (ple_reset (pt_top t))
        in t\<lparr>pt_top := tops, pt_calculated := (pt_calculated t \<or> finished)\<rparr>)"

definition pt_getMaxAvailablePotential :: "ptrack \<Rightarrow> ptrack \<times> int" where
  "pt_getMaxAvailablePotential t =
     (if pt_top t = [] then (t, 0)
      else
        let t' = (if pt_calculated t then t else pt_calculate t)
        in (t', pe_potential (hd (pt_top t'))))"

subsection \<open>Histories\<close>

datatype pot_op = PotPush int string nat | PotTick | PotSlots nat | PotGet

text \<open>The upload slots of the destinations are \<open>up\<close>.\<close>

fun pt_step :: "(nat \<Rightarrow> nat) \<Rightarrow> pot_op \<Rightarrow> ptrack \<Rightarrow> ptrack" where
  "pt_step up (PotPush score file dst) t = pt_pushPotential score file dst (int (up dst)) t"
| "pt_step up PotTick t = pt_tick t"
| "pt_step up (PotSlots n) t = pt_updateSlots n t"
| "pt_step up PotGet t = fst (pt_getMaxAvailablePotential t)"

subsection \<open>Lists by position\<close>

lemma remove_at_simps [simp]:
  "remove_at 0 (x # xs) = xs" "remove_at (Suc i) (x # xs) = x # remove_at i xs" "remove_at i [] = []"
  by (simp_all add: remove_at_def)

lemma insert_at_simps [simp]:
  "insert_at 0 y xs = y # xs" "insert_at (Suc i) y (x # xs) = x # insert_at i y xs"
  by (simp_all add: insert_at_def)

lemma set_remove_at: "set (remove_at i xs) \<subseteq> set xs"
  by (auto simp: remove_at_def dest: in_set_takeD in_set_dropD)

lemma sorted_remove_at: "sorted (map f xs) \<Longrightarrow> sorted (map f (remove_at i xs))"
proof (induction xs arbitrary: i)
  case (Cons x xs)
  then show ?case using set_remove_at [of "i - 1" xs] by (cases i) auto
qed simp

lemma mset_remove_at: "i < length xs \<Longrightarrow> mset (remove_at i xs) = mset xs - {#xs ! i#}"
proof (induction xs arbitrary: i)
  case (Cons x xs)
  show ?case
  proof (cases i)
    case (Suc k)
    then have "xs ! k \<in># mset xs" using Cons.prems by simp
    then obtain A where "mset xs = add_mset (xs ! k) A" by (rule mset_add)
    then show ?thesis using Cons Suc by (simp add: add_mset_commute)
  qed simp
qed simp

lemma mset_insert_at: "mset (insert_at i y xs) = add_mset y (mset xs)"
  by (simp add: insert_at_def) (metis append_take_drop_id mset_append)

lemma insert_at_nth: "j \<le> length xs \<Longrightarrow> i < length xs \<Longrightarrow> insert_at j y xs ! (if i < j then i else Suc i) = xs ! i"
  by (auto simp: insert_at_def nth_append min_def)

lemma first_index_Some:
  "first_index P xs = Some j \<Longrightarrow> j < length xs \<and> P (xs ! j) \<and> (\<forall>i<j. \<not> P (xs ! i))"
proof (induction xs arbitrary: j)
  case (Cons x xs)
  then show ?case by (cases j) (fastforce split: if_splits simp: less_Suc_eq_0_disj)+
qed simp

lemma first_index_None: "first_index P xs = None \<longleftrightarrow> (\<forall>x\<in>set xs. \<not> P x)"
  by (induction xs) auto

lemma sorted_insert_at:
  assumes "sorted (map f xs)" "j < length xs" "f e < f (xs ! j)" "\<forall>i<j. f (xs ! i) \<le> (f e :: int)"
  shows "sorted (map f (insert_at j e xs))"
  using assms
proof (induction xs arbitrary: j)
  case (Cons x xs)
  show ?case
  proof (cases j)
    case 0
    then show ?thesis using Cons.prems by auto
  next
    case (Suc k)
    have "sorted (map f (insert_at k e xs))"
      using Cons.prems Suc by (intro Cons.IH) auto
    moreover have "f x \<le> f e" using Cons.prems(4) Suc by force
    moreover have "set (insert_at k e xs) = insert e (set xs)"
      by (metis mset_insert_at set_mset_add_mset_insert set_mset_mset)
    ultimately show ?thesis using Cons.prems(1) Suc by auto
  qed
qed simp

subsection \<open>The slots\<close>

text \<open>An element is empty or was pushed; \<open>slots_capped\<close>: none has more slots than it can use.\<close>

definition pe_ok :: "(nat \<Rightarrow> nat) \<Rightarrow> pot_elem \<Rightarrow> bool" where
  "pe_ok up e \<longleftrightarrow> (case pe_site e of None \<Rightarrow> e = pe_empty | Some d \<Rightarrow> pe_upslots e = int (up d) \<and> 0 < pe_potential e)"

definition slots_capped :: "(nat \<Rightarrow> nat) \<Rightarrow> pot_elem list \<Rightarrow> bool" where
  "slots_capped up es \<longleftrightarrow> (\<forall>d. site_count (Some d) es \<le> up d)"

definition slice_ok :: "(nat \<Rightarrow> nat) \<Rightarrow> pot_elem list \<Rightarrow> bool" where
  "slice_ok up es \<longleftrightarrow> (\<forall>e\<in>set es. pe_ok up e) \<and> slots_capped up es"

lemma site_count_mset: "site_count d es = size (filter_mset (\<lambda>e. pe_site e = d) (mset es))"
  by (simp add: site_count_def flip: mset_filter)

lemma pe_ok_empty [simp]: "pe_ok up pe_empty"
  by (simp add: pe_ok_def pe_empty_def)

lemma pe_empty_fields [simp]: "pe_site pe_empty = None" "pe_potential pe_empty = 0"
  by (simp_all add: pe_empty_def)

lemma pe_new_ok: "0 < v \<Longrightarrow> pe_ok up (pe_new d (int (up d)) v f)"
  by (simp add: pe_ok_def pe_new_def)

lemma pe_ok_nonneg: "pe_ok up e \<Longrightarrow> 0 \<le> pe_potential e"
  by (auto simp: pe_ok_def split: option.splits)

lemma site_count_simps [simp]:
  "site_count d [] = 0" "site_count d (e # es) = (if pe_site e = d then 1 else 0) + site_count d es"
  "site_count d (es @ fs) = site_count d es + site_count d fs"
  by (simp_all add: site_count_def)

lemma site_count_empties [simp]: "site_count (Some d) (replicate n pe_empty) = 0"
  by (simp add: site_count_def)

lemma slice_ok_reset [simp]: "slice_ok up (ple_reset es)"
  by (simp add: slice_ok_def slots_capped_def ple_reset_def map_replicate_const)

lemma slice_ok_empties [simp]: "slice_ok up (replicate n pe_empty)"
  by (simp add: slice_ok_def slots_capped_def)

lemma slice_ok_updateSlots: "slice_ok up es \<Longrightarrow> slice_ok up (ple_updateSlots n es)"
proof -
  have "site_count d (take n es) \<le> site_count d es" for d
    by (metis append_take_drop_id le_add1 site_count_simps(3))
  then show "slice_ok up es \<Longrightarrow> slice_ok up (ple_updateSlots n es)"
    by (auto simp: slice_ok_def slots_capped_def ple_updateSlots_def dest: in_set_takeD intro: le_trans)
qed

lemma ple_lowest_Some:
  assumes "ple_lowest P i es low = Some (k, l)"
  shows "(i \<le> k \<and> k < i + length es \<and> P (es ! (k - i)) \<and> l = pe_potential (es ! (k - i))) \<or> low = Some (k, l)"
  using assms
proof (induction P i es low rule: ple_lowest.induct)
  case (2 P i e es low)
  have step: "(Suc i \<le> k \<and> k < Suc i + length es \<and> P (es ! (k - Suc i)) \<and> l = pe_potential (es ! (k - Suc i)))
      \<Longrightarrow> (i \<le> k \<and> k < i + length (e # es) \<and> P ((e # es) ! (k - i)) \<and> l = pe_potential ((e # es) ! (k - i)))"
    by (auto simp: Suc_le_eq Suc_diff_Suc nth_Cons' )
  show ?case
  proof (cases "P e")
    case False
    then show ?thesis using 2 step by auto
  next
    case True
    then show ?thesis using 2 step by (fastforce split: option.splits if_splits)
  qed
qed simp

lemma site_count_update:
  "i < length es \<Longrightarrow> site_count d (es[i := e]) + (if pe_site (es ! i) = d then 1 else 0)
     = site_count d es + (if pe_site e = d then 1 else 0)"
proof (induction es arbitrary: i)
  case (Cons x es)
  then show ?case using Cons.IH [of "i - 1"] by (cases i) auto
qed simp

lemma slice_ok_update:
  assumes "slice_ok up es"
  shows "slice_ok up (fst (ple_update d (int (up d)) v f es))"
proof (cases "ple_lowest (\<lambda>e. \<not> ple_allSlotsUsed d (int (up d)) es \<or> pe_site e = Some d) 0 es None")
  case None
  then show ?thesis using assms by (simp add: ple_update_def)
next
  case (Some p)
  obtain i l where p: "p = (i, l)" by (cases p)
  have i: "i < length es" "l = pe_potential (es ! i)" "site_count (Some d) es \<noteq> up d \<or> pe_site (es ! i) = Some d"
    using ple_lowest_Some [OF Some [unfolded p]] by (auto simp: ple_allSlotsUsed_def)
  let ?n = "pe_new d (int (up d)) v f"
  have n: "pe_site ?n = Some d" by (simp add: pe_new_def)
  have "slice_ok up (es[i := ?n])" if "l < v"
  proof -
    have "pe_ok up (es ! i)" using assms i(1) by (auto simp: slice_ok_def)
    then have v: "0 < v" using that i(2) pe_ok_nonneg by fastforce
    have cap: "site_count (Some c) es \<le> up c" for c using assms by (simp add: slice_ok_def slots_capped_def)
    have "site_count (Some c) (es[i := ?n]) \<le> up c" for c
      using site_count_update [OF i(1), of "Some c" ?n] i(3) cap [of c] by (auto simp: n split: if_splits)
    then show ?thesis
      using assms pe_new_ok [OF v, of up d f] set_update_subset_insert [of es i ?n]
      by (auto simp: slice_ok_def slots_capped_def)
  qed
  then show ?thesis using assms Some by (simp add: ple_update_def p)
qed

subsection \<open>The best of all slices\<close>

definition noted :: "pot_elem list \<Rightarrow> pot_elem multiset" where
  "noted es = filter_mset (\<lambda>e. pe_site e \<noteq> None) (mset es)"

definition tops_ok :: "(nat \<Rightarrow> nat) \<Rightarrow> nat \<Rightarrow> pot_elem list \<Rightarrow> pot_elem list \<Rightarrow> bool" where
  "tops_ok up n es tops \<longleftrightarrow>
     length tops = n \<and> sorted (map pe_potential tops) \<and> slots_capped up tops \<and> noted tops \<subseteq># noted es"

lemma noted_simps [simp]: "noted [] = {#}" "noted (es @ fs) = noted es + noted fs"
  by (simp_all add: noted_def)

lemma noted_snoc: "noted (es @ [e]) = (if pe_site e = None then noted es else add_mset e (noted es))"
  by (simp add: noted_def)

text \<open>One element goes for another: what follows for the number of slots and for where they come from.\<close>

lemma tops_ok_exchange:
  assumes ok: "tops_ok up n es tops" and m: "mset new = add_mset e (mset tops - {#tops ! r#})"
    and r: "r < length tops" and s: "sorted (map pe_potential new)"
    and slot: "pe_site e = None \<or> pe_site e = pe_site (tops ! r) \<or>
      (\<exists>d. pe_site e = Some d \<and> site_count (Some d) tops < up d)"
  shows "tops_ok up n (es @ [e]) new"
proof -
  obtain A where A: "mset tops = add_mset (tops ! r) A" using r by (metis mset_add nth_mem set_mset_mset)
  have n: "mset new = add_mset e A" using m A by simp
  have "size (mset new) = size (mset tops)" by (simp only: n A size_add_mset)
  moreover have "site_count (Some d) new \<le> up d" for d
  proof -
    have "site_count (Some d) tops \<le> up d" using ok by (simp add: tops_ok_def slots_capped_def)
    then show ?thesis using slot n A by (auto simp: site_count_mset split: if_splits)
  qed
  moreover have "noted new \<subseteq># noted (es @ [e])"
  proof -
    have "filter_mset (\<lambda>e. pe_site e \<noteq> None) A \<subseteq># noted tops" by (simp add: noted_def A)
    also have "\<dots> \<subseteq># noted es" using ok by (simp add: tops_ok_def)
    finally show ?thesis by (simp add: noted_def n)
  qed
  ultimately show ?thesis using ok s by (simp add: tops_ok_def slots_capped_def)
qed

lemma tops_ok_more: "tops_ok up n es tops \<Longrightarrow> tops_ok up n (es @ [e]) tops"
  by (auto simp: tops_ok_def intro: subset_mset.order_trans)

lemma pt_place_ok:
  assumes ok: "tops_ok up n es tops" and e: "pe_ok up e" and ne: "tops \<noteq> []" and new: "pt_place e tops = Some new"
  shows "tops_ok up n (es @ [e]) new"
proof -
  obtain r where r: "(if pe_site e \<noteq> None \<and> pt_allTopSlotsUsed e tops
      then first_index (\<lambda>t. pe_site t = pe_site e) tops else Some 0) = Some r"
    using new by (fastforce simp: pt_place_def split: option.splits)
  have rl: "r < length tops" using r ne by (auto dest: first_index_Some split: if_splits)
  have slot: "pe_site e = None \<or> pe_site e = pe_site (tops ! r) \<or>
      (\<exists>d. pe_site e = Some d \<and> site_count (Some d) tops < up d)"
  proof (cases "pe_site e")
    case (Some d)
    have cap: "site_count (Some d) tops \<le> up d" using ok by (simp add: tops_ok_def slots_capped_def)
    have u: "pe_upslots e = int (up d)" using e Some by (simp add: pe_ok_def)
    show ?thesis
    proof (cases "pt_allTopSlotsUsed e tops")
      case True
      then show ?thesis using r Some by (auto dest: first_index_Some)
    next
      case False
      then show ?thesis using cap u Some by (simp add: pt_allTopSlotsUsed_def)
    qed
  qed simp
  have srt: "sorted (map pe_potential tops)" using ok by (simp add: tops_ok_def)
  note exchange = tops_ok_exchange [OF ok _ rl _ slot]
  show ?thesis
  proof (cases "first_index (\<lambda>t. pe_potential e < pe_potential t) tops")
    case None
    then have hi: "\<forall>t\<in>set tops. pe_potential t \<le> pe_potential e" by (auto simp: first_index_None not_less)
    have "new = remove_at r tops @ [e]" using new None r hi ne by (auto simp: pt_place_def)
    then show ?thesis
      using hi srt set_remove_at [of r tops]
      by (intro exchange) (auto simp: mset_remove_at rl sorted_append sorted_remove_at)
  next
    case (Some j)
    note j = first_index_Some [OF Some]
    let ?r = "if r < j then r else Suc r" and ?ins = "insert_at j e tops"
    have new_cases: "new = tops \<or> new = remove_at ?r ?ins"
      using new Some r by (auto simp: pt_place_def split: if_splits)
    moreover have "tops_ok up n (es @ [e]) (remove_at ?r ?ins)"
    proof (rule exchange)
      have l: "?r < length ?ins" using rl j by (auto simp: insert_at_def)
      have "?ins ! ?r = tops ! r" using j rl by (intro insert_at_nth) auto
      then show "mset (remove_at ?r ?ins) = add_mset e (mset tops - {#tops ! r#})"
        using mset_remove_at [OF l] rl by (simp add: mset_insert_at)
      show "sorted (map pe_potential (remove_at ?r ?ins))"
        using srt j by (intro sorted_remove_at sorted_insert_at) (auto simp: not_less)
    qed
    ultimately show ?thesis using tops_ok_more [OF ok] by auto
  qed
qed

lemma pt_place_length: "pt_place e tops = Some new \<Longrightarrow> tops_ok up n es tops \<Longrightarrow> pe_ok up e \<Longrightarrow> tops \<noteq> [] \<Longrightarrow> new \<noteq> []"
  using pt_place_ok [of up n es tops e new] by (auto simp: tops_ok_def)

lemma pt_scan_ok:
  assumes "tops_ok up n es tops" "\<forall>f\<in>set fs. pe_ok up f" "tops \<noteq> []"
  shows "tops_ok up n (es @ fs) (fst (pt_scan fs tops))"
  using assms
proof (induction fs arbitrary: es tops)
  case (Cons f fs)
  show ?case
  proof (cases "pt_place f tops")
    case None
    have "noted tops \<subseteq># noted (es @ f # fs)"
      using Cons.prems(1) by (auto simp: tops_ok_def intro: subset_mset.order_trans)
    then show ?thesis using None Cons.prems(1) by (simp add: tops_ok_def)
  next
    case (Some new)
    have "tops_ok up n (es @ [f]) new" using pt_place_ok [OF Cons.prems(1) _ Cons.prems(3) Some] Cons.prems(2) by simp
    then show ?thesis
      using Cons.IH [of "es @ [f]" new] Cons.prems pt_place_length [OF Some Cons.prems(1)] Some by simp
  qed
qed simp

definition pt_inv :: "(nat \<Rightarrow> nat) \<Rightarrow> nat \<Rightarrow> ptrack \<Rightarrow> bool" where
  "pt_inv up n t \<longleftrightarrow>
     length (pt_slices t) = POTENTIALITY_SLICES \<and> length (pt_top t) = n
     \<and> (\<forall>es\<in>set (pt_slices t). length es = n \<and> slice_ok up es)
     \<and> (pt_calculated t \<longrightarrow> tops_ok up n (concat (pt_slices t)) (pt_top t))"

lemma tops_ok_empties: "tops_ok up n es (replicate n pe_empty)"
proof -
  have "noted (replicate n pe_empty) = {#}" by (induction n) (simp_all add: noted_def)
  then show ?thesis by (simp add: tops_ok_def slots_capped_def)
qed

lemma pt_inv_new: "pt_inv up n (pt_new n)"
  by (simp add: pt_inv_def pt_new_def tops_ok_empties)

lemma ple_update_length [simp]: "length (fst (ple_update d c v f es)) = length es"
  by (auto simp: ple_update_def Let_def split: option.splits)

lemma pt_inv_push:
  assumes "pt_inv up n t"
  shows "pt_inv up n (pt_pushPotential v f d (int (up d)) t)"
proof (cases "pt_slices t")
  case Nil
  then show ?thesis using assms by (simp add: pt_pushPotential_def)
next
  case (Cons es ss)
  show ?thesis
  proof (cases "ple_update d (int (up d)) v f es")
    case (Pair es' changed)
    have "slice_ok up es'" "length es' = length es"
      using slice_ok_update [of up es d v f] ple_update_length [of d "int (up d)" v f es] assms Cons Pair
      by (simp_all add: pt_inv_def)
    then show ?thesis using assms Cons Pair by (simp add: pt_inv_def pt_pushPotential_def)
  qed
qed

lemma pt_inv_tick:
  assumes "pt_inv up n t"
  shows "pt_inv up n (pt_tick t)"
proof -
  have l: "length (pt_slices t) = Suc 9" using assms by (simp add: pt_inv_def POTENTIALITY_SLICES_def)
  then have "pt_slices t \<noteq> []" by (metis length_0_conv nat.distinct(1))
  then obtain ss es where s: "pt_slices t = ss @ [es]" by (metis append_butlast_last_id)
  have "pt_slices (pt_tick t) = ple_reset es # ss" by (simp add: pt_tick_def s)
  moreover have "length (ple_reset es) = length es" by (simp add: ple_reset_def)
  moreover have "length (pt_top t) = n" "\<forall>fs\<in>set (ss @ [es]). length fs = n \<and> slice_ok up fs"
    using assms unfolding s [symmetric] by (simp_all add: pt_inv_def)
  moreover have "length ss = 9" using l s by simp
  ultimately show ?thesis
    unfolding pt_inv_def by (simp add: POTENTIALITY_SLICES_def) (simp add: pt_tick_def)
qed

lemma pt_inv_slots: "pt_inv up n t \<Longrightarrow> pt_inv up m (pt_updateSlots m t)"
proof -
  have "length (ple_updateSlots m es) = m" for es by (simp add: ple_updateSlots_def)
  then show "pt_inv up n t \<Longrightarrow> pt_inv up m (pt_updateSlots m t)"
    by (simp add: pt_inv_def pt_updateSlots_def slice_ok_updateSlots)
qed

lemma pt_calculate_ok:
  assumes "pt_inv up n t" "pt_top t \<noteq> []"
  shows "pt_inv up n (pt_calculate t) \<and> tops_ok up n (concat (pt_slices t)) (pt_top (pt_calculate t))
    \<and> pt_slices (pt_calculate t) = pt_slices t"
proof -
  have l: "length (pt_top t) = n" using assms(1) by (simp add: pt_inv_def)
  have r: "ple_reset (pt_top t) = replicate n pe_empty" by (simp add: ple_reset_def map_replicate_const l)
  have "tops_ok up n ([] @ concat (pt_slices t)) (fst (pt_scan (concat (pt_slices t)) (ple_reset (pt_top t))))"
    using assms l by (intro pt_scan_ok) (auto simp: r tops_ok_empties pt_inv_def slice_ok_def)
  then show ?thesis
    using assms by (auto simp: pt_calculate_def pt_inv_def tops_ok_def split: prod.splits)
qed

lemma pt_get_ok:
  assumes "pt_inv up n t"
  shows "pt_inv up n (fst (pt_getMaxAvailablePotential t))
    \<and> tops_ok up n (concat (pt_slices t)) (pt_top (fst (pt_getMaxAvailablePotential t)))
    \<and> pt_slices (fst (pt_getMaxAvailablePotential t)) = pt_slices t"
proof (cases "pt_top t = []")
  case True
  then show ?thesis
    using assms tops_ok_empties [of up 0] by (simp add: pt_getMaxAvailablePotential_def pt_inv_def)
next
  case False
  then show ?thesis
    using assms pt_calculate_ok [OF assms False]
    by (cases "pt_calculated t") (simp_all add: pt_getMaxAvailablePotential_def pt_inv_def Let_def)
qed

fun slots_after :: "pot_op \<Rightarrow> nat \<Rightarrow> nat" where
  "slots_after (PotSlots n) m = n"
| "slots_after _ m = m"

lemma pt_step_inv: "pt_inv up n t \<Longrightarrow> pt_inv up (slots_after c n) (pt_step up c t)"
  by (cases c) (simp_all add: pt_inv_push pt_inv_tick pt_inv_slots pt_get_ok)

lemma pt_run_inv: "pt_inv up n t \<Longrightarrow> pt_inv up (fold slots_after ops n) (fold (pt_step up) ops t)"
  by (induction ops arbitrary: t n) (simp_all add: pt_step_inv)



text \<open>What was pushed is forgotten after ten ticks.\<close>

lemma pt_inv_lengths:
  "pt_inv up n t \<Longrightarrow> length (pt_slices t) = 10" "pt_inv up n t \<Longrightarrow> es \<in> set (pt_slices t) \<Longrightarrow> length es = n"
  "pt_inv up n t \<Longrightarrow> length (pt_top t) = n"
  by (simp_all add: pt_inv_def POTENTIALITY_SLICES_def)

lemma ple_reset_eq: "ple_reset es = replicate (length es) pe_empty"
  by (simp add: ple_reset_def map_replicate_const)

lemma pt_tick_slices:
  assumes "pt_inv up n t"
  shows "pt_slices (pt_tick t) = replicate n pe_empty # butlast (pt_slices t)"
proof -
  have "pt_slices t \<noteq> []" using pt_inv_lengths(1) [OF assms] by (metis list.size(3) zero_neq_numeral)
  then have "length (last (pt_slices t)) = n" by (rule pt_inv_lengths(2) [OF assms last_in_set])
  then show ?thesis by (simp add: pt_tick_def ple_reset_eq)
qed

lemma ticks_slices:
  assumes inv: "pt_inv up n t"
  shows "k \<le> 10 \<Longrightarrow> pt_slices ((pt_tick ^^ k) t) = replicate k (replicate n pe_empty) @ take (10 - k) (pt_slices t)
    \<and> pt_inv up n ((pt_tick ^^ k) t)"
proof (induction k)
  case 0
  then show ?case using inv pt_inv_lengths(1) [OF inv] by simp
next
  case (Suc k)
  let ?u = "(pt_tick ^^ k) t"
  have ih: "pt_slices ?u = replicate k (replicate n pe_empty) @ take (10 - k) (pt_slices t)" "pt_inv up n ?u"
    using Suc by simp_all
  have ne: "take (10 - k) (pt_slices t) \<noteq> []" using Suc.prems pt_inv_lengths(1) [OF inv] by auto
  have "butlast (take (10 - k) (pt_slices t)) = take (10 - Suc k) (pt_slices t)"
    using pt_inv_lengths(1) [OF inv] by (simp add: butlast_take)
  then have "butlast (pt_slices ?u) = replicate k (replicate n pe_empty) @ take (10 - Suc k) (pt_slices t)"
    using ne by (simp only: ih(1) butlast_append if_False)
  then have "pt_slices (pt_tick ?u) = replicate (Suc k) (replicate n pe_empty) @ take (10 - Suc k) (pt_slices t)"
    by (simp only: pt_tick_slices [OF ih(2)] replicate_Suc append_Cons)
  then show ?case using pt_inv_tick [OF ih(2)] by (simp only: funpow.simps o_apply simp_thms)
qed

lemma scan_empties: "n \<noteq> 0 \<Longrightarrow> pt_scan (replicate k pe_empty) (replicate n pe_empty) = (replicate n pe_empty, True)"
proof (induction k)
  case (Suc k)
  have "first_index (\<lambda>t. pe_potential pe_empty < pe_potential t) (replicate n pe_empty) = None"
    by (simp add: first_index_None)
  then have "pt_place pe_empty (replicate n pe_empty) = Some (replicate n pe_empty)"
    using Suc.prems by (cases n) (auto simp: pt_place_def replicate_append_same)
  then show ?case using Suc by simp
qed simp

text \<open>
  Potentials are forgotten.  Whatever was pushed, after ten ticks without a push the site has no
  potential.
\<close>

theorem potential_expires:
  fixes up :: "nat \<Rightarrow> nat" and ops :: "pot_op list" and n :: nat
  shows "snd (pt_getMaxAvailablePotential ((pt_tick ^^ 10) (fold (pt_step up) ops (pt_new n)))) = 0"
proof -
  let ?t = "fold (pt_step up) ops (pt_new n)" and ?m = "fold slots_after ops n"
  have inv: "pt_inv up ?m ?t" by (rule pt_run_inv [OF pt_inv_new])
  let ?u = "(pt_tick ^^ 10) ?t"
  have s: "pt_slices ?u = replicate 10 (replicate ?m pe_empty)" "pt_inv up ?m ?u"
    using ticks_slices [OF inv, of 10] by simp_all
  have c: "\<not> pt_calculated ?u" by (simp add: numeral_eq_Suc pt_tick_def)
  have "concat (replicate j (replicate ?m pe_empty)) = replicate (j * ?m) pe_empty" for j
    by (induction j) (simp_all add: replicate_add)
  moreover have "ple_reset (pt_top ?u) = replicate ?m pe_empty"
    using s(2) by (simp add: pt_inv_def ple_reset_def map_replicate_const)
  moreover have "pt_top ?u = [] \<longleftrightarrow> ?m = 0" using s(2) by (auto simp: pt_inv_def)
  ultimately show ?thesis
    using c scan_empties [of ?m "10 * ?m"] s(1)
    by (auto simp: pt_getMaxAvailablePotential_def pt_calculate_def)
qed

text \<open>
  A high potential can be lost to a lower one of the same destination that comes later: with one upload
  slot at the destination, the element it has among the best goes even if it is the better one.
\<close>

theorem potential_lost:
  fixes up :: "nat \<Rightarrow> nat"
  defines "up \<equiv> (\<lambda>_. 1)"
  shows "snd (pt_getMaxAvailablePotential (fold (pt_step up)
      [PotPush 4 ''c'' 1, PotTick, PotPush 3 ''b'' 2, PotTick, PotPush 5 ''a'' 2, PotPush 1 ''d'' 1] (pt_new 2))) = 3
    \<and> [5, 4] = map pe_potential (filter (\<lambda>e. pe_potential e \<ge> 4)
      (concat (pt_slices (fold (pt_step up)
      [PotPush 4 ''c'' 1, PotTick, PotPush 3 ''b'' 2, PotTick, PotPush 5 ''a'' 2, PotPush 1 ''d'' 1] (pt_new 2)))))"
  unfolding up_def by code_simp

end
