(* ===== verification/SiteSlots.thy ===== *)
theory SiteSlots
  imports EngineModel PotentialModel
begin

text \<open>
  The transfer slots of a site: the part of \<open>src/sitelogic.cpp\<close> that tells how many transfers a site
  can start, gives a slot to a transfer and takes it back, and decides whether a score is high enough
  beside the potential of the site.
\<close>

subsection \<open>State\<close>

datatype transfer_origin = REGULAR | PRE | COMPLETE | TRANSFERJOB

record site_slots =
  so_available :: int
  so_dn :: int
  so_up :: int

definition site_getMaxDownTransferJob :: "'s race_site_scheme \<Rightarrow> int" where
  "site_getMaxDownTransferJob s =
     (if x_maxdntransferjob s = - 1 then site_getMaxLogins s
      else if x_maxdntransferjob s = - 2 then site_getMaxDown s else x_maxdntransferjob s)"

fun max_down :: "'s race_site_scheme \<Rightarrow> transfer_origin \<Rightarrow> int" where
  "max_down s REGULAR = site_getMaxDown s"
| "max_down s PRE = site_getMaxDownPre s"
| "max_down s COMPLETE = site_getMaxDownComplete s"
| "max_down s TRANSFERJOB = site_getMaxDownTransferJob s"

text \<open>The login that a site may want to be left free.\<close>

definition last_login :: "'s race_site_scheme \<Rightarrow> site_slots \<Rightarrow> bool" where
  "last_login s so \<longleftrightarrow>
     x_freeslot s \<and> site_getMaxLogins s \<le> so_dn so + so_up so + 1 \<and> 1 < site_getMaxLogins s"

definition downloadSlotsAvailable :: "'s race_site_scheme \<Rightarrow> transfer_origin \<Rightarrow> site_slots \<Rightarrow> int" where
  "downloadSlotsAvailable s ty so =
     (if so_available so = 0 then 0
      else if last_login s so then 0
      else let free = max_down s ty - so_dn so in if so_available so < free then so_available so else free)"

definition downloadSlotAvailable :: "'s race_site_scheme \<Rightarrow> transfer_origin \<Rightarrow> site_slots \<Rightarrow> bool" where
  "downloadSlotAvailable s ty so \<longleftrightarrow> 0 < downloadSlotsAvailable s ty so"

definition uploadSlotAvailable :: "'s race_site_scheme \<Rightarrow> site_slots \<Rightarrow> bool" where
  "uploadSlotAvailable s so \<longleftrightarrow>
     so_available so \<noteq> 0 \<and> \<not> last_login s so \<and> so_up so < site_getMaxUp s"

definition getSlot :: "'s race_site_scheme \<Rightarrow> bool \<Rightarrow> transfer_origin \<Rightarrow> site_slots \<Rightarrow> site_slots \<times> bool" where
  "getSlot s isdownload ty so =
     (if isdownload then
        (if max_down s ty \<le> so_dn so then (so, False)
         else (so\<lparr>so_dn := so_dn so + 1, so_available := so_available so - 1\<rparr>, True))
      else
        (if site_getMaxUp s \<le> so_up so then (so, False)
         else (so\<lparr>so_up := so_up so + 1, so_available := so_available so - 1\<rparr>, True)))"

text \<open>\<open>hasrequest\<close>: the connection of the transfer has a request waiting, and so is not available yet.\<close>

definition slot_transferComplete :: "bool \<Rightarrow> bool \<Rightarrow> bool \<Rightarrow> site_slots \<Rightarrow> site_slots" where
  "slot_transferComplete hasrequest isdownload returntransferslot so =
     (let so1 = (if returntransferslot then
                   (if isdownload then so\<lparr>so_dn := so_dn so - 1\<rparr> else so\<lparr>so_up := so_up so - 1\<rparr>) else so)
      in if hasrequest then so1 else so1\<lparr>so_available := so_available so1 + 1\<rparr>)"

subsection \<open>Single precision\<close>

text \<open>
  A whole number as a \<open>float\<close>: its 24 leading bits, rounded to the nearest and of two to the even.
\<close>

function excess_bits :: "nat \<Rightarrow> nat" where
  "excess_bits n = (if n < 2 ^ 24 then 0 else Suc (excess_bits (n div 2)))"
  by auto
termination by (relation "measure id") auto

declare excess_bits.simps [simp del]

definition float_round :: "nat \<Rightarrow> nat" where
  "float_round n =
     (let k = excess_bits n; q = n div 2 ^ k; r = n mod 2 ^ k
      in (if 2 ^ k < 2 * r \<or> 2 ^ k = 2 * r \<and> odd q then q + 1 else q) * 2 ^ k)"

text \<open>The constants 0.7, 0.5 and 0.3 as floats, times two to the twenty-fifth.\<close>

definition factor_of :: "int \<Rightarrow> nat" where
  "factor_of n = (if n = 1 then 23488102 else if n = 2 then 16777216 else 10066330)"

text \<open>
  Scores and potentials, which are not negative, are read as natural numbers.
\<close>

definition potentialCheck :: "'s race_site_scheme \<Rightarrow> site_slots \<Rightarrow> int \<Rightarrow> transfer_origin \<Rightarrow> ptrack \<Rightarrow> ptrack \<times> bool" where
  "potentialCheck s so score ty t =
     (let dnavail = downloadSlotsAvailable s ty so; (t', potential) = pt_getMaxAvailablePotential t
      in (t', if dnavail = 0 then False
              else if dnavail = 1 \<or> dnavail = 2 \<or> dnavail = 3
              then float_round (float_round (nat potential) * factor_of dnavail) \<le> float_round (nat score) * 2 ^ 25
              else True))"

subsection \<open>Slots\<close>

text \<open>
  C32. The slot the engine has asked for is there.  After a check of the upload slots of one site and of the
  download slots of another, \<open>getSlot\<close> succeeds; it takes one slot and one connection; and a site that
  wants a login left free, and has more than one, still has one.
\<close>

theorem slot_granted:
  fixes s :: "'s race_site_scheme" and so :: site_slots and isdownload :: bool and ty :: transfer_origin
  assumes "if isdownload then downloadSlotAvailable s ty so else uploadSlotAvailable s so"
    and "0 \<le> so_available so"
  defines "so' \<equiv> fst (getSlot s isdownload ty so)"
  shows "snd (getSlot s isdownload ty so) \<and> 0 \<le> so_available so' \<and> so_available so' = so_available so - 1
    \<and> so_dn so' + so_up so' = so_dn so + so_up so + 1
    \<and> (if isdownload then so_dn so' \<le> max_down s ty \<and> so_up so' = so_up so
       else so_up so' \<le> site_getMaxUp s \<and> so_dn so' = so_dn so)
    \<and> (x_freeslot s \<and> 1 < site_getMaxLogins s \<longrightarrow> so_dn so' + so_up so' < site_getMaxLogins s)"
  using assms
  by (auto simp: downloadSlotAvailable_def downloadSlotsAvailable_def uploadSlotAvailable_def getSlot_def
      last_login_def Let_def split: if_splits)

definition demo_site :: race_site where
  "demo_site = \<lparr>s_id = 1, s_user = ''me'', s_policy = PREFER_OFF, s_tls = True, s_brokenpasv = False,
     s_sscn = False, s_cpsv = True, s_protocol = PREFER_IPV4, s_maxtime = 0,
     x_name = ''A'', x_allowdown = ALLOW_YES, x_allowup = ALLOW_YES, x_logins = 3,
     x_maxup = 2, x_maxdn = 2, x_maxdnpre = -2, x_maxdncomplete = -1, x_maxdntransferjob = 1, x_freeslot = True,
     x_targetsblocked = False, x_excepttargets = {}, x_priority = P_NORMAL, x_avgspeed = (\<lambda>_. None), x_skip = 0\<rparr>"

theorem slot_granted_witness:
  "snd (getSlot demo_site True REGULAR \<lparr>so_available = 2, so_dn = 1, so_up = 0\<rparr>)"
  using slot_granted [of True demo_site REGULAR "\<lparr>so_available = 2, so_dn = 1, so_up = 0\<rparr>"]
  by (simp add: demo_site_def downloadSlotAvailable_def downloadSlotsAvailable_def last_login_def
      site_getMaxLogins_def site_getMaxDown_def)

subsection \<open>The check against the potential\<close>

lemma excess_bits_props:
  "n div 2 ^ excess_bits n < 2 ^ 24 \<and> (excess_bits n \<noteq> 0 \<longrightarrow> 2 ^ 23 \<le> n div 2 ^ excess_bits n)"
proof (induction n rule: excess_bits.induct)
  case (1 n)
  show ?case
  proof (cases "n < 2 ^ 24")
    case True
    then show ?thesis by (simp add: excess_bits.simps [of n])
  next
    case False
    let ?m = "n div 2"
    have k: "excess_bits n = Suc (excess_bits ?m)" using False by (simp add: excess_bits.simps [of n])
    have d: "n div 2 ^ Suc j = ?m div 2 ^ j" for j by (simp add: div_mult2_eq)
    have "2 ^ 23 \<le> ?m" using False by simp
    then have "excess_bits ?m = 0 \<longrightarrow> 2 ^ 23 \<le> ?m div 2 ^ excess_bits ?m" by simp
    then show ?thesis using 1 [OF False] unfolding k d by blast
  qed
qed

lemma excess_bits_le: "n < 2 ^ (24 + m) \<Longrightarrow> excess_bits n \<le> m"
proof (induction m arbitrary: n)
  case 0
  then show ?case by (simp add: excess_bits.simps [of n])
next
  case (Suc m)
  then have "n < 2 ^ (24 + m) * 2" by (simp only: add_Suc_right power_Suc mult.commute)
  then have "n div 2 < 2 ^ (24 + m)" by (rule less_mult_imp_div_less)
  from Suc.IH [OF this] show ?case by (simp add: excess_bits.simps [of n])
qed

lemma float_round_exact: "n < 2 ^ 24 \<Longrightarrow> float_round n = n"
  by (simp add: float_round_def excess_bits.simps [of n])

lemma float_round_near:
  "2 ^ 24 * float_round n \<le> 2 ^ 24 * n + n \<and> 2 ^ 24 * n \<le> 2 ^ 24 * float_round n + n"
proof (cases "excess_bits n = 0")
  case True
  then have "float_round n = n" by (simp add: float_round_def)
  then show ?thesis by simp
next
  case False
  define P where "P = (2 :: nat) ^ excess_bits n"
  define q where "q = n div P"
  define r where "r = n mod P"
  have n: "n = q * P + r" by (simp add: q_def r_def)
  have "2 ^ 23 \<le> q" using excess_bits_props [of n] False by (simp add: q_def P_def)
  then have "2 ^ 23 * P \<le> q * P" by (rule mult_right_mono) simp
  then have big: "2 ^ 23 * P \<le> n" using n by linarith
  have r: "r < P" by (simp add: r_def P_def)
  have f: "float_round n = (if P < 2 * r \<or> P = 2 * r \<and> odd q then q * P + P else q * P)"
    by (simp add: float_round_def Let_def P_def q_def r_def)
  then have "2 * float_round n \<le> 2 * n + P \<and> 2 * n \<le> 2 * float_round n + P" using n r by auto
  then show ?thesis using big by simp
qed

lemma float_round_le:
  assumes "n \<le> m * 2 ^ 25" "n < 2 ^ 49"
  shows "float_round n \<le> m * 2 ^ 25"
proof -
  define k where "k = excess_bits n"
  define q where "q = n div 2 ^ k"
  define r where "r = n mod 2 ^ k"
  have n: "n = q * 2 ^ k + r" by (simp only: q_def r_def div_mult_mod_eq)
  have "k \<le> 25" unfolding k_def by (rule excess_bits_le) (use assms(2) in simp)
  then have p: "(2 :: nat) ^ 25 = 2 ^ (25 - k) * 2 ^ k" by (simp flip: power_add)
  have up: "q * 2 ^ k + 2 ^ k \<le> m * 2 ^ 25" if "0 < r"
  proof -
    have "q * 2 ^ k < m * (2 ^ (25 - k) * 2 ^ k)" using that assms(1) n unfolding p by linarith
    then have "q * 2 ^ k < m * 2 ^ (25 - k) * 2 ^ k" by (simp only: mult.assoc)
    then have "q + 1 \<le> m * 2 ^ (25 - k)" by simp
    then have "(q + 1) * 2 ^ k \<le> m * 2 ^ (25 - k) * 2 ^ k" by (rule mult_right_mono) simp
    then show ?thesis unfolding p by (simp add: algebra_simps)
  qed
  have "float_round n = (if 2 ^ k < 2 * r \<or> 2 ^ k = 2 * r \<and> odd q then q * 2 ^ k + 2 ^ k else q * 2 ^ k)"
    by (simp add: float_round_def Let_def k_def q_def r_def)
  moreover have "q * 2 ^ k \<le> m * 2 ^ 25" using assms(1) n by linarith
  ultimately show ?thesis using up by (cases "r = 0") auto
qed

text \<open>
  C29. The check of a score against the potential, made in single precision, is the check its constants
  mean for all potentials below a million: with one free slot the score has to be seven tenths of the
  potential, with two a half of it, without a free slot it fails and with four it succeeds.  With three
  free slots it is the check for three tenths, except that a score of exactly three tenths may fail, as
  0.3 in single precision is above three tenths.
\<close>

theorem potential_check_exact:
  fixes s :: "'s race_site_scheme" and so :: site_slots and ty :: transfer_origin and t :: ptrack and score :: int
  defines "n \<equiv> downloadSlotsAvailable s ty so" and "m \<equiv> snd (pt_getMaxAvailablePotential t)"
    and "r \<equiv> snd (potentialCheck s so score ty t)"
  assumes "0 \<le> score" and "score < 2 ^ 24" and "0 \<le> m" and "m < 1000000"
  shows "(n = 0 \<longrightarrow> \<not> r) \<and> (n = 1 \<longrightarrow> (r \<longleftrightarrow> 7 * m \<le> 10 * score)) \<and> (n = 2 \<longrightarrow> (r \<longleftrightarrow> m \<le> 2 * score))
    \<and> (n = 3 \<longrightarrow> 3 * m < 10 * score \<longrightarrow> r) \<and> (n = 3 \<longrightarrow> 10 * score < 3 * m \<longrightarrow> \<not> r)
    \<and> (3 < n \<longrightarrow> r)"
proof -
  define M where "M = nat m"
  define S where "S = nat score"
  have M: "M < 1000000" "m = int M" and S: "S < 2 ^ 24" "score = int S"
    using assms(4-) by (simp_all add: M_def S_def)
  define P where "P = M * factor_of n"
  have r: "r = (if n = 0 then False
      else if n = 1 \<or> n = 2 \<or> n = 3 then float_round P \<le> S * 2 ^ 25 else True)"
  proof -
    obtain t' where "pt_getMaxAvailablePotential t = (t', int M)" by (metis M(2) m_def prod.collapse)
    then show ?thesis using M(1) S by (simp add: r_def potentialCheck_def n_def P_def float_round_exact)
  qed
  have P: "P < 2 ^ 49" using M(1) by (simp add: P_def factor_of_def)
  note near = float_round_near [of P] and le = float_round_le [OF _ P, of S]
  have one: "n = 1 \<longrightarrow> (float_round P \<le> S * 2 ^ 25 \<longleftrightarrow> 7 * M \<le> 10 * S)"
  proof (intro impI iffI)
    assume "n = 1" "float_round P \<le> S * 2 ^ 25"
    then show "7 * M \<le> 10 * S" using near M(1) by (simp add: P_def factor_of_def) 
  next
    assume "n = 1" "7 * M \<le> 10 * S"
    then show "float_round P \<le> S * 2 ^ 25" by (intro le) (simp add: P_def factor_of_def)
  qed
  have two: "n = 2 \<longrightarrow> (float_round P \<le> S * 2 ^ 25 \<longleftrightarrow> M \<le> 2 * S)"
  proof (intro impI iffI)
    assume "n = 2" "float_round P \<le> S * 2 ^ 25"
    then show "M \<le> 2 * S" using near M(1) by (simp add: P_def factor_of_def)
  next
    assume "n = 2" "M \<le> 2 * S"
    then show "float_round P \<le> S * 2 ^ 25" by (intro le) (simp add: P_def factor_of_def)
  qed
  have three: "n = 3 \<longrightarrow> 3 * M < 10 * S \<longrightarrow> float_round P \<le> S * 2 ^ 25"
  proof (intro impI)
    assume "n = 3" "3 * M < 10 * S"
    then show "float_round P \<le> S * 2 ^ 25" using near M(1) by (simp add: P_def factor_of_def)
  qed
  have three': "n = 3 \<longrightarrow> 10 * S < 3 * M \<longrightarrow> \<not> float_round P \<le> S * 2 ^ 25"
  proof (intro impI)
    assume "n = 3" "10 * S < 3 * M"
    then show "\<not> float_round P \<le> S * 2 ^ 25" using near M(1) by (simp add: P_def factor_of_def)
  qed
  show ?thesis using one two three three' unfolding r M(2) S(2) by auto
qed

theorem potential_check_exact_witness:
  "snd (potentialCheck demo_site \<lparr>so_available = 1, so_dn = 0, so_up = 0\<rparr> 700 REGULAR
     \<lparr>pt_slices = [], pt_top = [pe_new 2 1 1000 ''a''], pt_calculated = True\<rparr>)"
  using potential_check_exact [of 700 "\<lparr>pt_slices = [], pt_top = [pe_new 2 1 1000 ''a''], pt_calculated = True\<rparr>"
    demo_site REGULAR "\<lparr>so_available = 1, so_dn = 0, so_up = 0\<rparr>"]
  by (simp add: pt_getMaxAvailablePotential_def pe_new_def demo_site_def downloadSlotsAvailable_def
      last_login_def site_getMaxLogins_def site_getMaxDown_def)

text \<open>Of 50, three tenths are 15, and are not enough.\<close>

lemma potential_three_tenths: "\<not> float_round (float_round 50 * factor_of 3) \<le> float_round 15 * 2 ^ 25"
  by (simp add: float_round_def excess_bits.simps factor_of_def)

end
