(* ===== verification/EngineBoards.thy ===== *)
theory EngineBoards
  imports SiteSlots
begin

text \<open>
  How the engine keeps its two boards: the score board of transfers to be tried and the board of those
  that failed too often.  Transfers are added when a list is first seen (\<open>addToScoreBoard\<close>), changed from
  the names that changed on a list (\<open>updateScoreBoard\<close>), scored anew (\<open>refreshScoreBoard\<close>) and moved
  between the boards (\<open>transferFailed\<close>, \<open>restoreFromFailed\<close>), all in \<open>src/engine.cpp\<close>.

  The arguments \<open>sk\<close> and \<open>rm\<close> are the verdicts of skip lists and \<open>std::regex_match\<close>.  The orders in which
  hash containers are walked and the numbers of \<open>rand\<close> are the argument \<open>ord\<close>.
\<close>

subsection \<open>Verdicts on a name\<close>

type_synonym 'x regex_match = "'x \<Rightarrow> string \<Rightarrow> bool"

definition verdict :: "'x race_skip \<Rightarrow> skip_verdict" where
  "verdict sk = (\<lambda>skip sec name dir. sm_action (sk skip sec name dir))"

definition engine_containsPattern :: "'x regex_match \<Rightarrow> filelist \<Rightarrow> 'x skip_match \<Rightarrow> bool \<Rightarrow> bool" where
  "engine_containsPattern rm fl m dir \<longleftrightarrow>
     (case sm_regex m of
        None \<Rightarrow> fl_containsPattern (wild_matcher (sm_pattern m)) (path_new (sm_path m)) dir fl
      | Some x \<Rightarrow> fl_containsPattern (rm x) (path_new (sm_path m)) dir fl)"

definition engine_containsPatternBefore :: "'x regex_match \<Rightarrow> filelist \<Rightarrow> 'x skip_match \<Rightarrow> string \<Rightarrow> bool" where
  "engine_containsPatternBefore rm fl m item \<longleftrightarrow>
     (case sm_regex m of
        None \<Rightarrow> fl_containsPatternBefore (sm_pattern m) True item fl
      | Some x \<Rightarrow> fl_containsRegexPatternBefore (rm x) True item fl)"

text \<open>A directory the skip list \<open>skip\<close> of a site refuses; the code has the test four times.\<close>

definition dir_skipped :: "'x race_skip \<Rightarrow> 'x regex_match \<Rightarrow> nat \<Rightarrow> nat \<Rightarrow> filelist \<Rightarrow> string \<Rightarrow> bool" where
  "dir_skipped sk rm skip sec root sub \<longleftrightarrow>
     sub \<noteq> [] \<and>
     (let m = sk skip (Some sec) sub True
      in sm_action m = SKIPLIST_DENY
         \<or> sm_action m = SKIPLIST_UNIQUE \<and> engine_containsPatternBefore rm root m sub)"

text \<open>A file the skip list of the destination refuses; the list \<open>l\<close> may be looked through for its first similar file.\<close>

definition ensure_similar :: "'x race_skip \<Rightarrow> nat \<Rightarrow> nat option \<Rightarrow> nat \<Rightarrow> 'w world_scheme \<Rightarrow> 'w world_scheme" where
  "ensure_similar sk skip sec l w =
     (if fl_similarchecked (w_fl w l) then w else on_fl l (fl_checkSimilar (verdict sk) (Some skip) sec) w)"

definition file_skipped :: "'x race_skip \<Rightarrow> 'x regex_match \<Rightarrow> nat \<Rightarrow> nat \<Rightarrow> string \<Rightarrow> nat \<Rightarrow> string \<Rightarrow>
    'w world_scheme \<Rightarrow> 'w world_scheme \<times> bool" where
  "file_skipped sk rm skip sec sub l name w =
     (let m = sk skip (Some sec) (p_path (path_concat (path_new sub) (path_new name))) False
      in if sm_action m = SKIPLIST_DENY
            \<or> sm_action m = SKIPLIST_UNIQUE \<and> engine_containsPattern rm (w_fl w l) m False then (w, True)
         else if sm_action m = SKIPLIST_SIMILAR then
           (let w1 = ensure_similar sk skip (Some sec) l w
            in (w1, fl_containsUnsimilar name (w_fl w1 l) = Some True))
         else (w, False))"

subsection \<open>One transfer\<close>

text \<open>The two ends of a transfer: site, part of the job and list of each, and the job and directory.\<close>

record pairing =
  pr_sls :: nat
  pr_srs :: nat
  pr_fls :: nat
  pr_sld :: nat
  pr_srd :: nat
  pr_fld :: nat
  pr_race :: nat
  pr_sub :: string

definition pair_key :: "pairing \<Rightarrow> string \<Rightarrow> sb_key" where
  "pair_key p name = (pr_fls p, pr_fld p, name)"

definition pair_speed :: "'e engine_scheme \<Rightarrow> pairing \<Rightarrow> int" where
  "pair_speed e p =
     limit_speed (en_maxavgspeed e) (site_getAverageSpeed (x_name (en_site e (pr_sld p))) (en_site e (pr_sls p)))"

definition pair_score :: "int \<Rightarrow> 'e engine_scheme \<Rightarrow> pairing \<Rightarrow> dirfile \<Rightarrow> u16" where
  "pair_score speed e p f =
     (let r = the (w_race e (pr_race p))
      in calculateScore (en_maxavgspeed e) (getPrioType f) (f_size f) r (w_sr e (pr_srs p)) (w_fl e (pr_fld p))
           speed (x_priority (en_site e (pr_sld p))) (racemode r))"

definition pair_elem :: "int \<Rightarrow> 'e engine_scheme \<Rightarrow> pairing \<Rightarrow> string \<Rightarrow> dirfile \<Rightarrow> sb_elem" where
  "pair_elem speed e p name f =
     elem_new name (pair_score speed e p f) (f_size f) (getPrioType f) (pr_sls p) (pr_fls p) (pr_srs p)
       (pr_sld p) (pr_fld p) (pr_srd p) (pr_race p) (pr_sub p)"

definition put_transfer :: "bool \<Rightarrow> int \<Rightarrow> pairing \<Rightarrow> string \<Rightarrow> dirfile \<Rightarrow> 'e engine_scheme \<Rightarrow> 'e engine_scheme" where
  "put_transfer failed speed p name f e =
     on_race (pr_race p) race_resetUpdateCheckCounter
       (if failed then e\<lparr>en_fb := sb_update (pair_elem speed e p name f) (en_fb e)\<rparr>
        else e\<lparr>en_sb := sb_update (pair_elem speed e p name f) (en_sb e)\<rparr>)"

definition remove_both :: "sb_key \<Rightarrow> 'e engine_scheme \<Rightarrow> 'e engine_scheme" where
  "remove_both k e = e\<lparr>en_sb := snd (sb_remove k (en_sb e)), en_fb := snd (sb_remove k (en_fb e))\<rparr>"

definition transferable :: "dirfile \<Rightarrow> bool" where
  "transferable f \<longleftrightarrow> \<not> f_directory f \<and> f_size f \<noteq> 0"

subsection \<open>A list seen for the first time\<close>

definition add_file :: "'x race_skip \<Rightarrow> 'x regex_match \<Rightarrow> nat \<Rightarrow> pairing \<Rightarrow> dirfile \<Rightarrow>
    'e engine_scheme \<Rightarrow> 'e engine_scheme" where
  "add_file sk rm sec p f e =
     (if fl_contains (f_name f) (w_fl e (pr_fld p)) \<or> \<not> transferable f then e
      else
        let (e1, skipped) = file_skipped sk rm (x_skip (en_site e (pr_sld p))) sec (pr_sub p) (pr_fld p) (f_name f) e
        in if skipped then e1 else put_transfer False (pair_speed e p) p (f_name f) f e1)"

definition addToScoreBoardForPair :: "'x race_skip \<Rightarrow> 'x regex_match \<Rightarrow> nat \<Rightarrow> pairing \<Rightarrow>
    'e engine_scheme \<Rightarrow> 'e engine_scheme" where
  "addToScoreBoardForPair sk rm sec p e =
     (if fl_state (w_fl e (pr_fld p)) \<in> {LS_UNKNOWN, LS_PRE_FAIL, LS_FAILED} then e
      else fold (add_file sk rm sec p) (fl_view (w_fl e (pr_fls p))) e)"

definition add_pair :: "'x race_skip \<Rightarrow> 'x regex_match \<Rightarrow> nat \<Rightarrow> nat \<Rightarrow> nat \<Rightarrow> string \<Rightarrow> nat \<Rightarrow> nat \<Rightarrow> bool \<Rightarrow> nat \<times> nat \<Rightarrow>
    'e engine_scheme \<Rightarrow> 'e engine_scheme" where
  "add_pair sk rm l s sl sub rid sec flskip cmp e =
     (let (cs, csl) = cmp
      in case sr_getFileListForPath sub (w_sr e cs) of
           None \<Rightarrow> fst (sr_addSubDirectory sk cs sub False e)
         | Some cl \<Rightarrow>
             let there = \<lparr>pr_sls = csl, pr_srs = cs, pr_fls = cl, pr_sld = sl, pr_srd = s, pr_fld = l,
                   pr_race = rid, pr_sub = p_path (path_new sub)\<rparr>;
                 back = \<lparr>pr_sls = sl, pr_srs = s, pr_fls = l, pr_sld = csl, pr_srd = cs, pr_fld = cl,
                   pr_race = rid, pr_sub = p_path (path_new sub)\<rparr>;
                 e1 = (if raceTransferPossible e csl cs sl s \<and> \<not> flskip
                       then addToScoreBoardForPair sk rm sec there e else e)
             in if fl_uploadedfiles (w_fl e1 l) \<noteq> 0 \<and> raceTransferPossible e1 sl s csl cs
                then addToScoreBoardForPair sk rm sec back e1 else e1)"

text \<open>\<^term>\<open>None\<close> is the failed assertion.\<close>

definition addToScoreBoard :: "'x race_skip \<Rightarrow> 'x regex_match \<Rightarrow> nat \<Rightarrow> nat \<Rightarrow> nat \<Rightarrow> 'e engine_scheme \<Rightarrow> 'e engine_scheme option" where
  "addToScoreBoard sk rm l s sl e =
     (if fl_state (w_fl e l) = LS_FAILED then None
      else Some (case lock e s of
          None \<Rightarrow> e
        | Some r \<Rightarrow>
            let sub = sr_getSubPathForFileList l (w_sr e s);
                flskip = dir_skipped sk rm (x_skip (en_site e sl)) (r_sectionskip r) (w_fl e (sr_root (w_sr e s))) sub
            in on_fl l (fl_setInScoreBoard True)
                 (fold (add_pair sk rm l s sl sub (sr_race (w_sr e s)) (r_sectionskip r) flskip) (r_sites r) e)))"

subsection \<open>Names that changed on a list\<close>

text \<open>
  The list \<open>there\<close> names the changed list as source, and \<open>back\<close> as destination.  For a file that is gone
  from the changed list, transfers of it end, and it may be fetched again from the other list.

  The mean speed the scores are made with is the variable \<open>avgspeed\<close> of the code, set from the first
  site to the second before the names are gone through.  A name that is fetched back sets it to the
  speed of the other direction, and there it stays for the names after it.
\<close>

definition update_gone :: "'x race_skip \<Rightarrow> 'x regex_match \<Rightarrow> nat \<Rightarrow> pairing \<Rightarrow> pairing \<Rightarrow> string \<Rightarrow>
    int \<times> 'e engine_scheme \<Rightarrow> int \<times> 'e engine_scheme" where
  "update_gone sk rm sec there back name st =
     (let (speed, e) = st; e1 = remove_both (pair_key there name) e; l = pr_fld back;
          skip = x_skip (en_site e (pr_sld back))
      in if fl_state (w_fl e1 (pr_fls back)) = LS_FAILED
            \<or> \<not> raceTransferPossible e1 (pr_sls back) (pr_srs back) (pr_sld back) (pr_srd back) then (speed, e1)
         else case fl_getFile name (w_fl e1 (pr_fls back)) of
           None \<Rightarrow> (speed, e1)
         | Some a \<Rightarrow>
             let f = fl_obj (w_fl e1 (pr_fls back)) a
             in if dir_skipped sk rm skip sec (w_fl e1 (sr_root (w_sr e1 (pr_srd back)))) (pr_sub back) then (speed, e1)
                else if fl_contains name (w_fl e1 l) \<or> \<not> transferable f then (speed, e1)
                else
                  let (e2, skipped) = file_skipped sk rm skip sec (pr_sub back) l name e1
                  in if skipped then (speed, e2)
                     else (pair_speed e back,
                       put_transfer (race_hasFailedTransfer name (pr_fls back) l (the (w_race e2 (pr_race back))))
                         (pair_speed e back) back name f e2))"

definition update_there :: "'x race_skip \<Rightarrow> 'x regex_match \<Rightarrow> nat \<Rightarrow> pairing \<Rightarrow> pairing \<Rightarrow> string \<Rightarrow> dirfile \<Rightarrow>
    int \<Rightarrow> 'e engine_scheme \<Rightarrow> 'e engine_scheme" where
  "update_there sk rm sec there back name f speed e =
     (let k = pair_key back name; (removed, sb) = sb_remove k (en_sb e);
          e1 = e\<lparr>en_sb := (if removed then sb_resetSkipChecked (pr_fls there) sb else sb),
                 en_fb := snd (sb_remove k (en_fb e))\<rparr>;
          cl = pr_fld there
      in if fl_state (w_fl e1 cl) = LS_FAILED \<or> fl_contains name (w_fl e1 cl)
            \<or> \<not> raceTransferPossible e1 (pr_sls there) (pr_srs there) (pr_sld there) (pr_srd there)
            \<or> \<not> transferable f then e1
         else
           let (e2, skipped) = file_skipped sk rm (x_skip (en_site e (pr_sld there))) sec (pr_sub there) cl name e1
           in if skipped then e2
              else put_transfer (race_hasFailedTransfer name (pr_fls there) cl (the (w_race e2 (pr_race there))))
                     speed there name f e2)"

definition update_name :: "'x race_skip \<Rightarrow> 'x regex_match \<Rightarrow> nat \<Rightarrow> pairing \<Rightarrow> pairing \<Rightarrow> string \<Rightarrow>
    int \<times> 'e engine_scheme \<Rightarrow> int \<times> 'e engine_scheme" where
  "update_name sk rm sec there back name st =
     (let (speed, e) = st
      in case fl_getFile name (w_fl e (pr_fls there)) of
           None \<Rightarrow> update_gone sk rm sec there back name st
         | Some a \<Rightarrow>
             (speed, update_there sk rm sec there back name (fl_obj (w_fl e (pr_fls there)) a) speed e))"

definition update_site :: "'x race_skip \<Rightarrow> 'x regex_match \<Rightarrow> string list \<Rightarrow> nat \<Rightarrow> nat \<Rightarrow> nat \<Rightarrow> string \<Rightarrow> nat \<Rightarrow> nat \<Rightarrow>
    nat \<times> nat \<Rightarrow> 'e engine_scheme \<Rightarrow> 'e engine_scheme" where
  "update_site sk rm names l s sl sub rid sec cmp e =
     (let (cs, csl) = cmp
      in if dir_skipped sk rm (x_skip (en_site e csl)) sec (w_fl e (sr_root (w_sr e cs))) sub then e
         else case sr_getFileListForPath sub (w_sr e cs) of
           None \<Rightarrow> fst (sr_addSubDirectory sk cs sub False e)
         | Some cl \<Rightarrow>
             if fl_state (w_fl e cl) = LS_UNKNOWN then e
             else
               let there = \<lparr>pr_sls = sl, pr_srs = s, pr_fls = l, pr_sld = csl, pr_srd = cs, pr_fld = cl,
                     pr_race = rid, pr_sub = sub\<rparr>;
                   back = \<lparr>pr_sls = csl, pr_srs = cs, pr_fls = cl, pr_sld = sl, pr_srd = s, pr_fld = l,
                     pr_race = rid, pr_sub = sub\<rparr>
               in snd (fold (update_name sk rm sec there back) names (pair_speed e there, e)))"

record orders =
  o_names :: "string set \<Rightarrow> string list"
  o_keys :: "sb_key set \<Rightarrow> sb_key list"
  o_addrs :: "addr set \<Rightarrow> addr list"
  o_rand :: "nat \<Rightarrow> nat"

definition wipe_list :: "orders \<Rightarrow> nat \<Rightarrow> 'e engine_scheme \<Rightarrow> 'e engine_scheme" where
  "wipe_list ord l e =
     e\<lparr>en_sb := sb_wipe_fl (o_keys ord) (o_addrs ord) l (en_sb e),
       en_fb := sb_wipe_fl (o_keys ord) (o_addrs ord) l (en_fb e)\<rparr>"

definition update_list :: "'x race_skip \<Rightarrow> 'x regex_match \<Rightarrow> orders \<Rightarrow> nat \<times> nat \<times> nat \<Rightarrow>
    'e engine_scheme \<Rightarrow> 'e engine_scheme" where
  "update_list sk rm ord entry e =
     (let (l, s, sl) = entry
      in case lock e s of
           None \<Rightarrow> e
         | Some r \<Rightarrow>
             if fl_state (w_fl e l) = LS_FAILED then on_fl l (fl_setInScoreBoard False) (wipe_list ord l e)
             else
               let sub = sr_getSubPathForFileList l (w_sr e s); names = o_names ord (fl_sbchanged (w_fl e l))
               in on_fl l fl_resetScoreBoardUpdates
                    (fold (update_site sk rm names l s sl sub (sr_race (w_sr e s)) (r_sectionskip r)) (r_sites r) e))"

definition settle :: "orders \<Rightarrow> scoreboard \<Rightarrow> scoreboard" where
  "settle ord sb = sb_shuffleEquals (o_rand ord) (sb_sort sb)"

definition updateScoreBoard :: "'x race_skip \<Rightarrow> 'x regex_match \<Rightarrow> orders \<Rightarrow> 'e engine_scheme \<Rightarrow> 'e engine_scheme" where
  "updateScoreBoard sk rm ord e =
     (let e1 = (fold (update_list sk rm ord) (en_changed e) e)\<lparr>en_changed := []\<rparr>
      in e1\<lparr>en_sb := settle ord (en_sb e1)\<rparr>)"

text \<open>Scores are written to the elements only; no score depends on another.\<close>

definition refreshScoreBoard :: "orders \<Rightarrow> 'e engine_scheme \<Rightarrow> 'e engine_scheme" where
  "refreshScoreBoard ord e =
     (let sb = en_sb e;
          h = (\<lambda>a. if a \<in> set (sb_active sb) then (heap sb a)\<lparr>e_score := rescore e (heap sb a)\<rparr> else heap sb a)
      in e\<lparr>en_sb := settle ord (sb\<lparr>heap := h\<rparr>)\<rparr>)"

subsection \<open>Between the boards\<close>

definition wipeFromScoreBoard :: "orders \<Rightarrow> nat \<Rightarrow> 'e engine_scheme \<Rightarrow> 'e engine_scheme" where
  "wipeFromScoreBoard ord s e = fold (\<lambda>p. wipe_list ord (snd p)) (sr_lists (w_sr e s)) e"

definition waitingInScoreBoard :: "nat \<Rightarrow> 'e engine_scheme \<Rightarrow> bool" where
  "waitingInScoreBoard rid e \<longleftrightarrow>
     list_ex (\<lambda>a. e_race (heap (en_sb e) a) = rid \<and> transferExpectedSoon e (heap (en_sb e) a)) (sb_active (en_sb e))"

definition restoreFromFailed :: "orders \<Rightarrow> nat \<Rightarrow> 'e engine_scheme \<Rightarrow> 'e engine_scheme" where
  "restoreFromFailed ord rid e =
     (let els = filter (\<lambda>el. e_race el = rid) (map (heap (en_fb e)) (sb_active (en_fb e)))
      in e\<lparr>en_sb := settle ord (fold sb_update els (en_sb e)),
           en_fb := fold (\<lambda>el sb. snd (sb_remove (elem_key el) sb)) els (en_fb e)\<rparr>)"

text \<open>The job of a transfer that failed is \<open>cb\<close>, if it has one that is a spread job.\<close>

definition transferFailed :: "orders \<Rightarrow> nat option \<Rightarrow> string \<Rightarrow> nat \<Rightarrow> nat \<Rightarrow> 'e engine_scheme \<Rightarrow> 'e engine_scheme" where
  "transferFailed ord cb file fls fld e =
     (case cb of
        None \<Rightarrow> e
      | Some rid \<Rightarrow>
          if \<not> race_hasFailedTransfer file fls fld (the (w_race e rid)) then e
          else (case sb_find (en_sb e) (fls, fld, file) of
              None \<Rightarrow> e
            | Some a \<Rightarrow>
                e\<lparr>en_fb := sb_update (heap (en_sb e) a) (en_fb e),
                  en_sb := settle ord (snd (sb_remove (elem_key (heap (en_sb e) a)) (en_sb e)))\<rparr>))"

end
