(* ===== verification/EngineBoardsInv.thy ===== *)
theory EngineBoardsInv
  imports EngineBoards
begin

text \<open>
  What stands on the boards of the engine: an invariant over every history of the operations on the
  boards, and its consequence that no transfer from a board is refused by the transfer monitor; what an
  update does to the two boards; and the moves between them.
\<close>

declare split_paired_All [simp del] split_paired_Ex [simp del]

subsection \<open>Transfers that fit\<close>

text \<open>What \<^const>\<open>raceTransferPossible\<close> says of the sites, without the status of the source.\<close>

definition fit :: "'e engine_scheme \<Rightarrow> nat \<Rightarrow> nat \<Rightarrow> nat \<Rightarrow> bool" where
  "fit e src dst dstsr \<longleftrightarrow>
     src \<noteq> dst \<and> x_allowdown (en_site e src) \<noteq> ALLOW_NO \<and> x_allowup (en_site e dst) \<noteq> ALLOW_NO
     \<and> site_getMaxUp (en_site e dst) \<noteq> 0 \<and> site_isAllowedTargetSite (en_site e src) (en_site e dst)
     \<and> \<not> sr_downloadonly (w_sr e dstsr) \<and> transfer_settings_ok (en_site e src) (en_site e dst)"

lemma possible_fit: "raceTransferPossible e sls srs sld srd \<Longrightarrow> fit e sls sld srd"
  by (simp add: raceTransferPossible_def fit_def Let_def)

definition elem_fit :: "'e engine_scheme \<Rightarrow> sb_elem \<Rightarrow> bool" where
  "elem_fit e el \<longleftrightarrow> fit e (e_src el) (e_dst el) (e_dstsr el)"

definition board_fit :: "'e engine_scheme \<Rightarrow> scoreboard \<Rightarrow> bool" where
  "board_fit e sb \<longleftrightarrow> sb_inv sb \<and> (\<forall>el\<in>ran (sb_view sb). elem_fit e el)"

definition boards_fit :: "'e engine_scheme \<Rightarrow> bool" where
  "boards_fit e \<longleftrightarrow> board_fit e (en_sb e) \<and> board_fit e (en_fb e)"

text \<open>What stays the same in all operations on boards, and what an operation keeps.\<close>

definition same_sites :: "'e engine_scheme \<Rightarrow> 'e engine_scheme \<Rightarrow> bool" where
  "same_sites e e' \<longleftrightarrow> en_site e' = en_site e \<and> (\<forall>s. sr_downloadonly (w_sr e' s) = sr_downloadonly (w_sr e s))"

definition same_boards :: "'e engine_scheme \<Rightarrow> 'e engine_scheme \<Rightarrow> bool" where
  "same_boards e e' \<longleftrightarrow> same_sites e e' \<and> en_sb e' = en_sb e \<and> en_fb e' = en_fb e"

definition keeps_fit :: "'e engine_scheme \<Rightarrow> 'e engine_scheme \<Rightarrow> bool" where
  "keeps_fit e e' \<longleftrightarrow> same_sites e e' \<and> (boards_fit e \<longrightarrow> boards_fit e')"

lemma same_sites_refl [simp]: "same_sites e e"
  by (simp add: same_sites_def)

lemma same_fit: "same_sites e e' \<Longrightarrow> fit e' = fit e"
  by (simp add: same_sites_def fit_def fun_eq_iff)

lemma same_board_fit: "same_sites e e' \<Longrightarrow> board_fit e' = board_fit e"
  by (simp add: same_fit board_fit_def elem_fit_def fun_eq_iff)

lemma keeps_refl [simp]: "keeps_fit e e"
  by (simp add: keeps_fit_def same_sites_def)

lemma keeps_trans: "keeps_fit e e' \<Longrightarrow> keeps_fit e' e'' \<Longrightarrow> keeps_fit e e''"
  by (auto simp: keeps_fit_def same_sites_def)

lemma keeps_same: "same_boards e e' \<Longrightarrow> keeps_fit e e'"
  using same_board_fit [of e e'] by (simp add: keeps_fit_def same_boards_def boards_fit_def)

lemma keeps_fold: "(\<And>x e. x \<in> set xs \<Longrightarrow> keeps_fit e (f x e)) \<Longrightarrow> keeps_fit e (fold f xs e)"
  by (induction xs arbitrary: e) (auto intro: keeps_trans)

lemma keeps_fold_snd:
  "(\<And>x st. x \<in> set xs \<Longrightarrow> keeps_fit (snd st) (snd (f x st))) \<Longrightarrow> keeps_fit (snd st) (snd (fold f xs st))"
proof (induction xs arbitrary: st)
  case (Cons x xs)
  have "keeps_fit (snd (f x st)) (snd (fold f xs (f x st)))" using Cons.prems by (intro Cons.IH) simp
  with Cons.prems [of x st] show ?case by (auto intro: keeps_trans)
qed simp

text \<open>A fold whose steps are allowed because of what holds at its start.\<close>

lemma keeps_fold_from:
  assumes "\<And>x e. x \<in> set xs \<Longrightarrow> same_sites e0 e \<Longrightarrow> keeps_fit e (f x e)" and "same_sites e0 e"
  shows "keeps_fit e (fold f xs e)"
  using assms
proof (induction xs arbitrary: e)
  case (Cons x xs)
  then have "keeps_fit e (f x e)" by simp
  moreover then have "same_sites e0 (f x e)" using Cons.prems(2) by (auto simp: keeps_fit_def same_sites_def)
  ultimately show ?case using Cons by (auto intro: keeps_trans)
qed simp

subsection \<open>The store\<close>

lemma same_on_fl [simp]: "same_boards e (on_fl l f e)"
  by (simp add: same_boards_def same_sites_def on_fl_def)

lemma same_on_race [simp]: "same_boards e (on_race r f e)"
  by (simp add: same_boards_def same_sites_def on_race_def)

lemma same_on_sr: "(\<And>s. sr_downloadonly (f s) = sr_downloadonly s) \<Longrightarrow> same_boards e (on_sr x f e)"
  by (simp add: same_boards_def same_sites_def on_sr_def)

lemma same_boards_trans: "same_boards e e' \<Longrightarrow> same_boards e' e'' \<Longrightarrow> same_boards e e''"
  by (auto simp: same_boards_def same_sites_def)

lemma same_boards_refl [simp]: "same_boards e e"
  by (simp add: same_boards_def same_sites_def)

lemma same_new_list: "same_boards e (fst (new_list u p st e))"
  by (simp add: new_list_def Let_def same_boards_def same_sites_def)

lemma same_addSubDirectory: "same_boards e (fst (sr_addSubDirectory sk s sub False e))"
proof (cases "lock e s")
  case (Some r)
  let ?l = "new_list (sr_username (w_sr e s)) (path_concat (sr_path (w_sr e s)) (path_new sub)) LS_UNKNOWN e"
  have "same_boards e (on_sr s (\<lambda>sr. sr\<lparr>sr_lists := AList.update sub (snd ?l) (sr_lists sr),
      sr_recent := sr_recent sr @ [sub]\<rparr>) (fst ?l))"
    by (rule same_boards_trans [OF same_new_list same_on_sr]) simp
  then show ?thesis using Some by (cases ?l) (simp add: sr_addSubDirectory_def Let_def)
qed (simp add: sr_addSubDirectory_def)

lemma same_file_skipped: "same_boards e (fst (file_skipped sk rm skip sec sub l name e))"
  by (simp add: file_skipped_def ensure_similar_def Let_def)

subsection \<open>Single operations on a board\<close>

lemma elem_fit_update [simp]: "elem_fit e (elem_reset_from (elem_update sc sz el)) = elem_fit e el"
  "elem_fit e (elem_reset_from el) = elem_fit e el" "elem_fit e (elem_update sc sz el) = elem_fit e el"
  "elem_fit e (el\<lparr>e_score := sc\<rparr>) = elem_fit e el"
  by (simp_all add: elem_fit_def elem_update_def elem_reset_from_def elem_new_def)

lemma ran_upd: "el \<in> ran (m(k \<mapsto> v)) \<Longrightarrow> el = v \<or> el \<in> ran m"
  by (auto simp: ran_def split: if_splits)

lemma ran_del: "el \<in> ran (m(k := None)) \<Longrightarrow> el \<in> ran m"
  by (auto simp: ran_def split: if_splits)

lemma board_fit_update:
  assumes "board_fit e sb" "elem_fit e el"
  shows "board_fit e (sb_update el sb)"
proof -
  have "elem_fit e x" if "x \<in> ran (sb_view (sb_update el sb))" for x
  proof (cases "sb_view sb (elem_key el)")
    case None
    then show ?thesis
      using that assms ran_upd [of x "sb_view sb"] by (auto simp: board_fit_def sb_update_view)
  next
    case (Some y)
    then have "x \<in> ran ((sb_view sb)(elem_key el \<mapsto> elem_update (e_score el) (e_filesize el) y))"
      using that assms(1) by (simp add: board_fit_def sb_update_view)
    then consider "x = elem_update (e_score el) (e_filesize el) y" | "x \<in> ran (sb_view sb)" using ran_upd by metis
    then show ?thesis using assms(1) ranI [of "sb_view sb", OF Some] by cases (auto simp: board_fit_def)
  qed
  then show ?thesis using assms by (simp add: board_fit_def sb_update_inv)
qed

lemma board_fit_remove: "board_fit e sb \<Longrightarrow> board_fit e (snd (sb_remove k sb))"
  using ran_del by (fastforce simp: board_fit_def sb_remove_inv sb_remove_view)

lemma board_fit_wipe:
  assumes "board_fit e sb" "\<And>A. finite A \<Longrightarrow> set (kord A) = A" "\<And>A. finite A \<Longrightarrow> set (aord A) = A"
  shows "board_fit e (sb_wipe_fl kord aord l sb)"
  using assms(1) sb_wipe_fl_correct [OF _ assms(2,3), of sb l]
  by (auto simp: board_fit_def ran_def split: if_splits)

lemma settle_props:
  assumes "sb_inv sb"
  shows "sb_inv (settle ord sb)" "sb_view (settle ord sb) = sb_view sb"
proof -
  show "sb_inv (settle ord sb)" using assms by (simp add: settle_def sb_sort_inv sb_shuffleEquals_inv)
  have "sb_view (sb_shuffleEquals rnd sb') = sb_view sb'" for rnd sb'
    by (subst sb_shuffleEquals_frame) (simp add: sb_view_def fun_eq_iff)
  then show "sb_view (settle ord sb) = sb_view sb" by (simp add: settle_def)
qed

lemma board_fit_settle: "board_fit e sb \<Longrightarrow> board_fit e (settle ord sb)"
  by (simp add: board_fit_def settle_props)

lemma resetSkip_props:
  assumes "sb_inv sb"
  shows "sb_inv (sb_resetSkipChecked l sb)" "sb_view (sb_resetSkipChecked l sb) = sb_view sb"
proof -
  show "sb_inv (sb_resetSkipChecked l sb)"
    unfolding sb_resetSkipChecked_def by (rule sb_inv_heap [OF assms]) simp
  have "elem_reset_from (if b then el\<lparr>e_skipchecked := False\<rparr> else el) = elem_reset_from el" for el b
    by (simp add: elem_reset_from_def)
  then show "sb_view (sb_resetSkipChecked l sb) = sb_view sb"
    by (simp add: sb_resetSkipChecked_def sb_view_def fun_eq_iff)
qed

text \<open>Elements of a board by their view.\<close>

lemma board_elem:
  assumes "board_fit e sb" "a \<in> set (sb_active sb)"
  shows "elem_fit e (heap sb a)"
proof -
  have "sb_view sb (elem_key (heap sb a)) = Some (elem_reset_from (heap sb a))"
    using assms by (simp add: board_fit_def sb_view_def sb_inv_locatorI)
  then have "elem_fit e (elem_reset_from (heap sb a))" using assms(1) ranI by (fastforce simp: board_fit_def)
  then show ?thesis by simp
qed

subsection \<open>Operations on the boards\<close>

lemma keeps_file_skipped: "keeps_fit e (fst (file_skipped sk rm skip sec sub l name e))"
  by (rule keeps_same [OF same_file_skipped])

text \<open>A transfer is put on a board; its ends fit.\<close>

lemma keeps_put:
  assumes "fit e (pr_sls p) (pr_sld p) (pr_srd p)"
  shows "keeps_fit e (put_transfer failed speed p name f e)"
proof -
  let ?el = "pair_elem speed e p name f"
  have el: "elem_fit e ?el" using assms by (simp add: elem_fit_def pair_elem_def elem_new_def)
  let ?e1 = "if failed then e\<lparr>en_fb := sb_update ?el (en_fb e)\<rparr> else e\<lparr>en_sb := sb_update ?el (en_sb e)\<rparr>"
  have s: "same_sites e ?e1" by (simp add: same_sites_def)
  have "keeps_fit e ?e1"
    unfolding keeps_fit_def boards_fit_def same_board_fit [OF s] using s el board_fit_update by auto
  then show ?thesis
    unfolding put_transfer_def by (rule keeps_trans) (rule keeps_same [OF same_on_race])
qed

lemma keeps_put_from: "fit e0 (pr_sls p) (pr_sld p) (pr_srd p) \<Longrightarrow> same_sites e0 e \<Longrightarrow> keeps_fit e (put_transfer failed speed p name f e)"
  by (simp add: keeps_put same_fit)

lemma keeps_skip_then_put:
  assumes "fit e0 (pr_sls p) (pr_sld p) (pr_srd p)" "same_sites e0 e"
  shows "keeps_fit e (put_transfer failed speed p name f (fst (file_skipped sk rm skip sec sub l n e)))"
proof -
  have k: "keeps_fit e (fst (file_skipped sk rm skip sec sub l n e))" by (rule keeps_file_skipped)
  then have "same_sites e0 (fst (file_skipped sk rm skip sec sub l n e))"
    using assms(2) by (auto simp: keeps_fit_def same_sites_def)
  then show ?thesis using k keeps_put_from [OF assms(1)] by (auto intro: keeps_trans)
qed

lemma keeps_skip_put:
  assumes "fit e0 (pr_sls p) (pr_sld p) (pr_srd p)" "same_sites e0 e"
  shows "keeps_fit e (case file_skipped sk rm skip sec sub l name e of
    (e1, skipped) \<Rightarrow> if skipped then e1 else put_transfer (failed e1) speed p name f e1)"
  using keeps_skip_then_put [OF assms, where sk = sk and rm = rm] by (simp add: case_prod_beta keeps_file_skipped)

lemma keeps_add_file:
  "fit e0 (pr_sls p) (pr_sld p) (pr_srd p) \<Longrightarrow> same_sites e0 e \<Longrightarrow> keeps_fit e (add_file sk rm sec p f e)"
  using keeps_skip_put [where failed = "\<lambda>_. False" and ?e0.0 = e0 and e = e and p = p and name = "f_name f" and f = f
      and sk = sk and rm = rm and speed = "pair_speed e p"]
  by (simp add: add_file_def)

lemma keeps_addForPair:
  assumes "fit e (pr_sls p) (pr_sld p) (pr_srd p)"
  shows "keeps_fit e (addToScoreBoardForPair sk rm sec p e)"
proof -
  have "same_sites e e" by (simp add: same_sites_def)
  then show ?thesis
    using keeps_add_file [OF assms, where sk = sk and rm = rm]
    by (auto simp: addToScoreBoardForPair_def intro!: keeps_fold_from [of _ e])
qed

lemma keeps_add_pair: "keeps_fit e (add_pair sk rm l s sl sub rid sec flskip cmp e)"
proof (cases "sr_getFileListForPath sub (w_sr e (fst cmp))")
  case None
  then show ?thesis using keeps_same [OF same_addSubDirectory] by (cases cmp) (simp add: add_pair_def)
next
  case (Some cl)
  obtain cs csl where c: "cmp = (cs, csl)" by (cases cmp)
  let ?p = "\<lparr>pr_sls = csl, pr_srs = cs, pr_fls = cl, pr_sld = sl, pr_srd = s, pr_fld = l, pr_race = rid,
    pr_sub = p_path (path_new sub)\<rparr>"
  let ?q = "\<lparr>pr_sls = sl, pr_srs = s, pr_fls = l, pr_sld = csl, pr_srd = cs, pr_fld = cl, pr_race = rid,
    pr_sub = p_path (path_new sub)\<rparr>"
  define e1 where "e1 = (if raceTransferPossible e csl cs sl s \<and> \<not> flskip then addToScoreBoardForPair sk rm sec ?p e else e)"
  have "keeps_fit e e1" using possible_fit [of e csl cs sl s] by (simp add: e1_def keeps_addForPair)
  moreover have "keeps_fit e1 (addToScoreBoardForPair sk rm sec ?q e1)" if "raceTransferPossible e1 sl s csl cs"
    using possible_fit [OF that] by (simp add: keeps_addForPair)
  ultimately show ?thesis
    using Some by (auto simp: add_pair_def c Let_def e1_def [symmetric] intro: keeps_trans)
qed

lemma keeps_addToScoreBoard: "addToScoreBoard sk rm l s sl e = Some e' \<Longrightarrow> keeps_fit e e'"
  by (auto simp: addToScoreBoard_def Let_def split: if_splits option.splits
      intro!: keeps_trans [OF _ keeps_same [OF same_on_fl]] keeps_fold keeps_add_pair)

lemma keeps_boards:
  assumes "same_sites e e'" "board_fit e (en_sb e) \<Longrightarrow> board_fit e (en_sb e')" "board_fit e (en_fb e) \<Longrightarrow> board_fit e (en_fb e')"
  shows "keeps_fit e e'"
  using assms(2,3) unfolding keeps_fit_def boards_fit_def same_board_fit [OF assms(1)] by (simp add: assms(1))

lemma keeps_remove_both: "keeps_fit e (remove_both k e)"
  by (rule keeps_boards) (simp_all add: remove_both_def same_sites_def board_fit_remove)

lemma keeps_update_gone: "keeps_fit e (snd (update_gone sk rm sec there back name (speed, e)))"
proof -
  let ?e1 = "remove_both (pair_key there name) e"
  have k: "keeps_fit e ?e1" by (rule keeps_remove_both)
  have "keeps_fit ?e1 (snd (update_gone sk rm sec there back name (speed, e)))"
  proof (cases "raceTransferPossible ?e1 (pr_sls back) (pr_srs back) (pr_sld back) (pr_srd back)")
    case True
    then have "fit ?e1 (pr_sls back) (pr_sld back) (pr_srd back)" by (rule possible_fit)
    note put = keeps_skip_then_put [OF this, of ?e1, where sk = sk and rm = rm, OF same_sites_refl]
    show ?thesis
      by (simp add: update_gone_def Let_def case_prod_beta put keeps_file_skipped split: option.split)
  qed (simp add: update_gone_def Let_def)
  with k show ?thesis by (rule keeps_trans)
qed

lemma keeps_update_there: "keeps_fit e (update_there sk rm sec there back name f speed e)"
proof -
  define e1 where "e1 = e\<lparr>en_sb := (if fst (sb_remove (pair_key back name) (en_sb e))
      then sb_resetSkipChecked (pr_fls there) (snd (sb_remove (pair_key back name) (en_sb e)))
      else snd (sb_remove (pair_key back name) (en_sb e))),
    en_fb := snd (sb_remove (pair_key back name) (en_fb e))\<rparr>"
  have "board_fit e (sb_resetSkipChecked l sb)" if "board_fit e sb" for l sb
    using that by (simp add: board_fit_def resetSkip_props)
  then have k: "keeps_fit e e1"
    by (intro keeps_boards) (simp_all add: e1_def same_sites_def board_fit_remove)
  have "keeps_fit e1 (update_there sk rm sec there back name f speed e)"
  proof (cases "raceTransferPossible e1 (pr_sls there) (pr_srs there) (pr_sld there) (pr_srd there)")
    case True
    then have "fit e1 (pr_sls there) (pr_sld there) (pr_srd there)" by (rule possible_fit)
    note skip = keeps_skip_put [OF this, of e1, where sk = sk and rm = rm and name = name and f = f
        and failed = "\<lambda>e2. race_hasFailedTransfer name (pr_fls there) (pr_fld there) (the (w_race e2 (pr_race there)))"]
    then show ?thesis
      by (simp add: update_there_def Let_def case_prod_beta same_sites_def e1_def [symmetric])
  next
    case False
    then show ?thesis by (simp add: update_there_def Let_def case_prod_beta e1_def [symmetric])
  qed
  with k show ?thesis by (rule keeps_trans)
qed

lemma keeps_update_name: "keeps_fit (snd st) (snd (update_name sk rm sec there back name st))"
  by (cases st) (simp add: update_name_def keeps_update_gone keeps_update_there split: option.split)

lemma keeps_update_site: "keeps_fit e (update_site sk rm names l s sl sub rid sec cmp e)"
proof -
  have "keeps_fit e (snd (fold (update_name sk rm sec there away) names (speed, e)))" for there away speed
    using keeps_fold_snd [of names "update_name sk rm sec there away" "(speed, e)"] keeps_update_name
    by (metis snd_conv)
  then show ?thesis
    by (auto simp: update_site_def Let_def keeps_same [OF same_addSubDirectory] split: prod.split option.split)
qed

definition orders_ok :: "orders \<Rightarrow> bool" where
  "orders_ok ord \<longleftrightarrow> (\<forall>A. finite A \<longrightarrow> set (o_keys ord A) = A) \<and> (\<forall>A. finite A \<longrightarrow> set (o_addrs ord A) = A)
     \<and> (\<forall>A. finite A \<longrightarrow> set (o_names ord A) = A)"

lemma keeps_wipe_list:
  assumes "orders_ok ord"
  shows "keeps_fit e (wipe_list ord l e)"
  using assms
  by (intro keeps_boards) (simp_all add: wipe_list_def same_sites_def orders_ok_def board_fit_wipe)

lemma keeps_update_list:
  assumes "orders_ok ord"
  shows "keeps_fit e (update_list sk rm ord entry e)"
proof -
  obtain l s sl where e: "entry = (l, s, sl)" by (cases entry)
  show ?thesis
    unfolding e update_list_def Let_def
    by (auto intro!: keeps_trans [OF _ keeps_same [OF same_on_fl]] keeps_wipe_list [OF assms] keeps_fold
        keeps_update_site split: option.split)
qed

lemma keeps_settle: "keeps_fit e (e\<lparr>en_sb := settle ord (en_sb e)\<rparr>)"
  by (rule keeps_boards) (simp_all add: same_sites_def board_fit_settle)

lemma keeps_updateScoreBoard:
  assumes "orders_ok ord"
  shows "keeps_fit e (updateScoreBoard sk rm ord e)"
proof -
  let ?e1 = "fold (update_list sk rm ord) (en_changed e) e"
  have "keeps_fit e ?e1" by (rule keeps_fold) (rule keeps_update_list [OF assms])
  moreover have "same_boards ?e1 (?e1\<lparr>en_changed := []\<rparr>)" by (simp add: same_boards_def same_sites_def)
  ultimately have "keeps_fit e (?e1\<lparr>en_changed := []\<rparr>)" using keeps_trans keeps_same by blast
  then show ?thesis unfolding updateScoreBoard_def Let_def by (rule keeps_trans) (rule keeps_settle)
qed

lemma keeps_refreshScoreBoard: "keeps_fit e (refreshScoreBoard ord e)"
proof (rule keeps_boards)
  assume b: "board_fit e (en_sb e)"
  let ?sb = "(en_sb e)\<lparr>heap := \<lambda>a. if a \<in> set (sb_active (en_sb e))
    then (heap (en_sb e) a)\<lparr>e_score := rescore e (heap (en_sb e) a)\<rparr> else heap (en_sb e) a\<rparr>"
  have inv: "sb_inv ?sb"
    using b by (intro sb_inv_heap) (simp_all add: board_fit_def elem_key_def)
  have "elem_fit e el" if "el \<in> ran (sb_view ?sb)" for el
  proof -
    obtain k a where a: "locator (en_sb e) k = Some a" "el = elem_reset_from (heap ?sb a)"
      using \<open>el \<in> ran (sb_view ?sb)\<close> by (auto simp: ran_def sb_view_def)
    then have "elem_fit e (heap (en_sb e) a)"
      using board_elem [OF b] b sb_inv_locatorD by (auto simp: board_fit_def)
    then show ?thesis using a(2) by simp
  qed
  then have "board_fit e ?sb" using inv by (simp add: board_fit_def)
  then show "board_fit e (en_sb (refreshScoreBoard ord e))"
    by (simp add: refreshScoreBoard_def Let_def board_fit_settle)
qed (simp_all add: refreshScoreBoard_def same_sites_def Let_def)

lemma keeps_transferFailed:
  assumes "boards_fit e"
  shows "boards_fit (transferFailed ord cb file fls fld e) \<and> same_sites e (transferFailed ord cb file fls fld e)"
proof (cases "locator (en_sb e) (fls, fld, file)")
  case None
  then show ?thesis using assms by (simp add: transferFailed_def sb_find_def same_sites_def split: option.split)
next
  case (Some a)
  have "a \<in> set (sb_active (en_sb e))"
    using assms sb_inv_locatorD(1) [OF _ Some] by (simp add: boards_fit_def board_fit_def)
  then have "elem_fit e (heap (en_sb e) a)" using assms board_elem [of e "en_sb e" a] by (simp add: boards_fit_def)
  then have b: "board_fit e (sb_update (heap (en_sb e) a) (en_fb e))"
      "board_fit e (settle ord (snd (sb_remove k (en_sb e))))" for k
    using assms by (simp_all add: boards_fit_def board_fit_update board_fit_settle board_fit_remove)
  let ?e = "e\<lparr>en_fb := sb_update (heap (en_sb e) a) (en_fb e),
    en_sb := settle ord (snd (sb_remove (elem_key (heap (en_sb e) a)) (en_sb e)))\<rparr>"
  have "same_sites e ?e" by (simp add: same_sites_def)
  moreover have "boards_fit ?e" unfolding boards_fit_def same_board_fit [OF \<open>same_sites e ?e\<close>] using b by simp
  ultimately show ?thesis
    using Some assms by (auto simp: transferFailed_def sb_find_def same_sites_def split: option.split)
qed

lemma board_fit_updates: "board_fit e sb \<Longrightarrow> \<forall>el\<in>set els. elem_fit e el \<Longrightarrow> board_fit e (fold sb_update els sb)"
  by (induction els arbitrary: sb) (simp_all add: board_fit_update)

lemma board_fit_removes: "board_fit e sb \<Longrightarrow> board_fit e (fold (\<lambda>el sb. snd (sb_remove (elem_key el) sb)) els sb)"
  by (induction els arbitrary: sb) (simp_all add: board_fit_remove)

lemma keeps_restoreFromFailed:
  assumes "boards_fit e"
  shows "boards_fit (restoreFromFailed ord rid e) \<and> same_sites e (restoreFromFailed ord rid e)"
proof -
  let ?els = "filter (\<lambda>el. e_race el = rid) (map (heap (en_fb e)) (sb_active (en_fb e)))"
  have "\<forall>el\<in>set ?els. elem_fit e el" using assms board_elem by (auto simp: boards_fit_def)
  then have b: "board_fit e (settle ord (fold sb_update ?els (en_sb e)))"
      "board_fit e (fold (\<lambda>el sb. snd (sb_remove (elem_key el) sb)) ?els (en_fb e))"
    using assms by (simp_all add: boards_fit_def board_fit_settle board_fit_updates board_fit_removes)
  have s: "same_sites e (restoreFromFailed ord rid e)" by (simp add: restoreFromFailed_def Let_def same_sites_def)
  show ?thesis unfolding boards_fit_def same_board_fit [OF s] using b s by (simp add: restoreFromFailed_def Let_def)
qed

lemma keeps_wipe:
  assumes "orders_ok ord"
  shows "keeps_fit e (wipeFromScoreBoard ord s e)"
  unfolding wipeFromScoreBoard_def by (rule keeps_fold) (rule keeps_wipe_list [OF assms])

subsection \<open>Histories of the boards\<close>

text \<open>
  The boards start empty.  Between two operations everything else may change, lists, jobs and the
  notes of changes; but this is only of the histories in which the sites keep their settings and a part
  of a job stays download-only or not (\<open>same_boards\<close>).
\<close>

inductive eng_reach :: "'x race_skip \<Rightarrow> 'x regex_match \<Rightarrow> orders \<Rightarrow> engine \<Rightarrow> bool" for sk rm ord where
  start: "en_sb e = sb_empty h \<Longrightarrow> en_fb e = sb_empty g \<Longrightarrow> eng_reach sk rm ord e"
| elsewhere: "eng_reach sk rm ord e \<Longrightarrow> same_boards e e' \<Longrightarrow> eng_reach sk rm ord e'"
| add: "eng_reach sk rm ord e \<Longrightarrow> addToScoreBoard sk rm l s sl e = Some e' \<Longrightarrow> eng_reach sk rm ord e'"
| update: "eng_reach sk rm ord e \<Longrightarrow> eng_reach sk rm ord (updateScoreBoard sk rm ord e)"
| refresh: "eng_reach sk rm ord e \<Longrightarrow> eng_reach sk rm ord (refreshScoreBoard ord e)"
| failed: "eng_reach sk rm ord e \<Longrightarrow> eng_reach sk rm ord (transferFailed ord cb file fls fld e)"
| restore: "eng_reach sk rm ord e \<Longrightarrow> eng_reach sk rm ord (restoreFromFailed ord rid e)"
| wipe: "eng_reach sk rm ord e \<Longrightarrow> eng_reach sk rm ord (wipeFromScoreBoard ord s e)"

lemma eng_reach_fit:
  assumes "eng_reach sk rm ord e" "orders_ok ord"
  shows "boards_fit e"
  using assms(1)
proof (induction rule: eng_reach.induct)
  case (start e h g)
  have "sb_view (sb_empty h) = Map.empty" for h by (simp add: sb_view_def sb_empty_def fun_eq_iff)
  then show ?case using start by (simp add: boards_fit_def board_fit_def)
next
  case (elsewhere e e')
  then show ?case using keeps_same by (auto simp: keeps_fit_def)
next
  case (add e l s sl e')
  then show ?case using keeps_addToScoreBoard [OF add(2)] by (simp add: keeps_fit_def)
next
  case (update e)
  then show ?case using keeps_updateScoreBoard [OF assms(2)] by (auto simp: keeps_fit_def)
next
  case (refresh e)
  then show ?case using keeps_refreshScoreBoard by (auto simp: keeps_fit_def)
next
  case (failed e cb name fls fld)
  then show ?case using keeps_transferFailed [of e ord cb name fls fld] by simp
next
  case (restore e rid)
  then show ?case using keeps_restoreFromFailed [of e ord rid] by simp
next
  case (wipe e s)
  then show ?case using keeps_wipe [OF assms(2)] by (auto simp: keeps_fit_def)
qed

abbreviation as_mon :: "race_site \<Rightarrow> mon_site" where
  "as_mon s \<equiv> mon_site.truncate s"

lemma fit_check:
  assumes "transfer_settings_ok s d"
  shows "fxp_check (as_mon s) (as_mon d) = None" "\<not> (s_brokenpasv s \<and> s_brokenpasv d)"
  using assms by (auto simp: fxp_check_def transfer_settings_ok_def mon_site.truncate_def)

lemma fxp_start_returns:
  assumes "fxp_check s d = None" "\<not> (s_brokenpasv s \<and> s_brokenpasv d)"
  shows "\<exists>m'. fxp_start env g s d (fxp_setup g s d m) = Inr m' \<and> m_status m' = m_status m"
proof -
  have "m_fxpdstactive (fxp_setup g s d m) \<longleftrightarrow> \<not> s_brokenpasv s" "m_status (fxp_setup g s d m) = m_status m"
    by (simp_all add: fxp_setup_def Let_def)
  then show ?thesis using assms by (simp add: fxp_start_def emit_def)
qed

text \<open>
  The settings matter: a user may change them while a job runs (\<open>restapi.cpp\<close>, \<open>editsitescreen.cpp\<close>), which
  leaves the boards as they are.  When the policies of the two sites of an element become contrary, the
  element stays, and the monitor refuses it.
\<close>

definition set_policies :: "nat \<Rightarrow> nat \<Rightarrow> engine \<Rightarrow> engine" where
  "set_policies s d e = e\<lparr>en_site := (en_site e)
     (s := (en_site e s)\<lparr>s_policy := ALWAYS_OFF\<rparr>, d := (en_site e d)\<lparr>s_policy := ALWAYS_ON\<rparr>)\<rparr>"

lemma changed_settings_refused:
  assumes "el \<in> heap (en_sb e) ` set (sb_active (en_sb e))" "e_src el \<noteq> e_dst el"
  defines "e' \<equiv> set_policies (e_src el) (e_dst el) e"
  shows "el \<in> heap (en_sb e') ` set (sb_active (en_sb e'))"
    and "fxp_check (as_mon (en_site e' (e_src el))) (as_mon (en_site e' (e_dst el))) \<noteq> None"
  using assms by (simp_all add: set_policies_def fxp_check_def mon_site.truncate_def)


text \<open>A job on two sites, of which the first has a file.\<close>

definition demo_file :: dirfile where
  "demo_file = (file_new ''a.rar'' ''me'')\<lparr>f_size := 100\<rparr>"

definition demo_list :: "bool \<Rightarrow> filelist" where
  "demo_list full = (fl_init undefined ''me'' path_empty LS_LISTED)
     \<lparr>fl_heap := (\<lambda>a. if full \<and> a = 0 then Some demo_file else None),
      fl_files := (\<lambda>n. if full \<and> n = ''a.rar'' then Some 0 else None), fl_seen := (if full then [0] else [])\<rparr>"

definition demo_engine :: engine where
  "demo_engine =
     \<lparr>w_race = (\<lambda>r. if r = 1 then Some ((race_new 1 SPREAD_RACE 0)\<lparr>r_sites := [(1, 1), (2, 2)]\<rparr>) else None),
      w_sr = (\<lambda>s. sr_init 1 ''S'' path_empty ''J'' ''me'' 0 False (s + 10)),
      w_fl = (\<lambda>l. demo_list (l = 11)), w_nextfl = 13,
      en_site = (\<lambda>s. demo_site\<lparr>s_id := s\<rparr>), en_logins = (\<lambda>_. 1), en_sb = sb_empty undefined,
      en_fb = sb_empty undefined, en_maxavgspeed = 1024, en_changed = [], en_current = [1]\<rparr>"

definition demo_orders :: orders where
  "demo_orders = \<lparr>o_names = sorted_list_of_set, o_keys = sorted_list_of_set, o_addrs = sorted_list_of_set, o_rand = id\<rparr>"

definition demo_skip :: "unit race_skip" where
  "demo_skip = (\<lambda>_ _ _ _. no_match SKIPLIST_NONE)"

lemma demo_orders_ok: "orders_ok demo_orders"
  by (simp add: orders_ok_def demo_orders_def)

lemma demo_add:
  "\<exists>e'. addToScoreBoard demo_skip (\<lambda>_ _. False) 12 2 2 demo_engine = Some e'
     \<and> sb_inv (en_sb e') \<and> sb_view (en_sb e') (11, 12, ''a.rar'') \<noteq> None"
proof -
  have settings: "site_getMaxUp (demo_site\<lparr>s_id := n\<rparr>) \<noteq> 0" "site_getMaxDown (demo_site\<lparr>s_id := n\<rparr>) \<noteq> 0"
    "x_allowdown (demo_site\<lparr>s_id := n\<rparr>) = ALLOW_YES" "x_allowup (demo_site\<lparr>s_id := n\<rparr>) = ALLOW_YES"
    "site_isAllowedTargetSite (demo_site\<lparr>s_id := n\<rparr>) (demo_site\<lparr>s_id := m\<rparr>)"
    "transfer_settings_ok (demo_site\<lparr>s_id := n\<rparr>) (demo_site\<lparr>s_id := m\<rparr>)" for n m
    by (simp_all add: demo_site_def site_getMaxUp_def site_getMaxDown_def site_isAllowedTargetSite_def
        transfer_settings_ok_def transferProtocolCombinationPossible_def)
  have view: "fl_view (demo_list True) = [demo_file]" "fl_view (demo_list False) = []"
    by (simp_all add: fl_view_def demo_list_def fl_obj_def)
  have contains: "\<not> fl_contains n (demo_list False)" for n
    by (simp add: fl_contains_def fl_getFile_def fl_getFileCaseSensitive_def demo_list_def fl_init_def)
  have state: "fl_state (demo_list b) = LS_LISTED" "fl_uploadedfiles (demo_list b) = 0" for b
    by (simp_all add: demo_list_def fl_init_def)
  have tf: "transferable demo_file" "f_name demo_file = ''a.rar''"
    by (simp_all add: demo_file_def file_new_def transferable_def)
  have "sb_inv (sb_empty undefined)" by simp
  moreover have "sb_view (sb_empty undefined) = Map.empty" by (simp add: sb_view_def sb_empty_def fun_eq_iff)
  ultimately have inv: "sb_inv (sb_empty undefined)" "sb_view (sb_empty undefined) = Map.empty" by simp_all
  show ?thesis
    by (simp add: addToScoreBoard_def demo_engine_def lock_def sr_init_def state sr_getSubPathForFileList_def
        race_new_def race_setUndone_def race_clearTransferAttempts_def race_resetUpdateCheckCounter_def
        dir_skipped_def add_pair_def sr_getFileListForPath_def raceTransferPossible_def settings sr_isDone_def
        addToScoreBoardForPair_def view add_file_def contains tf file_skipped_def demo_skip_def no_match_def
        put_transfer_def on_race_def on_fl_def Let_def sb_update_inv sb_update_view inv pair_elem_def elem_new_def elem_key_def)
qed


end
