(* ===== verification/EngineMoves.thy ===== *)
theory EngineMoves
  imports EngineBoardsInv
begin

text \<open>
  What the operations of the engine do to the contents of its two boards: the update from a changed
  file, and the moves of transfers to the board of failed ones and back.
\<close>

subsection \<open>Views\<close>

text \<open>What stands for a key after an update by \<open>new\<close>.\<close>

definition placed :: "sb_elem option \<Rightarrow> sb_elem \<Rightarrow> sb_elem" where
  "placed old new = (case old of None \<Rightarrow> elem_reset_from new | Some x \<Rightarrow> elem_update (e_score new) (e_filesize new) x)"

lemma view_update: "sb_inv sb \<Longrightarrow> sb_view (sb_update el sb) = (sb_view sb)(elem_key el \<mapsto> placed (sb_view sb (elem_key el)) el)"
  by (simp add: sb_update_view placed_def cong: option.case_cong)

lemma placed_reset [simp]: "placed old (elem_reset_from x) = placed old x"
  by (simp add: placed_def elem_reset_from_def elem_new_def split: option.split)

lemma find_props:
  "(\<And>x. x \<in> set xs \<Longrightarrow> \<not> P x) \<Longrightarrow> find P xs = None"
  "find P xs = Some x \<Longrightarrow> x \<in> set xs \<and> P x"
  "find P xs = None \<Longrightarrow> x \<in> set xs \<Longrightarrow> \<not> P x"
  by (induction xs) (auto split: if_splits)

lemma fold_update_view:
  assumes "sb_inv sb" "distinct (map elem_key els)"
  shows "sb_inv (fold sb_update els sb) \<and> sb_view (fold sb_update els sb) k =
    (case find (\<lambda>el. elem_key el = k) els of None \<Rightarrow> sb_view sb k | Some el \<Rightarrow> Some (placed (sb_view sb k) el))"
  using assms
proof (induction els arbitrary: sb)
  case (Cons el els)
  have ih: "sb_inv (fold sb_update els (sb_update el sb)) \<and> sb_view (fold sb_update els (sb_update el sb)) k =
      (case find (\<lambda>el. elem_key el = k) els of
         None \<Rightarrow> sb_view (sb_update el sb) k | Some x \<Rightarrow> Some (placed (sb_view (sb_update el sb) k) x))"
    using Cons.prems by (intro Cons.IH) (simp_all add: sb_update_inv)
  show ?case
  proof (cases "elem_key el = k")
    case True
    then have "elem_key x \<noteq> k" if "x \<in> set els" for x using Cons.prems(2) that by (metis distinct.simps(2) image_eqI list.set_map list.simps(9))
    then have "find (\<lambda>el. elem_key el = k) els = None" by (rule find_props(1))
    then show ?thesis using ih True Cons.prems(1) by (simp add: view_update)
  next
    case False
    then have "sb_view (sb_update el sb) k = sb_view sb k" using Cons.prems(1) by (simp add: view_update)
    then show ?thesis using ih False by (simp split: option.split)
  qed
qed simp

lemma fold_remove_key_view:
  assumes "sb_inv sb"
  shows "sb_inv (fold (\<lambda>el sb. snd (sb_remove (elem_key el) sb)) els sb)
    \<and> sb_view (fold (\<lambda>el sb. snd (sb_remove (elem_key el) sb)) els sb) k =
        (if k \<in> elem_key ` set els then None else sb_view sb k)"
  using assms by (induction els arbitrary: sb) (auto simp: sb_remove_inv sb_remove_view)

text \<open>The elements of a board that fulfil a condition on their jobs.\<close>

lemma active_keys_distinct:
  assumes "sb_inv sb"
  shows "distinct (map elem_key (filter P (map (heap sb) (sb_active sb))))"
proof -
  have "distinct (sb_active sb)" using assms by (simp add: sb_inv_def sb_active_def)
  then have "distinct (map (\<lambda>a. elem_key (heap sb a)) (sb_active sb))"
    using sb_inv_key_inj [OF assms] by (auto simp: distinct_map inj_on_def)
  then have "distinct (map elem_key (map (heap sb) (sb_active sb)))" by (simp add: comp_def)
  then show ?thesis by (rule distinct_map_filter)
qed

lemma find_active:
  assumes "sb_inv sb"
  shows "find (\<lambda>el. elem_key el = k) (filter P (map (heap sb) (sb_active sb))) =
    (case locator sb k of None \<Rightarrow> None | Some a \<Rightarrow> if P (heap sb a) then Some (heap sb a) else None)"
proof -
  let ?els = "filter P (map (heap sb) (sb_active sb))"
  have mem: "el \<in> set ?els \<and> elem_key el = k \<longleftrightarrow> (\<exists>a. locator sb k = Some a \<and> el = heap sb a \<and> P el)" for el
    using sb_inv_locator [OF assms, of k] by auto
  show ?thesis
  proof (cases "find (\<lambda>el. elem_key el = k) ?els")
    case None
    then have "\<not> P (heap sb a)" if "locator sb k = Some a" for a
      using find_props(3) [OF None, of "heap sb a"] that mem [of "heap sb a"] by blast
    then show ?thesis using None by (simp split: option.split)
  next
    case (Some el)
    then obtain a where "locator sb k = Some a" "el = heap sb a" "P el" using find_props(2) [OF Some] mem [of el] by blast
    then show ?thesis using Some by simp
  qed
qed

subsection \<open>A file that has turned up\<close>

lemma file_skipped_boards:
  fixes e :: "'e engine_scheme"
  shows "file_skipped sk rm skip sec sub l name (e\<lparr>en_sb := a, en_fb := b\<rparr>) =
    ((fst (file_skipped sk rm skip sec sub l name e))\<lparr>en_sb := a, en_fb := b\<rparr>,
     snd (file_skipped sk rm skip sec sub l name e))"
  by (simp add: file_skipped_def ensure_similar_def on_fl_def Let_def)

lemma possible_boards: "raceTransferPossible (e\<lparr>en_sb := a, en_fb := b\<rparr>) = raceTransferPossible e"
  by (simp add: raceTransferPossible_def lock_def fun_eq_iff)

lemma elem_boards: "pair_elem speed (e\<lparr>en_sb := a, en_fb := b\<rparr>) p name f = pair_elem speed e p name f"
  by (simp add: pair_elem_def pair_score_def)

lemma pair_elem_key: "elem_key (pair_elem speed e p name f) = pair_key p name"
  by (simp add: pair_elem_def pair_key_def elem_new_def elem_key_def)

text \<open>What a transfer to \<open>there\<close> needs to be put on a board.\<close>

definition there_wanted :: "'x race_skip \<Rightarrow> 'x regex_match \<Rightarrow> nat \<Rightarrow> pairing \<Rightarrow> string \<Rightarrow> dirfile \<Rightarrow>
    'e engine_scheme \<Rightarrow> bool" where
  "there_wanted sk rm sec p name f e \<longleftrightarrow>
     fl_state (w_fl e (pr_fld p)) \<noteq> LS_FAILED \<and> \<not> fl_contains name (w_fl e (pr_fld p))
     \<and> raceTransferPossible e (pr_sls p) (pr_srs p) (pr_sld p) (pr_srd p) \<and> transferable f
     \<and> \<not> snd (file_skipped sk rm (x_skip (en_site e (pr_sld p))) sec (pr_sub p) (pr_fld p) name e)"

text \<open>
  C26. What a file that has turned up on a list does to the boards.  No transfer of it back to this list
  is left on either board.  If the other end wants it, and only then, a transfer there is put on one
  board, on that of the failed ones exactly when its attempts are used up: a new one, or the one that
  stood there with its score and size anew.  Every other transfer of either board stays as it was, also
  one of the same file on the board that was not chosen.
\<close>

theorem turned_up:
  fixes e :: "'e engine_scheme" and there away :: pairing and sk :: "'x race_skip" and rm :: "'x regex_match"
    and sec :: nat and name :: string and f :: dirfile and speed :: int
  assumes "sb_inv (en_sb e)" and "sb_inv (en_fb e)"
  defines "e2 \<equiv> fst (file_skipped sk rm (x_skip (en_site e (pr_sld there))) sec (pr_sub there) (pr_fld there) name e)"
  defines "el \<equiv> pair_elem speed e2 there name f" and "kt \<equiv> pair_key there name" and "kb \<equiv> pair_key away name"
  defines "failed \<equiv> race_hasFailedTransfer name (pr_fls there) (pr_fld there) (the (w_race e2 (pr_race there)))"
  defines "e' \<equiv> update_there sk rm sec there away name f speed e" and "sv \<equiv> (sb_view (en_sb e))(kb := None)"
    and "fv \<equiv> (sb_view (en_fb e))(kb := None)"
  shows "sb_inv (en_sb e') \<and> sb_inv (en_fb e')
    \<and> sb_view (en_sb e') = (if there_wanted sk rm sec there name f e \<and> \<not> failed then sv(kt \<mapsto> placed (sv kt) el) else sv)
    \<and> sb_view (en_fb e') = (if there_wanted sk rm sec there name f e \<and> failed then fv(kt \<mapsto> placed (fv kt) el) else fv)"
proof -
  let ?k = "pair_key away name"
  let ?r = "snd (sb_remove ?k (en_sb e))"
  let ?sb = "if fst (sb_remove ?k (en_sb e)) then sb_resetSkipChecked (pr_fls there) ?r else ?r"
  let ?fb = "snd (sb_remove ?k (en_fb e))"
  let ?e1 = "e\<lparr>en_sb := ?sb, en_fb := ?fb\<rparr>"
  have sb: "sb_inv ?sb" "sb_view ?sb = sv" and fb: "sb_inv ?fb" "sb_view ?fb = fv"
    using assms(1,2) by (simp_all add: resetSkip_props sb_remove_inv sb_remove_view sv_def fv_def kb_def)
  have yes: "e' = put_transfer failed speed there name f (e2\<lparr>en_sb := ?sb, en_fb := ?fb\<rparr>)" if "there_wanted sk rm sec there name f e"
    using that unfolding e'_def update_there_def there_wanted_def failed_def e2_def
    by (simp add: Let_def case_prod_beta file_skipped_boards possible_boards)
  have no: "en_sb e' = ?sb \<and> en_fb e' = ?fb" if "\<not> there_wanted sk rm sec there name f e"
    using that unfolding e'_def update_there_def there_wanted_def
    by (auto simp: Let_def case_prod_beta file_skipped_boards possible_boards)
  show ?thesis
  proof (cases "there_wanted sk rm sec there name f e")
    case True
    show ?thesis
      using yes [OF True] sb fb True
      by (simp add: put_transfer_def on_race_def elem_boards el_def [symmetric] sb_update_inv view_update
          pair_elem_key [of speed e2 there name f, folded el_def kt_def])
  next
    case False
    then show ?thesis using no [OF False] sb fb by simp
  qed
qed

subsection \<open>Back from the failed ones\<close>

text \<open>
  The transfers of a job that failed too often come back.  After \<open>restoreFromFailed\<close> the board of
  failed transfers has none of the job left and is otherwise unchanged, and the score board has each of
  them: a new one as it was, and where the transfer stands already, that one with the score and size of
  the failed one; the rest is as before.
\<close>

lemma restore_moves:
  fixes ord :: orders and rid :: nat and k :: sb_key and e :: "'e engine_scheme"
  assumes "sb_inv (en_sb e)" and "sb_inv (en_fb e)"
  defines "e' \<equiv> restoreFromFailed ord rid e"
  shows "sb_inv (en_sb e') \<and> sb_inv (en_fb e')
    \<and> sb_view (en_fb e') k = (case sb_view (en_fb e) k of
        Some el \<Rightarrow> if e_race el = rid then None else Some el | None \<Rightarrow> None)
    \<and> sb_view (en_sb e') k = (case sb_view (en_fb e) k of
        Some el \<Rightarrow> if e_race el = rid then Some (placed (sb_view (en_sb e) k) el) else sb_view (en_sb e) k
      | None \<Rightarrow> sb_view (en_sb e) k)"
proof -
  let ?els = "filter (\<lambda>el. e_race el = rid) (map (heap (en_fb e)) (sb_active (en_fb e)))"
  note d = active_keys_distinct [OF assms(2), of "\<lambda>el. e_race el = rid"]
  note fnd = find_active [OF assms(2), of k "\<lambda>el. e_race el = rid"]
  have race: "e_race (elem_reset_from x) = e_race x" for x by (simp add: elem_reset_from_def elem_new_def)
  have sb: "sb_inv (fold sb_update ?els (en_sb e))"
      "sb_view (fold sb_update ?els (en_sb e)) k = (case find (\<lambda>el. elem_key el = k) ?els of
         None \<Rightarrow> sb_view (en_sb e) k | Some el \<Rightarrow> Some (placed (sb_view (en_sb e) k) el))"
    using fold_update_view [OF assms(1) d] by blast+
  have "k \<in> elem_key ` set ?els \<longleftrightarrow> find (\<lambda>el. elem_key el = k) ?els \<noteq> None"
    using find_props(1,3) [where xs = ?els and P = "\<lambda>el. elem_key el = k"] by (metis (no_types, lifting) image_iff)
  then have fb: "sb_view (en_fb e') k = (if find (\<lambda>el. elem_key el = k) ?els = None then sb_view (en_fb e) k else None)"
    and inv: "sb_inv (en_fb e')"
    using fold_remove_key_view [OF assms(2), of ?els k] by (simp_all add: e'_def restoreFromFailed_def Let_def)
  have "sb_view (en_sb e') = sb_view (fold sb_update ?els (en_sb e))" "sb_inv (en_sb e')"
    using settle_props [OF sb(1), of ord] by (simp_all add: e'_def restoreFromFailed_def Let_def)
  then show ?thesis
    using fb inv sb(2) fnd by (simp add: sb_view_def race split: option.split)
qed

lemma failed_moves:
  fixes ord :: orders
  assumes "sb_inv (en_sb e)" and "sb_inv (en_fb e)"
    and "race_hasFailedTransfer name fls fld (the (w_race e rid))" and "sb_view (en_sb e) (fls, fld, name) = Some el"
  defines "e' \<equiv> transferFailed ord (Some rid) name fls fld e"
  shows "sb_inv (en_sb e') \<and> sb_inv (en_fb e') \<and> sb_view (en_sb e') = (sb_view (en_sb e))((fls, fld, name) := None)
    \<and> sb_view (en_fb e') = (sb_view (en_fb e))((fls, fld, name) \<mapsto> placed (sb_view (en_fb e) (fls, fld, name)) el)"
proof -
  let ?k = "(fls, fld, name)"
  obtain a where a: "locator (en_sb e) ?k = Some a" "el = elem_reset_from (heap (en_sb e) a)"
    using assms(4) by (auto simp: sb_view_def)
  have k: "elem_key (heap (en_sb e) a) = ?k" using sb_inv_locatorD(2) [OF assms(1) a(1)] .
  have e': "e' = e\<lparr>en_fb := sb_update (heap (en_sb e) a) (en_fb e), en_sb := settle ord (snd (sb_remove ?k (en_sb e)))\<rparr>"
    using assms(3) a(1) k by (simp add: e'_def transferFailed_def sb_find_def)
  show ?thesis
    using settle_props [OF sb_remove_inv [OF assms(1)], of ord ?k] assms(1,2) k a(2)
    by (simp add: e' sb_update_inv view_update sb_remove_view)
qed

text \<open>
  C27. A transfer that has used up its attempts leaves the score board, stands on the board of failed
  ones as it was, and comes back to the score board as it was when the attempts of the job are cleared:
  the two moves undo each other, for a transfer of the job that was on no board but the first and with
  no other failed transfer of the job.
\<close>

theorem failed_restored:
  fixes ord :: orders
  assumes "sb_inv (en_sb e)" and "sb_inv (en_fb e)"
    and "race_hasFailedTransfer name fls fld (the (w_race e rid))"
    and "sb_view (en_sb e) (fls, fld, name) = Some el" and "e_race el = rid"
    and "sb_view (en_fb e) (fls, fld, name) = None" and "\<forall>x\<in>ran (sb_view (en_fb e)). e_race x \<noteq> rid"
  defines "e1 \<equiv> transferFailed ord (Some rid) name fls fld e"
  defines "e2 \<equiv> restoreFromFailed ord rid e1"
  shows "sb_view (en_sb e1) (fls, fld, name) = None \<and> sb_view (en_fb e1) (fls, fld, name) = Some el
    \<and> sb_view (en_sb e2) = sb_view (en_sb e) \<and> sb_view (en_fb e2) = sb_view (en_fb e)"
proof -
  let ?k = "(fls, fld, name)"
  have "elem_reset_from el = el" using assms(4) by (auto simp: sb_view_def)
  then have p: "placed None el = el" by (simp add: placed_def)
  note m = failed_moves [OF assms(1-4), of ord, folded e1_def, unfolded assms(6) p]
  note r = restore_moves [of e1 ord rid, folded e2_def]
  have other: "e_race x \<noteq> rid" if "sb_view (en_fb e) j = Some x" for j x using that assms(7) ranI by fastforce
  have "sb_view (en_sb e2) j = sb_view (en_sb e) j \<and> sb_view (en_fb e2) j = sb_view (en_fb e) j" for j
    using r m other [of j] assms(4-6) p by (cases "j = ?k") (auto split: option.split)
  then show ?thesis using m by (simp add: fun_eq_iff)
qed

text \<open>A transfer of job 1 that has been tried as often as the job allows.\<close>

definition demo_elem :: sb_elem where
  "demo_elem = elem_new ''a.rar'' 5 100 NORMAL 1 11 1 2 12 2 1 []"

definition demo_failing :: engine where
  "demo_failing = demo_engine
     \<lparr>w_race := (\<lambda>_. Some ((race_new 1 SPREAD_RACE 0)\<lparr>r_attempts := [((''a.rar'', None, 12), (9, 0))]\<rparr>)),
      en_sb := sb_update demo_elem (sb_empty undefined)\<rparr>"

lemma empty_view: "sb_view (sb_empty h) = Map.empty"
  by (simp add: sb_view_def sb_empty_def fun_eq_iff)

lemma demo_elem_simps: "elem_key demo_elem = (11, 12, ''a.rar'')" "e_race demo_elem = 1" "elem_reset_from demo_elem = demo_elem"
  by (simp_all add: demo_elem_def elem_new_def elem_key_def elem_reset_from_def)

lemma demo_failing_simps:
  "sb_inv (en_sb demo_failing)" "sb_inv (en_fb demo_failing)"
  "sb_view (en_sb demo_failing) = [(11, 12, ''a.rar'') \<mapsto> demo_elem]" "sb_view (en_fb demo_failing) = Map.empty"
  "race_hasFailedTransfer ''a.rar'' 11 12 (the (w_race demo_failing 1))"
  by (simp_all add: demo_failing_def demo_engine_def sb_update_inv sb_update_view empty_view demo_elem_simps
      race_hasFailedTransfer_def MAX_TRANSFER_ATTEMPTS_BEFORE_SKIP_def)

theorem failed_restored_witness:
  "sb_view (en_fb (transferFailed demo_orders (Some 1) ''a.rar'' 11 12 demo_failing)) (11, 12, ''a.rar'') = Some demo_elem"
  using failed_restored [of demo_failing "''a.rar''" 11 12 1 demo_elem demo_orders]
  by (simp add: demo_failing_simps demo_elem_simps del: One_nat_def)

definition demo_pair :: "bool \<Rightarrow> pairing" where
  "demo_pair there =
     (if there then \<lparr>pr_sls = 1, pr_srs = 1, pr_fls = 11, pr_sld = 2, pr_srd = 2, pr_fld = 12, pr_race = 1, pr_sub = []\<rparr>
      else \<lparr>pr_sls = 2, pr_srs = 2, pr_fls = 12, pr_sld = 1, pr_srd = 1, pr_fld = 11, pr_race = 1, pr_sub = []\<rparr>)"

theorem turned_up_witness:
  "sb_view (en_fb (update_there demo_skip (\<lambda>_ _. False) 0 (demo_pair True) (demo_pair False) ''a.rar'' demo_file 0 demo_failing))
     (12, 11, ''a.rar'') = None"
  using turned_up [where e = demo_failing and sk = demo_skip and rm = "\<lambda>_ _. False" and there = "demo_pair True"
      and sec = 0 and name = "''a.rar''" and f = demo_file and speed = 0 and away = "demo_pair False"]
  by (simp add: demo_failing_simps demo_pair_def pair_key_def)

end
