(* ===== verification/TransferManagerModel.thy ===== *)
theory TransferManagerModel
  imports MonitorOutcome
begin

text \<open>
  The transfer manager (\<open>src/transfermanager.cpp\<close>): the transfers that run and those that are over, the
  calls it makes when one ends, and the monitors it engages.  A status is named by a number; two are
  the same object exactly when the numbers are equal.
\<close>

datatype tm_call = BackendPush | CallbackSuccessful nat | CallbackFailed nat mon_error | EngineFailed nat mon_error

record tmgr =
  tm_ongoing :: "nat list"
  tm_finished :: "nat list"
  tm_total :: u32
  tm_limit :: int
  tm_calls :: "tm_call list"

definition tm_new :: tmgr where
  "tm_new = \<lparr>tm_ongoing = [], tm_finished = [], tm_total = 0, tm_limit = 10000, tm_calls = []\<rparr>"

definition tm_call :: "tm_call \<Rightarrow> tmgr \<Rightarrow> tmgr" where
  "tm_call c tm = tm\<lparr>tm_calls := tm_calls tm @ [c]\<rparr>"

definition tm_addNew :: "nat \<Rightarrow> tmgr \<Rightarrow> tmgr" where
  "tm_addNew h tm = tm\<lparr>tm_ongoing := h # tm_ongoing tm\<rparr>"

definition tm_setLimit :: "int \<Rightarrow> tmgr \<Rightarrow> tmgr" where
  "tm_setLimit n tm = tm\<lparr>tm_limit := n\<rparr>"

definition tm_full :: "tmgr \<Rightarrow> bool" where
  "tm_full tm \<longleftrightarrow> tm_limit tm \<noteq> - 1 \<and> unat (word_of_int (tm_limit tm) :: u32) \<le> length (tm_finished tm)"

text \<open>\<^term>\<open>None\<close> is the removal of the last element of an empty list.\<close>

definition tm_toFinished :: "nat \<Rightarrow> tmgr \<Rightarrow> tmgr option" where
  "tm_toFinished h tm =
     (if tm_full tm \<and> tm_finished tm = [] then None
      else Some (tm\<lparr>tm_ongoing := remove1 h (tm_ongoing tm),
        tm_finished := h # (if tm_full tm then butlast (tm_finished tm) else tm_finished tm),
        tm_total := tm_total tm + 1\<rparr>))"

definition tm_awaited :: "bool \<Rightarrow> tmgr \<Rightarrow> tmgr" where
  "tm_awaited awaited tm = (if awaited then tm_call BackendPush tm else tm)"

definition tm_transferSuccessful :: "bool \<Rightarrow> bool \<Rightarrow> nat option \<Rightarrow> tmgr \<Rightarrow> tmgr option" where
  "tm_transferSuccessful awaited callback ts tm =
     (case ts of
        None \<Rightarrow> Some tm
      | Some h \<Rightarrow>
          let tm1 = tm_awaited awaited tm
          in tm_toFinished h (if callback then tm_call (CallbackSuccessful h) tm1 else tm1))"

definition tm_transferFailed :: "bool \<Rightarrow> bool \<Rightarrow> nat option \<Rightarrow> mon_error \<Rightarrow> tmgr \<Rightarrow> tmgr option" where
  "tm_transferFailed awaited callback ts err tm =
     (case ts of
        None \<Rightarrow> Some tm
      | Some h \<Rightarrow>
          let tm1 = tm_awaited awaited tm;
              tm2 = (if callback then tm_call (CallbackFailed h err) tm1 else tm1)
          in tm_toFinished h (tm_call (EngineFailed h err) tm2))"

subsection \<open>Histories\<close>

datatype tm_op = TmNew nat | TmOk bool bool "nat option" | TmFail bool bool "nat option" mon_error | TmLimit int

fun tm_step :: "tm_op \<Rightarrow> tmgr \<Rightarrow> tmgr option" where
  "tm_step (TmNew h) tm = Some (tm_addNew h tm)"
| "tm_step (TmOk aw cb ts) tm = tm_transferSuccessful aw cb ts tm"
| "tm_step (TmFail aw cb ts err) tm = tm_transferFailed aw cb ts err tm"
| "tm_step (TmLimit n) tm = Some (tm_setLimit n tm)"

fun tm_run :: "tm_op list \<Rightarrow> tmgr \<Rightarrow> tmgr option" where
  "tm_run [] tm = Some tm"
| "tm_run (op # ops) tm = (case tm_step op tm of None \<Rightarrow> None | Some tm' \<Rightarrow> tm_run ops tm')"

text \<open>What an operation says about a status, and the transfers of a history that are over, in their order.\<close>

fun reported :: "tm_op \<Rightarrow> nat option" where
  "reported (TmOk _ _ ts) = ts"
| "reported (TmFail _ _ ts _) = ts"
| "reported _ = None"

definition reports :: "tm_op list \<Rightarrow> nat list" where
  "reports ops = List.map_filter reported ops"

fun engine_told :: "tm_op \<Rightarrow> (nat \<times> mon_error) option" where
  "engine_told (TmFail _ _ (Some h) err) = Some (h, err)"
| "engine_told _ = None"

fun is_engine :: "tm_call \<Rightarrow> (nat \<times> mon_error) option" where
  "is_engine (EngineFailed h err) = Some (h, err)"
| "is_engine _ = None"

fun is_limit :: "tm_op \<Rightarrow> bool" where
  "is_limit (TmLimit _) = True"
| "is_limit _ = False"

text \<open>
  How many of the transfers that are over are kept: a report adds one unless there are as many as the limit
  then allows; lowering the limit takes none away.  \<^term>\<open>None\<close>: a report at a limit of zero with none kept.
\<close>

definition room :: "int \<Rightarrow> nat \<Rightarrow> bool" where
  "room limit n \<longleftrightarrow> limit = - 1 \<or> n < unat (word_of_int limit :: u32)"

definition kept_after :: "int \<Rightarrow> nat \<Rightarrow> tm_op \<Rightarrow> nat" where
  "kept_after limit n op = (if reported op \<noteq> None \<and> room limit n then Suc n else n)"

fun kept_number :: "int \<Rightarrow> nat \<Rightarrow> tm_op list \<Rightarrow> nat option" where
  "kept_number limit n [] = Some n"
| "kept_number limit n (TmLimit l # ops) = kept_number l n ops"
| "kept_number limit n (op # ops) =
     (if reported op \<noteq> None \<and> \<not> room limit n \<and> n = 0 then None else kept_number limit (kept_after limit n op) ops)"

text \<open>Each status is handed over once, and back once while it is out, as the monitors do it.\<close>

fun wellrun :: "nat set \<Rightarrow> nat set \<Rightarrow> tm_op list \<Rightarrow> bool" where
  "wellrun used out [] \<longleftrightarrow> True"
| "wellrun used out (TmNew h # ops) \<longleftrightarrow> h \<notin> used \<and> wellrun (insert h used) (insert h out) ops"
| "wellrun used out (TmLimit n # ops) \<longleftrightarrow> wellrun used out ops"
| "wellrun used out (op # ops) \<longleftrightarrow>
     (case reported op of None \<Rightarrow> wellrun used out ops | Some h \<Rightarrow> h \<in> out \<and> wellrun used (out - {h}) ops)"

definition tm_ok :: "nat set \<Rightarrow> nat set \<Rightarrow> tmgr \<Rightarrow> bool" where
  "tm_ok used out tm \<longleftrightarrow> distinct (tm_ongoing tm) \<and> set (tm_ongoing tm) = out \<and> out \<subseteq> used"

lemma tm_call_simps [simp]:
  "tm_ongoing (tm_call c tm) = tm_ongoing tm" "tm_finished (tm_call c tm) = tm_finished tm"
  "tm_total (tm_call c tm) = tm_total tm" "tm_limit (tm_call c tm) = tm_limit tm"
  "tm_calls (tm_call c tm) = tm_calls tm @ [c]"
  by (simp_all add: tm_call_def)

lemma tm_awaited_simps [simp]:
  "tm_ongoing (tm_awaited b tm) = tm_ongoing tm" "tm_finished (tm_awaited b tm) = tm_finished tm"
  "tm_total (tm_awaited b tm) = tm_total tm" "tm_limit (tm_awaited b tm) = tm_limit tm"
  by (simp_all add: tm_awaited_def)

lemma tm_ok_calls [simp]: "tm_ok used out (tm_call c tm) = tm_ok used out tm" "tm_ok used out (tm_awaited b tm) = tm_ok used out tm"
  by (simp_all add: tm_ok_def)

definition told :: "tmgr \<Rightarrow> (nat \<times> mon_error) list" where
  "told tm = List.map_filter is_engine (tm_calls tm)"

lemma told_simps [simp]: "told (tm_call BackendPush tm) = told tm" "told (tm_call (CallbackSuccessful h) tm) = told tm"
  "told (tm_call (CallbackFailed h err) tm) = told tm" "told (tm_call (EngineFailed h err) tm) = told tm @ [(h, err)]"
  "told (tm_awaited b tm) = told tm"
  by (simp_all add: told_def tm_awaited_def List.map_filter_def)

text \<open>The result of one operation: the transfers that run, and of those over the newest that are kept.\<close>

lemma tm_full_room: "tm_full tm \<longleftrightarrow> \<not> room (tm_limit tm) (length (tm_finished tm))"
  by (auto simp: tm_full_def room_def not_less)

lemma toFinished_ok:
  assumes "tm_ok used out tm" "h \<in> out" "tm_finished tm = take n hs" "n \<le> length hs"
  shows "if \<not> room (tm_limit tm) n \<and> n = 0 then tm_toFinished h tm = None
    else \<exists>tm'. tm_toFinished h tm = Some tm' \<and> tm_ok used (out - {h}) tm' \<and> tm_total tm' = tm_total tm + 1
      \<and> tm_finished tm' = take (if room (tm_limit tm) n then Suc n else n) (h # hs)
      \<and> told tm' = told tm \<and> tm_limit tm' = tm_limit tm"
  using assms
  by (auto simp: tm_toFinished_def tm_full_room tm_ok_def told_def min_def butlast_take take_Cons')

fun handed :: "tm_op \<Rightarrow> nat option" where
  "handed (TmNew h) = Some h"
| "handed _ = None"

definition news :: "tm_op list \<Rightarrow> nat list" where
  "news ops = List.map_filter handed ops"

lemma reports_simps [simp]: "reports [] = []"
  "reports (op # ops) = (case reported op of None \<Rightarrow> reports ops | Some h \<Rightarrow> h # reports ops)"
  by (simp_all add: reports_def split: option.split)

lemma news_simps [simp]: "news [] = []"
  "news (op # ops) = (case handed op of None \<Rightarrow> news ops | Some h \<Rightarrow> h # news ops)"
  by (simp_all add: news_def split: option.split)

text \<open>What one operation does to a manager whose transfers out are \<open>out\<close>.\<close>

definition next_out :: "tm_op \<Rightarrow> nat set \<Rightarrow> nat set" where
  "next_out op out = (case handed op of Some h \<Rightarrow> insert h out | None \<Rightarrow>
     (case reported op of Some h \<Rightarrow> out - {h} | None \<Rightarrow> out))"

definition next_used :: "tm_op \<Rightarrow> nat set \<Rightarrow> nat set" where
  "next_used op used = (case handed op of Some h \<Rightarrow> insert h used | None \<Rightarrow> used)"

lemma wellrun_Cons:
  "wellrun used out (op # ops) \<longleftrightarrow> wellrun (next_used op used) (next_out op out) ops
     \<and> (case op of TmNew h \<Rightarrow> h \<notin> used | TmLimit n \<Rightarrow> True
        | _ \<Rightarrow> (case reported op of None \<Rightarrow> True | Some h \<Rightarrow> h \<in> out))"
  by (cases op) (auto simp: next_used_def next_out_def split: option.split)

lemma wellrun_reports:
  "wellrun used out ops \<Longrightarrow> out \<subseteq> used \<Longrightarrow>
     distinct (reports ops) \<and> set (reports ops) \<inter> (used - out) = {} \<and> set (reports ops) \<subseteq> out \<union> set (news ops)
     \<and> set (news ops) \<inter> used = {}"
proof (induction ops arbitrary: used out)
  case (Cons op ops)
  have ih: "distinct (reports ops) \<and> set (reports ops) \<inter> (next_used op used - next_out op out) = {}
      \<and> set (reports ops) \<subseteq> next_out op out \<union> set (news ops) \<and> set (news ops) \<inter> next_used op used = {}"
    using Cons.prems by (intro Cons.IH) (auto simp: wellrun_Cons next_used_def next_out_def split: option.split)
  show ?case
    using ih Cons.prems by (cases op) (auto simp: wellrun_Cons next_used_def next_out_def split: option.splits)
qed simp

text \<open>The manager after a history: \<open>hs\<close> are the transfers over before it, the newest first.\<close>

definition tm_at :: "nat set \<Rightarrow> nat set \<Rightarrow> nat \<Rightarrow> nat list \<Rightarrow> tmgr \<Rightarrow> bool" where
  "tm_at used out n hs tm \<longleftrightarrow> tm_ok used out tm \<and> tm_finished tm = take n hs \<and> n \<le> length hs"

lemma tm_step_ok:
  assumes "tm_at used out n hs tm" "wellrun used out (op # ops)"
  shows "(kept_number (tm_limit tm) n [op] = None \<and> tm_step op tm = None)
    \<or> (\<exists>tm'. kept_number (tm_limit tm) n (op # ops) = kept_number (tm_limit tm') (kept_after (tm_limit tm) n op) ops
        \<and> tm_step op tm = Some tm'
        \<and> tm_at (next_used op used) (next_out op out) (kept_after (tm_limit tm) n op) (reports [op] @ hs) tm'
        \<and> tm_total tm' = tm_total tm + of_nat (length (reports [op])) \<and> told tm' = told tm @ List.map_filter engine_told [op])"
proof (cases op)
  case (TmNew h)
  then show ?thesis using assms
    by (auto simp: tm_at_def tm_ok_def tm_addNew_def next_used_def next_out_def told_def kept_after_def)
next
  case (TmLimit l)
  then show ?thesis using assms
    by (auto simp: tm_at_def tm_ok_def tm_setLimit_def next_used_def next_out_def told_def kept_after_def)
next
  case (TmOk aw cb ts)
  show ?thesis
  proof (cases ts)
    case (Some h)
    let ?tm = "if cb then tm_call (CallbackSuccessful h) (tm_awaited aw tm) else tm_awaited aw tm"
    have "h \<in> out" using TmOk Some assms(2) by simp
    moreover have "tm_ok used out ?tm" "tm_finished ?tm = take n hs" using assms(1) by (simp_all add: tm_at_def)
    ultimately show ?thesis
      using TmOk Some assms(1) toFinished_ok [of used out ?tm h n hs]
      by (auto simp: tm_at_def tm_transferSuccessful_def Let_def next_used_def next_out_def kept_after_def split: if_splits)
  qed (use TmOk assms in \<open>simp add: tm_at_def tm_transferSuccessful_def next_used_def next_out_def kept_after_def\<close>)
next
  case (TmFail aw cb ts err)
  show ?thesis
  proof (cases ts)
    case (Some h)
    let ?tm = "tm_call (EngineFailed h err) (if cb then tm_call (CallbackFailed h err) (tm_awaited aw tm) else tm_awaited aw tm)"
    have "h \<in> out" using TmFail Some assms(2) by simp
    moreover have "tm_ok used out ?tm" "tm_finished ?tm = take n hs" using assms(1) by (simp_all add: tm_at_def)
    ultimately show ?thesis
      using TmFail Some assms(1) toFinished_ok [of used out ?tm h n hs]
      by (auto simp: tm_at_def tm_transferFailed_def Let_def next_used_def next_out_def kept_after_def split: if_splits)
  qed (use TmFail assms in \<open>simp add: tm_at_def tm_transferFailed_def next_used_def next_out_def kept_after_def\<close>)
qed

lemma tm_run_ok:
  assumes "tm_at used out n hs tm" "wellrun used out ops"
  shows "case kept_number (tm_limit tm) n ops of
      None \<Rightarrow> tm_run ops tm = None
    | Some m \<Rightarrow> \<exists>tm'. tm_run ops tm = Some tm'
        \<and> tm_at (used \<union> set (news ops)) (out \<union> set (news ops) - set (reports ops)) m (rev (reports ops) @ hs) tm'
        \<and> tm_total tm' = tm_total tm + of_nat (length (reports ops)) \<and> told tm' = told tm @ List.map_filter engine_told ops"
  using assms
proof (induction ops arbitrary: used out tm n hs)
  case (Cons op ops)
  consider "kept_number (tm_limit tm) n [op] = None" "tm_step op tm = None"
    | tm1 where "kept_number (tm_limit tm) n (op # ops) = kept_number (tm_limit tm1) (kept_after (tm_limit tm) n op) ops"
        "tm_step op tm = Some tm1" "tm_at (next_used op used) (next_out op out) (kept_after (tm_limit tm) n op) (reports [op] @ hs) tm1"
        "tm_total tm1 = tm_total tm + of_nat (length (reports [op]))" "told tm1 = told tm @ List.map_filter engine_told [op]"
    using tm_step_ok [OF Cons.prems] by (elim disjE exE conjE)
  then show ?case
  proof cases
    case 1
    then have "kept_number (tm_limit tm) n (op # ops) = None" by (cases op) (auto split: if_splits)
    with 1 show ?thesis by simp
  next
    case (2 tm1)
    have "out \<subseteq> used" using Cons.prems(1) by (simp add: tm_at_def tm_ok_def)
    then have "set (news (op # ops)) \<inter> used = {}" using wellrun_reports [OF Cons.prems(2)] by simp
    then have out: "next_out op out \<union> set (news ops) - set (reports ops) = out \<union> set (news (op # ops)) - set (reports (op # ops))"
      using Cons.prems(2) \<open>out \<subseteq> used\<close> by (cases op) (auto simp: next_out_def wellrun_Cons split: option.splits)
    have used: "next_used op used \<union> set (news ops) = used \<union> set (news (op # ops))" by (cases op) (auto simp: next_used_def)
    have hs: "rev (reports ops) @ reports [op] @ hs = rev (reports (op # ops)) @ hs" by (cases "reported op") simp_all
    have told: "List.map_filter engine_told [op] @ List.map_filter engine_told ops = List.map_filter engine_told (op # ops)"
      by (cases "engine_told op") simp_all
    have total: "tm_total tm + of_nat (length (reports [op])) + of_nat (length (reports ops))
        = tm_total tm + of_nat (length (reports (op # ops)))" by (cases "reported op") simp_all
    have "wellrun (next_used op used) (next_out op out) ops" using Cons.prems(2) by (simp add: wellrun_Cons)
    from Cons.IH [OF 2(3) this] have "case kept_number (tm_limit tm) n (op # ops) of
        None \<Rightarrow> tm_run ops tm1 = None
      | Some m \<Rightarrow> \<exists>tm'. tm_run ops tm1 = Some tm'
          \<and> tm_at (used \<union> set (news (op # ops))) (out \<union> set (news (op # ops)) - set (reports (op # ops))) m (rev (reports (op # ops)) @ hs) tm'
          \<and> tm_total tm' = tm_total tm + of_nat (length (reports (op # ops))) \<and> told tm' = told tm @ List.map_filter engine_told (op # ops)"
      unfolding 2(1) out used hs 2(4,5) append_assoc told total .
    moreover have "tm_run (op # ops) tm = tm_run ops tm1" using 2(2) by simp
    ultimately show ?thesis by (simp only:)
  qed
qed (simp add: tm_at_def)

lemma kept_no_limit:
  "list_all (\<lambda>op. \<not> is_limit op) ops \<Longrightarrow> 0 < unat (word_of_int limit :: u32) \<Longrightarrow> limit \<noteq> - 1 \<Longrightarrow>
     n \<le> unat (word_of_int limit :: u32) \<Longrightarrow>
     kept_number limit n ops = Some (min (unat (word_of_int limit :: u32)) (n + length (reports ops)))"
proof (induction ops arbitrary: n)
  case (Cons op ops)
  then show ?case by (cases op) (auto simp: kept_after_def room_def min_def split: option.splits)
qed simp

text \<open>
  C30. The transfer manager in every history in which each status is handed over once, and back once while
  it is out, whatever limits on the list of those over are set in between.  Exactly if one comes back
  while the limit is zero and the list is empty, an element is taken from an empty list.  Otherwise the
  list of running transfers has those handed over and not back, each once; the list of those over has
  the last that came back, the newest first, as many of them as \<open>kept_number\<close> counts; the engine is
  told of each failed one, in order; and the total is the number of those that came back, in 32 bits.
  As long as the limit is not changed, the last 10000 are kept.
\<close>

theorem tm_history:
  assumes "wellrun {} {} ops"
  shows "(case kept_number 10000 0 ops of
      None \<Rightarrow> tm_run ops tm_new = None
    | Some n \<Rightarrow> \<exists>tm. tm_run ops tm_new = Some tm
        \<and> distinct (tm_ongoing tm) \<and> set (tm_ongoing tm) = set (news ops) - set (reports ops) \<and> distinct (reports ops)
        \<and> tm_finished tm = take n (rev (reports ops)) \<and> length (tm_finished tm) = n
        \<and> told tm = List.map_filter engine_told ops \<and> tm_total tm = of_nat (length (reports ops)))
    \<and> (list_all (\<lambda>op. \<not> is_limit op) ops \<longrightarrow> kept_number 10000 0 ops = Some (min 10000 (length (reports ops))))"
proof -
  have "tm_at {} {} 0 [] tm_new" "tm_limit tm_new = 10000" "told tm_new = []" "tm_total tm_new = 0"
    by (simp_all add: tm_at_def tm_ok_def tm_new_def told_def)
  then show ?thesis
    using tm_run_ok [OF _ assms, of 0 "[]" tm_new] wellrun_reports [OF assms] kept_no_limit [of ops 10000 0]
    by (auto simp: tm_at_def tm_ok_def split: option.splits)
qed

theorem tm_history_witness:
  "\<exists>tm. tm_run [TmNew 1, TmNew 2, TmNew 3, TmOk False True (Some 1), TmFail True False (Some 2) ERR_DUPE, TmLimit 1,
       TmOk False False (Some 3)] tm_new = Some tm
     \<and> tm_ongoing tm = [] \<and> tm_finished tm = [3, 2] \<and> told tm = [(2, ERR_DUPE)]"
proof -
  let ?ops = "[TmNew 1, TmNew 2, TmNew 3, TmOk False True (Some 1), TmFail True False (Some 2) ERR_DUPE, TmLimit 1,
       TmOk False False (Some 3)]"
  have "wellrun {} {} ?ops" by simp
  moreover have "kept_number 10000 0 ?ops = Some 2" by (simp add: kept_after_def room_def)
  ultimately show ?thesis using tm_history [of ?ops] by auto
qed

text \<open>A limit of zero: the first transfer that ends takes the last element of an empty list.\<close>

lemma tm_limit_zero: "tm_run [TmLimit 0, TmNew 1, TmOk False True (Some 1)] tm_new = None"
  by (simp add: tm_setLimit_def tm_addNew_def tm_new_def tm_transferSuccessful_def tm_toFinished_def tm_full_def
      tm_awaited_def tm_call_def)

subsection \<open>The monitors\<close>

text \<open>The first idle monitor, or a new one at the end; \<open>any\<close> is the content of a new object.\<close>

fun first_idle :: "monitor list \<Rightarrow> nat option" where
  "first_idle [] = None"
| "first_idle (m # ms) = (if m_status m = IDLE then Some 0 else map_option Suc (first_idle ms))"

definition getAvailableTransferMonitor :: "monitor \<Rightarrow> monitor list \<Rightarrow> monitor list \<times> nat" where
  "getAvailableTransferMonitor any ms =
     (case first_idle ms of Some i \<Rightarrow> (ms, i) | None \<Rightarrow> (ms @ [mon_new any], length ms))"

text \<open>The identifier of the next transfer is an \<open>int\<close>; \<open>ev\<close> is the call of the monitor with it.\<close>

record mon_pool =
  mp_monitors :: "monitor list"
  mp_next :: int

definition with_monitor :: "mon_env \<Rightarrow> mon_event \<Rightarrow> nat \<Rightarrow> mon_pool \<Rightarrow> mon_fault + mon_pool" where
  "with_monitor env ev i p =
     and_then (mon_step env ev (mp_monitors p ! i)) (\<lambda>m. Inr (p\<lparr>mp_monitors := (mp_monitors p)[i := m]\<rparr>))"

definition mp_engage :: "mon_env \<Rightarrow> monitor \<Rightarrow> (int \<Rightarrow> mon_event) \<Rightarrow> mon_pool \<Rightarrow> mon_fault + mon_pool" where
  "mp_engage env any ev p =
     (let (ms, i) = getAvailableTransferMonitor any (mp_monitors p)
      in with_monitor env (ev (mp_next p)) i (p\<lparr>mp_monitors := ms, mp_next := mp_next p + 1\<rparr>))"

definition mp_getFileList :: "mon_env \<Rightarrow> monitor \<Rightarrow> engage_in \<Rightarrow> mon_site \<Rightarrow> int \<Rightarrow> bool \<Rightarrow> filelist option \<Rightarrow> bool \<Rightarrow>
    nat option \<Rightarrow> mon_pool \<Rightarrow> mon_fault + mon_pool" where
  "mp_getFileList env any g sl connid hidden fl ipv6 co =
     mp_engage env any (\<lambda>tid. EngageList g tid sl connid hidden fl co ipv6)"

definition mp_attemptTransfer :: "mon_env \<Rightarrow> monitor \<Rightarrow> engage_in \<Rightarrow> string \<Rightarrow> mon_site \<Rightarrow> filelist \<Rightarrow> string \<Rightarrow> mon_site \<Rightarrow>
    filelist \<Rightarrow> nat option \<Rightarrow> nat option \<Rightarrow> mon_pool \<Rightarrow> mon_fault + mon_pool" where
  "mp_attemptTransfer env any g sname src fls dname dst fld srcco dstco =
     mp_engage env any (\<lambda>tid. EngageFXP g tid sname src fls dname dst fld srcco dstco)"

definition mp_attemptDownload :: "mon_env \<Rightarrow> monitor \<Rightarrow> engage_in \<Rightarrow> string \<Rightarrow> mon_site \<Rightarrow> filelist \<Rightarrow> bool \<Rightarrow> nat option \<Rightarrow>
    int \<Rightarrow> mon_pool \<Rightarrow> mon_fault + mon_pool" where
  "mp_attemptDownload env any g name sl fls localfl co connid =
     mp_engage env any (\<lambda>tid. EngageDownload g tid name sl fls localfl co connid)"

definition mp_attemptUpload :: "mon_env \<Rightarrow> monitor \<Rightarrow> engage_in \<Rightarrow> string \<Rightarrow> bool \<Rightarrow> u64 option \<Rightarrow> mon_site \<Rightarrow> filelist \<Rightarrow>
    nat option \<Rightarrow> mon_pool \<Rightarrow> mon_fault + mon_pool" where
  "mp_attemptUpload env any g name localfl localfile sl fl co =
     mp_engage env any (\<lambda>tid. EngageUpload g tid name localfl localfile sl fl co)"

text \<open>Every busy monitor with the identifier is told to end its transfer.\<close>

fun abort_all :: "mon_env \<Rightarrow> int \<Rightarrow> monitor list \<Rightarrow> mon_fault + monitor list" where
  "abort_all env tid [] = Inr []"
| "abort_all env tid (m # ms) =
     and_then (if m_status m \<noteq> IDLE \<and> m_id m = tid then mon_step env Abort m else Inr m)
       (\<lambda>m'. and_then (abort_all env tid ms) (\<lambda>ms'. Inr (m' # ms')))"

definition mp_abortTransfer :: "mon_env \<Rightarrow> int \<Rightarrow> mon_pool \<Rightarrow> mon_fault + mon_pool" where
  "mp_abortTransfer env tid p = and_then (abort_all env tid (mp_monitors p)) (\<lambda>ms. Inr (p\<lparr>mp_monitors := ms\<rparr>))"

text \<open>Histories of the pool: new engagements, reports to single monitors, and requests to abort.\<close>

inductive pool_reach :: "mon_pool \<Rightarrow> bool" where
  empty: "pool_reach \<lparr>mp_monitors = [], mp_next = 0\<rparr>"
| lists: "pool_reach p \<Longrightarrow> mp_getFileList env any g sl connid hidden fl ipv6 co p = Inr p' \<Longrightarrow> pool_reach p'"
| transfer: "pool_reach p \<Longrightarrow> mp_attemptTransfer env any g sname src fls dname dst fld srcco dstco p = Inr p' \<Longrightarrow> pool_reach p'"
| download: "pool_reach p \<Longrightarrow> mp_attemptDownload env any g name sl fls localfl co connid p = Inr p' \<Longrightarrow> pool_reach p'"
| upload: "pool_reach p \<Longrightarrow> mp_attemptUpload env any g name localfl localfile sl fl co p = Inr p' \<Longrightarrow> pool_reach p'"
| report: "pool_reach p \<Longrightarrow> i < length (mp_monitors p) \<Longrightarrow> \<not> is_engage ev \<Longrightarrow> with_monitor env ev i p = Inr p' \<Longrightarrow> pool_reach p'"
| abort: "pool_reach p \<Longrightarrow> mp_abortTransfer env tid p = Inr p' \<Longrightarrow> pool_reach p'"

lemma first_idle_Some: "first_idle ms = Some i \<Longrightarrow> i < length ms \<and> m_status (ms ! i) = IDLE"
  by (induction ms arbitrary: i) (auto split: if_splits)

lemma new_idle: "m_status (mon_new any) = IDLE"
  by (simp add: mon_new_def)

lemma available_idle:
  assumes "getAvailableTransferMonitor any ms = (ms', i)" "list_all mon_reach ms"
  shows "list_all mon_reach ms' \<and> i < length ms' \<and> m_status (ms' ! i) = IDLE"
  using assms first_idle_Some [of ms]
  by (auto simp: getAvailableTransferMonitor_def mon_reach.fresh new_idle split: option.splits)

lemma list_all_nth_update: "list_all P xs \<Longrightarrow> P x \<Longrightarrow> list_all P (xs[i := x])"
  by (auto simp: list_all_iff dest: set_update_subset_insert [THEN subsetD])

lemma with_monitor_reach:
  assumes "with_monitor env ev i p = Inr p'" "list_all mon_reach (mp_monitors p)" "i < length (mp_monitors p)"
    and "is_engage ev \<Longrightarrow> m_status (mp_monitors p ! i) = IDLE"
  shows "list_all mon_reach (mp_monitors p')"
proof -
  obtain m where m: "mon_step env ev (mp_monitors p ! i) = Inr m" "p' = p\<lparr>mp_monitors := (mp_monitors p)[i := m]\<rparr>"
    using assms(1) by (auto simp: with_monitor_def and_then_Inr)
  have "mon_reach m" using assms(2-4) by (intro mon_reach.step [OF _ _ m(1)]) (simp_all add: list_all_length)
  then show ?thesis using m(2) assms(2) by (simp add: list_all_nth_update)
qed

lemma engage_reach:
  assumes "mp_engage env any ev p = Inr p'" "list_all mon_reach (mp_monitors p)"
  shows "list_all mon_reach (mp_monitors p')"
proof -
  obtain ms i where g: "getAvailableTransferMonitor any (mp_monitors p) = (ms, i)" by (meson surj_pair)
  then show ?thesis
    using available_idle [OF g assms(2)] assms(1)
    by (auto simp: mp_engage_def intro: with_monitor_reach)
qed

lemma abort_reach: "abort_all env tid ms = Inr ms' \<Longrightarrow> list_all mon_reach ms \<Longrightarrow> list_all mon_reach ms'"
proof (induction ms arbitrary: ms')
  case (Cons m ms)
  then obtain m' ms1 where m': "(if m_status m \<noteq> IDLE \<and> m_id m = tid then mon_step env Abort m else Inr m) = Inr m'"
      "abort_all env tid ms = Inr ms1" "ms' = m' # ms1"
    by (auto simp: and_then_Inr)
  have "\<not> is_engage Abort" by (simp add: is_engage_def)
  then have "mon_reach m'" using m'(1) Cons.prems(2) by (auto split: if_splits intro: mon_reach.step)
  then show ?case using m' Cons by simp
qed simp

lemma pool_monitors: "pool_reach p \<Longrightarrow> list_all mon_reach (mp_monitors p)"
proof (induction rule: pool_reach.induct)
  case (report p i ev env p')
  then show ?case using with_monitor_reach by blast
next
  case (abort p env tid p')
  then show ?case using abort_reach by (auto simp: mp_abortTransfer_def and_then_Inr)
qed (auto simp: mp_getFileList_def mp_attemptTransfer_def mp_attemptDownload_def mp_attemptUpload_def intro: engage_reach)

text \<open>
  C31. The manager and its monitors together.  In every history of the manager each monitor has a history
  of its own in which it was engaged only while idle, as the theorems on monitors require; and over all
  monitors, the statuses handed to the manager are those handed back and one for each monitor that runs
  a transfer with a status.
\<close>

theorem pool_reports:
  assumes "pool_reach p"
  shows "list_all mon_reach (mp_monitors p)
    \<and> sum_list (map opened (mp_monitors p)) = sum_list (map closed_count (mp_monitors p))
        + length (filter (\<lambda>m. m_status m \<noteq> IDLE \<and> m_ts m \<noteq> None) (mp_monitors p))"
proof -
  have "sum_list (map opened ms) = sum_list (map closed_count ms) + length (filter (\<lambda>m. m_status m \<noteq> IDLE \<and> m_ts m \<noteq> None) ms)"
    if "list_all mon_reach ms" for ms
    using that by (induction ms) (auto dest!: reach_wf simp: mon_wf_def split: if_splits)
  then show ?thesis using pool_monitors [OF assms] by blast
qed

lemma demo_engaged_first:
  "\<exists>m. mon_step demo_env (EngageFXP demo_in 0 ''a'' demo_site demo_list ''a'' demo_site
       (fl_init undefined ''u'' path_empty LS_UNKNOWN) None None) m0 = Inr m \<and> m_status m = AWAITING_PASSIVE"
  by (simp add: demo_in_def engageFXP_def Let_def fxp_touch_def fxp_setup_def fxp_start_def fxp_check_def demo_site_def
   transferProtocolCombinationPossible_def file_at_def on_fld_def on_fls_def demo_env_def mon_reset_def emit_def
   fxp_ssl_def fxp_sslclient_def demo_getFile)

theorem pool_reports_witness:
  "\<exists>p. pool_reach p \<and> length (filter (\<lambda>m. m_status m \<noteq> IDLE) (mp_monitors p)) = 1 \<and> list_all mon_reach (mp_monitors p)"
proof -
  let ?p = "\<lparr>mp_monitors = [], mp_next = 0\<rparr> :: mon_pool"
  obtain m where m: "mon_step demo_env (EngageFXP demo_in 0 ''a'' demo_site demo_list ''a'' demo_site
       (fl_init undefined ''u'' path_empty LS_UNKNOWN) None None) (mon_new undefined) = Inr m" "m_status m = AWAITING_PASSIVE"
    using demo_engaged_first by blast
  then have "mp_attemptTransfer demo_env undefined demo_in ''a'' demo_site demo_list ''a'' demo_site
      (fl_init undefined ''u'' path_empty LS_UNKNOWN) None None ?p = Inr \<lparr>mp_monitors = [m], mp_next = 1\<rparr>"
    by (simp add: mp_attemptTransfer_def mp_engage_def getAvailableTransferMonitor_def with_monitor_def del: mon_step.simps)
  then have "pool_reach \<lparr>mp_monitors = [m], mp_next = 1\<rparr>" by (rule pool_reach.transfer [OF pool_reach.empty])
  from pool_reports [OF this] this m(2) show ?thesis
    by (intro exI [of _ "\<lparr>mp_monitors = [m], mp_next = 1\<rparr>"]) simp
qed

end
