(* ===== verification/LocalFiles.thy ===== *)
theory LocalFiles
  imports PathModel "HOL-Library.AList" "HOL-Library.Word"
begin

text \<open>
  The list of a local directory (\<open>src/localfilelist.cpp\<close>, \<open>src/localfile.cpp\<close>) and how it is brought up to
  date from the disk (\<open>src/localstorage.cpp\<close>).  What \<open>readdir\<close> and \<open>stat\<close> return is an argument, the
  entries of the directory, and so is the number of \<open>rand\<close> that marks what has been seen.  Owners,
  times and targets of links are not modelled: nothing depends on them.
\<close>

datatype local_type = LF_FILE | LF_DIR | LF_LINK

record local_file =
  lf_size :: "64 word"
  lf_type :: local_type
  lf_touch :: int
  lf_download :: bool

definition lf_new :: "64 word \<Rightarrow> local_type \<Rightarrow> bool \<Rightarrow> local_file" where
  "lf_new sz ty download = \<lparr>lf_size = sz, lf_type = ty, lf_touch = 0, lf_download = download\<rparr>"

definition lf_isDirectory :: "local_file \<Rightarrow> bool" where
  "lf_isDirectory f \<longleftrightarrow> lf_type f = LF_DIR"

record local_list =
  ll_path :: path
  ll_files :: "(string \<times> local_file) list"
  ll_lower :: "(string \<times> string) list"
  ll_sizefiles :: nat

definition ll_new :: "path \<Rightarrow> local_list" where
  "ll_new path = \<lparr>ll_path = path, ll_files = [], ll_lower = [], ll_sizefiles = 0\<rparr>"

definition ll_size :: "local_list \<Rightarrow> nat" where
  "ll_size ll = length (ll_files ll)"

definition ll_updateFile :: "string \<Rightarrow> local_file \<Rightarrow> int \<Rightarrow> local_list \<Rightarrow> local_list" where
  "ll_updateFile name f touch ll =
     (case map_of (ll_files ll) name of
        Some g \<Rightarrow>
          ll\<lparr>ll_files := AList.update name
               ((if lf_size g < lf_size f then g\<lparr>lf_size := lf_size f\<rparr> else g)\<lparr>lf_touch := touch\<rparr>) (ll_files ll)\<rparr>
      | None \<Rightarrow>
          ll\<lparr>ll_files := AList.update name (f\<lparr>lf_touch := touch\<rparr>) (ll_files ll),
             ll_lower := AList.update (map to_lower_char name) name (ll_lower ll),
             ll_sizefiles := (if lf_isDirectory f then ll_sizefiles ll else ll_sizefiles ll + 1)\<rparr>)"

definition ll_touchFile :: "string \<Rightarrow> bool \<Rightarrow> local_list \<Rightarrow> local_list" where
  "ll_touchFile name download = ll_updateFile name (lf_new 512 LF_FILE download) 0"

text \<open>The name an entry is found by, first as it is, then in lower case.\<close>

definition ll_findName :: "string \<Rightarrow> local_list \<Rightarrow> string option" where
  "ll_findName name ll =
     (case map_of (ll_files ll) name of
        Some _ \<Rightarrow> Some name
      | None \<Rightarrow> (case map_of (ll_lower ll) (map to_lower_char name) of
          None \<Rightarrow> None
        | Some n \<Rightarrow> (case map_of (ll_files ll) n of None \<Rightarrow> None | Some _ \<Rightarrow> Some n)))"

definition ll_find :: "string \<Rightarrow> local_list \<Rightarrow> local_file option" where
  "ll_find name ll = (case ll_findName name ll of None \<Rightarrow> None | Some n \<Rightarrow> map_of (ll_files ll) n)"

definition ll_gone :: "int \<Rightarrow> local_list \<Rightarrow> string list" where
  "ll_gone touch ll = map fst (filter (\<lambda>(_, f). lf_touch f \<noteq> touch \<and> \<not> lf_download f) (ll_files ll))"

definition ll_cleanSweep :: "int \<Rightarrow> local_list \<Rightarrow> local_list" where
  "ll_cleanSweep touch ll =
     (let gone = ll_gone touch ll
      in if gone = [] then ll
         else
           let files = filter (\<lambda>(n, _). n \<notin> set gone) (ll_files ll)
           in ll\<lparr>ll_files := files,
                 ll_lower := filter (\<lambda>(n, _). n \<notin> map to_lower_char ` set gone) (ll_lower ll),
                 ll_sizefiles := length (filter (\<lambda>(_, f). \<not> lf_isDirectory f) files)\<rparr>)"

definition ll_finishDownload :: "string \<Rightarrow> local_list \<Rightarrow> local_list" where
  "ll_finishDownload name ll =
     (case ll_findName name ll of
        None \<Rightarrow> ll
      | Some n \<Rightarrow> ll\<lparr>ll_files := AList.map_entry n (\<lambda>f. f\<lparr>lf_download := False\<rparr>) (ll_files ll)\<rparr>)"

subsection \<open>From the disk\<close>

text \<open>The entries of a directory, other than itself and the one above; \<^term>\<open>None\<close> when it cannot be read.\<close>

type_synonym dir_entries = "(string \<times> local_file) list option"

definition ll_readdir :: "(string \<Rightarrow> bool) \<Rightarrow> int \<Rightarrow> (string \<times> local_file) list \<Rightarrow> local_list \<Rightarrow> local_list" where
  "ll_readdir wanted touch entries ll =
     (let es = filter (\<lambda>(n, _). wanted n) entries;
          ll1 = fold (\<lambda>(n, f). ll_updateFile n f touch) es ll
      in if length es < ll_size ll1 then ll_cleanSweep touch ll1 else ll1)"

definition updateLocalFileList :: "int \<Rightarrow> dir_entries \<Rightarrow> local_list \<Rightarrow> local_list \<times> bool" where
  "updateLocalFileList touch dir ll =
     (case dir of None \<Rightarrow> (ll, False) | Some es \<Rightarrow> (ll_readdir (\<lambda>n. n \<noteq> ''..'' \<and> n \<noteq> ''.'') touch es ll, True))"

definition updateLocalFileListPrune :: "int \<Rightarrow> string \<Rightarrow> dir_entries \<Rightarrow> local_list \<Rightarrow> local_list \<times> bool" where
  "updateLocalFileListPrune touch remaining dir ll =
     (case dir of None \<Rightarrow> (ll, False) | Some es \<Rightarrow> (ll_readdir (\<lambda>n. n = remaining) touch es ll, True))"

definition getLocalFileList :: "path \<Rightarrow> int \<Rightarrow> dir_entries \<Rightarrow> local_list option" where
  "getLocalFileList path touch dir =
     (let (ll, ok) = updateLocalFileList touch dir (ll_new path) in if ok then Some ll else None)"

definition getLocalFileListPrune :: "path \<Rightarrow> int \<Rightarrow> string \<Rightarrow> dir_entries \<Rightarrow> local_list option" where
  "getLocalFileListPrune path touch remaining dir =
     (let (ll, ok) = updateLocalFileListPrune touch remaining dir (ll_new path) in if ok then Some ll else None)"

subsection \<open>What an update leaves\<close>

definition ll_inv :: "local_list \<Rightarrow> bool" where
  "ll_inv ll \<longleftrightarrow> distinct (map fst (ll_files ll))
     \<and> ll_sizefiles ll = length (filter (\<lambda>(_, f). \<not> lf_isDirectory f) (ll_files ll))"

lemma ll_new_inv [simp]: "ll_inv (ll_new path)"
  by (simp add: ll_inv_def ll_new_def)

lemma filter_update_None:
  "map_of xs k = None \<Longrightarrow> filter P (AList.update k v xs) = filter P xs @ (if P (k, v) then [(k, v)] else [])"
  by (induction xs) (auto split: if_splits)

lemma filter_update_Some:
  "map_of xs k = Some v \<Longrightarrow> (\<And>k'. P (k', w) = P (k', v)) \<Longrightarrow>
     length (filter P (AList.update k w xs)) = length (filter P xs)"
  by (induction xs) (auto split: if_splits)

lemma ll_updateFile_inv:
  assumes "ll_inv ll"
  shows "ll_inv (ll_updateFile name f touch ll)"
proof (cases "map_of (ll_files ll) name")
  case None
  then show ?thesis using assms
    by (auto simp: ll_inv_def ll_updateFile_def distinct_update filter_update_None lf_isDirectory_def)
next
  case (Some g)
  then show ?thesis using assms
    by (auto simp: ll_inv_def ll_updateFile_def distinct_update lf_isDirectory_def intro!: filter_update_Some [symmetric])
qed

lemma ll_cleanSweep_inv: "ll_inv ll \<Longrightarrow> ll_inv (ll_cleanSweep touch ll)"
  by (auto simp: ll_inv_def ll_cleanSweep_def Let_def intro: distinct_map_filter)

lemma length_filter_map_entry:
  "(\<And>k v. P (k, g v) = P (k, v)) \<Longrightarrow> length (filter P (AList.map_entry n g xs)) = length (filter P xs)"
  by (induction xs) auto

lemma keys_map_entry: "map fst (AList.map_entry n g xs) = map fst xs"
  by (induction xs) auto

lemma ll_finishDownload_inv: "ll_inv ll \<Longrightarrow> ll_inv (ll_finishDownload name ll)"
  by (auto simp: ll_inv_def ll_finishDownload_def keys_map_entry lf_isDirectory_def length_filter_map_entry split: option.split)

definition seen_as :: "int \<Rightarrow> local_file \<Rightarrow> local_file option \<Rightarrow> local_file" where
  "seen_as touch f old =
     (case old of
        None \<Rightarrow> f\<lparr>lf_touch := touch\<rparr>
      | Some g \<Rightarrow> g\<lparr>lf_size := max (lf_size g) (lf_size f), lf_touch := touch\<rparr>)"

lemma updateFile_map:
  "map_of (ll_files (ll_updateFile name f touch ll)) = (map_of (ll_files ll))(name \<mapsto> seen_as touch f (map_of (ll_files ll) name))"
  by (auto simp: ll_updateFile_def seen_as_def update_conv' max_def not_less split: option.split)

lemma updateFiles_map:
  assumes "distinct (map fst es)"
  shows "map_of (ll_files (fold (\<lambda>(n, f). ll_updateFile n f touch) es ll)) k =
    (case map_of es k of None \<Rightarrow> map_of (ll_files ll) k | Some f \<Rightarrow> Some (seen_as touch f (map_of (ll_files ll) k)))"
  using assms
proof (induction es arbitrary: ll)
  case (Cons e es)
  obtain n f where e: "e = (n, f)" by (cases e)
  have "map_of es n = None" using Cons.prems e by (simp add: map_of_eq_None_iff)
  then show ?case using Cons by (auto simp: e updateFile_map split: option.split)
qed simp

lemma updateFiles_inv: "ll_inv ll \<Longrightarrow> ll_inv (fold (\<lambda>(n, f). ll_updateFile n f touch) es ll)"
  by (induction es arbitrary: ll) (auto simp: ll_updateFile_inv)

lemma cleanSweep_map:
  assumes "ll_inv ll"
  shows "map_of (ll_files (ll_cleanSweep touch ll)) k =
    (case map_of (ll_files ll) k of None \<Rightarrow> None | Some f \<Rightarrow> if lf_touch f \<noteq> touch \<and> \<not> lf_download f then None else Some f)"
proof -
  have d: "distinct (map fst (ll_files ll))" using assms by (simp add: ll_inv_def)
  have gone: "k \<in> set (ll_gone touch ll) \<longleftrightarrow> (\<exists>f. map_of (ll_files ll) k = Some f \<and> lf_touch f \<noteq> touch \<and> \<not> lf_download f)" for k
    using d by (force simp: ll_gone_def)
  have kept: "map_of (filter (\<lambda>(n, _). n \<notin> A) xs) k = (if k \<in> A then None else map_of xs k)" for A and xs :: "(string \<times> local_file) list"
    by (induction xs) auto
  show ?thesis
  proof (cases "ll_gone touch ll = []")
    case True
    then show ?thesis using gone [of k] by (auto simp: ll_cleanSweep_def split: option.split)
  next
    case False
    then show ?thesis using gone [of k] by (auto simp: ll_cleanSweep_def Let_def kept split: option.split)
  qed
qed

text \<open>
  C32. Bringing the list of a directory up to date.  With a mark that no entry has yet, the list has
  afterwards the wanted entries of the disk, each with what was known of it, the larger of both sizes
  and the mark, and of the other files it had exactly those that are being downloaded; files and
  directories are counted right, and no name is there twice.
\<close>

theorem readdir_result:
  fixes ll :: local_list and es :: "(string \<times> local_file) list" and wanted :: "string \<Rightarrow> bool" and touch :: int
  assumes "ll_inv ll" and "distinct (map fst es)" and "\<forall>f\<in>snd ` set (ll_files ll). lf_touch f \<noteq> touch"
  defines "ll' \<equiv> ll_readdir wanted touch es ll"
  shows "ll_inv ll' \<and> map_of (ll_files ll') k =
    (case map_of es k of
       Some f \<Rightarrow> if wanted k then Some (seen_as touch f (map_of (ll_files ll) k))
         else (case map_of (ll_files ll) k of None \<Rightarrow> None | Some g \<Rightarrow> if lf_download g then Some g else None)
     | None \<Rightarrow> (case map_of (ll_files ll) k of None \<Rightarrow> None | Some g \<Rightarrow> if lf_download g then Some g else None))"
proof -
  let ?es = "filter (\<lambda>(n, _). wanted n) es"
  let ?ll = "fold (\<lambda>(n, f). ll_updateFile n f touch) ?es ll"
  have d: "distinct (map fst ?es)" using assms(2) by (rule distinct_map_filter)
  have es: "map_of ?es k = (if wanted k then map_of es k else None)" for k
    by (induction es) auto
  note inv = updateFiles_inv [OF assms(1), of touch ?es]
  note m = updateFiles_map [OF d, of touch ll]
  have old: "lf_touch g \<noteq> touch" if "map_of (ll_files ll) k = Some g" for k g
    using that assms(3) map_of_SomeD by fastforce
  have mark: "lf_touch (seen_as touch f o') = touch" for f o' by (simp add: seen_as_def split: option.split)
  show ?thesis
  proof (cases "length ?es < ll_size ?ll")
    case True
    then have ll': "ll' = ll_cleanSweep touch ?ll" by (simp add: ll'_def ll_readdir_def Let_def)
    show ?thesis
      unfolding ll' using ll_cleanSweep_inv [OF inv] old
      by (auto simp: cleanSweep_map [OF inv] m es mark split: option.splits)
  next
    case False
    then have ll': "ll' = ?ll" by (simp add: ll'_def ll_readdir_def Let_def)
    have sub: "fst ` set ?es \<subseteq> fst ` set (ll_files ?ll)"
    proof
      fix n assume "n \<in> fst ` set ?es"
      then have "map_of (ll_files ?ll) n \<noteq> None" by (auto simp: m map_of_eq_None_iff split: option.split)
      then show "n \<in> fst ` set (ll_files ?ll)" by (simp add: map_of_eq_None_iff)
    qed
    have "card (fst ` set ?es) = length ?es" using distinct_card [OF d] by simp
    moreover have "distinct (map fst (ll_files ?ll))" using inv by (simp add: ll_inv_def)
    then have "card (fst ` set (ll_files ?ll)) = ll_size ?ll" using distinct_card by (fastforce simp: ll_size_def)
    ultimately have "fst ` set ?es = fst ` set (ll_files ?ll)"
      using False sub by (intro card_seteq) simp_all
    then have none: "map_of (ll_files ?ll) k = None" if "map_of ?es k = None" using that by (simp add: map_of_eq_None_iff)
    show ?thesis
    proof (cases "map_of ?es k")
      case None
      then show ?thesis unfolding ll' using inv m [of k] es [of k] none by (auto split: option.splits if_splits)
    next
      case (Some f)
      then show ?thesis unfolding ll' using inv m [of k] es [of k] by (auto split: option.splits if_splits)
    qed
  qed
qed

theorem readdir_result_witness:
  "map_of (ll_files (ll_readdir (\<lambda>n. n = ''a'') 7 [(''a'', lf_new 3 LF_FILE False), (''b'', lf_new 1 LF_FILE False)]
     (ll_touchFile ''c'' True (ll_touchFile ''d'' False (ll_new path_empty))))) ''c'' = Some (lf_new 512 LF_FILE True)"
proof -
  have "ll_inv (ll_touchFile ''c'' True (ll_touchFile ''d'' False (ll_new path_empty)))"
    by (simp add: ll_touchFile_def ll_updateFile_inv)
  then show ?thesis
    using readdir_result [of "ll_touchFile ''c'' True (ll_touchFile ''d'' False (ll_new path_empty))"
        "[(''a'', lf_new 3 LF_FILE False), (''b'', lf_new 1 LF_FILE False)]" 7 "\<lambda>n. n = ''a''" "''c''"]
    by (simp add: ll_touchFile_def ll_updateFile_def ll_new_def lf_new_def lf_isDirectory_def)
qed

text \<open>The size of a file only grows: one that was downloaded keeps the size it was touched with if it is smaller.\<close>

lemma small_download_size:
  "map_option lf_size (map_of (ll_files (ll_readdir (\<lambda>_. True) 7 [(''a'', lf_new 3 LF_FILE False)]
     (ll_finishDownload ''a'' (ll_touchFile ''a'' True (ll_new path_empty))))) ''a'') = Some 512"
  by (simp add: ll_readdir_def ll_finishDownload_def ll_findName_def ll_touchFile_def ll_updateFile_def ll_new_def
      lf_new_def lf_isDirectory_def ll_size_def)

end
