(* ===== verification/TransferJobModel.thy ===== *)
theory TransferJobModel
  imports EngineBoards LocalFiles
begin

text \<open>
  Transfer jobs (\<open>src/transferjob.cpp\<close>): one file or directory moved from a site to this machine, from
  here to a site, or between two sites.  A job has the lists of the directories on each end, asks for
  them to be refreshed, counts what there is to transfer, follows its transfers and decides when it is
  over and whether it has failed.

  File lists, local lists and sites are in the store, named by numbers; hash maps are association
  lists.  What is outside of the job is in \<open>job_env\<close>: the disk, the skip lists, the slots of the local
  storage, and the transfer statuses it is told of.  An access that throws (\<open>at\<close>) or follows a null
  pointer is an error value.  The strings of the times a job was queued and started are not modelled.
\<close>

datatype tj_kind = TJ_DOWNLOAD | TJ_UPLOAD | TJ_FXP

datatype tj_status = TJ_QUEUED | TJ_RUNNING | TJ_DONE | TJ_FAILED | TJ_ABORTED

datatype refresh_state = REFRESH_NOW | REFRESH_OK | REFRESH_FINAL_NOW | REFRESH_FINAL_OK

datatype tj_fault = OutOfRange | NullPointer | DivByZero | NoFuel

definition TRANSFERJOB_UPDATE_INTERVAL :: int where
  "TRANSFERJOB_UPDATE_INTERVAL = 250"

definition MAX_JOB_ATTEMPTS :: nat where
  "MAX_JOB_ATTEMPTS = 3"

record tjob =
  tj_kind :: tj_kind
  tj_src :: nat
  tj_dst :: nat
  tj_srcpath :: path
  tj_dstpath :: path
  tj_srcfile :: string
  tj_dstfile :: string
  tj_secskip :: "nat option"
  tj_srclists :: "(string \<times> nat) list"
  tj_dstlists :: "(string \<times> nat) list"
  tj_local :: "(string \<times> nat option) list"
  tj_pending :: "(string \<times> u64) list"
  tj_skipped :: "(string \<times> u64) list"
  tj_existing :: "(string \<times> u64) list"
  tj_reserved :: "(nat \<times> int) list"
  tj_transfers :: "nat list"
  tj_indexed :: "string list"
  tj_slots :: int
  tj_status :: tj_status
  tj_refreshed :: "(nat \<times> refresh_state) list"
  tj_expected :: u64
  tj_speed :: u32
  tj_sizeprogress :: u64
  tj_progress :: int
  tj_milliprogress :: int
  tj_millis :: int
  tj_secs :: int
  tj_remaining :: int
  tj_filesprogress :: int
  tj_filestotal :: int
  tj_almostdone :: bool
  tj_attempts :: "(string \<times> nat) list"
  tj_idletime :: int
  tj_poked :: bool

text \<open>What a job reads of the status of a transfer.\<close>

record ts_info =
  ti_srcpath :: path
  ti_dstpath :: path
  ti_file :: string
  ti_state :: ts_state
  ti_srcsize :: u64
  ti_dstsize :: u64
  ti_fls :: nat
  ti_fld :: nat

record tj_world = engine +
  jw_ll :: "nat \<Rightarrow> local_list"
  jw_nextll :: nat

text \<open>
  \<open>je_check\<close> is a site's skip list outside of races with the one of a section behind it, \<open>je_race\<close> its
  verdict in races, which the search for a similar file asks for, and \<open>je_global\<close> the global list.
  \<open>je_temp\<close> is the address of the skip list that the engine makes on its stack for one call; what
  \<open>je_race\<close> says of this address at any other time is what happens to be there.
\<close>

record 'x job_env =
  je_disk :: "path \<Rightarrow> dir_entries"
  je_touch :: "path \<Rightarrow> int"
  je_exists :: "path \<Rightarrow> bool"
  je_mkdir :: "path \<Rightarrow> bool"
  je_maxup :: int
  je_maxdown :: int
  je_xdupe :: "nat \<Rightarrow> bool"
  je_check :: "nat \<Rightarrow> nat option \<Rightarrow> string \<Rightarrow> bool \<Rightarrow> 'x skip_match"
  je_race :: skip_verdict
  je_temp :: nat
  je_global :: "string \<Rightarrow> bool \<Rightarrow> 'x skip_match"
  je_now :: u64
  je_ts :: "nat \<Rightarrow> ts_info"

subsection \<open>Queries\<close>

definition tj_isDone :: "tjob \<Rightarrow> bool" where
  "tj_isDone tj \<longleftrightarrow> tj_status tj \<in> {TJ_DONE, TJ_FAILED, TJ_ABORTED}"

definition at_key :: "'k \<Rightarrow> ('k \<times> 'v) list \<Rightarrow> tj_fault + 'v" where
  "at_key k xs = (case map_of xs k of None \<Rightarrow> Inl OutOfRange | Some v \<Rightarrow> Inr v)"

definition deref :: "'v option \<Rightarrow> tj_fault + 'v" where
  "deref p = (case p of None \<Rightarrow> Inl NullPointer | Some v \<Rightarrow> Inr v)"

definition tj_isDirectory :: "tjob \<Rightarrow> 'w tj_world_scheme \<Rightarrow> tj_fault + bool" where
  "tj_isDirectory tj w =
     (if tj_kind tj \<noteq> TJ_UPLOAD then
        and_then (at_key [] (tj_srclists tj)) (\<lambda>l. Inr
          (case fl_getFile (tj_srcfile tj) (w_fl w l) of None \<Rightarrow> False | Some a \<Rightarrow> f_directory (fl_obj (w_fl w l) a)))
      else
        and_then (at_key [] (tj_local tj)) (\<lambda>p. and_then (deref p) (\<lambda>l. Inr
          (case ll_find (tj_dstfile tj) (jw_ll w l) of None \<Rightarrow> False | Some f \<Rightarrow> lf_isDirectory f))))"

definition tj_tryReserveListTarget :: "nat \<Rightarrow> int \<Rightarrow> tjob \<Rightarrow> tjob \<times> bool" where
  "tj_tryReserveListTarget l conn tj =
     (case map_of (tj_reserved tj) l of
        Some c \<Rightarrow> (tj, c = conn)
      | None \<Rightarrow> (tj\<lparr>tj_reserved := AList.update l conn (tj_reserved tj)\<rparr>, True))"

definition wants_listing :: "tjob \<Rightarrow> 'w world_scheme \<Rightarrow> nat \<Rightarrow> bool" where
  "wants_listing tj w l \<longleftrightarrow>
     fl_state (w_fl w l) \<noteq> LS_FAILED
     \<and> (fl_state (w_fl w l) \<noteq> LS_LISTED \<and> fl_state (w_fl w l) \<noteq> LS_NONEXISTENT
        \<or> map_of (tj_refreshed tj) l \<in> {Some REFRESH_NOW, Some REFRESH_FINAL_NOW})"

definition tj_getListTargets :: "bool \<Rightarrow> tjob \<Rightarrow> 'w world_scheme \<Rightarrow> nat list" where
  "tj_getListTargets source tj w =
     (if source \<and> tj_kind tj \<noteq> TJ_UPLOAD then filter (wants_listing tj w) (map snd (tj_srclists tj))
      else if \<not> source \<and> tj_kind tj \<noteq> TJ_DOWNLOAD then filter (wants_listing tj w) (map snd (tj_dstlists tj))
      else [])"

definition tj_checkFileListExists :: "nat \<Rightarrow> tjob \<Rightarrow> bool" where
  "tj_checkFileListExists l tj \<longleftrightarrow> l \<in> snd ` set (tj_srclists tj) \<or> l \<in> snd ` set (tj_dstlists tj)"

definition tj_isRootFileList :: "bool \<Rightarrow> nat \<Rightarrow> tjob \<Rightarrow> tj_fault + bool" where
  "tj_isRootFileList source l tj =
     (if source \<and> tj_kind tj \<noteq> TJ_UPLOAD then and_then (at_key [] (tj_srclists tj)) (\<lambda>r. Inr (l = r))
      else if \<not> source \<and> tj_kind tj \<noteq> TJ_DOWNLOAD then and_then (at_key [] (tj_dstlists tj)) (\<lambda>r. Inr (l = r))
      else Inr False)"

definition tj_findDstList :: "string \<Rightarrow> tjob \<Rightarrow> nat option" where
  "tj_findDstList sub tj = map_of (tj_dstlists tj) sub"

text \<open>Null also when the map has a null pointer there.\<close>

definition tj_findLocalFileList :: "string \<Rightarrow> tjob \<Rightarrow> nat option" where
  "tj_findLocalFileList sub tj = (case map_of (tj_local tj) sub of None \<Rightarrow> None | Some p \<Rightarrow> p)"

definition tj_getFileListForFullPath :: "bool \<Rightarrow> path \<Rightarrow> tjob \<Rightarrow> 'w world_scheme \<Rightarrow> nat option" where
  "tj_getFileListForFullPath source p tj w =
     find (\<lambda>l. path_eq (fl_path (w_fl w l)) p) (map snd (if source then tj_srclists tj else tj_dstlists tj))"

definition tj_anyListNeedsRefreshing :: "tjob \<Rightarrow> 'w world_scheme \<Rightarrow> bool" where
  "tj_anyListNeedsRefreshing tj w \<longleftrightarrow>
     list_ex (\<lambda>(l, r). fl_state (w_fl w l) \<noteq> LS_FAILED \<and> (r = REFRESH_NOW \<or> r = REFRESH_FINAL_NOW)) (tj_refreshed tj)"

definition tj_hasFailedTransfer :: "string \<Rightarrow> tjob \<Rightarrow> bool" where
  "tj_hasFailedTransfer dstpath tj \<longleftrightarrow>
     (case map_of (tj_attempts tj) dstpath of None \<Rightarrow> False | Some n \<Rightarrow> MAX_JOB_ATTEMPTS \<le> n)"

definition tj_maxPossibleSlots :: "'x job_env \<Rightarrow> tjob \<Rightarrow> 'w tj_world_scheme \<Rightarrow> int" where
  "tj_maxPossibleSlots env tj w =
     (case tj_kind tj of
        TJ_UPLOAD \<Rightarrow> min (je_maxup env) (site_getMaxUp (en_site w (tj_dst tj)))
      | TJ_FXP \<Rightarrow> min (site_getMaxDownTransferJob (en_site w (tj_src tj))) (site_getMaxUp (en_site w (tj_dst tj)))
      | TJ_DOWNLOAD \<Rightarrow> min (je_maxdown env) (site_getMaxDownTransferJob (en_site w (tj_src tj))))"

subsection \<open>Life of a job\<close>

definition tj_start :: "tjob \<Rightarrow> tjob" where
  "tj_start tj = (if tj_status tj \<noteq> TJ_QUEUED then tj else tj\<lparr>tj_status := TJ_RUNNING, tj_poked := True\<rparr>)"

definition tj_setDone :: "tjob \<Rightarrow> tjob" where
  "tj_setDone tj = (if tj_isDone tj then tj else tj\<lparr>tj_poked := False, tj_status := TJ_DONE, tj_remaining := 0\<rparr>)"

definition tj_setFailed :: "tjob \<Rightarrow> tjob" where
  "tj_setFailed tj = (if tj_isDone tj then tj else (tj_setDone tj)\<lparr>tj_status := TJ_FAILED\<rparr>)"

text \<open>The flag: the sites are told to end the transfers of the job.\<close>

definition tj_abort :: "tjob \<Rightarrow> tjob \<times> bool" where
  "tj_abort tj = (if tj_isDone tj then (tj, False) else ((tj_setDone tj)\<lparr>tj_status := TJ_ABORTED\<rparr>, True))"

definition tj_clearExisting :: "tjob \<Rightarrow> tjob" where
  "tj_clearExisting tj = tj\<lparr>tj_existing := [], tj_pending := [], tj_skipped := []\<rparr>"

definition tj_clearRefreshLists :: "tjob \<Rightarrow> tjob" where
  "tj_clearRefreshLists tj = tj\<lparr>tj_refreshed := []\<rparr>"

definition tj_setSlots :: "int \<Rightarrow> tjob \<Rightarrow> tjob" where
  "tj_setSlots n tj = tj\<lparr>tj_slots := n\<rparr>"

subsection \<open>Its transfers\<close>

definition tj_addPendingTransfer :: "path \<Rightarrow> u64 \<Rightarrow> tjob \<Rightarrow> tjob" where
  "tj_addPendingTransfer p sz tj = tj\<lparr>tj_pending := AList.update (p_path p) sz (tj_pending tj)\<rparr>"

definition tj_addSkippedTransfer :: "path \<Rightarrow> u64 \<Rightarrow> tjob \<Rightarrow> tjob" where
  "tj_addSkippedTransfer p sz tj = tj\<lparr>tj_skipped := AList.update (p_path p) sz (tj_skipped tj)\<rparr>"

definition tj_targetExists :: "path \<Rightarrow> u64 \<Rightarrow> tjob \<Rightarrow> tjob" where
  "tj_targetExists p sz tj =
     (if p_path p \<in> set (tj_indexed tj) then tj else tj\<lparr>tj_existing := AList.update (p_path p) sz (tj_existing tj)\<rparr>)"

definition ts_subpath :: "tjob \<Rightarrow> ts_info \<Rightarrow> string" where
  "ts_subpath tj t = p_path (path_concat (path_minus (ti_srcpath t) (tj_srcpath tj)) (path_new (ti_file t)))"

definition ts_target :: "ts_info \<Rightarrow> string" where
  "ts_target t = p_path (path_concat (ti_dstpath t) (path_new (ti_file t)))"

definition tj_addTransfer :: "'x job_env \<Rightarrow> nat option \<Rightarrow> tjob \<Rightarrow> tjob" where
  "tj_addTransfer env ts tj =
     (case ts of
        None \<Rightarrow> tj
      | Some h \<Rightarrow>
          let t = je_ts env h; sub = ts_subpath tj t;
              tj1 = tj\<lparr>tj_idletime := 0, tj_transfers := h # tj_transfers tj, tj_indexed := List.insert sub (tj_indexed tj)\<rparr>
          in if ti_state t \<noteq> FAILED
             then tj1\<lparr>tj_pending := AList.delete sub (tj_pending tj1), tj_existing := AList.delete sub (tj_existing tj1),
                      tj_skipped := AList.delete sub (tj_skipped tj1)\<rparr>
             else tj1)"

definition tj_addTransferAttempt :: "ts_info \<Rightarrow> bool \<Rightarrow> tjob \<Rightarrow> tjob" where
  "tj_addTransferAttempt t success tj =
     (let dst = ts_target t;
          n = (case map_of (tj_attempts tj) dst of None \<Rightarrow> 1 | Some n \<Rightarrow> n + 1)
      in tj\<lparr>tj_attempts := AList.update dst
           (if success \<and> path_eq (tj_dstpath tj) (ti_dstpath t) \<and> tj_dstfile tj = ti_file t then MAX_JOB_ATTEMPTS else n)
           (tj_attempts tj)\<rparr>)"

definition tj_transferSuccessful :: "ts_info \<Rightarrow> tjob \<Rightarrow> tjob" where
  "tj_transferSuccessful t tj = tj_addTransferAttempt t True (tj\<lparr>tj_idletime := 0\<rparr>)"

definition refresh_now :: "nat \<Rightarrow> tjob \<times> 'w world_scheme \<Rightarrow> tjob \<times> 'w world_scheme" where
  "refresh_now l st =
     ((fst st)\<lparr>tj_refreshed := AList.update l REFRESH_NOW (tj_refreshed (fst st))\<rparr>, on_fl l fl_resetUpdateState (snd st))"

definition tj_transferFailed :: "'x job_env \<Rightarrow> ts_info \<Rightarrow> tjob \<times> 'w tj_world_scheme \<Rightarrow> tjob \<times> 'w tj_world_scheme" where
  "tj_transferFailed env t st =
     (let tj = fst st
      in if tj_kind tj \<noteq> TJ_UPLOAD \<and> \<not> tj_checkFileListExists (ti_fls t) tj
            \<or> tj_kind tj \<noteq> TJ_DOWNLOAD \<and> \<not> tj_checkFileListExists (ti_fld t) tj then st
         else
           let st0 = (tj\<lparr>tj_idletime := 0\<rparr>, snd st);
               st1 = (if tj_kind tj \<noteq> TJ_UPLOAD then refresh_now (ti_fls t) st0 else st0);
               st2 = (if tj_kind tj \<noteq> TJ_DOWNLOAD \<and> \<not> je_xdupe env (tj_dst tj) then refresh_now (ti_fld t) st1 else st1)
           in (tj_addTransferAttempt t False (fst st2), snd st2))"

subsection \<open>Status\<close>

text \<open>What the loop over the transfers, the newest first, gathers.\<close>

record gathered =
  ga_size :: u64
  ga_moved :: u64
  ga_ongoing :: bool
  ga_targets :: "string list"
  ga_completed :: "string list"
  ga_dupe :: "string list"
  ga_failed :: "string list"

definition gather :: "tjob \<Rightarrow> ts_info \<Rightarrow> gathered \<Rightarrow> gathered" where
  "gather tj t g =
     (let sub = ts_subpath tj t;
          g1 = (if ti_state t = IN_PROGRESS then g\<lparr>ga_ongoing := True\<rparr> else g)
      in if ts_target t \<in> set (ga_targets g) then g1
         else
           let g2 = g1\<lparr>ga_targets := ts_target t # ga_targets g1\<rparr>;
               g3 = (if ti_state t \<in> {IN_PROGRESS, SUCCESSFUL}
                     then g2\<lparr>ga_size := ga_size g2 + ti_srcsize t, ga_moved := ga_moved g2 + ti_dstsize t\<rparr> else g2)
           in (case ti_state t of
                 SUCCESSFUL \<Rightarrow> g3\<lparr>ga_completed := List.insert sub (ga_completed g3),
                   ga_failed := removeAll sub (ga_failed g3), ga_dupe := removeAll sub (ga_dupe g3)\<rparr>
               | FAILED \<Rightarrow> (if sub \<in> set (ga_completed g3) then g3 else g3\<lparr>ga_failed := List.insert sub (ga_failed g3)\<rparr>)
               | DUPE \<Rightarrow> (if sub \<in> set (ga_completed g3) then g3 else g3\<lparr>ga_dupe := List.insert sub (ga_dupe g3)\<rparr>)
               | _ \<Rightarrow> g3))"

definition gather_all :: "tjob \<Rightarrow> ts_info list \<Rightarrow> gathered" where
  "gather_all tj ts = fold (gather tj) ts
     \<lparr>ga_size = 0, ga_moved = 0, ga_ongoing = False, ga_targets = [], ga_completed = [], ga_dupe = [], ga_failed = []\<rparr>"

text \<open>The entries of transfers that are known leave the maps of pending, skipped and existing ones in the same loop.\<close>

definition known_gone :: "tjob \<Rightarrow> ts_info list \<Rightarrow> gathered \<Rightarrow> tjob" where
  "known_gone tj ts g =
     (let known = map (ts_subpath tj) ts
      in tj\<lparr>tj_pending := filter (\<lambda>(k, _). k \<notin> set known) (tj_pending tj),
            tj_skipped := filter (\<lambda>(k, _). k \<notin> set known) (tj_skipped tj),
            tj_existing := filter (\<lambda>(k, _). k \<notin> set (ga_completed g)) (tj_existing tj)\<rparr>)"

definition merged :: "string list \<Rightarrow> string list \<Rightarrow> nat" where
  "merged xs ys = length (remdups (xs @ ys))"

definition tj_measure :: "gathered \<Rightarrow> tjob \<Rightarrow> tj_fault + tjob" where
  "tj_measure g tj =
     (let expected = ga_size g + sum_list (map snd (tj_pending tj)); moved = ga_moved g;
          tj1 = tj\<lparr>tj_expected := expected, tj_sizeprogress := moved\<rparr>;
          tj2 = (if expected \<noteq> 0
                 then tj1\<lparr>tj_progress := int_of_u64 (100 * moved div expected),
                          tj_milliprogress := int_of_u64 (1000 * moved div expected)\<rparr> else tj1);
          tj3 = (if tj_millis tj2 \<noteq> 0 then tj2\<lparr>tj_speed := ucast (moved div word_of_int (tj_millis tj2))\<rparr> else tj2);
          divisor = tj_speed tj3 * 1024
      in if tj_speed tj3 = 0 then Inr tj3
         else if divisor = 0 then Inl DivByZero
         else Inr (tj3\<lparr>tj_remaining := int_of_u64 ((expected - moved) div ucast divisor)\<rparr>))"

definition tj_judge :: "gathered \<Rightarrow> tjob \<Rightarrow> tjob" where
  "tj_judge g tj =
     (let tj1 = tj\<lparr>tj_filesprogress := int (length (ga_completed g))\<rparr>
      in if tj_almostdone tj1 \<and> \<not> ga_ongoing g
            \<and> tj_filestotal tj1 \<le> int (merged (map fst (tj_existing tj1)) (ga_completed g) + merged (ga_dupe g) (ga_failed g))
         then if length (ga_completed g) < length (ga_failed g) then tj_setFailed tj1 else tj_setDone tj1
         else tj1)"

definition tj_updateStatus :: "'x job_env \<Rightarrow> tjob \<Rightarrow> tj_fault + tjob" where
  "tj_updateStatus env tj =
     (let ts = map (je_ts env) (tj_transfers tj); g = gather_all tj ts
      in and_then (tj_measure g (known_gone tj ts g)) (\<lambda>tj1. Inr (tj_judge g tj1)))"

definition tj_tick :: "'x job_env \<Rightarrow> tjob \<Rightarrow> tj_fault + tjob" where
  "tj_tick env tj =
     and_then (tj_updateStatus env tj) (\<lambda>tj1.
       let millis = tj_millis tj1 + TRANSFERJOB_UPDATE_INTERVAL
       in Inr (tj1\<lparr>tj_idletime := tj_idletime tj1 + TRANSFERJOB_UPDATE_INTERVAL, tj_millis := millis,
                  tj_secs := millis div 1000\<rparr>))"

subsection \<open>Counting the files\<close>

definition fl_lookup :: "string \<Rightarrow> filelist \<Rightarrow> dirfile option" where
  "fl_lookup name fl = map_option (fl_obj fl) (fl_getFile name fl)"

definition one_file :: "dirfile option \<Rightarrow> nat" where
  "one_file f = (case f of None \<Rightarrow> 0 | Some f \<Rightarrow> if transferable f then 1 else 0)"

text \<open>
  What the skip list of the destination says of a file \<open>name\<close> of the list \<open>l\<close> there: passed over, or
  not; the list may be looked through for its first similar file, with the site's skip list alone.
\<close>

definition job_skipped :: "'x job_env \<Rightarrow> tjob \<Rightarrow> nat \<Rightarrow> nat \<Rightarrow> string \<Rightarrow> ('x skip_match \<Rightarrow> filelist \<Rightarrow> bool) \<Rightarrow>
    'w tj_world_scheme \<Rightarrow> 'w tj_world_scheme \<times> bool" where
  "job_skipped env tj skip l name matches w =
     (let m = je_check env skip (tj_secskip tj) (p_path (path_concat (fl_path (w_fl w l)) (path_new name))) False
      in if sm_action m = SKIPLIST_DENY \<or> sm_action m = SKIPLIST_UNIQUE \<and> matches m (w_fl w l) then (w, True)
         else if sm_action m = SKIPLIST_SIMILAR then
           (let w1 = (if fl_similarchecked (w_fl w l) then w
                      else on_fl l (fl_checkSimilar (je_race env) (Some skip) None) w)
            in (w1, fl_containsUnsimilar name (w_fl w1 l) = Some True))
         else (w, False))"

text \<open>Here the pattern of a unique match is taken for one with wildcards even if it is a regular expression.\<close>

definition wild_match :: "'x skip_match \<Rightarrow> filelist \<Rightarrow> bool" where
  "wild_match m fl \<longleftrightarrow> fl_containsPattern (wild_matcher (sm_pattern m)) (path_new (sm_path m)) False fl"

definition count_entry :: "'x job_env \<Rightarrow> tjob \<Rightarrow> nat \<Rightarrow> nat \<Rightarrow> string \<Rightarrow> bool \<Rightarrow> nat \<times> 'w tj_world_scheme \<Rightarrow> nat \<times> 'w tj_world_scheme" where
  "count_entry env tj skip l name wanted nw =
     (if \<not> wanted then nw
      else let (w1, skipped) = job_skipped env tj skip l name wild_match (snd nw)
           in (if skipped then fst nw else fst nw + 1, w1))"

definition count_fxp_list :: "'x job_env \<Rightarrow> tjob \<Rightarrow> string \<times> nat \<Rightarrow> nat \<times> 'w tj_world_scheme \<Rightarrow> tj_fault + nat \<times> 'w tj_world_scheme" where
  "count_fxp_list env tj p nw =
     and_then (at_key (fst p) (tj_dstlists tj)) (\<lambda>dl.
       let w = snd nw
       in if fst p = [] then Inr (fst nw + one_file (fl_lookup (tj_srcfile tj) (w_fl w (snd p))), w)
          else Inr (fold (\<lambda>f. count_entry env tj (x_skip (en_site w (tj_dst tj))) dl (f_name f) (transferable f))
                      (fl_view (w_fl w (snd p))) nw))"

definition count_download_list :: "'x job_env \<Rightarrow> tjob \<Rightarrow> 'w tj_world_scheme \<Rightarrow> string \<times> nat \<Rightarrow> nat" where
  "count_download_list env tj w p =
     (if fst p = [] then one_file (fl_lookup (tj_srcfile tj) (w_fl w (snd p)))
      else length (filter (\<lambda>f. transferable f
             \<and> sm_action (je_global env (p_path (path_concat (path_concat (tj_dstpath tj) (path_new (fst p))) (path_new (f_name f)))) False)
                 \<noteq> SKIPLIST_DENY)
             (fl_view (w_fl w (snd p)))))"

definition lf_wanted :: "local_file \<Rightarrow> bool" where
  "lf_wanted f \<longleftrightarrow> \<not> lf_isDirectory f \<and> lf_size f \<noteq> 0"

definition count_upload_list :: "'x job_env \<Rightarrow> tjob \<Rightarrow> string \<times> nat option \<Rightarrow> nat \<times> 'w tj_world_scheme \<Rightarrow>
    tj_fault + nat \<times> 'w tj_world_scheme" where
  "count_upload_list env tj p nw =
     and_then (at_key (fst p) (tj_dstlists tj)) (\<lambda>dl. and_then (deref (snd p)) (\<lambda>ll.
       let w = snd nw
       in if fst p = [] then
            Inr (fst nw + (case ll_find (tj_srcfile tj) (jw_ll w ll) of None \<Rightarrow> 0 | Some f \<Rightarrow> if lf_wanted f then 1 else 0), w)
          else Inr (fold (\<lambda>(n, f). count_entry env tj (x_skip (en_site w (tj_dst tj))) dl n (lf_wanted f))
                      (ll_files (jw_ll w ll)) nw)))"

fun fold_until :: "('a \<Rightarrow> 's \<Rightarrow> 'e + 's) \<Rightarrow> 'a list \<Rightarrow> 's \<Rightarrow> 'e + 's" where
  "fold_until f [] s = Inr s"
| "fold_until f (x # xs) s = and_then (f x s) (fold_until f xs)"

definition tj_countTotalFiles :: "'x job_env \<Rightarrow> tjob \<times> 'w tj_world_scheme \<Rightarrow> tj_fault + tjob \<times> 'w tj_world_scheme" where
  "tj_countTotalFiles env st =
     (let tj = fst st; w = snd st
      in case tj_kind tj of
           TJ_DOWNLOAD \<Rightarrow>
             Inr (tj\<lparr>tj_filestotal := int (sum_list (map (count_download_list env tj w) (tj_srclists tj)))\<rparr>, w)
         | TJ_FXP \<Rightarrow>
             and_then (fold_until (count_fxp_list env tj) (tj_srclists tj) (0, w)) (\<lambda>(n, w1).
               Inr (tj\<lparr>tj_filestotal := int n\<rparr>, w1))
         | TJ_UPLOAD \<Rightarrow>
             and_then (fold_until (count_upload_list env tj) (tj_local tj) (0, w)) (\<lambda>(n, w1).
               Inr (tj\<lparr>tj_filestotal := int n\<rparr>, w1)))"

subsection \<open>Directories\<close>

text \<open>A file list made for a directory below the root list of \<open>lists\<close>.\<close>

definition make_list :: "string \<Rightarrow> path \<Rightarrow> tjob \<times> 'w world_scheme \<Rightarrow> nat \<times> tjob \<times> 'w world_scheme" where
  "make_list user p st =
     (let (w1, l) = new_list user p LS_UNKNOWN (snd st)
      in (l, (fst st)\<lparr>tj_refreshed := AList.update l REFRESH_NOW (tj_refreshed (fst st))\<rparr>, w1))"

definition lists_of :: "bool \<Rightarrow> tjob \<Rightarrow> (string \<times> nat) list" where
  "lists_of source tj = (if source then tj_srclists tj else tj_dstlists tj)"

definition put_list :: "bool \<Rightarrow> string \<Rightarrow> nat \<Rightarrow> tjob \<Rightarrow> tjob" where
  "put_list source sub l tj =
     (if source then tj\<lparr>tj_srclists := AList.update sub l (tj_srclists tj)\<rparr>
      else tj\<lparr>tj_dstlists := AList.update sub l (tj_dstlists tj)\<rparr>)"

definition add_directory_list :: "bool \<Rightarrow> path \<Rightarrow> dirfile \<Rightarrow> tjob \<times> 'w world_scheme \<Rightarrow> tj_fault + tjob \<times> 'w world_scheme" where
  "add_directory_list source sub f st =
     (if \<not> f_directory f then Inr st
      else
        let name = p_path (path_concat sub (path_new (f_name f))); lists = lists_of source (fst st)
        in case map_of lists name of
             Some _ \<Rightarrow> Inr st
           | None \<Rightarrow> and_then (deref (map_of lists [])) (\<lambda>r.
               let root = w_fl (snd st) r;
                   (l, st1) = make_list (fl_username root) (path_concat (fl_path root) (path_new name)) st
               in Inr (put_list source name l (fst st1), snd st1)))"

text \<open>The skip list asked is the one of the destination site, if there is one; the pattern again has wildcards.\<close>

definition directory_wanted :: "'x job_env \<Rightarrow> tjob \<Rightarrow> filelist \<Rightarrow> 'w tj_world_scheme \<Rightarrow> string \<Rightarrow> bool" where
  "directory_wanted env tj fl w name \<longleftrightarrow>
     (let m = (if tj_kind tj \<noteq> TJ_DOWNLOAD then je_check env (x_skip (en_site w (tj_dst tj))) (tj_secskip tj) name True
               else je_global env name True)
      in \<not> (sm_action m = SKIPLIST_DENY
            \<or> sm_action m = SKIPLIST_UNIQUE \<and> fl_containsPatternBefore (sm_pattern m) True name fl))"

definition add_directory_lists :: "'x job_env \<Rightarrow> bool \<Rightarrow> nat \<Rightarrow> path \<Rightarrow> tjob \<times> 'w tj_world_scheme \<Rightarrow>
    tj_fault + tjob \<times> 'w tj_world_scheme" where
  "add_directory_lists env source l sub st =
     fold_until (\<lambda>f st. if f_directory f \<and> directory_wanted env (fst st) (w_fl (snd st) l) (snd st) (f_name f)
                        then add_directory_list source sub f st else Inr st)
       (fl_view (w_fl (snd st) l)) st"

definition both_ends :: "(bool \<Rightarrow> tjob \<times> 'w world_scheme \<Rightarrow> tj_fault + tjob \<times> 'w world_scheme) \<Rightarrow>
    tjob \<times> 'w world_scheme \<Rightarrow> tj_fault + tjob \<times> 'w world_scheme" where
  "both_ends f st =
     (let k = tj_kind (fst st)
      in and_then (if k \<noteq> TJ_UPLOAD then f True st else Inr st)
           (\<lambda>st1. if k \<noteq> TJ_DOWNLOAD then f False st1 else Inr st1))"

text \<open>A link at the source: the job goes on with what it points to, from nothing.\<close>

definition follow_link :: "nat \<Rightarrow> dirfile \<Rightarrow> tjob \<times> 'w tj_world_scheme \<Rightarrow> tjob \<times> 'w tj_world_scheme" where
  "follow_link l f st =
     (let target = path_new (f_linktarget f);
          full = (if p_absolute target then target else path_concat (fl_path (w_fl (snd st) l)) target);
          dir = path_new (p_dirname full);
          tj1 = (fst st)\<lparr>tj_srcpath := dir, tj_srcfile := p_basename full, tj_refreshed := []\<rparr>;
          (r, st1) = make_list (s_user (en_site (snd st) (tj_src tj1))) dir (tj1, snd st)
      in (put_list True [] r (fst st1), snd st1))"

definition refreshed_after :: "list_state \<Rightarrow> refresh_state \<Rightarrow> refresh_state" where
  "refreshed_after s r =
     (if s \<in> {LS_NONEXISTENT, LS_LISTED, LS_FAILED}
      then (if r = REFRESH_FINAL_NOW then REFRESH_FINAL_OK else if r = REFRESH_NOW then REFRESH_OK else r) else r)"

definition note_listed :: "nat \<Rightarrow> tjob \<times> 'w world_scheme \<Rightarrow> tjob" where
  "note_listed l st =
     (let tj = fst st; old = (case map_of (tj_refreshed tj) l of None \<Rightarrow> REFRESH_NOW | Some r \<Rightarrow> r)
      in tj\<lparr>tj_refreshed := AList.update l (refreshed_after (fl_state (w_fl (snd st) l)) old) (tj_refreshed tj)\<rparr>)"

definition found_directories :: "'x job_env \<Rightarrow> bool \<Rightarrow> nat \<Rightarrow> tjob \<times> 'w tj_world_scheme \<Rightarrow>
    tj_fault + tjob \<times> 'w tj_world_scheme" where
  "found_directories env source l st =
     (let tj = fst st; fl = w_fl (snd st) l;
          sub = path_minus (fl_path fl) (if source then tj_srcpath tj else tj_dstpath tj)
      in if p_unix sub = [] then
           case fl_lookup (if source then tj_srcfile tj else tj_dstfile tj) fl of
             None \<Rightarrow> Inr st
           | Some f \<Rightarrow>
               if source \<and> f_softlink f then Inr (follow_link l f st)
               else both_ends (\<lambda>end. add_directory_list end sub f) st
         else both_ends (\<lambda>end. add_directory_lists env end l sub) st)"

definition count_if_refreshed :: "'x job_env \<Rightarrow> tjob \<times> 'w tj_world_scheme \<Rightarrow> tj_fault + tjob \<times> 'w tj_world_scheme" where
  "count_if_refreshed env st =
     (if \<not> tj_anyListNeedsRefreshing (fst st) (snd st) then tj_countTotalFiles env st else Inr st)"

definition tj_fileListUpdated :: "'x job_env \<Rightarrow> bool \<Rightarrow> nat \<Rightarrow> tjob \<times> 'w tj_world_scheme \<Rightarrow>
    tj_fault + tjob \<times> 'w tj_world_scheme" where
  "tj_fileListUpdated env source l st =
     (if \<not> tj_checkFileListExists l (fst st) then Inr st
      else and_then (count_if_refreshed env (note_listed l st, snd st)) (found_directories env source l))"

subsection \<open>Local directories\<close>

definition new_local :: "local_list \<Rightarrow> 'w tj_world_scheme \<Rightarrow> nat \<times> 'w tj_world_scheme" where
  "new_local ll w = (jw_nextll w, w\<lparr>jw_ll := (jw_ll w)(jw_nextll w := ll), jw_nextll := jw_nextll w + 1\<rparr>)"

definition put_local :: "string \<Rightarrow> nat option \<Rightarrow> tjob \<Rightarrow> tjob" where
  "put_local sub p tj = tj\<lparr>tj_local := AList.update sub p (tj_local tj)\<rparr>"

definition tj_wantedLocalDstList :: "string \<Rightarrow> tjob \<times> 'w tj_world_scheme \<Rightarrow> nat option \<times> tjob \<times> 'w tj_world_scheme" where
  "tj_wantedLocalDstList sub st =
     (case map_of (tj_local (fst st)) sub of
        Some p \<Rightarrow> (p, st)
      | None \<Rightarrow>
          let (l, w1) = new_local (ll_new (path_concat (tj_dstpath (fst st)) (path_new sub))) (snd st)
          in (Some l, put_local sub (Some l) (fst st), w1))"

text \<open>The list of the directory \<open>p\<close>, from before or read now; \<^term>\<open>None\<close> if it cannot be read.\<close>

definition read_local :: "'x job_env \<Rightarrow> string \<Rightarrow> path \<Rightarrow> tjob \<times> 'w tj_world_scheme \<Rightarrow> nat option \<times> tjob \<times> 'w tj_world_scheme" where
  "read_local env sub p st =
     (case map_of (tj_local (fst st)) sub of
        Some (Some l) \<Rightarrow>
          let old = jw_ll (snd st) l; new = fst (updateLocalFileList (je_touch env (ll_path old)) (je_disk env (ll_path old)) old)
          in (Some l, fst st, (snd st)\<lparr>jw_ll := (jw_ll (snd st))(l := new)\<rparr>)
      | Some None \<Rightarrow> (None, st)
      | None \<Rightarrow>
          (case getLocalFileList p (je_touch env p) (je_disk env p) of
             None \<Rightarrow> (None, st)
           | Some ll \<Rightarrow> let (l, w1) = new_local ll (snd st) in (Some l, put_local sub (Some l) (fst st), w1)))"

text \<open>The other end of the job gets a list for the directory.\<close>

definition remote_for :: "string \<Rightarrow> tjob \<times> 'w tj_world_scheme \<Rightarrow> tj_fault + tjob \<times> 'w tj_world_scheme" where
  "remote_for sub st =
     (let tj = fst st; source = (tj_kind tj = TJ_DOWNLOAD); lists = lists_of source tj
      in if tj_kind tj = TJ_FXP \<or> map_of lists sub \<noteq> None then Inr st
         else and_then (deref (map_of lists [])) (\<lambda>r.
           let (l, st1) = make_list (fl_username (w_fl (snd st) r))
                 (path_concat (if source then tj_srcpath tj else tj_dstpath tj) (path_new sub)) st
           in Inr (put_list source sub l (fst st1), snd st1)))"

primrec local_walk :: "nat \<Rightarrow> 'x job_env \<Rightarrow> path \<Rightarrow> path \<Rightarrow> tjob \<times> 'w tj_world_scheme \<Rightarrow>
    tj_fault + tjob \<times> 'w tj_world_scheme" where
  "local_walk 0 env base p st = Inl NoFuel"
| "local_walk (Suc n) env base p st =
     (let sub = p_path (path_minus p base); (found, st1) = read_local env sub p st
      in case found of
           None \<Rightarrow> Inr st1
         | Some l \<Rightarrow>
             and_then (remote_for sub st1) (\<lambda>st2.
               fold_until (\<lambda>name. local_walk n env base (path_concat p (path_new name)))
                 (map fst (filter (\<lambda>(_, f). lf_isDirectory f) (ll_files (jw_ll (snd st2) l)))) st2))"

text \<open>The directory here that the job is about, and the entry in it.\<close>

definition local_base :: "tjob \<Rightarrow> path" where
  "local_base tj = (if tj_kind tj = TJ_DOWNLOAD then tj_dstpath tj else tj_srcpath tj)"

definition local_entry :: "tjob \<Rightarrow> string" where
  "local_entry tj = (if tj_kind tj = TJ_DOWNLOAD then tj_dstfile tj else tj_srcfile tj)"

definition walk_from :: "nat \<Rightarrow> 'x job_env \<Rightarrow> string \<Rightarrow> nat \<Rightarrow> tjob \<times> 'w tj_world_scheme \<Rightarrow> tj_fault + tjob \<times> 'w tj_world_scheme" where
  "walk_from n env name l st =
     (let ll = jw_ll (snd st) l
      in case ll_find name ll of
           None \<Rightarrow> Inr st
         | Some f \<Rightarrow>
             if lf_isDirectory f then local_walk n env (ll_path ll) (path_concat (ll_path ll) (path_new name)) st
             else Inr st)"

definition update_base :: "'x job_env \<Rightarrow> string \<Rightarrow> nat \<Rightarrow> 'w tj_world_scheme \<Rightarrow> 'w tj_world_scheme" where
  "update_base env name l w =
     (let old = jw_ll w l
      in w\<lparr>jw_ll := (jw_ll w)(l :=
           fst (updateLocalFileListPrune (je_touch env (ll_path old)) name (je_disk env (ll_path old)) old))\<rparr>)"

definition tj_updateLocalFileLists :: "nat \<Rightarrow> 'x job_env \<Rightarrow> tjob \<times> 'w tj_world_scheme \<Rightarrow> tj_fault + tjob \<times> 'w tj_world_scheme" where
  "tj_updateLocalFileLists n env st =
     (let tj = fst st; w = snd st; base = local_base tj; name = local_entry tj
      in case map_of (tj_local tj) [] of
           Some None \<Rightarrow> Inr st
         | Some (Some l) \<Rightarrow> walk_from n env name l (tj, update_base env name l w)
         | None \<Rightarrow>
             if \<not> je_exists env base \<and> (tj_kind tj = TJ_UPLOAD \<or> \<not> je_mkdir env base) then Inr st
             else (case getLocalFileListPrune base (je_touch env base) name (je_disk env base) of
                 None \<Rightarrow> Inr (put_local [] None tj, w)
               | Some ll \<Rightarrow>
                   let (l, w1) = new_local ll w in walk_from n env name l (put_local [] (Some l) tj, w1)))"

subsection \<open>The last refresh\<close>

definition all_final :: "tjob \<Rightarrow> 'w world_scheme \<Rightarrow> bool" where
  "all_final tj w \<longleftrightarrow> list_all (\<lambda>(l, r). r = REFRESH_FINAL_OK \<or> fl_state (w_fl w l) = LS_FAILED) (tj_refreshed tj)"

definition any_final :: "tjob \<Rightarrow> bool" where
  "any_final tj \<longleftrightarrow> list_ex (\<lambda>(_, r). r = REFRESH_FINAL_OK) (tj_refreshed tj)"

text \<open>The root list of an end, \<open>root\<close>, need not be listed again.\<close>

definition ask_final :: "nat option \<Rightarrow> nat \<Rightarrow> tjob \<times> 'w world_scheme \<Rightarrow> tjob \<times> 'w world_scheme" where
  "ask_final root l st =
     (if map_of (tj_refreshed (fst st)) l = Some REFRESH_FINAL_OK then st
      else ((fst st)\<lparr>tj_refreshed := AList.update l (if root = Some l then REFRESH_FINAL_OK else REFRESH_FINAL_NOW)
               (tj_refreshed (fst st))\<rparr>, on_fl l fl_resetUpdateState (snd st)))"

definition ask_finals :: "(string \<times> nat) list \<Rightarrow> tjob \<times> 'w world_scheme \<Rightarrow> tjob \<times> 'w world_scheme" where
  "ask_finals ls st = fold (ask_final (map_of ls [])) (map snd ls) st"

definition tj_refreshOrAlmostDone :: "nat \<Rightarrow> 'x job_env \<Rightarrow> tjob \<times> 'w tj_world_scheme \<Rightarrow>
    tj_fault + (tjob \<times> 'w tj_world_scheme) \<times> bool" where
  "tj_refreshOrAlmostDone n env st =
     (let tj = fst st; w = snd st
      in if tj_almostdone tj then Inr (st, False)
         else if any_final tj \<and> all_final tj w then
           (let tj1 = tj\<lparr>tj_almostdone := True\<rparr>
            in Inr ((if tj_status tj1 = TJ_QUEUED then tj_start tj1 else tj1, w), False))
         else
           let st1 = ask_finals (tj_dstlists tj) (ask_finals (tj_srclists tj) st)
           in and_then (if tj_kind tj \<noteq> TJ_FXP then tj_updateLocalFileLists n env st1 else Inr st1)
                (\<lambda>st2. Inr (st2, True)))"

subsection \<open>The start of a job\<close>

definition tj_resetValues :: "'x job_env \<Rightarrow> tjob \<Rightarrow> 'w tj_world_scheme \<Rightarrow> tjob" where
  "tj_resetValues env tj w =
     tj\<lparr>tj_status := TJ_QUEUED, tj_almostdone := False, tj_slots := tj_maxPossibleSlots env tj w,
        tj_expected := 0, tj_sizeprogress := 0, tj_remaining := - 1, tj_millis := 0, tj_secs := 0,
        tj_progress := 0, tj_milliprogress := 0, tj_speed := 0, tj_filesprogress := 0, tj_filestotal := 0,
        tj_idletime := 0\<rparr>"

definition tj_init :: "'x job_env \<Rightarrow> tj_kind \<Rightarrow> nat \<Rightarrow> nat \<Rightarrow> path \<Rightarrow> path \<Rightarrow> string \<Rightarrow> string \<Rightarrow> nat option \<Rightarrow>
    'w tj_world_scheme \<Rightarrow> tjob" where
  "tj_init env kind src dst srcpath dstpath srcfile dstfile secskip w =
     tj_resetValues env
       \<lparr>tj_kind = kind, tj_src = src, tj_dst = dst, tj_srcpath = srcpath, tj_dstpath = dstpath, tj_srcfile = srcfile,
        tj_dstfile = dstfile, tj_secskip = secskip, tj_srclists = [], tj_dstlists = [], tj_local = [],
        tj_pending = [], tj_skipped = [], tj_existing = [], tj_reserved = [], tj_transfers = [], tj_indexed = [],
        tj_slots = 0, tj_status = TJ_QUEUED, tj_refreshed = [], tj_expected = 0, tj_speed = 0, tj_sizeprogress = 0,
        tj_progress = 0, tj_milliprogress = 0, tj_millis = 0, tj_secs = 0, tj_remaining = 0, tj_filesprogress = 0,
        tj_filestotal = 0, tj_almostdone = False, tj_attempts = [], tj_idletime = 0, tj_poked = False\<rparr> w"

text \<open>A new list with the one file that the job is about, if it is known.\<close>

definition createPrunedFileList :: "'x job_env \<Rightarrow> filelist \<Rightarrow> string \<Rightarrow> 'w world_scheme \<Rightarrow> 'w world_scheme \<times> nat" where
  "createPrunedFileList env fl remaining w =
     (let (w1, l) = new_list (fl_username fl) (fl_path fl) (fl_state fl) w
      in (case fl_lookup remaining fl of
            None \<Rightarrow> w1
          | Some f \<Rightarrow> on_fl l (\<lambda>fl. case fl_updateFile (je_race env) (je_now env) f fl of None \<Rightarrow> fl | Some (fl1, _) \<Rightarrow> fl1) w1,
          l))"

definition first_listing :: "'x job_env \<Rightarrow> bool \<Rightarrow> nat \<Rightarrow> tjob \<times> 'w tj_world_scheme \<Rightarrow> tj_fault + tjob \<times> 'w tj_world_scheme" where
  "first_listing env source l st =
     (if fl_state (w_fl (snd st) l) = LS_LISTED then tj_fileListUpdated env source l st else Inr (refresh_now l st))"

definition tj_downloadJob :: "nat \<Rightarrow> 'x job_env \<Rightarrow> nat \<Rightarrow> filelist \<Rightarrow> string \<Rightarrow> path \<Rightarrow> string \<Rightarrow> 'w tj_world_scheme \<Rightarrow>
    tj_fault + tjob \<times> 'w tj_world_scheme" where
  "tj_downloadJob n env src fl srcfile dstpath dstfile w =
     (let tj = tj_init env TJ_DOWNLOAD src 0 (fl_path fl) dstpath srcfile dstfile None w;
          (w1, l) = createPrunedFileList env fl srcfile w
      in and_then (tj_updateLocalFileLists n env (put_list True [] l tj, w1)) (first_listing env True l))"

definition tj_uploadJob :: "nat \<Rightarrow> 'x job_env \<Rightarrow> path \<Rightarrow> string \<Rightarrow> nat \<Rightarrow> filelist \<Rightarrow> nat option \<Rightarrow> string \<Rightarrow> 'w tj_world_scheme \<Rightarrow>
    tj_fault + tjob \<times> 'w tj_world_scheme" where
  "tj_uploadJob n env srcpath srcfile dst fl secskip dstfile w =
     (let tj = tj_init env TJ_UPLOAD 0 dst srcpath (fl_path fl) srcfile dstfile secskip w;
          (w1, l) = createPrunedFileList env fl dstfile w
      in and_then (tj_updateLocalFileLists n env (put_list False [] l tj, w1)) (first_listing env False l))"

definition tj_fxpJob :: "'x job_env \<Rightarrow> nat \<Rightarrow> filelist \<Rightarrow> string \<Rightarrow> nat \<Rightarrow> filelist \<Rightarrow> nat option \<Rightarrow> string \<Rightarrow> 'w tj_world_scheme \<Rightarrow>
    tj_fault + tjob \<times> 'w tj_world_scheme" where
  "tj_fxpJob env src sfl srcfile dst dfl secskip dstfile w =
     (let tj = tj_init env TJ_FXP src dst (fl_path sfl) (fl_path dfl) srcfile dstfile secskip w;
          (w1, s) = createPrunedFileList env sfl srcfile w;
          (w2, d) = createPrunedFileList env dfl dstfile w1
      in and_then (first_listing env True s (put_list False [] d (put_list True [] s tj), w2)) (first_listing env False d))"

text \<open>A job is made anew: everything but its ends and the reservations of lists is forgotten.\<close>

definition root_again :: "bool \<Rightarrow> tjob \<times> 'w tj_world_scheme \<Rightarrow> tjob \<times> 'w tj_world_scheme" where
  "root_again source st =
     (let tj = fst st;
          (l, st1) = make_list (s_user (en_site (snd st) (if source then tj_src tj else tj_dst tj)))
            (if source then tj_srcpath tj else tj_dstpath tj) st
      in (put_list source [] l (fst st1), snd st1))"

definition tj_reset :: "nat \<Rightarrow> 'x job_env \<Rightarrow> tjob \<times> 'w tj_world_scheme \<Rightarrow> tj_fault + tjob \<times> 'w tj_world_scheme" where
  "tj_reset n env st =
     (let tj = tj_resetValues env ((fst st)\<lparr>tj_poked := False, tj_srclists := [], tj_dstlists := [], tj_local := [],
            tj_pending := [], tj_skipped := [], tj_existing := [], tj_refreshed := [], tj_transfers := [],
            tj_indexed := [], tj_attempts := []\<rparr>) (snd st);
          st0 = (tj, snd st);
          st1 = (if tj_kind tj \<noteq> TJ_UPLOAD then root_again True st0 else st0);
          st2 = (if tj_kind tj \<noteq> TJ_DOWNLOAD then root_again False st1 else st1)
      in if tj_kind tj \<noteq> TJ_FXP then tj_updateLocalFileLists n env st2 else Inr st2)"

end
