(* ===== verification/TransferJobInv.thy ===== *)
theory TransferJobInv
  imports TransferJobModel
begin

text \<open>
  Which lists a transfer job has: the invariant \<open>job_ok\<close>, what each operation on the lists adds to them, and
  that every operation keeps the invariant, so that none of them asks for a list that is not there.  The
  one list that may be null is that of the directory here, when it could not be read; the one operation
  that follows it then is the count of the files of an upload.
\<close>

declare split_paired_All [simp del] split_paired_Ex [simp del]

subsection \<open>Results\<close>

text \<open>What an operation may give: a state with a property, or that the disk was deeper than the fuel, or a
  division by zero.\<close>

definition job_res :: "('s \<Rightarrow> bool) \<Rightarrow> tj_fault + 's \<Rightarrow> bool" where
  "job_res Q r \<longleftrightarrow> (case r of Inl e \<Rightarrow> e = NoFuel \<or> e = DivByZero | Inr s \<Rightarrow> Q s)"

lemma job_res_Inr [simp]: "job_res Q (Inr s) = Q s"
  by (simp add: job_res_def)

lemma job_res_mono: "job_res P r \<Longrightarrow> (\<And>s. P s \<Longrightarrow> Q s) \<Longrightarrow> job_res Q r"
  by (auto simp: job_res_def split: sum.splits)

lemma job_res_bind: "job_res P r \<Longrightarrow> (\<And>s. P s \<Longrightarrow> job_res Q (f s)) \<Longrightarrow> job_res Q (and_then r f)"
  by (cases r) (auto simp: job_res_def)

lemma job_res_fold:
  "P s \<Longrightarrow> (\<And>x s. x \<in> set xs \<Longrightarrow> P s \<Longrightarrow> job_res P (f x s)) \<Longrightarrow> job_res P (fold_until f xs s)"
proof (induction xs arbitrary: s)
  case (Cons x xs)
  have "job_res P (f x s)" using Cons.prems by simp
  then show ?case using Cons by (auto intro: job_res_bind)
qed simp

text \<open>The same, but that a null pointer may have been followed if \<open>c\<close>.\<close>

definition job_out :: "bool \<Rightarrow> ('s \<Rightarrow> bool) \<Rightarrow> tj_fault + 's \<Rightarrow> bool" where
  "job_out c Q r \<longleftrightarrow> (case r of Inl e \<Rightarrow> e \<noteq> OutOfRange \<and> (e = NullPointer \<longrightarrow> c) | Inr s \<Rightarrow> Q s)"

lemma job_out_Inr [simp]: "job_out c Q (Inr s) = Q s"
  by (simp add: job_out_def)

lemma job_res_out: "job_res Q r \<Longrightarrow> job_out c Q r"
  by (auto simp: job_res_def job_out_def split: sum.splits)

lemma job_out_mono: "job_out c P r \<Longrightarrow> (\<And>s. P s \<Longrightarrow> Q s) \<Longrightarrow> job_out c Q r"
  by (auto simp: job_out_def split: sum.splits)

lemma job_out_bind: "job_out c P r \<Longrightarrow> (\<And>s. P s \<Longrightarrow> job_out c Q (f s)) \<Longrightarrow> job_out c Q (and_then r f)"
  by (cases r) (auto simp: job_out_def)

lemma job_out_fold:
  "P s \<Longrightarrow> (\<And>x s. x \<in> set xs \<Longrightarrow> P s \<Longrightarrow> job_out c P (f x s)) \<Longrightarrow> job_out c P (fold_until f xs s)"
proof (induction xs arbitrary: s)
  case (Cons x xs)
  have "job_out c P (f x s)" using Cons.prems by simp
  then show ?case using Cons by (auto intro: job_out_bind)
qed simp

subsection \<open>Frames\<close>

definition life :: "tjob \<Rightarrow> tj_status \<times> bool \<times> bool" where
  "life tj = (tj_status tj, tj_poked tj, tj_almostdone tj)"

definition ends :: "tjob \<Rightarrow> tj_kind \<times> nat \<times> nat \<times> nat option" where
  "ends tj = (tj_kind tj, tj_src tj, tj_dst tj, tj_secskip tj)"

text \<open>The store only gets new lists.\<close>

definition store_grows :: "'w tj_world_scheme \<Rightarrow> 'w tj_world_scheme \<Rightarrow> bool" where
  "store_grows w w' \<longleftrightarrow> w_nextfl w \<le> w_nextfl w' \<and> (\<forall>l<w_nextfl w. w_fl w' l = w_fl w l) \<and> en_site w' = en_site w"

definition ids_ok :: "tjob \<times> 'w tj_world_scheme \<Rightarrow> bool" where
  "ids_ok st \<longleftrightarrow> (\<forall>l\<in>snd ` set (tj_srclists (fst st)) \<union> snd ` set (tj_dstlists (fst st)). l < w_nextfl (snd st))"

lemma store_grows_refl [simp]: "store_grows w w"
  by (simp add: store_grows_def)

lemma store_grows_trans: "store_grows w w' \<Longrightarrow> store_grows w' w'' \<Longrightarrow> store_grows w w''"
  by (auto simp: store_grows_def)

abbreviation keys :: "('k \<times> 'v) list \<Rightarrow> 'k set" where
  "keys xs \<equiv> fst ` set xs"

definition grown :: "bool \<Rightarrow> string set \<Rightarrow> tjob \<times> 'w tj_world_scheme \<Rightarrow> tjob \<times> 'w tj_world_scheme \<Rightarrow> bool" where
  "grown source N st st' \<longleftrightarrow>
     ends (fst st') = ends (fst st) \<and> life (fst st') = life (fst st) \<and> tj_local (fst st') = tj_local (fst st)
     \<and> keys (lists_of source (fst st')) = keys (lists_of source (fst st)) \<union> N
     \<and> lists_of (\<not> source) (fst st') = lists_of (\<not> source) (fst st)
     \<and> store_grows (snd st) (snd st') \<and> (ids_ok st \<longrightarrow> ids_ok st')"

lemma grown_refl: "grown source {} st st"
  by (simp add: grown_def)

lemma grown_trans: "grown source M st st' \<Longrightarrow> grown source N st' st'' \<Longrightarrow> grown source (M \<union> N) st st''"
  by (auto simp: grown_def intro: store_grows_trans)

lemma keys_update: "keys (AList.update k v xs) = insert k (keys xs)"
  by (induction xs) auto

lemma vals_update: "snd ` set (AList.update k v xs) \<subseteq> insert v (snd ` set xs)"
  by (induction xs) auto

lemma pairs_update: "set (AList.update k v xs) \<subseteq> insert (k, v) (set xs)"
  by (induction xs) auto

lemma map_of_keys: "map_of xs k = None \<longleftrightarrow> k \<notin> keys xs"
  by (simp add: map_of_eq_None_iff)

lemma make_list_grown:
  assumes "make_list user p st = (l, st1)"
  shows "grown source {sub} st (put_list source sub l (fst st1), snd st1)"
proof -
  obtain tj w where st: "st = (tj, w)" by (cases st)
  have l: "l = w_nextfl w" "snd st1 = w\<lparr>w_fl := (w_fl w)(l := fl_init (w_fl w l) user p LS_UNKNOWN), w_nextfl := l + 1\<rparr>"
      "fst st1 = tj\<lparr>tj_refreshed := AList.update l REFRESH_NOW (tj_refreshed tj)\<rparr>"
    using assms by (auto simp: make_list_def new_list_def st Let_def)
  have new: "x < l + 1" if "ids_ok (tj, w)"
      "x \<in> snd ` set (AList.update sub l xs)" "xs = tj_srclists tj \<or> xs = tj_dstlists tj" for x xs
  proof -
    have "x = l \<or> x \<in> snd ` set xs" using subsetD [OF vals_update that(2)] by simp
    then show ?thesis
    proof
      assume "x \<in> snd ` set xs"
      then have "x \<in> snd ` set (tj_srclists tj) \<union> snd ` set (tj_dstlists tj)" using that(3) by auto
      with that(1) have "x < w_nextfl w" unfolding ids_ok_def fst_conv snd_conv by (rule bspec)
      then show ?thesis by (simp add: l(1))
    qed simp
  qed
  have old: "x < l + 1" if "ids_ok (tj, w)" "x \<in> snd ` set (tj_srclists tj) \<union> snd ` set (tj_dstlists tj)" for x
    using that by (auto simp: ids_ok_def l(1) less_Suc_eq)
  have "ids_ok (put_list source sub l (fst st1), snd st1)" if "ids_ok (tj, w)"
    using new [OF that] old [OF that] by (cases source) (simp_all add: ids_ok_def put_list_def l(2,3) ball_Un)
  moreover have "store_grows w (snd st1)" by (simp add: l store_grows_def)
  moreover have "lists_of (\<not> source) (put_list source sub l (fst st1)) = lists_of (\<not> source) tj"
    "keys (lists_of source (put_list source sub l (fst st1))) = insert sub (keys (lists_of source tj))"
    "ends (put_list source sub l (fst st1)) = ends tj" "life (put_list source sub l (fst st1)) = life tj"
    "tj_local (put_list source sub l (fst st1)) = tj_local tj"
    by (cases source; simp add: lists_of_def put_list_def l(3) keys_update ends_def life_def)+
  ultimately show ?thesis by (simp add: grown_def st)
qed

definition dir_name :: "path \<Rightarrow> dirfile \<Rightarrow> string" where
  "dir_name sub f = p_path (path_concat sub (path_new (f_name f)))"

lemma add_directory_list_grown:
  assumes "[] \<in> keys (lists_of source (fst st))"
  shows "job_res (grown source (if f_directory f then {dir_name sub f} else {}) st) (add_directory_list source sub f st)"
proof (cases "f_directory f \<and> map_of (lists_of source (fst st)) (dir_name sub f) = None")
  case True
  obtain r where r: "map_of (lists_of source (fst st)) [] = Some r"
    using assms by (cases "map_of (lists_of source (fst st)) []") (auto simp: map_of_keys)
  show ?thesis
    using True r make_list_grown [of "fl_username (w_fl (snd st) r)" "path_concat (fl_path (w_fl (snd st) r)) (path_new (dir_name sub f))" st]
    by (auto simp: add_directory_list_def deref_def dir_name_def [symmetric] Let_def split: prod.split)
next
  case False
  then show ?thesis
    by (auto simp: add_directory_list_def dir_name_def [symmetric] Let_def grown_def map_of_keys split: option.split)
qed

definition wanted_names :: "'x job_env \<Rightarrow> nat \<Rightarrow> path \<Rightarrow> tjob \<times> 'w tj_world_scheme \<Rightarrow> string set" where
  "wanted_names env l sub st = dir_name sub `
     {f \<in> set (fl_view (w_fl (snd st) l)). f_directory f
        \<and> directory_wanted env (fst st) (w_fl (snd st) l) (snd st) (f_name f)}"

lemma directory_wanted_same:
  "ends tj' = ends tj \<Longrightarrow> en_site w' = en_site w \<Longrightarrow> directory_wanted env tj' fl w' name = directory_wanted env tj fl w name"
  by (simp add: directory_wanted_def ends_def)

lemma wanted_names_same:
  assumes "ends (fst st') = ends (fst st)" "store_grows (snd st) (snd st')" "l < w_nextfl (snd st)"
  shows "wanted_names env l sub st' = wanted_names env l sub st"
proof -
  have "w_fl (snd st') l = w_fl (snd st) l" "en_site (snd st') = en_site (snd st)" "ends (fst st') = ends (fst st)"
    using assms by (simp_all add: store_grows_def)
  then show ?thesis
    using directory_wanted_same [of "fst st'" "fst st" "snd st'" "snd st" env] by (simp add: wanted_names_def)
qed

lemma grown_root: "grown source N st st' \<Longrightarrow> [] \<in> keys (lists_of s (fst st)) \<Longrightarrow> [] \<in> keys (lists_of s (fst st'))"
  by (cases "s = source") (auto simp: grown_def)

lemma add_directory_lists_grown:
  fixes st :: "tjob \<times> 'w tj_world_scheme"
  assumes "[] \<in> keys (lists_of source (fst st))" "l < w_nextfl (snd st)"
  shows "job_res (grown source (wanted_names env l sub st) st) (add_directory_lists env source l sub st)"
proof -
  let ?want = "\<lambda>f. f_directory f \<and> directory_wanted env (fst st) (w_fl (snd st) l) (snd st) (f_name f)"
  have "job_res (grown source (M \<union> dir_name sub ` {f \<in> set fs. ?want f}) st)
      (fold_until (\<lambda>f st. if f_directory f \<and> directory_wanted env (fst st) (w_fl (snd st) l) (snd st) (f_name f)
        then add_directory_list source sub f st else Inr st) fs st1)"
    if "grown source M st st1" for fs M st1
    using that
  proof (induction fs arbitrary: M st1)
    case (Cons f fs)
    have g: "w_fl (snd st1) l = w_fl (snd st) l" "en_site (snd st1) = en_site (snd st)" "ends (fst st1) = ends (fst st)"
      using Cons.prems assms(2) by (simp_all add: grown_def store_grows_def)
    then have w: "directory_wanted env (fst st1) (w_fl (snd st1) l) (snd st1) (f_name f)
        = directory_wanted env (fst st) (w_fl (snd st) l) (snd st) (f_name f)"
      using directory_wanted_same by simp
    show ?case
    proof (cases "?want f")
      case True
      have "job_res (grown source {dir_name sub f} st1) (add_directory_list source sub f st1)"
        using add_directory_list_grown [OF grown_root [OF Cons.prems assms(1)], where f = f and sub = sub] True by simp
      then have "job_res (grown source (M \<union> {dir_name sub f}) st) (add_directory_list source sub f st1)"
        by (rule job_res_mono) (rule grown_trans [OF Cons.prems])
      from job_res_bind [OF this Cons.IH]
      have r: "job_res (grown source ((M \<union> {dir_name sub f}) \<union> dir_name sub ` {x \<in> set fs. ?want x}) st)
          (and_then (add_directory_list source sub f st1)
            (fold_until (\<lambda>f st. if f_directory f \<and> directory_wanted env (fst st) (w_fl (snd st) l) (snd st) (f_name f)
              then add_directory_list source sub f st else Inr st) fs))" .
      have "M \<union> dir_name sub ` {x \<in> set (f # fs). ?want x} = (M \<union> {dir_name sub f}) \<union> dir_name sub ` {x \<in> set fs. ?want x}"
        using True by auto
      then show ?thesis using True w r by simp
    next
      case False
      then have "{x \<in> set (f # fs). ?want x} = {x \<in> set fs. ?want x}" by auto
      then show ?thesis using False w Cons by (simp only: fold_until.simps and_then.simps if_False)
    qed
  qed simp
  from this [OF grown_refl] show ?thesis by (simp add: add_directory_lists_def wanted_names_def)
qed

subsection \<open>The invariant\<close>

text \<open>Only the list of the directory the job is about may be null.\<close>

definition null_at_root :: "(string \<times> nat option) list \<Rightarrow> bool" where
  "null_at_root xs \<longleftrightarrow> (\<forall>sub. (sub, None) \<in> set xs \<longrightarrow> sub = [])"

lemma null_at_root_Nil [simp]: "null_at_root []"
  by (simp add: null_at_root_def)

lemma null_at_root_update: "null_at_root xs \<Longrightarrow> v \<noteq> None \<or> k = [] \<Longrightarrow> null_at_root (AList.update k v xs)"
  using pairs_update [of k v xs] by (auto simp: null_at_root_def)

definition job_ok :: "tjob \<times> 'w tj_world_scheme \<Rightarrow> bool" where
  "job_ok st \<longleftrightarrow>
     (let tj = fst st; k = tj_kind tj
      in (k \<noteq> TJ_UPLOAD \<longrightarrow> [] \<in> keys (tj_srclists tj)) \<and> (k \<noteq> TJ_DOWNLOAD \<longrightarrow> [] \<in> keys (tj_dstlists tj))
         \<and> (k = TJ_FXP \<longrightarrow> keys (tj_srclists tj) = keys (tj_dstlists tj))
         \<and> (k = TJ_UPLOAD \<longrightarrow> keys (tj_local tj) \<subseteq> keys (tj_dstlists tj))
         \<and> null_at_root (tj_local tj) \<and> ids_ok st)"

lemma grown_nochange: "grown source N st st' \<Longrightarrow> N \<subseteq> keys (lists_of source (fst st)) \<Longrightarrow> grown source {} st st'"
  by (auto simp: grown_def)

text \<open>Both ends get lists for the same directories.\<close>

lemma both_ends_ok:
  fixes st :: "tjob \<times> 'w tj_world_scheme"
  assumes "job_ok st"
    and step: "\<And>source st1. ends (fst st1) = ends (fst st) \<Longrightarrow> store_grows (snd st) (snd st1) \<Longrightarrow>
       [] \<in> keys (lists_of source (fst st1)) \<Longrightarrow> job_res (grown source N st1) (f source st1)"
  shows "job_res (\<lambda>st'. job_ok st' \<and> life (fst st') = life (fst st) \<and> ends (fst st') = ends (fst st)) (both_ends f st)"
proof -
  have start: "ends (fst st) = ends (fst st)" "store_grows (snd st) (snd st)" by simp_all
  show ?thesis
  proof (cases "tj_kind (fst st)")
    case TJ_DOWNLOAD
    then have "[] \<in> keys (lists_of True (fst st))" using assms(1) by (simp add: job_ok_def lists_of_def Let_def)
    from step [OF start this] have "job_res (\<lambda>st'. job_ok st' \<and> life (fst st') = life (fst st) \<and> ends (fst st') = ends (fst st)) (f True st)"
      by (rule job_res_mono) (use assms(1) TJ_DOWNLOAD in \<open>auto simp: job_ok_def grown_def ends_def lists_of_def Let_def\<close>)
    then show ?thesis using TJ_DOWNLOAD by (cases "f True st") (simp_all add: both_ends_def)
  next
    case TJ_UPLOAD
    then have "[] \<in> keys (lists_of False (fst st))" using assms(1) by (simp add: job_ok_def lists_of_def Let_def)
    from step [OF start this] have "job_res (\<lambda>st'. job_ok st' \<and> life (fst st') = life (fst st) \<and> ends (fst st') = ends (fst st)) (f False st)"
      by (rule job_res_mono) (use assms(1) TJ_UPLOAD in \<open>auto simp: job_ok_def grown_def ends_def lists_of_def Let_def\<close>)
    then show ?thesis using TJ_UPLOAD by (simp add: both_ends_def)
  next
    case TJ_FXP
    then have r: "[] \<in> keys (lists_of True (fst st))" "[] \<in> keys (lists_of False (fst st))"
      using assms(1) by (simp_all add: job_ok_def lists_of_def Let_def)
    have "job_res (\<lambda>st'. job_ok st' \<and> life (fst st') = life (fst st) \<and> ends (fst st') = ends (fst st)) (and_then (f True st) (f False))"
    proof (rule job_res_bind [OF step [OF start r(1)]])
      fix st1 assume g1: "grown True N st st1"
      then have "ends (fst st1) = ends (fst st)" "store_grows (snd st) (snd st1)" "[] \<in> keys (lists_of False (fst st1))"
        using r(2) by (simp_all add: grown_def)
      from step [OF this] show "job_res (\<lambda>st'. job_ok st' \<and> life (fst st') = life (fst st) \<and> ends (fst st') = ends (fst st)) (f False st1)"
        by (rule job_res_mono) (use assms(1) TJ_FXP g1 in \<open>auto simp: job_ok_def grown_def ends_def lists_of_def Let_def\<close>)
    qed
    then show ?thesis using TJ_FXP by (simp add: both_ends_def)
  qed
qed

text \<open>What the operations on lists keep of a job.\<close>

definition job_keeps :: "tjob \<times> 'w tj_world_scheme \<Rightarrow> tjob \<times> 'w tj_world_scheme \<Rightarrow> bool" where
  "job_keeps st st' \<longleftrightarrow> job_ok st' \<and> life (fst st') = life (fst st) \<and> ends (fst st') = ends (fst st)"

lemma job_keeps_trans: "job_keeps st st1 \<Longrightarrow> job_keeps st1 st2 \<Longrightarrow> job_keeps st st2"
  by (simp add: job_keeps_def)

lemma job_keeps_refl: "job_ok st \<Longrightarrow> job_keeps st st"
  by (simp add: job_keeps_def)

lemma keeps_bind:
  assumes "job_res (job_keeps st) r" "\<And>st1. job_ok st1 \<Longrightarrow> job_res (job_keeps st1) (f st1)"
  shows "job_res (job_keeps st) (and_then r f)"
proof (rule job_res_bind [OF assms(1)])
  fix st1 assume k: "job_keeps st st1"
  then have "job_res (job_keeps st1) (f st1)" using assms(2) by (simp add: job_keeps_def)
  then show "job_res (job_keeps st) (f st1)" by (rule job_res_mono) (rule job_keeps_trans [OF k])
qed

text \<open>An operation that leaves the maps of lists alone.\<close>

lemma job_keeps_same:
  assumes "job_ok st" "tj_srclists (fst st') = tj_srclists (fst st)" "tj_dstlists (fst st') = tj_dstlists (fst st)"
    "tj_local (fst st') = tj_local (fst st)" "ends (fst st') = ends (fst st)" "life (fst st') = life (fst st)"
    "w_nextfl (snd st) \<le> w_nextfl (snd st')"
  shows "job_keeps st st'"
proof -
  have "ids_ok st \<Longrightarrow> ids_ok st'" by (auto simp: ids_ok_def assms(2,3) intro: order_less_le_trans [OF _ assms(7)])
  then show ?thesis using assms by (simp add: job_keeps_def job_ok_def ends_def Let_def)
qed

lemma job_skipped_store:
  "w_nextfl (fst (job_skipped env tj skip l name matches w)) = w_nextfl w"
  by (simp add: job_skipped_def on_fl_def Let_def)

lemma count_entry_store: "w_nextfl (snd (count_entry env tj skip l name wanted nw)) = w_nextfl (snd nw)"
  using job_skipped_store [of env tj skip l name wild_match "snd nw"]
  by (simp add: count_entry_def case_prod_beta Let_def)

lemma fold_store:
  assumes "\<And>x nw. w_nextfl (snd (f x nw)) = w_nextfl (snd nw)"
  shows "w_nextfl (snd (fold f xs nw)) = w_nextfl (snd nw)"
  using assms by (induction xs arbitrary: nw) simp_all

lemma at_key_ok: "k \<in> keys xs \<Longrightarrow> \<exists>v. at_key k xs = Inr v"
  by (cases "map_of xs k") (auto simp: at_key_def map_of_keys)

lemma count_fxp_ok:
  assumes "fst p \<in> keys (tj_dstlists tj)"
  shows "job_res (\<lambda>nw'. w_nextfl (snd nw') = w_nextfl (snd nw)) (count_fxp_list env tj p nw)"
proof -
  obtain dl where "at_key (fst p) (tj_dstlists tj) = Inr dl" using at_key_ok [OF assms] by blast
  then show ?thesis by (simp add: count_fxp_list_def Let_def fold_store count_entry_store)
qed

lemma count_upload_ok:
  assumes "fst p \<in> keys (tj_dstlists tj)" "snd p \<noteq> None"
  shows "job_res (\<lambda>nw'. w_nextfl (snd nw') = w_nextfl (snd nw)) (count_upload_list env tj p nw)"
proof -
  obtain dl where "at_key (fst p) (tj_dstlists tj) = Inr dl" using at_key_ok [OF assms(1)] by blast
  then show ?thesis using assms(2) by (auto simp: count_upload_list_def deref_def Let_def intro!: fold_store count_entry_store)
qed

definition null_local :: "tjob \<Rightarrow> bool" where
  "null_local tj \<longleftrightarrow> None \<in> snd ` set (tj_local tj)"

lemma count_ok:
  fixes st :: "tjob \<times> 'w tj_world_scheme"
  assumes "job_ok st" and up: "\<not> (tj_kind (fst st) = TJ_UPLOAD \<and> null_local (fst st))"
  shows "job_res (\<lambda>st'. job_keeps st st' \<and> w_nextfl (snd st') = w_nextfl (snd st)) (tj_countTotalFiles env st)"
proof -
  obtain tj w where st: "st = (tj, w)" by (cases st)
  have keeps: "job_keeps st (tj\<lparr>tj_filestotal := n\<rparr>, w')" if "w_nextfl w' = w_nextfl w" for n w'
    by (rule job_keeps_same [OF assms(1)]) (simp_all add: st that ends_def life_def)
  have fold: "job_res (\<lambda>nw. w_nextfl (snd nw) = w_nextfl w) (fold_until f xs (0, w))"
    if "\<And>x nw. x \<in> set xs \<Longrightarrow> job_res (\<lambda>nw'. w_nextfl (snd nw') = w_nextfl (snd nw)) (f x nw)"
    for f :: "'p \<Rightarrow> nat \<times> 'w tj_world_scheme \<Rightarrow> tj_fault + nat \<times> 'w tj_world_scheme" and xs
  proof (rule job_res_fold)
    fix x and nw :: "nat \<times> 'w tj_world_scheme" assume "x \<in> set xs" "w_nextfl (snd nw) = w_nextfl w"
    then show "job_res (\<lambda>nw. w_nextfl (snd nw) = w_nextfl w) (f x nw)" using that [of x nw] by simp
  qed simp
  show ?thesis
  proof (cases "tj_kind tj")
    case TJ_DOWNLOAD
    then show ?thesis using keeps [of w] by (simp add: tj_countTotalFiles_def st)
  next
    case TJ_FXP
    then have "x \<in> set (tj_srclists tj) \<Longrightarrow> fst x \<in> keys (tj_dstlists tj)" for x
      using assms by (auto simp: job_ok_def st Let_def)
    then have "job_res (\<lambda>nw. w_nextfl (snd nw) = w_nextfl w) (fold_until (count_fxp_list env tj) (tj_srclists tj) (0, w))"
      by (intro fold count_fxp_ok)
    from job_res_bind [OF this, of "\<lambda>st'. job_keeps st st' \<and> w_nextfl (snd st') = w_nextfl (snd st)"
        "\<lambda>(n, w1). Inr (tj\<lparr>tj_filestotal := int n\<rparr>, w1)"]
    show ?thesis using TJ_FXP keeps by (simp add: tj_countTotalFiles_def st case_prod_beta)
  next
    case TJ_UPLOAD
    then have "x \<in> set (tj_local tj) \<Longrightarrow> fst x \<in> keys (tj_dstlists tj) \<and> snd x \<noteq> None" for x
      using assms unfolding job_ok_def null_local_def st by (force simp: Let_def)
    then have "job_res (\<lambda>nw. w_nextfl (snd nw) = w_nextfl w) (fold_until (count_upload_list env tj) (tj_local tj) (0, w))"
      by (intro fold count_upload_ok) blast+
    from job_res_bind [OF this, of "\<lambda>st'. job_keeps st st' \<and> w_nextfl (snd st') = w_nextfl (snd st)"
        "\<lambda>(n, w1). Inr (tj\<lparr>tj_filestotal := int n\<rparr>, w1)"]
    show ?thesis using TJ_UPLOAD keeps by (simp add: tj_countTotalFiles_def st case_prod_beta)
  qed
qed

text \<open>The count of an upload whose directory could not be read.\<close>

lemma count_null:
  fixes st :: "tjob \<times> 'w tj_world_scheme"
  assumes "job_ok st" "tj_kind (fst st) = TJ_UPLOAD" "null_local (fst st)"
  shows "tj_countTotalFiles env st = Inl NullPointer"
proof -
  have "fold_until (count_upload_list env (fst st)) xs nw = Inl NullPointer"
    if "None \<in> snd ` set xs" "fst ` set xs \<subseteq> keys (tj_dstlists (fst st))" for xs and nw :: "nat \<times> 'w tj_world_scheme"
    using that
  proof (induction xs arbitrary: nw)
    case (Cons x xs)
    have k: "fst x \<in> keys (tj_dstlists (fst st))" using Cons.prems(2) by simp
    obtain dl where "at_key (fst x) (tj_dstlists (fst st)) = Inr dl" using exE [OF at_key_ok [OF k]] .
    then have x: "snd x = None \<Longrightarrow> count_upload_list env (fst st) x nw = Inl NullPointer"
        "snd x = Some ll \<Longrightarrow> \<exists>nw1. count_upload_list env (fst st) x nw = Inr nw1" for ll
      by (simp_all add: count_upload_list_def deref_def Let_def)
    show ?case
    proof (cases "snd x")
      case None
      then show ?thesis using x(1) by simp
    next
      case (Some ll)
      then have "None \<in> snd ` set xs" "keys xs \<subseteq> keys (tj_dstlists (fst st))" using Cons.prems by auto
      note rest = Cons.IH [OF this]
      obtain nw1 where "count_upload_list env (fst st) x nw = Inr nw1" using exE [OF x(2) [OF Some]] .
      then show ?thesis using rest [of nw1] by simp
    qed
  qed simp
  then show ?thesis
    using assms by (simp add: tj_countTotalFiles_def job_ok_def null_local_def Let_def)
qed

lemma follow_link_keeps:
  assumes "job_ok st"
  shows "job_keeps st (follow_link l f st)"
proof -
  obtain tj w where st: "st = (tj, w)" by (cases st)
  define dir where "dir = path_new (p_dirname (if p_absolute (path_new (f_linktarget f)) then path_new (f_linktarget f)
    else path_concat (fl_path (w_fl w l)) (path_new (f_linktarget f))))"
  define tj1 where "tj1 = tj\<lparr>tj_srcpath := dir, tj_srcfile := p_basename (if p_absolute (path_new (f_linktarget f)) then path_new (f_linktarget f)
    else path_concat (fl_path (w_fl w l)) (path_new (f_linktarget f))), tj_refreshed := []\<rparr>"
  obtain r st1 where m: "make_list (s_user (en_site w (tj_src tj1))) dir (tj1, w) = (r, st1)" by (meson surj_pair)
  have f: "follow_link l f st = (put_list True [] r (fst st1), snd st1)"
    by (cases "p_absolute (path_new (f_linktarget f))")
      (use m in \<open>simp_all add: follow_link_def st Let_def tj1_def dir_def\<close>)
  have s: "job_keeps st (tj1, w)" by (rule job_keeps_same [OF assms]) (simp_all add: st tj1_def ends_def life_def)
  have g: "grown True {[]} (tj1, w) (follow_link l f st)" unfolding f by (rule make_list_grown [OF m])
  then show ?thesis using s
    by (cases "tj_kind tj") (auto simp: job_keeps_def job_ok_def grown_def ends_def lists_of_def Let_def st)
qed

lemma both_ends_keeps:
  fixes st :: "tjob \<times> 'w tj_world_scheme"
  assumes "job_ok st"
    and "\<And>source st1. ends (fst st1) = ends (fst st) \<Longrightarrow> store_grows (snd st) (snd st1) \<Longrightarrow>
       [] \<in> keys (lists_of source (fst st1)) \<Longrightarrow> job_res (grown source N st1) (f source st1)"
  shows "job_res (job_keeps st) (both_ends f st)"
proof -
  have "job_keeps st = (\<lambda>st'. job_ok st' \<and> life (fst st') = life (fst st) \<and> ends (fst st') = ends (fst st))"
    by (simp add: job_keeps_def fun_eq_iff split_paired_All)
  then show ?thesis using both_ends_ok [OF assms] by simp
qed

lemma found_directories_ok:
  fixes st :: "tjob \<times> 'w tj_world_scheme"
  assumes ok: "job_ok st" and l: "l < w_nextfl (snd st)"
  shows "job_res (job_keeps st) (found_directories env source l st)"
proof -
  have one: "job_res (job_keeps st) (both_ends (\<lambda>end. add_directory_list end sub f) st)" for sub f
    by (rule both_ends_keeps [OF ok]) (rule add_directory_list_grown)
  have many: "job_res (job_keeps st) (both_ends (\<lambda>end. add_directory_lists env end l sub) st)" for sub
  proof (rule both_ends_keeps [OF ok])
    fix s and st1 :: "tjob \<times> 'w tj_world_scheme"
    assume a: "ends (fst st1) = ends (fst st)" "store_grows (snd st) (snd st1)" "[] \<in> keys (lists_of s (fst st1))"
    have "l < w_nextfl (snd st1)" using a(2) l by (simp add: store_grows_def)
    from add_directory_lists_grown [OF a(3) this, of env sub]
    show "job_res (grown s (wanted_names env l sub st) st1) (add_directory_lists env s l sub st1)"
      unfolding wanted_names_same [OF a(1,2) l] .
  qed
  show ?thesis
    using one many follow_link_keeps [OF ok] job_keeps_refl [OF ok]
    by (simp add: found_directories_def Let_def split: option.split)
qed

lemma checked_id: "job_ok st \<Longrightarrow> tj_checkFileListExists l (fst st) \<Longrightarrow> l < w_nextfl (snd st)"
  by (auto simp: tj_checkFileListExists_def job_ok_def ids_ok_def Let_def)

lemma note_listed_keeps: "job_ok st \<Longrightarrow> job_keeps st (note_listed l st, snd st)"
  by (rule job_keeps_same) (simp_all add: note_listed_def ends_def life_def Let_def)

text \<open>A list that has come counts the files again when no other is waited for.\<close>

definition counts_null :: "nat \<Rightarrow> tjob \<times> 'w tj_world_scheme \<Rightarrow> bool" where
  "counts_null l st \<longleftrightarrow> tj_kind (fst st) = TJ_UPLOAD \<and> null_local (fst st) \<and> tj_checkFileListExists l (fst st)
     \<and> \<not> tj_anyListNeedsRefreshing (note_listed l st) (snd st)"

lemma note_listed_same: "tj_kind (note_listed l st) = tj_kind (fst st)" "tj_local (note_listed l st) = tj_local (fst st)"
  by (simp_all add: note_listed_def Let_def)

lemma fileListUpdated_null:
  fixes st :: "tjob \<times> 'w tj_world_scheme"
  assumes "job_ok st" "counts_null l st"
  shows "tj_fileListUpdated env source l st = Inl NullPointer"
proof -
  have "job_ok (note_listed l st, snd st)" using note_listed_keeps [OF assms(1)] by (simp add: job_keeps_def)
  from count_null [OF this, of env] have "tj_countTotalFiles env (note_listed l st, snd st) = Inl NullPointer"
    using assms(2) by (simp add: counts_null_def null_local_def note_listed_same)
  then show ?thesis
    using assms(2) by (simp add: counts_null_def null_local_def note_listed_same tj_fileListUpdated_def count_if_refreshed_def)
qed

lemma fileListUpdated_ok:
  fixes st :: "tjob \<times> 'w tj_world_scheme"
  assumes "job_ok st" and no: "\<not> counts_null l st"
  shows "job_res (job_keeps st) (tj_fileListUpdated env source l st)"
proof (cases "tj_checkFileListExists l (fst st)")
  case True
  have l: "l < w_nextfl (snd st)" by (rule checked_id [OF assms(1) True])
  have n: "job_keeps st (note_listed l st, snd st)" by (rule note_listed_keeps [OF assms(1)])
  have c: "job_res (\<lambda>st'. job_keeps st st' \<and> l < w_nextfl (snd st')) (count_if_refreshed env (note_listed l st, snd st))"
    using n l no True count_ok [of "(note_listed l st, snd st)" env]
    by (auto simp: job_keeps_def count_if_refreshed_def counts_null_def null_local_def note_listed_same intro: job_res_mono)
  have "job_res (job_keeps st) (and_then (count_if_refreshed env (note_listed l st, snd st)) (found_directories env source l))"
  proof (rule job_res_bind [OF c])
    fix st2 :: "tjob \<times> 'w tj_world_scheme" assume k: "job_keeps st st2 \<and> l < w_nextfl (snd st2)"
    then have "job_ok st2" "l < w_nextfl (snd st2)" by (simp_all add: job_keeps_def)
    from found_directories_ok [OF this, of env source]
    show "job_res (job_keeps st) (found_directories env source l st2)"
      by (rule job_res_mono) (use k job_keeps_trans in blast)
  qed
  then show ?thesis using True by (simp add: tj_fileListUpdated_def)
next
  case False
  then show ?thesis using assms(1) by (simp add: tj_fileListUpdated_def job_keeps_refl)
qed

lemma fileListUpdated_out: "job_ok st \<Longrightarrow> job_out True (job_keeps st) (tj_fileListUpdated env source l st)"
  using fileListUpdated_ok [of st l env source] fileListUpdated_null [of st l env source]
  by (cases "counts_null l st") (auto simp: job_res_out, simp add: job_out_def)

subsection \<open>Local lists\<close>

text \<open>\<^const>\<open>job_ok\<close> but for the list of one local directory, which has none at the other end yet.\<close>

definition job_ok_but :: "string \<Rightarrow> tjob \<times> 'w tj_world_scheme \<Rightarrow> bool" where
  "job_ok_but sub st \<longleftrightarrow>
     (let tj = fst st; k = tj_kind tj
      in (k \<noteq> TJ_UPLOAD \<longrightarrow> [] \<in> keys (tj_srclists tj)) \<and> (k \<noteq> TJ_DOWNLOAD \<longrightarrow> [] \<in> keys (tj_dstlists tj))
         \<and> (k = TJ_FXP \<longrightarrow> keys (tj_srclists tj) = keys (tj_dstlists tj))
         \<and> (k = TJ_UPLOAD \<longrightarrow> keys (tj_local tj) \<subseteq> insert sub (keys (tj_dstlists tj)))
         \<and> null_at_root (tj_local tj) \<and> ids_ok st)"

lemma put_local_but:
  assumes "job_ok st" "fst st1 = put_local sub (Some l) (fst st)" "w_nextfl (snd st1) = w_nextfl (snd st)"
  shows "job_ok_but sub st1 \<and> life (fst st1) = life (fst st) \<and> ends (fst st1) = ends (fst st)"
  using assms by (auto simp: job_ok_but_def job_ok_def put_local_def keys_update ids_ok_def life_def ends_def Let_def null_at_root_update)

lemma job_ok_weaken: "job_ok st \<Longrightarrow> fst st1 = fst st \<Longrightarrow> w_nextfl (snd st1) = w_nextfl (snd st) \<Longrightarrow> job_ok_but sub st1"
  unfolding job_ok_but_def job_ok_def ids_ok_def Let_def by (simp add: subset_insertI2)

lemma job_ok_but_root:
  "job_ok_but sub st \<Longrightarrow> (tj_kind (fst st) = TJ_UPLOAD \<Longrightarrow> sub \<in> keys (tj_dstlists (fst st))) \<Longrightarrow> job_ok st"
  unfolding job_ok_but_def job_ok_def Let_def by (cases "tj_kind (fst st)") (simp_all add: insert_absorb)

lemma read_local_ok:
  assumes "job_ok st" "read_local env sub p st = (found, st1)"
  shows "case found of None \<Rightarrow> st1 = st
    | Some l \<Rightarrow> job_ok_but sub st1 \<and> life (fst st1) = life (fst st) \<and> ends (fst st1) = ends (fst st)"
proof (cases "map_of (tj_local (fst st)) sub")
  case None
  show ?thesis
  proof (cases "getLocalFileList p (je_touch env p) (je_disk env p)")
    case (Some ll)
    have "w_nextfl (snd (new_local ll (snd st))) = w_nextfl (snd st)" by (simp add: new_local_def)
    then show ?thesis
      using None Some assms put_local_but [OF assms(1), of st1 sub]
      by (auto simp: read_local_def split: prod.splits)
  qed (use None assms(2) in \<open>simp add: read_local_def\<close>)
next
  case (Some q)
  show ?thesis
  proof (cases q)
    case (Some l)
    then have "found = Some l" "fst st1 = fst st" "w_nextfl (snd st1) = w_nextfl (snd st)"
      using \<open>map_of (tj_local (fst st)) sub = Some q\<close> assms(2) by (auto simp: read_local_def Let_def)
    then show ?thesis using job_ok_weaken [OF assms(1)] by simp
  qed (use Some assms(2) in \<open>simp add: read_local_def\<close>)
qed

lemma remote_for_ok:
  fixes st :: "tjob \<times> 'w tj_world_scheme"
  assumes "job_ok_but sub st"
  shows "job_res (job_keeps st) (remote_for sub st)"
proof (cases "tj_kind (fst st) = TJ_FXP \<or> map_of (lists_of (tj_kind (fst st) = TJ_DOWNLOAD) (fst st)) sub \<noteq> None")
  case True
  then have "job_ok st"
    using assms by (cases "tj_kind (fst st)")
      (simp_all add: job_ok_but_def job_ok_def lists_of_def map_of_keys insert_absorb Let_def)
  then show ?thesis using True by (simp add: remote_for_def job_keeps_refl Let_def)
next
  case False
  let ?source = "tj_kind (fst st) = TJ_DOWNLOAD"
  have "[] \<in> keys (lists_of ?source (fst st))"
    using assms False by (cases "tj_kind (fst st)") (auto simp: job_ok_but_def lists_of_def Let_def)
  then obtain r where r: "map_of (lists_of ?source (fst st)) [] = Some r"
    by (cases "map_of (lists_of ?source (fst st)) []") (auto simp: map_of_keys)
  obtain l st1 where m: "make_list (fl_username (w_fl (snd st) r))
      (path_concat (if ?source then tj_srcpath (fst st) else tj_dstpath (fst st)) (path_new sub)) st = (l, st1)"
    by (meson surj_pair)
  have "job_keeps st (put_list ?source sub l (fst st1), snd st1)"
    using make_list_grown [OF m, of ?source sub] assms False
    by (cases "tj_kind (fst st)")
      (auto simp: job_keeps_def job_ok_but_def job_ok_def grown_def ends_def lists_of_def Let_def)
  then show ?thesis using False r m by (simp add: remote_for_def deref_def Let_def)
qed

lemma local_walk_ok:
  fixes st :: "tjob \<times> 'w tj_world_scheme"
  shows "job_ok st \<Longrightarrow> job_res (job_keeps st) (local_walk n env base p st)"
proof (induction n arbitrary: p st)
  case 0
  then show ?case by (simp add: job_res_def)
next
  case (Suc n)
  obtain found st1 where r: "read_local env (p_path (path_minus p base)) p st = (found, st1)" by (meson surj_pair)
  note ok = read_local_ok [OF Suc.prems r]
  show ?case
  proof (cases found)
    case None
    then show ?thesis using ok r Suc.prems by (simp add: job_keeps_refl)
  next
    case (Some l)
    then have but: "job_ok_but (p_path (path_minus p base)) st1"
      and same: "life (fst st1) = life (fst st)" "ends (fst st1) = ends (fst st)" using ok by simp_all
    have walk: "job_res (job_keeps s2) (fold_until (\<lambda>name. local_walk n env base (path_concat p (path_new name))) names s2)"
      if "job_ok s2" for names and s2 :: "tjob \<times> 'w tj_world_scheme"
    proof (rule job_res_fold [where P = "job_keeps s2", OF job_keeps_refl [OF that]])
      fix x and s3 :: "tjob \<times> 'w tj_world_scheme" assume k: "job_keeps s2 s3"
      then have "job_ok s3" by (simp add: job_keeps_def)
      then have "job_res (job_keeps s3) (local_walk n env base (path_concat p (path_new x)) s3)" by (rule Suc.IH)
      then show "job_res (job_keeps s2) (local_walk n env base (path_concat p (path_new x)) s3)"
        by (rule job_res_mono) (rule job_keeps_trans [OF k])
    qed
    have "job_res (job_keeps st1) (local_walk (Suc n) env base p st)"
      using r Some by (auto intro!: keeps_bind [OF remote_for_ok [OF but]] walk)
    then show ?thesis by (rule job_res_mono) (simp add: job_keeps_def same)
  qed
qed

lemma walk_from_ok: "job_ok st \<Longrightarrow> job_res (job_keeps st) (walk_from n env name l st)"
  by (auto simp: walk_from_def Let_def job_keeps_refl local_walk_ok split: option.split)

lemma localLists_ok:
  fixes st :: "tjob \<times> 'w tj_world_scheme"
  assumes ok: "job_ok st" and fxp: "tj_kind (fst st) \<noteq> TJ_FXP"
  shows "job_res (job_keeps st) (tj_updateLocalFileLists n env st)"
proof -
  obtain tj w where st: "st = (tj, w)" by (cases st)
  let ?base = "local_base tj" and ?name = "local_entry tj"
  have go: "job_res (job_keeps st) (walk_from n env ?name l st1)" if "job_keeps st st1" for l st1
  proof -
    have "job_ok st1" using that by (simp add: job_keeps_def)
    from walk_from_ok [OF this] show ?thesis by (rule job_res_mono) (rule job_keeps_trans [OF that])
  qed
  show ?thesis
  proof (cases "map_of (tj_local tj) []")
    case None
    show ?thesis
    proof (cases "\<not> je_exists env ?base \<and> (tj_kind tj = TJ_UPLOAD \<or> \<not> je_mkdir env ?base)")
      case True
      then show ?thesis using None ok by (simp add: tj_updateLocalFileLists_def st job_keeps_refl [of "(tj, w)"] Let_def)
    next
      case False
      have root: "tj_kind tj = TJ_UPLOAD \<Longrightarrow> [] \<in> keys (tj_dstlists tj)" using ok by (simp add: job_ok_def st Let_def)
      show ?thesis
      proof (cases "getLocalFileListPrune ?base (je_touch env ?base) ?name (je_disk env ?base)")
        case unread: None
        have "job_ok (put_local [] None tj, w)"
          using ok root by (auto simp: job_ok_def put_local_def keys_update ids_ok_def null_at_root_update st Let_def)
        then have "job_keeps st (put_local [] None tj, w)" by (simp add: job_keeps_def st put_local_def life_def ends_def)
        then show ?thesis using None False unread by (simp add: tj_updateLocalFileLists_def st Let_def del: de_Morgan_conj)
      next
      case ll: (Some ll)
      let ?st1 = "(put_local [] (Some (fst (new_local ll w))) tj, snd (new_local ll w))"
      have b: "job_ok_but [] ?st1 \<and> life (fst ?st1) = life tj \<and> ends (fst ?st1) = ends tj"
        using put_local_but [OF ok, of ?st1 "[]"] by (simp add: st new_local_def)
      have "job_ok ?st1" using b root by (intro job_ok_but_root [of "[]"]) (simp_all add: put_local_def)
      with b have "job_keeps st ?st1" by (simp add: job_keeps_def st)
      from go [OF this] show ?thesis
        using None False ll by (auto simp: tj_updateLocalFileLists_def st case_prod_beta Let_def)
      qed
    qed
  next
    case (Some q)
    show ?thesis
    proof (cases q)
      case None
      then show ?thesis using Some ok by (simp add: tj_updateLocalFileLists_def st job_keeps_refl Let_def)
    next
      case l: (Some l)
      have "job_keeps st (tj, update_base env ?name l w)"
        by (rule job_keeps_same [OF ok]) (simp_all add: st update_base_def Let_def)
      from go [OF this] show ?thesis using Some l by (simp add: tj_updateLocalFileLists_def st Let_def)
    qed
  qed
qed

subsection \<open>The other operations\<close>

lemma ask_final_keeps: "job_ok st \<Longrightarrow> job_keeps st (ask_final root l st)"
  by (rule job_keeps_same) (simp_all add: ask_final_def on_fl_def ends_def life_def)

lemma fold_keeps:
  assumes "\<And>x st. job_ok st \<Longrightarrow> job_keeps st (f x st)"
  shows "job_ok st \<Longrightarrow> job_keeps st (fold f xs st)"
proof (induction xs arbitrary: st)
  case (Cons x xs)
  have k: "job_keeps st (f x st)" by (rule assms [OF Cons.prems])
  then have "job_keeps (f x st) (fold f xs (f x st))" by (intro Cons.IH) (simp add: job_keeps_def)
  then show ?case using job_keeps_trans [OF k] by simp
qed (simp add: job_keeps_refl)

lemma ask_finals_keeps: "job_ok st \<Longrightarrow> job_keeps st (ask_finals ls st)"
  unfolding ask_finals_def by (rule fold_keeps) (rule ask_final_keeps)

text \<open>What the operations keep that may also move the job on in its life.\<close>

definition job_goes :: "tjob \<times> 'w tj_world_scheme \<Rightarrow> tjob \<times> 'w tj_world_scheme \<Rightarrow> bool" where
  "job_goes st st' \<longleftrightarrow> job_ok st' \<and> ends (fst st') = ends (fst st)"

lemma job_ok_same:
  assumes "job_ok st" "tj_srclists (fst st') = tj_srclists (fst st)" "tj_dstlists (fst st') = tj_dstlists (fst st)"
    "tj_local (fst st') = tj_local (fst st)" "ends (fst st') = ends (fst st)" "w_nextfl (snd st) \<le> w_nextfl (snd st')"
  shows "job_ok st'"
proof -
  have "ids_ok st \<Longrightarrow> ids_ok st'" by (auto simp: ids_ok_def assms(2,3) intro: order_less_le_trans [OF _ assms(6)])
  then show ?thesis using assms by (simp add: job_ok_def ends_def Let_def)
qed

lemma refreshOrAlmostDone_ok:
  fixes st :: "tjob \<times> 'w tj_world_scheme"
  assumes ok: "job_ok st"
  shows "job_res (\<lambda>(st', again). job_ok st' \<and> ends (fst st') = ends (fst st)
      \<and> (life (fst st') = life (fst st) \<or> \<not> again \<and> tj_almostdone (fst st') \<and> \<not> tj_almostdone (fst st)
           \<and> life (fst st') = (if tj_status (fst st) = TJ_QUEUED then (TJ_RUNNING, True, True)
                              else (tj_status (fst st), tj_poked (fst st), True))))
    (tj_refreshOrAlmostDone n env st)"
proof -
  obtain tj w where st: "st = (tj, w)" by (cases st)
  have almost: "job_ok (tj1, w)" if "tj_srclists tj1 = tj_srclists tj" "tj_dstlists tj1 = tj_dstlists tj"
      "tj_local tj1 = tj_local tj" "ends tj1 = ends tj" for tj1
    by (rule job_ok_same [OF ok]) (simp_all add: st that)
  let ?st1 = "ask_finals (tj_dstlists tj) (ask_finals (tj_srclists tj) st)"
  have k1: "job_keeps st (ask_finals (tj_srclists tj) st)" by (rule ask_finals_keeps [OF ok])
  then have "job_keeps (ask_finals (tj_srclists tj) st) ?st1" by (intro ask_finals_keeps) (simp add: job_keeps_def)
  with k1 have k: "job_keeps st ?st1" by (rule job_keeps_trans)
  then have ok1: "job_ok ?st1" and kind: "tj_kind (fst ?st1) = tj_kind tj" by (simp_all add: job_keeps_def ends_def st)
  have "job_res (job_keeps st) (if tj_kind tj \<noteq> TJ_FXP then tj_updateLocalFileLists n env ?st1 else Inr ?st1)"
  proof (cases "tj_kind tj = TJ_FXP")
    case False
    then have "job_res (job_keeps ?st1) (tj_updateLocalFileLists n env ?st1)"
      by (intro localLists_ok [OF ok1]) (simp add: kind)
    then have "job_res (job_keeps st) (tj_updateLocalFileLists n env ?st1)"
      by (rule job_res_mono) (rule job_keeps_trans [OF k])
    then show ?thesis using False by simp
  qed (simp add: k)
  then have again: "job_res (\<lambda>(st', again). again \<and> job_keeps st st')
      (and_then (if tj_kind tj \<noteq> TJ_FXP then tj_updateLocalFileLists n env ?st1 else Inr ?st1) (\<lambda>st2. Inr (st2, True)))"
    by (rule job_res_bind) simp
  show ?thesis
  proof (cases "tj_almostdone tj \<or> any_final tj \<and> all_final tj w")
    case True
    then show ?thesis
      using ok almost by (auto simp: tj_refreshOrAlmostDone_def st tj_start_def life_def ends_def Let_def)
  next
    case False
    then have eq: "tj_refreshOrAlmostDone n env st
        = and_then (if tj_kind tj \<noteq> TJ_FXP then tj_updateLocalFileLists n env ?st1 else Inr ?st1) (\<lambda>st2. Inr (st2, True))"
      by (auto simp: tj_refreshOrAlmostDone_def st Let_def)
    show ?thesis
      unfolding eq by (rule job_res_mono [OF again]) (simp add: job_keeps_def split: prod.splits)
  qed
qed

end
