(* ===== verification/TransferJobLife.thy ===== *)
theory TransferJobLife
  imports TransferJobInv EngineBoardsInv
begin

text \<open>
  A transfer job in every history: the calls the engine and the sites make of it in any order, with the
  lists at its ends and the disk changing in between.  No call asks for a list that is not there, and
  exactly one follows a null pointer, the count of an upload whose directory could not be read; the life
  of a job is a machine of five states; and the verdict of one that is over is what its transfers say.
\<close>

subsection \<open>Histories\<close>

datatype job_op = JStart | JAbort | JClearExisting | JClearRefresh | JSlots int | JPending path u64
  | JSkipped path u64 | JTarget path u64 | JReserve nat int | JAdd "nat option" | JSucceeded nat | JFailed nat
  | JUpdate | JTick | JListed bool nat | JWantLocal string | JRefresh | JReset

definition job_do :: "nat \<Rightarrow> 'x job_env \<Rightarrow> job_op \<Rightarrow> tjob \<times> 'w tj_world_scheme \<Rightarrow> tj_fault + tjob \<times> 'w tj_world_scheme" where
  "job_do n env op st =
     (let tj = fst st; w = snd st
      in case op of
           JStart \<Rightarrow> Inr (tj_start tj, w)
         | JAbort \<Rightarrow> Inr (fst (tj_abort tj), w)
         | JClearExisting \<Rightarrow> Inr (tj_clearExisting tj, w)
         | JClearRefresh \<Rightarrow> Inr (tj_clearRefreshLists tj, w)
         | JSlots k \<Rightarrow> Inr (tj_setSlots k tj, w)
         | JPending p sz \<Rightarrow> Inr (tj_addPendingTransfer p sz tj, w)
         | JSkipped p sz \<Rightarrow> Inr (tj_addSkippedTransfer p sz tj, w)
         | JTarget p sz \<Rightarrow> Inr (tj_targetExists p sz tj, w)
         | JReserve l conn \<Rightarrow> Inr (fst (tj_tryReserveListTarget l conn tj), w)
         | JAdd ts \<Rightarrow> Inr (tj_addTransfer env ts tj, w)
         | JSucceeded ts \<Rightarrow> Inr (tj_transferSuccessful (je_ts env ts) tj, w)
         | JFailed ts \<Rightarrow> Inr (tj_transferFailed env (je_ts env ts) st)
         | JUpdate \<Rightarrow> and_then (tj_updateStatus env tj) (\<lambda>tj1. Inr (tj1, w))
         | JTick \<Rightarrow> and_then (tj_tick env tj) (\<lambda>tj1. Inr (tj1, w))
         | JListed source l \<Rightarrow> tj_fileListUpdated env source l st
         | JWantLocal sub \<Rightarrow> Inr (snd (tj_wantedLocalDstList sub st))
         | JRefresh \<Rightarrow> and_then (tj_refreshOrAlmostDone n env st) (\<lambda>(st1, _). Inr st1)
         | JReset \<Rightarrow> tj_reset n env st)"

text \<open>The engine asks for a local list only for a download.\<close>

definition job_may :: "job_op \<Rightarrow> tjob \<Rightarrow> bool" where
  "job_may op tj \<longleftrightarrow> (case op of JWantLocal _ \<Rightarrow> tj_kind tj = TJ_DOWNLOAD | _ \<Rightarrow> True)"

text \<open>The histories of a job that meets the surroundings \<open>E\<close>, one of them at each call.\<close>

inductive job_reach :: "'x job_env set \<Rightarrow> tjob \<times> 'w tj_world_scheme \<Rightarrow> bool" for E :: "'x job_env set" where
  download: "env \<in> E \<Longrightarrow> tj_downloadJob n env src fl srcfile dstpath dstfile w = Inr st \<Longrightarrow> job_reach E st"
| upload: "env \<in> E \<Longrightarrow> tj_uploadJob n env srcpath srcfile dst fl secskip dstfile w = Inr st \<Longrightarrow> job_reach E st"
| fxp: "env \<in> E \<Longrightarrow> tj_fxpJob env src sfl srcfile dst dfl secskip dstfile w = Inr st \<Longrightarrow> job_reach E st"
| call: "job_reach E st \<Longrightarrow> env \<in> E \<Longrightarrow> job_may op (fst st) \<Longrightarrow> job_do n env op st = Inr st' \<Longrightarrow> job_reach E st'"
| elsewhere: "job_reach E (tj, w) \<Longrightarrow> w_nextfl w \<le> w_nextfl w' \<Longrightarrow> job_reach E (tj, w')"

subsection \<open>The life of a job\<close>

text \<open>The states a job may be in next, unless it is reset.\<close>

definition life_step :: "tj_status \<Rightarrow> tj_status \<Rightarrow> bool" where
  "life_step s s' \<longleftrightarrow> s' = s
     \<or> s = TJ_QUEUED \<and> s' \<in> {TJ_RUNNING, TJ_ABORTED} \<or> s = TJ_RUNNING \<and> s' \<in> {TJ_DONE, TJ_FAILED, TJ_ABORTED}"

text \<open>The timer runs exactly while the job does, and a job that is almost done has been started.\<close>

definition life_ok :: "tjob \<Rightarrow> bool" where
  "life_ok tj \<longleftrightarrow> tj_poked tj = (tj_status tj = TJ_RUNNING) \<and> (tj_almostdone tj \<longrightarrow> tj_status tj \<noteq> TJ_QUEUED)"

definition goes :: "tjob \<times> 'w tj_world_scheme \<Rightarrow> tjob \<times> 'w tj_world_scheme \<Rightarrow> bool" where
  "goes st st' \<longleftrightarrow> job_ok st' \<and> ends (fst st') = ends (fst st)
     \<and> (life_ok (fst st) \<longrightarrow> life_ok (fst st') \<and> life_step (tj_status (fst st)) (tj_status (fst st')))"

lemma keeps_goes: "job_keeps st st' \<Longrightarrow> goes st st'"
  by (simp add: job_keeps_def goes_def life_def life_ok_def life_step_def)

definition just_job :: "tjob \<Rightarrow> tjob \<Rightarrow> bool" where
  "just_job tj tj' \<longleftrightarrow> tj_srclists tj' = tj_srclists tj \<and> tj_dstlists tj' = tj_dstlists tj \<and> tj_local tj' = tj_local tj
     \<and> ends tj' = ends tj \<and> (life_ok tj \<longrightarrow> life_ok tj' \<and> life_step (tj_status tj) (tj_status tj'))"

lemma just_job_goes: "job_ok (tj, w) \<Longrightarrow> just_job tj tj' \<Longrightarrow> goes (tj, w) (tj', w)"
  unfolding goes_def by (simp add: just_job_def job_ok_same [of "(tj, w)" "(tj', w)"])

lemma just_job_frame:
  "tj_srclists tj' = tj_srclists tj \<Longrightarrow> tj_dstlists tj' = tj_dstlists tj \<Longrightarrow> tj_local tj' = tj_local tj
    \<Longrightarrow> ends tj' = ends tj \<Longrightarrow> life tj' = life tj \<Longrightarrow> just_job tj tj'"
  by (simp add: just_job_def life_def life_ok_def life_step_def)

lemma just_job_trans: "just_job a b \<Longrightarrow> just_job b c \<Longrightarrow> life_step (tj_status a) (tj_status b) \<Longrightarrow>
    tj_status b = tj_status a \<or> tj_status c = tj_status b \<Longrightarrow> just_job a c"
  by (auto simp: just_job_def life_step_def)

lemma start_just: "just_job tj (tj_start tj)" and abort_just: "just_job tj (fst (tj_abort tj))"
  by (auto simp: just_job_def tj_start_def tj_abort_def tj_setDone_def tj_isDone_def ends_def life_ok_def life_step_def)
    (cases "tj_status tj"; simp)+

lemma add_just: "just_job tj (tj_addTransfer env ts tj)"
  by (rule just_job_frame) (simp_all add: tj_addTransfer_def ends_def life_def Let_def split: option.split)

lemma attempt_just: "just_job tj (tj_addTransferAttempt t s tj)" "just_job tj (tj_transferSuccessful t tj)"
  by (rule just_job_frame; simp add: tj_addTransferAttempt_def tj_transferSuccessful_def ends_def life_def Let_def)+

lemma measure_frame:
  assumes "tj_measure g tj = Inr tj'"
  shows "tj_srclists tj' = tj_srclists tj" "tj_dstlists tj' = tj_dstlists tj" "tj_local tj' = tj_local tj"
    "ends tj' = ends tj" "life tj' = life tj" "tj_filestotal tj' = tj_filestotal tj" "tj_existing tj' = tj_existing tj"
  using assms by (auto simp: tj_measure_def ends_def life_def Let_def split: if_splits)

lemma judge_just: "just_job tj (tj_judge g tj)"
  unfolding just_job_def tj_judge_def tj_setFailed_def tj_setDone_def tj_isDone_def life_ok_def life_step_def ends_def Let_def
  by (cases "tj_status tj") auto

lemma update_just: "tj_updateStatus env tj = Inr tj' \<Longrightarrow> just_job tj tj'"
proof -
  assume u: "tj_updateStatus env tj = Inr tj'"
  define g where "g = gather_all tj (map (je_ts env) (tj_transfers tj))"
  obtain tj1 where m: "tj_measure g (known_gone tj (map (je_ts env) (tj_transfers tj)) g) = Inr tj1" "tj' = tj_judge g tj1"
    using u by (cases "tj_measure g (known_gone tj (map (je_ts env) (tj_transfers tj)) g)")
      (auto simp: tj_updateStatus_def g_def Let_def)
  have "just_job tj tj1" "life tj1 = life tj"
    using measure_frame [OF m(1)] by (auto intro!: just_job_frame simp: known_gone_def ends_def life_def Let_def)
  then show ?thesis
    using just_job_trans [OF _ judge_just] m(2) by (auto simp: life_def life_step_def)
qed

lemma tick_just: "tj_tick env tj = Inr tj' \<Longrightarrow> just_job tj tj'"
  using update_just [of env tj]
  by (cases "tj_updateStatus env tj") (auto simp: tj_tick_def just_job_def ends_def life_ok_def Let_def)

lemma refresh_now_goes: "job_ok st \<Longrightarrow> job_keeps st (refresh_now l st)"
  by (rule job_keeps_same) (simp_all add: refresh_now_def on_fl_def ends_def life_def)

lemma failed_goes:
  fixes st :: "tjob \<times> 'w tj_world_scheme"
  assumes "job_ok st"
  shows "goes st (tj_transferFailed env t st)"
proof -
  let ?st0 = "((fst st)\<lparr>tj_idletime := 0\<rparr>, snd st)"
  let ?st1 = "if tj_kind (fst st) \<noteq> TJ_UPLOAD then refresh_now (ti_fls t) ?st0 else ?st0"
  let ?st2 = "if tj_kind (fst st) \<noteq> TJ_DOWNLOAD \<and> \<not> je_xdupe env (tj_dst (fst st)) then refresh_now (ti_fld t) ?st1 else ?st1"
  have k0: "job_keeps st ?st0" by (rule job_keeps_same [OF assms]) (simp_all add: ends_def life_def)
  then have k1: "job_keeps ?st0 ?st1" using refresh_now_goes [of ?st0] job_keeps_refl [of ?st0] by (simp add: job_keeps_def)
  then have k2: "job_keeps ?st1 ?st2" using refresh_now_goes [of ?st1] job_keeps_refl [of ?st1] by (simp only: job_keeps_def split: if_split) simp
  have k: "job_keeps st ?st2" by (rule job_keeps_trans [OF job_keeps_trans [OF k0 k1] k2])
  have "job_keeps ?st2 (tj_addTransferAttempt t False (fst ?st2), snd ?st2)"
    by (rule job_keeps_same) (use k in \<open>simp_all add: job_keeps_def tj_addTransferAttempt_def ends_def life_def Let_def\<close>)
  from keeps_goes [OF job_keeps_trans [OF k this]] keeps_goes [OF job_keeps_refl [OF assms]]
  show ?thesis by (simp only: tj_transferFailed_def Let_def split: if_split) simp
qed

lemma wanted_goes:
  fixes st :: "tjob \<times> 'w tj_world_scheme"
  assumes ok: "job_ok st" and d: "tj_kind (fst st) = TJ_DOWNLOAD"
  shows "goes st (snd (tj_wantedLocalDstList sub st))"
proof (cases "map_of (tj_local (fst st)) sub")
  case None
  let ?n = "new_local (ll_new (path_concat (tj_dstpath (fst st)) (path_new sub))) (snd st)"
  let ?st1 = "(put_local sub (Some (fst ?n)) (fst st), snd ?n)"
  have b: "job_ok_but sub ?st1 \<and> life (fst ?st1) = life (fst st) \<and> ends (fst ?st1) = ends (fst st)"
    by (rule put_local_but [OF ok]) (simp_all add: new_local_def)
  then have "job_ok ?st1" by (intro job_ok_but_root [of sub]) (simp_all add: put_local_def d)
  with b show ?thesis using None
    by (simp add: keeps_goes job_keeps_def tj_wantedLocalDstList_def case_prod_beta)
qed (simp add: tj_wantedLocalDstList_def keeps_goes job_keeps_refl [OF ok])

subsection \<open>Jobs made new\<close>

lemma pruned_store:
  assumes "createPrunedFileList env fl name w = (w1, l)"
  shows "l < w_nextfl w1" "w_nextfl w \<le> w_nextfl w1"
  using assms by (auto simp: createPrunedFileList_def new_list_def on_fl_def Let_def split: option.splits)

lemma root_again_grown: "grown source {[]} st (root_again source st)"
proof -
  obtain l st1 where m: "make_list (s_user (en_site (snd st) (if source then tj_src (fst st) else tj_dst (fst st))))
      (if source then tj_srcpath (fst st) else tj_dstpath (fst st)) st = (l, st1)" by (meson surj_pair)
  from make_list_grown [OF m, of source "[]"] show ?thesis unfolding root_again_def Let_def m by simp
qed

lemma reset_goes:
  fixes st :: "tjob \<times> 'w tj_world_scheme"
  assumes ok: "job_ok st"
  shows "job_res (\<lambda>st'. job_ok st' \<and> ends (fst st') = ends (fst st) \<and> life (fst st') = (TJ_QUEUED, False, False))
    (tj_reset n env st)"
proof -
  define tj where "tj = tj_resetValues env ((fst st)\<lparr>tj_poked := False, tj_srclists := [], tj_dstlists := [], tj_local := [],
            tj_pending := [], tj_skipped := [], tj_existing := [], tj_refreshed := [], tj_transfers := [],
            tj_indexed := [], tj_attempts := []\<rparr>) (snd st)"
  define st1 where "st1 = (if tj_kind tj \<noteq> TJ_UPLOAD then root_again True (tj, snd st) else (tj, snd st))"
  define st2 where "st2 = (if tj_kind tj \<noteq> TJ_DOWNLOAD then root_again False st1 else st1)"
  have tj: "tj_srclists tj = []" "tj_dstlists tj = []" "tj_local tj = []" "life tj = (TJ_QUEUED, False, False)"
      "ends tj = ends (fst st)"
    by (simp_all add: tj_def tj_resetValues_def life_def ends_def)
  have ids: "ids_ok (tj, snd st)" by (simp add: ids_ok_def tj)
  have g: "grown True {[]} (tj, snd st) (root_again True (tj, snd st))" "grown False {[]} st1 (root_again False st1)"
    by (rule root_again_grown)+
  have "job_ok st2 \<and> ends (fst st2) = ends tj \<and> life (fst st2) = life tj"
    using g ids tj
    by (cases "tj_kind tj") (auto simp: st2_def st1_def job_ok_def grown_def lists_of_def ends_def life_def Let_def)
  then have ok2: "job_ok st2" and k: "tj_kind (fst st2) = tj_kind tj"
    and same: "ends (fst st2) = ends (fst st)" "life (fst st2) = (TJ_QUEUED, False, False)"
    by (simp, simp add: ends_def, simp_all only: tj)
  have eq: "tj_reset n env st = (if tj_kind tj \<noteq> TJ_FXP then tj_updateLocalFileLists n env st2 else Inr st2)"
    unfolding tj_reset_def tj_def [symmetric] Let_def st1_def [symmetric] st2_def [symmetric] ..
  show ?thesis
  proof (cases "tj_kind tj = TJ_FXP")
    case False
    have "job_res (job_keeps st2) (tj_updateLocalFileLists n env st2)"
      by (rule localLists_ok [OF ok2]) (simp add: k False)
    then show ?thesis unfolding eq using False same by (auto simp: job_keeps_def elim: job_res_mono)
  qed (simp add: eq ok2 same)
qed

definition fresh :: "tjob \<times> 'w tj_world_scheme \<Rightarrow> bool" where
  "fresh st \<longleftrightarrow> job_ok st \<and> life (fst st) = (TJ_QUEUED, False, False)"

lemma fresh_keeps: "fresh st \<Longrightarrow> job_keeps st st' \<Longrightarrow> fresh st'"
  by (simp add: fresh_def job_keeps_def)

lemma init_simps [simp]:
  "tj_srclists (tj_init env k src dst sp dp sf df sec w) = []" "tj_dstlists (tj_init env k src dst sp dp sf df sec w) = []"
  "tj_local (tj_init env k src dst sp dp sf df sec w) = []" "tj_kind (tj_init env k src dst sp dp sf df sec w) = k"
  "life (tj_init env k src dst sp dp sf df sec w) = (TJ_QUEUED, False, False)"
  by (simp_all add: tj_init_def tj_resetValues_def life_def)

lemma put_list_simps [simp]:
  "tj_kind (put_list source sub l tj) = tj_kind tj" "life (put_list source sub l tj) = life tj"
  "tj_local (put_list source sub l tj) = tj_local tj"
  "tj_srclists (put_list source sub l tj) = (if source then AList.update sub l (tj_srclists tj) else tj_srclists tj)"
  "tj_dstlists (put_list source sub l tj) = (if source then tj_dstlists tj else AList.update sub l (tj_dstlists tj))"
  by (simp_all add: put_list_def life_def)

lemma first_listing_out: "job_ok st \<Longrightarrow> job_out True (job_keeps st) (first_listing env source l st)"
  by (simp add: first_listing_def fileListUpdated_out refresh_now_goes)

lemma keeps_out_bind:
  assumes "job_out True (job_keeps st) r" "\<And>st1. job_ok st1 \<Longrightarrow> job_out True (job_keeps st1) (f st1)"
  shows "job_out True (job_keeps st) (and_then r f)"
proof (rule job_out_bind [OF assms(1)])
  fix st1 assume k: "job_keeps st st1"
  then have "job_out True (job_keeps st1) (f st1)" using assms(2) by (simp add: job_keeps_def)
  then show "job_out True (job_keeps st) (f st1)" by (rule job_out_mono) (rule job_keeps_trans [OF k])
qed

lemma local_then_listing:
  fixes st :: "tjob \<times> 'w tj_world_scheme"
  assumes "fresh st" "tj_kind (fst st) \<noteq> TJ_FXP"
  shows "job_out True fresh (and_then (tj_updateLocalFileLists n env st) (first_listing env source l))"
proof -
  have "job_out True (job_keeps st) (and_then (tj_updateLocalFileLists n env st) (first_listing env source l))"
    using assms by (intro keeps_out_bind job_res_out [OF localLists_ok] first_listing_out) (simp_all add: fresh_def)
  then show ?thesis by (rule job_out_mono) (rule fresh_keeps [OF assms(1)])
qed

lemma download_fresh:
  "job_out True fresh (tj_downloadJob n env src fl srcfile dstpath dstfile w)"
proof -
  obtain w1 l where p: "createPrunedFileList env fl srcfile w = (w1, l)" by (meson surj_pair)
  show ?thesis
    unfolding tj_downloadJob_def Let_def p prod.case
    by (rule local_then_listing)
      (use pruned_store [OF p] in \<open>simp_all add: fresh_def job_ok_def ids_ok_def Let_def\<close>)
qed

lemma upload_fresh:
  "job_out True fresh (tj_uploadJob n env srcpath srcfile dst fl secskip dstfile w)"
proof -
  obtain w1 l where p: "createPrunedFileList env fl dstfile w = (w1, l)" by (meson surj_pair)
  show ?thesis
    unfolding tj_uploadJob_def Let_def p prod.case
    by (rule local_then_listing)
      (use pruned_store [OF p] in \<open>simp_all add: fresh_def job_ok_def ids_ok_def Let_def\<close>)
qed

lemma fxp_fresh: "job_out True fresh (tj_fxpJob env src sfl srcfile dst dfl secskip dstfile w)"
proof -
  obtain w1 s where p: "createPrunedFileList env sfl srcfile w = (w1, s)" by (meson surj_pair)
  obtain w2 d where q: "createPrunedFileList env dfl dstfile w1 = (w2, d)" by (meson surj_pair)
  let ?st = "(put_list False [] d (put_list True [] s
      (tj_init env TJ_FXP src dst (fl_path sfl) (fl_path dfl) srcfile dstfile secskip w)), w2)"
  have f: "fresh ?st"
    using pruned_store [OF p] pruned_store [OF q] by (simp add: fresh_def job_ok_def ids_ok_def Let_def)
  have "job_out True (job_keeps ?st) (and_then (first_listing env True s ?st) (first_listing env False d))"
    using f by (intro keeps_out_bind first_listing_out) (simp_all add: fresh_def)
  then show ?thesis
    unfolding tj_fxpJob_def Let_def p q prod.case by (rule job_out_mono) (rule fresh_keeps [OF f])
qed

subsection \<open>Every call\<close>

lemma tjob_goes: "job_ok (tj, w) \<Longrightarrow> just_job tj tj' \<Longrightarrow> job_res (goes (tj, w)) (Inr (tj', w))"
  by (simp add: just_job_goes)

lemma frame_goes:
  "job_ok (tj, w) \<Longrightarrow> tj_srclists tj' = tj_srclists tj \<Longrightarrow> tj_dstlists tj' = tj_dstlists tj \<Longrightarrow> tj_local tj' = tj_local tj
    \<Longrightarrow> ends tj' = ends tj \<Longrightarrow> life tj' = life tj \<Longrightarrow> goes (tj, w) (tj', w)"
  by (intro just_job_goes just_job_frame)

lemma measure_res: "job_res (\<lambda>_. True) (tj_measure g tj)"
  by (simp add: tj_measure_def job_res_def Let_def)

lemma update_res: "job_res (\<lambda>_. True) (tj_updateStatus env tj)"
  unfolding tj_updateStatus_def Let_def by (rule job_res_bind [OF measure_res]) simp

lemma tick_res: "job_res (\<lambda>_. True) (tj_tick env tj)"
  unfolding tj_tick_def by (rule job_res_bind [OF update_res]) (simp add: Let_def)

lemma refresh_goes:
  fixes st :: "tjob \<times> 'w tj_world_scheme"
  assumes "job_ok st"
  shows "job_res (goes st) (and_then (tj_refreshOrAlmostDone n env st) (\<lambda>(st1, _). Inr st1))"
  by (rule job_res_bind [OF refreshOrAlmostDone_ok [OF assms]])
    (auto simp: goes_def life_def life_ok_def life_step_def split: if_splits)

lemma result_goes:
  "job_ok (tj, w) \<Longrightarrow> job_res (\<lambda>_. True) r \<Longrightarrow> (\<And>tj1. r = Inr tj1 \<Longrightarrow> just_job tj tj1) \<Longrightarrow>
    job_res (goes (tj, w)) (and_then r (\<lambda>tj1. Inr (tj1, w)))"
  by (cases r) (auto simp: job_res_def just_job_goes)

text \<open>The call that follows a null pointer.\<close>

definition counts_nothing :: "job_op \<Rightarrow> tjob \<times> 'w tj_world_scheme \<Rightarrow> bool" where
  "counts_nothing op st \<longleftrightarrow> (case op of JListed source l \<Rightarrow> counts_null l st | _ \<Rightarrow> False)"

lemma call_goes:
  fixes st :: "tjob \<times> 'w tj_world_scheme"
  assumes ok: "job_ok st" and may: "job_may op (fst st)" and op: "op \<noteq> JReset" and no: "\<not> counts_nothing op st"
  shows "job_res (goes st) (job_do n env op st)"
proof -
  obtain tj w where st: "st = (tj, w)" by (cases st)
  note [simp] = ends_def life_def
  have ok': "job_ok (tj, w)" using ok by (simp only: st)
  show ?thesis
  proof (cases op)
    case (JListed source l)
    then have "\<not> counts_null l st" using no by (simp add: counts_nothing_def)
    then have "job_res (goes st) (tj_fileListUpdated env source l st)"
      by (rule job_res_mono [OF fileListUpdated_ok [OF ok]]) (rule keeps_goes)
    then show ?thesis by (simp only: JListed job_do_def Let_def job_op.case)
  next
    case (JWantLocal sub)
    then show ?thesis using wanted_goes [OF ok] may by (simp add: job_do_def job_may_def)
  next
    case JRefresh
    then show ?thesis using refresh_goes [OF ok, of n] by (simp only: job_do_def Let_def job_op.case)
  next
    case (JFailed ts)
    then show ?thesis using failed_goes [OF ok] by (simp add: job_do_def)
  next
    case JUpdate
    then show ?thesis using result_goes [OF ok' update_res update_just] by (simp add: job_do_def st)
  next
    case JTick
    then show ?thesis using result_goes [OF ok' tick_res tick_just] by (simp add: job_do_def st)
  qed (simp_all add: job_do_def st op just_job_goes [OF ok'] start_just abort_just add_just attempt_just,
      auto intro!: frame_goes [OF ok'] simp: tj_clearExisting_def tj_clearRefreshLists_def tj_setSlots_def op
        tj_addPendingTransfer_def tj_addSkippedTransfer_def tj_targetExists_def tj_tryReserveListTarget_def
        split: option.split)
qed

lemma counts_nothing_faults: "job_ok st \<Longrightarrow> counts_nothing op st \<Longrightarrow> job_do n env op st = Inl NullPointer"
  by (cases op) (simp_all add: counts_nothing_def job_do_def fileListUpdated_null)

lemma call_out:
  "job_ok st \<Longrightarrow> job_may op (fst st) \<Longrightarrow> op \<noteq> JReset \<Longrightarrow> job_out True (goes st) (job_do n env op st)"
  using call_goes [of st op n env] counts_nothing_faults [of st op n env]
  by (cases "counts_nothing op st") (auto simp: job_res_out, simp add: job_out_def)

lemma null_root:
  assumes "job_ok st"
  shows "null_local (fst st) \<longleftrightarrow> ([], None) \<in> set (tj_local (fst st))"
proof
  have root: "null_at_root (tj_local (fst st))" using assms by (simp add: job_ok_def Let_def)
  assume "null_local (fst st)"
  then obtain p where p: "p \<in> set (tj_local (fst st))" "snd p = None" unfolding null_local_def by fastforce
  from p(1) have "(fst p, None) \<in> set (tj_local (fst st))" unfolding p(2) [symmetric] prod.collapse .
  moreover from this have "fst p = []" using root by (simp add: null_at_root_def)
  ultimately show "([], None) \<in> set (tj_local (fst st))" by simp
next
  assume "([], None) \<in> set (tj_local (fst st))"
  then show "null_local (fst st)" unfolding null_local_def by (rule image_eqI [rotated]) simp
qed

lemma reach_ok: "job_reach E st \<Longrightarrow> job_ok st \<and> life_ok (fst st)"
proof (induction rule: job_reach.induct)
  case (download env n src fl srcfile dstpath dstfile w st)
  then have "fresh st" using download_fresh [of n env src fl srcfile dstpath dstfile w] by simp
  then show ?case by (simp add: fresh_def life_def life_ok_def)
next
  case (upload env n srcpath srcfile dst fl secskip dstfile w st)
  then have "fresh st" using upload_fresh [of n env srcpath srcfile dst fl secskip dstfile w] by simp
  then show ?case by (simp add: fresh_def life_def life_ok_def)
next
  case (fxp env src sfl srcfile dst dfl secskip dstfile w st)
  then have "fresh st" using fxp_fresh [of env src sfl srcfile dst dfl secskip dstfile w] by simp
  then show ?case by (simp add: fresh_def life_def life_ok_def)
next
  case (call st env op n st')
  have ok: "job_ok st" "life_ok (fst st)" using call.IH by simp_all
  show ?case
  proof (cases "op = JReset")
    case True
    then have "tj_reset n env st = Inr st'" using call.hyps(4) by (simp add: job_do_def)
    then have "job_ok st' \<and> life (fst st') = (TJ_QUEUED, False, False)" using reset_goes [OF ok(1), of n env] by simp
    then show ?thesis by (simp add: life_def life_ok_def)
  next
    case False
    from call_out [OF ok(1) call.hyps(3) this, of n env] have "goes st st'" using call.hyps(4) by simp
    then show ?thesis using ok(2) by (simp add: goes_def)
  qed
next
  case (elsewhere tj w w')
  then have ok: "job_ok (tj, w)" "life_ok tj" by simp_all
  have "job_ok (tj, w')" by (rule job_ok_same [OF ok(1)]) (use elsewhere.hyps(2) in simp_all)
  then show ?case using ok(2) by simp
qed


text \<open>
  C34. The life of a transfer job is that of the machine queued, running, then done, failed or aborted: a
  call other than the reset moves it along that order or not at all, it keeps the kind and the ends of
  the job, and it leaves the timer running exactly while the job runs.
\<close>

theorem job_life:
  fixes st :: "tjob \<times> 'w tj_world_scheme"
  assumes "job_reach E st" "job_may op (fst st)" "op \<noteq> JReset" "job_do n env op st = Inr st'"
  shows "life_step (tj_status (fst st)) (tj_status (fst st')) \<and> tj_poked (fst st') = (tj_status (fst st') = TJ_RUNNING)
    \<and> ends (fst st') = ends (fst st)"
  using call_out [OF _ assms(2,3), of n env] assms(4) reach_ok [OF assms(1)] by (simp add: goes_def life_ok_def)

text \<open>
  C36. In every history a transfer job has the lists of its kind: the root list of each end that is a site;
  between two sites, lists for the same directories; for an upload, a list at the site for each
  directory that has one here, though not the other way round; for a download nothing ties the two
  ends; every list at a site is one that has been made; and of the lists of directories here, none is
  null but perhaps that of the directory the job is about.
\<close>

theorem job_well_formed:
  fixes st :: "tjob \<times> 'w tj_world_scheme"
  assumes "job_reach E st"
  shows "job_ok st"
  using reach_ok [OF assms] by simp

subsection \<open>The verdict\<close>

text \<open>Of the transfers with the same target only the newest counts.\<close>

fun newest :: "string list \<Rightarrow> ts_info list \<Rightarrow> ts_info list" where
  "newest seen [] = []"
| "newest seen (t # ts) =
     (if ts_target t \<in> set seen then newest seen ts else t # newest (ts_target t # seen) ts)"

definition files_in :: "tjob \<Rightarrow> ts_state \<Rightarrow> ts_info list \<Rightarrow> string set" where
  "files_in tj s ts = ts_subpath tj ` {t \<in> set ts. ti_state t = s}"

lemma files_in_Cons [simp]:
  "files_in tj s (t # ts) = (if ti_state t = s then insert (ts_subpath tj t) (files_in tj s ts) else files_in tj s ts)"
  "files_in tj s [] = {}"
  by (auto simp: files_in_def)

definition gathered_ok :: "gathered \<Rightarrow> bool" where
  "gathered_ok g \<longleftrightarrow> distinct (ga_completed g) \<and> distinct (ga_failed g) \<and> distinct (ga_dupe g)
     \<and> set (ga_failed g) \<inter> set (ga_completed g) = {} \<and> set (ga_dupe g) \<inter> set (ga_completed g) = {}"

lemma gather_known: "ts_target t \<in> set (ga_targets g) \<Longrightarrow>
    gather tj t g = (if ti_state t = IN_PROGRESS then g\<lparr>ga_ongoing := True\<rparr> else g)"
  by (simp add: gather_def Let_def)

lemma gather_fields:
  fixes t :: ts_info and tj :: tjob
  defines "sub \<equiv> ts_subpath tj t"
  assumes "ts_target t \<notin> set (ga_targets g)"
  shows "ga_targets (gather tj t g) = ts_target t # ga_targets g"
    "ga_ongoing (gather tj t g) = (ti_state t = IN_PROGRESS \<or> ga_ongoing g)"
    "ga_completed (gather tj t g) = (if ti_state t = SUCCESSFUL then List.insert sub (ga_completed g) else ga_completed g)"
    "ga_failed (gather tj t g) = (if ti_state t = SUCCESSFUL then removeAll sub (ga_failed g)
       else if ti_state t = FAILED \<and> sub \<notin> set (ga_completed g) then List.insert sub (ga_failed g) else ga_failed g)"
    "ga_dupe (gather tj t g) = (if ti_state t = SUCCESSFUL then removeAll sub (ga_dupe g)
       else if ti_state t = DUPE \<and> sub \<notin> set (ga_completed g) then List.insert sub (ga_dupe g) else ga_dupe g)"
  using assms(2) by (cases "ti_state t"; simp add: gather_def sub_def Let_def)+

lemma gather_new:
  assumes new: "ts_target t \<notin> set (ga_targets g)" and ok: "gathered_ok g"
  shows "gathered_ok (gather tj t g)"
    "set (ga_completed (gather tj t g)) = files_in tj SUCCESSFUL [t] \<union> set (ga_completed g)"
    "set (ga_failed (gather tj t g)) = set (ga_failed g) \<union> files_in tj FAILED [t] - set (ga_completed (gather tj t g))"
    "set (ga_dupe (gather tj t g)) = set (ga_dupe g) \<union> files_in tj DUPE [t] - set (ga_completed (gather tj t g))"
proof -
  note f = gather_fields [OF new, of tj]
  have d: "set (ga_failed g) \<inter> set (ga_completed g) = {}" "set (ga_dupe g) \<inter> set (ga_completed g) = {}"
    using ok by (simp_all add: gathered_ok_def)
  show "gathered_ok (gather tj t g)"
    using ok by (simp add: gathered_ok_def f(3-5) distinct_removeAll) blast
  show "set (ga_completed (gather tj t g)) = files_in tj SUCCESSFUL [t] \<union> set (ga_completed g)" by (simp add: f(3))
  show "set (ga_failed (gather tj t g)) = set (ga_failed g) \<union> files_in tj FAILED [t] - set (ga_completed (gather tj t g))"
    using d(1) by (cases "ti_state t") (auto simp: f(3,4))
  show "set (ga_dupe (gather tj t g)) = set (ga_dupe g) \<union> files_in tj DUPE [t] - set (ga_completed (gather tj t g))"
    using d(2) by (cases "ti_state t") (auto simp: f(3,5))
qed

lemma gather_fold:
  assumes "gathered_ok g"
  shows "gathered_ok (fold (gather tj) ts g)
    \<and> ga_ongoing (fold (gather tj) ts g) = (ga_ongoing g \<or> (\<exists>t\<in>set ts. ti_state t = IN_PROGRESS))
    \<and> set (ga_completed (fold (gather tj) ts g)) = set (ga_completed g) \<union> files_in tj SUCCESSFUL (newest (ga_targets g) ts)
    \<and> set (ga_failed (fold (gather tj) ts g))
        = set (ga_failed g) \<union> files_in tj FAILED (newest (ga_targets g) ts) - set (ga_completed (fold (gather tj) ts g))
    \<and> set (ga_dupe (fold (gather tj) ts g))
        = set (ga_dupe g) \<union> files_in tj DUPE (newest (ga_targets g) ts) - set (ga_completed (fold (gather tj) ts g))"
  using assms(1)
proof (induction ts arbitrary: g)
  case Nil
  then show ?case by (auto simp: gathered_ok_def)
next
  case (Cons t ts)
  show ?case
  proof (cases "ts_target t \<in> set (ga_targets g)")
    case True
    let ?g = "if ti_state t = IN_PROGRESS then g\<lparr>ga_ongoing := True\<rparr> else g"
    have "gathered_ok ?g" using Cons.prems by (simp add: gathered_ok_def)
    from Cons.IH [OF this] show ?thesis using True by (auto simp: gather_known split: if_splits)
  next
    case False
    note n = gather_new [OF False Cons.prems, where tj = tj]
    from Cons.IH [OF n(1)] show ?thesis
      using False n(2-4) gather_fields(1,2) [OF False, of tj] by auto
  qed
qed

definition job_ts :: "'x job_env \<Rightarrow> tjob \<Rightarrow> ts_info list" where
  "job_ts env tj = map (je_ts env) (tj_transfers tj)"

definition job_completed :: "'x job_env \<Rightarrow> tjob \<Rightarrow> string set" where
  "job_completed env tj = files_in tj SUCCESSFUL (newest [] (job_ts env tj))"

definition job_failed :: "'x job_env \<Rightarrow> tjob \<Rightarrow> string set" where
  "job_failed env tj = files_in tj FAILED (newest [] (job_ts env tj)) - job_completed env tj"

definition job_duped :: "'x job_env \<Rightarrow> tjob \<Rightarrow> string set" where
  "job_duped env tj = files_in tj DUPE (newest [] (job_ts env tj)) - job_completed env tj"

text \<open>Every file is accounted for, nothing is being transferred and no list is waited for.\<close>

definition job_over :: "'x job_env \<Rightarrow> tjob \<Rightarrow> bool" where
  "job_over env tj \<longleftrightarrow> tj_almostdone tj \<and> \<not> list_ex (\<lambda>t. ti_state t = IN_PROGRESS) (job_ts env tj)
     \<and> tj_filestotal tj \<le> int (card (keys (tj_existing tj) \<union> job_completed env tj)
                             + card (job_duped env tj \<union> job_failed env tj))"

lemma merged_card: "merged xs ys = card (set xs \<union> set ys)"
  by (metis merged_def length_remdups_card_conv set_append)

lemma gather_all_is:
  fixes tj :: tjob and env :: "'x job_env"
  defines "g \<equiv> gather_all tj (job_ts env tj)"
  shows "gathered_ok g" "ga_ongoing g = list_ex (\<lambda>t. ti_state t = IN_PROGRESS) (job_ts env tj)"
    "set (ga_completed g) = job_completed env tj" "set (ga_failed g) = job_failed env tj" "set (ga_dupe g) = job_duped env tj"
proof -
  let ?g0 = "\<lparr>ga_size = 0, ga_moved = 0, ga_ongoing = False, ga_targets = [], ga_completed = [], ga_dupe = [], ga_failed = []\<rparr>"
  have "gathered_ok ?g0" by (simp add: gathered_ok_def)
  note f = gather_fold [OF this, where tj = tj and ts = "job_ts env tj", folded gather_all_def g_def]
  show "gathered_ok g" "ga_ongoing g = list_ex (\<lambda>t. ti_state t = IN_PROGRESS) (job_ts env tj)"
    "set (ga_completed g) = job_completed env tj" "set (ga_failed g) = job_failed env tj" "set (ga_dupe g) = job_duped env tj"
    using f by (simp_all add: job_completed_def job_failed_def job_duped_def list_ex_iff)
qed

lemma gathered_lengths:
  "gathered_ok g \<Longrightarrow> length (ga_completed g) = card (set (ga_completed g)) \<and> length (ga_failed g) = card (set (ga_failed g))"
  by (simp add: gathered_ok_def distinct_card)

lemma known_gone_existing: "keys (tj_existing (known_gone tj ts g)) = keys (tj_existing tj) - set (ga_completed g)"
  by (force simp: known_gone_def Let_def)

lemma update_verdict:
  assumes "tj_updateStatus env tj = Inr tj'" "tj_status tj = TJ_RUNNING"
  shows "tj_status tj' = (if job_over env tj
      then if card (job_completed env tj) < card (job_failed env tj) then TJ_FAILED else TJ_DONE else TJ_RUNNING)"
proof -
  define g where "g = gather_all tj (job_ts env tj)"
  note g = gather_all_is [of tj env, folded g_def]
  obtain tj1 where m: "tj_measure g (known_gone tj (job_ts env tj) g) = Inr tj1" "tj' = tj_judge g tj1"
    using assms(1) by (cases "tj_measure g (known_gone tj (job_ts env tj) g)")
      (auto simp: tj_updateStatus_def g_def job_ts_def Let_def)
  note f = measure_frame [OF m(1)]
  have "life tj1 = life tj" "tj_filestotal tj1 = tj_filestotal tj"
    "keys (tj_existing tj1) = keys (tj_existing tj) - job_completed env tj"
    using f(5-7) known_gone_existing [of tj "job_ts env tj" g] g(3) by (simp_all add: known_gone_def life_def Let_def)
  then show ?thesis
    using m(2) assms(2) gathered_lengths [OF g(1)] g(2-5)
    by (auto simp: tj_judge_def tj_setFailed_def tj_setDone_def tj_isDone_def life_def job_over_def merged_card Let_def)
qed

text \<open>
  C35. The tick of a running job ends it exactly when the final refresh is through, no transfer of it is
  in progress and the files that exist, were transferred, failed or were dupes make up all there are to
  transfer, counting the newest transfer to each target only; it has failed if more files failed than
  were transferred, and is done otherwise.
\<close>

theorem job_verdict:
  assumes "tj_tick env tj = Inr tj'" "tj_status tj = TJ_RUNNING"
  shows "tj_status tj' = (if job_over env tj
      then if card (job_completed env tj) < card (job_failed env tj) then TJ_FAILED else TJ_DONE else TJ_RUNNING)"
proof -
  obtain tj1 where "tj_updateStatus env tj = Inr tj1" "tj_status tj' = tj_status tj1"
    using assms(1) by (cases "tj_updateStatus env tj") (auto simp: tj_tick_def Let_def)
  then show ?thesis using update_verdict [OF _ assms(2), of env tj1] by simp
qed

subsection \<open>A job\<close>

definition demo_env :: "unit job_env" where
  "demo_env = \<lparr>je_disk = (\<lambda>_. Some []), je_touch = (\<lambda>_. 0), je_exists = (\<lambda>_. True), je_mkdir = (\<lambda>_. True),
     je_maxup = 1, je_maxdown = 1, je_xdupe = (\<lambda>_. False), je_check = (\<lambda>_ _ _ _. no_match SKIPLIST_ALLOW),
     je_race = (\<lambda>_ _ _ _. SKIPLIST_ALLOW), je_temp = 0, je_global = (\<lambda>_ _. no_match SKIPLIST_ALLOW), je_now = 0,
     je_ts = (\<lambda>_. \<lparr>ti_srcpath = path_new ''/a'', ti_dstpath = path_new ''/b'', ti_file = ''f'', ti_state = SUCCESSFUL,
                 ti_srcsize = 4096, ti_dstsize = 4096, ti_fls = 0, ti_fld = 1\<rparr>)\<rparr>"

definition demo_job_world :: "tj_world" where
  "demo_job_world = engine.extend demo_engine (tj_world.fields (\<lambda>_. ll_new (path_new [])) 0)"

definition demo_fxp :: "tj_fault + tjob \<times> tj_world" where
  "demo_fxp = tj_fxpJob demo_env 1 (fl_init (demo_list True) ''me'' (path_new ''/a'') LS_UNKNOWN) ''f''
     2 (fl_init (demo_list True) ''me'' (path_new ''/b'') LS_UNKNOWN) None ''f'' demo_job_world"

lemma demo_fxp_made: "\<exists>st. demo_fxp = Inr st \<and> tj_status (fst st) = TJ_QUEUED \<and> tj_kind (fst st) = TJ_FXP"
proof -
  have [simp]: "fl_getFile ''f'' (fl_init (demo_list True) ''me'' p LS_UNKNOWN) = None" for p
    by (simp add: fl_getFile_def fl_getFileCaseSensitive_def fl_init_def)
  have [simp]: "fl_state (fl_init u n p s) = s" for u n p s by (simp add: fl_init_def)
  show ?thesis
    by (simp add: demo_fxp_def tj_fxpJob_def createPrunedFileList_def new_list_def fl_lookup_def first_listing_def
        tj_init_def tj_resetValues_def refresh_now_def put_list_def on_fl_def Let_def)
qed

lemma demo_reached: "\<exists>st. job_reach {demo_env} (st :: tjob \<times> tj_world) \<and> tj_status (fst st) = TJ_QUEUED"
  using demo_fxp_made job_reach.fxp [of demo_env "{demo_env}"] unfolding demo_fxp_def by blast

text \<open>An upload from a directory that is there but cannot be read, and the list at its site comes.\<close>

definition dark_env :: "unit job_env" where
  "dark_env = demo_env\<lparr>je_disk := (\<lambda>_. None)\<rparr>"

lemma demo_dark:
  "\<exists>st :: tjob \<times> tj_world. job_reach {dark_env} st \<and> tj_kind (fst st) = TJ_UPLOAD \<and> ([], None) \<in> set (tj_local (fst st))
     \<and> tj_checkFileListExists 13 (fst st) \<and> \<not> tj_anyListNeedsRefreshing (note_listed 13 st) (snd st)
     \<and> map_of (tj_dstlists (fst st)) [] = Some 13 \<and> fl_state (w_fl (snd st) 13) = LS_LISTED"
proof -
  let ?fl = "fl_init (demo_list True) ''me'' (path_new ''/b'') LS_UNKNOWN"
  have [simp]: "fl_getFile ''f'' ?fl = None" by (simp add: fl_getFile_def fl_getFileCaseSensitive_def fl_init_def)
  have [simp]: "fl_state (fl_init u n p s) = s" for u n p s by (simp add: fl_init_def)
  have [simp]: "w_nextfl demo_job_world = 13" by (simp add: demo_job_world_def demo_engine_def engine.defs tj_world.defs)
  obtain st where st: "tj_uploadJob 9 dark_env (path_new ''/a'') ''f'' 2 ?fl None ''f'' demo_job_world = Inr st"
    "tj_kind (fst st) = TJ_UPLOAD" "tj_local (fst st) = [([], None)]" "tj_dstlists (fst st) = [([], 13)]" "tj_srclists (fst st) = []"
    "tj_refreshed (fst st) = [(13, REFRESH_NOW)]"
    by (simp add: tj_uploadJob_def createPrunedFileList_def new_list_def fl_lookup_def first_listing_def tj_init_def
        tj_resetValues_def refresh_now_def put_list_def put_local_def on_fl_def tj_updateLocalFileLists_def dark_env_def demo_env_def
        getLocalFileListPrune_def updateLocalFileListPrune_def Let_def)
  have "job_reach {dark_env} (fst st, snd st)" using job_reach.upload [of dark_env "{dark_env}", OF _ st(1)] by simp
  from job_reach.elsewhere [OF this, of "on_fl 13 (\<lambda>fl. fl\<lparr>fl_state := LS_LISTED\<rparr>) (snd st)"]
  have "job_reach {dark_env} (fst st, on_fl 13 (\<lambda>fl. fl\<lparr>fl_state := LS_LISTED\<rparr>) (snd st))" by (simp add: on_fl_def)
  then show ?thesis
    using st(2-6) by (intro exI [of _ "(fst st, on_fl 13 (\<lambda>fl. fl\<lparr>fl_state := LS_LISTED\<rparr>) (snd st))"])
      (simp add: tj_checkFileListExists_def note_listed_def on_fl_def refreshed_after_def tj_anyListNeedsRefreshing_def)
qed


theorem job_life_witness:
  "\<exists>st st' :: tjob \<times> tj_world. job_do 9 demo_env JStart st = Inr st' \<and> tj_status (fst st) = TJ_QUEUED
     \<and> tj_status (fst st') = TJ_RUNNING \<and> tj_poked (fst st')"
proof -
  obtain st :: "tjob \<times> tj_world" where st: "job_reach {demo_env} st" "tj_status (fst st) = TJ_QUEUED"
    using demo_reached by blast
  have s: "job_do 9 demo_env JStart st = Inr (tj_start (fst st), snd st)" by (simp add: job_do_def)
  have "tj_status (tj_start (fst st)) = TJ_RUNNING" using st(2) by (simp add: tj_start_def)
  moreover have "tj_poked (tj_start (fst st))"
    using job_life [OF st(1) _ _ s] calculation by (simp add: job_may_def)
  ultimately show ?thesis using st(2) s by fastforce
qed

theorem job_well_formed_witness: "\<exists>st :: tjob \<times> tj_world. job_reach {demo_env} st \<and> job_ok st"
  using demo_reached job_well_formed by blast

definition demo_running :: tjob where
  "demo_running = (tj_init demo_env TJ_FXP 1 2 (path_new ''/a'') (path_new ''/b'') ''f'' ''f'' None demo_job_world)
     \<lparr>tj_status := TJ_RUNNING, tj_almostdone := True, tj_transfers := [0], tj_filestotal := 1\<rparr>"

lemma demo_over:
  "job_over demo_env demo_running" "job_failed demo_env demo_running = {}" "tj_status demo_running = TJ_RUNNING"
  by (simp_all add: job_over_def job_failed_def job_duped_def job_completed_def job_ts_def demo_running_def demo_env_def
      tj_init_def tj_resetValues_def)

theorem job_verdict_witness: "\<exists>tj'. tj_tick demo_env demo_running = Inr tj' \<and> tj_status tj' = TJ_DONE"
proof -
  have "\<exists>tj'. tj_updateStatus demo_env demo_running = Inr tj'"
    by (simp add: tj_updateStatus_def tj_measure_def demo_running_def known_gone_def tj_init_def tj_resetValues_def Let_def)
  then obtain tj' where t: "tj_tick demo_env demo_running = Inr tj'" by (auto simp: tj_tick_def Let_def)
  then show ?thesis using job_verdict [OF t demo_over(3)] demo_over by simp
qed

end
