(* ===== verification/EnginePending.thy ===== *)
theory EnginePending
  imports TransferJobLife FileListInv
begin

text \<open>
  What the engine does for a transfer job (\<open>src/engine.cpp\<close>, \<open>src/pendingtransfer.cpp\<close> and
  \<open>src/sitetransferjob.cpp\<close>): it makes the list of the transfers that are left to do, the files with
  checksums and descriptions first, and starts the first of them that can be started.

  For an upload and a transfer between sites the verdict on a name comes from a skip list made for the
  call, a copy constructor from a pointer: it has no entries, the list of the site is the global one
  behind it, and the one of the section comes with the call.  A file list that is looked through for a
  similar file keeps the address of that skip list, which is gone after the call.
\<close>

datatype pending =
    PendDownload nat nat string nat string
  | PendUpload nat string nat nat string
  | PendFxp nat nat string nat nat string

fun pend_src_name :: "pending \<Rightarrow> string" where
  "pend_src_name (PendDownload sl fl name ll dname) = name"
| "pend_src_name (PendUpload ll name sl fl dname) = name"
| "pend_src_name (PendFxp s fls name d fld dname) = name"

definition pend_first :: "pending \<Rightarrow> bool" where
  "pend_first p \<longleftrightarrow> getExtension (pend_src_name p) \<in> {''sfv'', ''nfo''}"

definition eng_addPendingTransfer :: "pending \<Rightarrow> pending list \<Rightarrow> pending list" where
  "eng_addPendingTransfer p ps = (if pend_first p then p # ps else ps @ [p])"

type_synonym 'w pending_state = "pending list \<times> tjob \<times> 'w tj_world_scheme"

text \<open>A job about one file; \<open>ok\<close>: an entry that can be transferred.\<close>

definition one_file_job :: "string \<Rightarrow> string \<Rightarrow> tjob \<Rightarrow> bool" where
  "one_file_job sub name tj \<longleftrightarrow> sub = [] \<and> name = tj_srcfile tj"

definition sub_file :: "string \<Rightarrow> string \<Rightarrow> path" where
  "sub_file sub name = path_concat (path_new sub) (path_new name)"

text \<open>
  What skip lists say during the call, the temporary list in front of the list \<open>site\<close> among them, which is
  the one asked.
\<close>

definition temp_env :: "nat \<Rightarrow> 'x job_env \<Rightarrow> 'x job_env" where
  "temp_env site env = env\<lparr>je_check := (\<lambda>_ sec. je_check env (case sec of Some s \<Rightarrow> s | None \<Rightarrow> site) None),
     je_race := (je_race env)(je_temp env := je_race env site)\<rparr>"

text \<open>
  Why it is so: the check of a new list in front of the list \<open>site\<close>.  With the list of a section the
  list of the site is not asked at all.
\<close>

lemma temp_list_verdict:
  "sl_check rm (Suc n) temp e dir inrace (Some sec) (st(temp := sl_new_global site))
     = sl_check rm n sec e dir inrace None (st(temp := sl_new_global site))"
  "sl_check rm (Suc n) temp e dir inrace None (st(temp := sl_new_global site))
     = sl_check rm n site e dir inrace None (st(temp := sl_new_global site))"
  by (simp_all add: sl_new_global_def Let_def)

subsection \<open>Downloads\<close>

definition download_entry :: "'x job_env \<Rightarrow> string \<Rightarrow> nat \<Rightarrow> dirfile \<Rightarrow> nat option \<times> 'w pending_state \<Rightarrow>
    tj_fault + nat option \<times> 'w pending_state" where
  "download_entry env sub l f s =
     (let (dst, ps, st) = s; name = f_name f; one = one_file_job sub name (fst st)
      in if \<not> ((sub \<noteq> [] \<or> one) \<and> transferable f) then Inr s
         else
           let (dst1, st1) = (case dst of None \<Rightarrow> tj_wantedLocalDstList sub st | Some _ \<Rightarrow> (dst, st));
               (tj, w) = st1
           in and_then (deref dst1) (\<lambda>d.
                let full = p_path (path_concat (ll_path (jw_ll w d)) (path_new name)); subp = sub_file sub name
                in if tj_hasFailedTransfer full tj then Inr (dst1, ps, tj, w)
                   else if (case ll_find name (jw_ll w d) of None \<Rightarrow> True | Some lf \<Rightarrow> lf_size lf = 0) then
                     if \<not> one \<and> sm_action (je_global env full False) = SKIPLIST_DENY
                     then Inr (dst1, ps, tj_addSkippedTransfer subp (f_size f) tj, w)
                     else Inr (dst1, eng_addPendingTransfer (PendDownload (tj_src tj) l name d name) ps,
                               tj_addPendingTransfer subp (f_size f) tj, w)
                   else Inr (dst1, ps, tj_targetExists subp (f_size f) tj, w)))"

definition download_list :: "'x job_env \<Rightarrow> string \<times> nat \<Rightarrow> 'w pending_state \<Rightarrow> tj_fault + 'w pending_state" where
  "download_list env p s =
     and_then (fold_until (download_entry env (fst p) (snd p)) (fl_view (w_fl (snd (snd s)) (snd p)))
                 (tj_findLocalFileList (fst p) (fst (snd s)), s)) (\<lambda>(_, s1). Inr s1)"

subsection \<open>Uploads and transfers between sites\<close>

text \<open>Whether the list at the destination says yet what is there.\<close>

definition known_list :: "filelist \<Rightarrow> bool" where
  "known_list fl \<longleftrightarrow> fl_state fl \<noteq> LS_UNKNOWN \<and> fl_state fl \<noteq> LS_EXISTS"

definition remote_entry :: "'x regex_match \<Rightarrow> 'x job_env \<Rightarrow> string \<Rightarrow> nat \<Rightarrow> string \<Rightarrow> u64 \<Rightarrow> pending \<Rightarrow>
    'w pending_state \<Rightarrow> 'w pending_state" where
  "remote_entry rm env sub d name sz pend s =
     (let (ps, tj, w) = s; one = one_file_job sub name tj; subp = sub_file sub name
      in if fl_getFile name (w_fl w d) \<noteq> None then (ps, tj_targetExists subp sz tj, w)
         else if tj_hasFailedTransfer (p_path (path_concat (fl_path (w_fl w d)) (path_new name))) tj then s
         else
           let (w1, skipped) = (if one then (w, False)
                 else job_skipped (temp_env (x_skip (en_site w (tj_dst tj))) env) tj (je_temp env) d name
                        (\<lambda>m fl. engine_containsPattern rm fl m False) w)
           in if skipped then (ps, tj_addSkippedTransfer subp sz tj, w1)
              else (eng_addPendingTransfer pend ps, tj_addPendingTransfer subp sz tj, w1))"

text \<open>The address a list is left with.\<close>

lemma temp_stays:
  assumes "sm_action (je_check env' (je_temp env) (tj_secskip tj) (p_path (path_concat (fl_path (w_fl w d)) (path_new name))) False)
      = SKIPLIST_SIMILAR" "\<not> fl_similarchecked (w_fl w d)"
  shows "fl_siteskip (w_fl (fst (job_skipped env' tj (je_temp env) d name matches w)) d) = Some (je_temp env)"
proof -
  obtain x where "fl_checkSimilar (je_race env') (Some (je_temp env)) None (w_fl w d)
      = (w_fl w d)\<lparr>fl_similarchecked := True, fl_siteskip := Some (je_temp env), fl_sectionskip := None, fl_firstsimilar := x\<rparr>"
    using checkSimilar_is by blast
  then show ?thesis using assms by (simp add: job_skipped_def on_fl_def Let_def)
qed

definition upload_entry :: "'x regex_match \<Rightarrow> 'x job_env \<Rightarrow> string \<Rightarrow> nat \<Rightarrow> nat \<Rightarrow> string \<times> local_file \<Rightarrow>
    'w pending_state \<Rightarrow> 'w pending_state" where
  "upload_entry rm env sub ll d e s =
     (let (name, f) = e; tj = fst (snd s)
      in if (sub \<noteq> [] \<or> one_file_job sub name tj) \<and> lf_wanted f
         then remote_entry rm env sub d name (lf_size f) (PendUpload ll name (tj_dst tj) d name) s else s)"

definition upload_list :: "'x regex_match \<Rightarrow> 'x job_env \<Rightarrow> string \<times> nat option \<Rightarrow> 'w pending_state \<Rightarrow> tj_fault + 'w pending_state" where
  "upload_list rm env p s =
     (let (ps, tj, w) = s
      in case tj_findDstList (fst p) tj of
           None \<Rightarrow> Inr s
         | Some d \<Rightarrow>
             if \<not> known_list (w_fl w d) then Inr s
             else and_then (deref (snd p)) (\<lambda>ll. Inr (fold (upload_entry rm env (fst p) ll d) (ll_files (jw_ll w ll)) s)))"

definition fxp_entry :: "'x regex_match \<Rightarrow> 'x job_env \<Rightarrow> string \<Rightarrow> nat \<Rightarrow> nat \<Rightarrow> dirfile \<Rightarrow> 'w pending_state \<Rightarrow> 'w pending_state" where
  "fxp_entry rm env sub l d f s =
     (let tj = fst (snd s); name = f_name f
      in if (sub \<noteq> [] \<or> one_file_job sub name tj) \<and> transferable f
         then remote_entry rm env sub d name (f_size f) (PendFxp (tj_src tj) l name (tj_dst tj) d name) s else s)"

definition fxp_list :: "'x regex_match \<Rightarrow> 'x job_env \<Rightarrow> string \<times> nat \<Rightarrow> 'w pending_state \<Rightarrow> 'w pending_state" where
  "fxp_list rm env p s =
     (let (ps, tj, w) = s
      in case tj_findDstList (fst p) tj of
           None \<Rightarrow> s
         | Some d \<Rightarrow>
             if \<not> known_list (w_fl w d) then s
             else fold (fxp_entry rm env (fst p) (snd p) d) (fl_view (w_fl w (snd p))) s)"

definition pending_loop :: "'x regex_match \<Rightarrow> 'x job_env \<Rightarrow> 'w pending_state \<Rightarrow> tj_fault + 'w pending_state" where
  "pending_loop rm env s =
     (let tj = fst (snd s)
      in case tj_kind tj of
           TJ_DOWNLOAD \<Rightarrow> fold_until (download_list env) (tj_srclists tj) s
         | TJ_UPLOAD \<Rightarrow> fold_until (upload_list rm env) (tj_local tj) s
         | TJ_FXP \<Rightarrow> Inr (fold (fxp_list rm env) (tj_srclists tj) s))"

definition refreshPendingTransferList :: "'x regex_match \<Rightarrow> 'x job_env \<Rightarrow> tjob \<times> 'w tj_world_scheme \<Rightarrow> tj_fault + 'w pending_state" where
  "refreshPendingTransferList rm env st =
     and_then (pending_loop rm env ([], tj_clearExisting (fst st), snd st)) (\<lambda>(ps, tj1, w1).
       and_then (tj_updateStatus env tj1) (\<lambda>tj2. Inr (ps, tj2, w1)))"

subsection \<open>Starting a transfer\<close>

text \<open>What the sites, the local storage and the transfer manager answer.\<close>

record slots_env =
  se_down :: "nat \<Rightarrow> bool"
  se_up :: "nat \<Rightarrow> bool"
  se_localdown :: bool
  se_localup :: bool
  se_slots :: "nat \<Rightarrow> int"
  se_attempt :: "pending \<Rightarrow> nat option"

fun pend_slots :: "slots_env \<Rightarrow> pending \<Rightarrow> bool" where
  "pend_slots se (PendDownload sl fl name ll dname) \<longleftrightarrow> se_down se sl \<and> se_localdown se"
| "pend_slots se (PendUpload ll name sl fl dname) \<longleftrightarrow> se_up se sl \<and> se_localup se"
| "pend_slots se (PendFxp s fls name d fld dname) \<longleftrightarrow>
     se_down se s \<and> se_up se d \<and> \<not> (d = s \<and> se_slots se d < 2)"

fun start_first :: "slots_env \<Rightarrow> 'x job_env \<Rightarrow> pending list \<Rightarrow> tjob \<Rightarrow> tjob \<times> bool" where
  "start_first se env [] tj = (tj, False)"
| "start_first se env (p # ps) tj =
     (if \<not> pend_slots se p then (tj, False)
      else case se_attempt se p of
             Some ts \<Rightarrow> (tj_addTransfer env (Some ts) tj, True)
           | None \<Rightarrow> start_first se env ps tj)"

definition otherWantsList :: "bool \<Rightarrow> tjob \<Rightarrow> 'w world_scheme \<Rightarrow> bool" where
  "otherWantsList source tj w \<longleftrightarrow> tj_src tj \<noteq> tj_dst tj \<and> tj_getListTargets (\<not> source) tj w \<noteq> []"

text \<open>The result is whether the site has something to do for the job now.\<close>

definition act_on_pending :: "nat \<Rightarrow> slots_env \<Rightarrow> 'x job_env \<Rightarrow> bool \<Rightarrow> 'w pending_state \<Rightarrow>
    tj_fault + (tjob \<times> 'w tj_world_scheme) \<times> bool" where
  "act_on_pending n se env source s =
     (if fst s = [] then
        and_then (tj_refreshOrAlmostDone n env (snd s)) (\<lambda>(st1, again).
          Inr (st1, again \<and> \<not> (tj_kind (fst st1) = TJ_FXP \<and> otherWantsList source (fst st1) (snd st1))))
      else
        let (tj1, started) = start_first se env (fst s) (tj_clearRefreshLists (fst (snd s)))
        in Inr ((if started \<and> tj_status tj1 = TJ_QUEUED then tj_start tj1 else tj1, snd (snd s)), started))"

definition transferJobActionRequest :: "'x regex_match \<Rightarrow> nat \<Rightarrow> slots_env \<Rightarrow> 'x job_env \<Rightarrow> bool \<Rightarrow> tjob \<times> 'w tj_world_scheme \<Rightarrow>
    tj_fault + (tjob \<times> 'w tj_world_scheme) \<times> bool" where
  "transferJobActionRequest rm n se env source st =
     (if tj_kind (fst st) = TJ_FXP \<and> otherWantsList source (fst st) (snd st) then Inr (st, False)
      else and_then (refreshPendingTransferList rm env st) (act_on_pending n se env source))"

subsection \<open>The engine as a user of jobs\<close>

definition kept :: "(tjob \<times> 'w tj_world_scheme \<Rightarrow> bool) \<Rightarrow> tj_kind \<Rightarrow> 'w pending_state \<Rightarrow> bool" where
  "kept I k s \<longleftrightarrow> I (snd s) \<and> tj_kind (fst (snd s)) = k"

lemma kind_simps [simp]:
  "tj_kind (tj_addPendingTransfer p sz tj) = tj_kind tj" "tj_kind (tj_addSkippedTransfer p sz tj) = tj_kind tj"
  "tj_kind (tj_targetExists p sz tj) = tj_kind tj" "tj_kind (fst (snd (tj_wantedLocalDstList sub st))) = tj_kind (fst st)"
  by (simp_all add: tj_addPendingTransfer_def tj_addSkippedTransfer_def tj_targetExists_def tj_wantedLocalDstList_def
      put_local_def case_prod_beta split: option.split)

text \<open>
  What the engine relies on: the calls it makes of a job keep \<open>inv\<close>, and a local list is null only if
  \<open>nulls\<close>.
\<close>

locale job_user =
  fixes env :: "'x job_env" and inv :: "tjob \<times> 'w tj_world_scheme \<Rightarrow> bool" and nulls :: bool
  assumes pending: "inv (tj, w) \<Longrightarrow> inv (tj_addPendingTransfer p sz tj, w)"
    and skipped: "inv (tj, w) \<Longrightarrow> inv (tj_addSkippedTransfer p sz tj, w)"
    and target: "inv (tj, w) \<Longrightarrow> inv (tj_targetExists p sz tj, w)"
    and looked: "inv (tj, w) \<Longrightarrow> inv (tj, fst (job_skipped (temp_env site env) tj skip l name matches w))"
    and wanted: "inv st \<Longrightarrow> tj_kind (fst st) = TJ_DOWNLOAD \<Longrightarrow>
      inv (snd (tj_wantedLocalDstList sub st)) \<and> (fst (tj_wantedLocalDstList sub st) = None \<longrightarrow> nulls)"
    and locals: "inv (tj, w) \<Longrightarrow> null_local tj \<Longrightarrow> nulls"
begin

lemma download_entry_keeps:
  assumes "kept inv TJ_DOWNLOAD (snd s)"
  shows "job_out nulls (\<lambda>s1. kept inv TJ_DOWNLOAD (snd s1)) (download_entry env sub l f s)"
proof -
  obtain dst ps st where s: "s = (dst, ps, st)" by (cases s)
  define r where "r = (case dst of None \<Rightarrow> tj_wantedLocalDstList sub st | Some _ \<Rightarrow> (dst, st))"
  obtain p tj w where r': "r = (p, tj, w)" by (cases r)
  have st: "inv st" "tj_kind (fst st) = TJ_DOWNLOAD" using assms by (simp_all add: kept_def s)
  have ok: "inv (tj, w)" "tj_kind tj = TJ_DOWNLOAD" "p = None \<longrightarrow> nulls"
    using st wanted [OF st, of sub] kind_simps(4) [of sub st] r'
    by (cases dst; cases "tj_wantedLocalDstList sub st"; auto simp: r_def)+
  show ?thesis
  proof (cases p)
    case None
    then show ?thesis
      using assms ok(3) unfolding download_entry_def s Let_def prod.case r_def [symmetric] r'
      by (simp add: deref_def job_out_def kept_def)
  next
    case (Some d)
    then show ?thesis
      using ok(1,2) assms unfolding download_entry_def s Let_def prod.case r_def [symmetric] r'
      by (simp add: deref_def kept_def pending skipped target s)
  qed
qed

lemma download_list_keeps: "kept inv TJ_DOWNLOAD s \<Longrightarrow> job_out nulls (kept inv TJ_DOWNLOAD) (download_list env p s)"
  unfolding download_list_def
  by (rule job_out_bind [OF job_out_fold [where P = "\<lambda>s1. kept inv TJ_DOWNLOAD (snd s1)"]])
    (auto intro: download_entry_keeps)

lemma remote_entry_keeps: "kept inv k s \<Longrightarrow> kept inv k (remote_entry rm env sub d name sz pend s)"
  by (cases s) (simp add: remote_entry_def kept_def pending skipped target looked case_prod_beta Let_def)

lemma kept_fold: "(\<And>x s. kept inv k s \<Longrightarrow> kept inv k (f x s)) \<Longrightarrow> kept inv k s \<Longrightarrow> kept inv k (fold f xs s)"
  by (induction xs arbitrary: s) simp_all

lemma fxp_list_keeps: "kept inv k s \<Longrightarrow> kept inv k (fxp_list rm env p s)"
  by (cases s) (auto simp: fxp_list_def Let_def fxp_entry_def split: option.split intro!: kept_fold remote_entry_keeps)

lemma upload_list_keeps:
  assumes "kept inv k s" "snd p = None \<Longrightarrow> nulls"
  shows "job_out nulls (kept inv k) (upload_list rm env p s)"
proof (cases "snd p")
  case None
  then show ?thesis
    using assms by (cases s) (simp add: upload_list_def deref_def job_out_def Let_def split: option.split)
next
  case (Some ll)
  then show ?thesis
    using assms by (cases s) (auto simp: upload_list_def Let_def upload_entry_def deref_def case_prod_beta split: option.split
      intro!: kept_fold remote_entry_keeps)
qed

lemma pending_loop_keeps:
  assumes "kept inv k s"
  shows "job_out (nulls \<and> k \<noteq> TJ_FXP) (kept inv k) (pending_loop rm env s)"
proof -
  have kind: "tj_kind (fst (snd s)) = k" and i: "inv (fst (snd s), snd (snd s))" using assms by (simp_all add: kept_def)
  show ?thesis
  proof (cases k)
    case TJ_DOWNLOAD
    have "job_out nulls (kept inv TJ_DOWNLOAD) (fold_until (download_list env) (tj_srclists (fst (snd s))) s)"
      using assms unfolding TJ_DOWNLOAD by (rule job_out_fold) (rule download_list_keeps)
    then show ?thesis using kind TJ_DOWNLOAD by (simp add: pending_loop_def Let_def)
  next
    case TJ_UPLOAD
    have "nulls" if "p \<in> set (tj_local (fst (snd s)))" "snd p = None" for p
      using locals [OF i] image_eqI [of None snd p, OF _ that(1)] that(2) by (simp add: null_local_def)
    then have "job_out nulls (kept inv k) (fold_until (upload_list rm env) (tj_local (fst (snd s))) s)"
      using assms by (intro job_out_fold upload_list_keeps)
    then show ?thesis using kind TJ_UPLOAD by (simp add: pending_loop_def Let_def)
  next
    case TJ_FXP
    have "kept inv k (fold (fxp_list rm env) (tj_srclists (fst (snd s))) s)"
      by (rule kept_fold [OF fxp_list_keeps assms])
    then show ?thesis using kind TJ_FXP by (simp add: pending_loop_def Let_def)
  qed
qed

end

text \<open>The laws hold of the histories of a job.\<close>

definition in_history :: "'x job_env set \<Rightarrow> 'x job_env \<Rightarrow> bool \<Rightarrow> tjob \<times> 'w tj_world_scheme \<Rightarrow> bool" where
  "in_history E env N st \<longleftrightarrow> env \<in> E \<and> job_reach E st \<and> null_local (fst st) = N"

lemma history_call:
  assumes "in_history E env N st" "job_do n env op st = Inr st'" "null_local (fst st') = null_local (fst st)"
    and "\<And>sub. op = JWantLocal sub \<Longrightarrow> tj_kind (fst st) = TJ_DOWNLOAD"
  shows "in_history E env N st'"
proof -
  have h: "env \<in> E" "job_reach E st" "null_local (fst st) = N" using assms(1) by (simp_all add: in_history_def)
  have "job_may op (fst st)" using assms(4) by (cases op) (simp_all add: job_may_def)
  from job_reach.call [OF h(2,1) this assms(2)] show ?thesis using h(1,3) assms(3) by (simp add: in_history_def)
qed

lemma wanted_null: "fst (tj_wantedLocalDstList sub st) = None \<Longrightarrow> null_local (fst st)"
  by (auto simp: tj_wantedLocalDstList_def new_local_def null_local_def split: option.splits dest!: map_of_SomeD) force

lemma fresh_key_update: "map_of xs k = None \<Longrightarrow> set (AList.update k v xs) = insert (k, v) (set xs)"
  by (induction xs) (auto split: if_splits)

lemma wanted_same_null: "null_local (fst (snd (tj_wantedLocalDstList sub st))) = null_local (fst st)"
  by (auto simp: tj_wantedLocalDstList_def put_local_def null_local_def fresh_key_update case_prod_beta split: option.split)

interpretation history: job_user env "in_history E env N" N for E env N
proof unfold_locales
  fix tj and w :: "'b tj_world_scheme" and p sz site skip l name and matches :: "'a skip_match \<Rightarrow> filelist \<Rightarrow> bool"
  assume h: "in_history E env N (tj, w)"
  show "in_history E env N (tj_addPendingTransfer p sz tj, w)"
    by (rule history_call [OF h, of 0 "JPending p sz"]) (simp_all add: job_do_def null_local_def tj_addPendingTransfer_def)
  show "in_history E env N (tj_addSkippedTransfer p sz tj, w)"
    by (rule history_call [OF h, of 0 "JSkipped p sz"]) (simp_all add: job_do_def null_local_def tj_addSkippedTransfer_def)
  show "in_history E env N (tj_targetExists p sz tj, w)"
    by (rule history_call [OF h, of 0 "JTarget p sz"]) (simp_all add: job_do_def null_local_def tj_targetExists_def)
  show "in_history E env N (tj, fst (job_skipped (temp_env site env) tj skip l name matches w))"
    using h job_skipped_store [of "temp_env site env" tj skip l name matches w]
    by (auto simp: in_history_def intro: job_reach.elsewhere)
  show "N" if "null_local tj" using h that by (simp add: in_history_def)
next
  fix st :: "tjob \<times> 'b tj_world_scheme" and sub
  assume h: "in_history E env N st" and k: "tj_kind (fst st) = TJ_DOWNLOAD"
  have "in_history E env N (snd (tj_wantedLocalDstList sub st))"
    by (rule history_call [OF h, of 0 "JWantLocal sub"]) (simp_all add: job_do_def k wanted_same_null)
  then show "in_history E env N (snd (tj_wantedLocalDstList sub st)) \<and> (fst (tj_wantedLocalDstList sub st) = None \<longrightarrow> N)"
    using wanted_null [of sub st] h by (simp add: in_history_def)
qed

lemma refreshPending_history:
  fixes st :: "tjob \<times> 'w tj_world_scheme"
  assumes "in_history E env N st"
  shows "job_out (N \<and> tj_kind (fst st) \<noteq> TJ_FXP) (\<lambda>s. in_history E env N (snd s)) (refreshPendingTransferList rm env st)"
proof -
  have "in_history E env N (tj_clearExisting (fst st), snd st)"
    by (rule history_call [OF assms, of 0 "JClearExisting"]) (simp_all add: job_do_def null_local_def tj_clearExisting_def)
  then have "kept (in_history E env N) (tj_kind (fst st)) ([], tj_clearExisting (fst st), snd st)"
    by (simp add: kept_def tj_clearExisting_def)
  from history.pending_loop_keeps [OF this, of rm]
  have "job_out (N \<and> tj_kind (fst st) \<noteq> TJ_FXP) (\<lambda>s. in_history E env N (snd s))
      (pending_loop rm env ([], tj_clearExisting (fst st), snd st))"
    by (rule job_out_mono) (simp add: kept_def)
  moreover have "job_out c (\<lambda>s. in_history E env N (snd s)) (and_then (tj_updateStatus env (fst (snd s))) (\<lambda>tj2. Inr (fst s, tj2, snd (snd s))))"
    if h: "in_history E env N (snd s)" for c and s :: "'w pending_state"
  proof (cases "tj_updateStatus env (fst (snd s))")
    case (Inl e)
    then show ?thesis using update_res [of env "fst (snd s)"] by (auto simp: job_res_def job_out_def)
  next
    case (Inr tj2)
    have "tj_local tj2 = tj_local (fst (snd s))" using update_just [OF Inr] by (simp add: just_job_def)
    then have "in_history E env N (tj2, snd (snd s))"
      using history_call [OF h, of 0 JUpdate "(tj2, snd (snd s))"] Inr by (simp add: job_do_def null_local_def)
    then show ?thesis using Inr by simp
  qed
  ultimately show ?thesis
    unfolding refreshPendingTransferList_def case_prod_beta by (rule job_out_bind)
qed

lemma start_first_history:
  "in_history E env N (tj, w) \<Longrightarrow> in_history E env N (fst (start_first se env ps tj), w)"
proof (induction ps arbitrary: tj)
  case (Cons p ps)
  have "in_history E env N (tj_addTransfer env (Some ts) tj, w)" for ts
    by (rule history_call [OF Cons.prems, of 0 "JAdd (Some ts)"]) (simp_all add: job_do_def null_local_def tj_addTransfer_def Let_def)
  then show ?case using Cons by (auto split: option.split)
qed simp

text \<open>What the loop over the lists reads of a job and of a file list.\<close>

definition read_of_job where
  "read_of_job tj = (tj_srclists tj, tj_dstlists tj, tj_src tj, tj_dst tj, tj_srcfile tj, tj_attempts tj)"

definition read_of_list where
  "read_of_list fl = (fl_view fl, fl_files fl, fl_lower fl, fl_path fl, fl_state fl)"

definition reads_same :: "tjob \<times> 'w tj_world_scheme \<Rightarrow> tjob \<times> 'w tj_world_scheme \<Rightarrow> bool" where
  "reads_same st st' \<longleftrightarrow> read_of_job (fst st') = read_of_job (fst st)
     \<and> (\<forall>l. read_of_list (w_fl (snd st') l) = read_of_list (w_fl (snd st) l))"

lemma checkSimilar_reads: "read_of_list (fl_checkSimilar sk s1 s2 fl) = read_of_list fl"
  using checkSimilar_is [of sk s1 s2 fl] by (auto simp: read_of_list_def fl_view_def fl_obj_def [abs_def])

lemma job_skipped_reads:
  "read_of_list (w_fl (fst (job_skipped env tj skip l name matches w)) x) = read_of_list (w_fl w x)"
  by (simp add: job_skipped_def on_fl_def checkSimilar_reads Let_def)

lemma reads_simps [simp]:
  "read_of_job (tj_addPendingTransfer p sz tj) = read_of_job tj" "read_of_job (tj_addSkippedTransfer p sz tj) = read_of_job tj"
  "read_of_job (tj_targetExists p sz tj) = read_of_job tj" "read_of_job (tj_clearExisting tj) = read_of_job tj"
  by (simp_all add: read_of_job_def tj_addPendingTransfer_def tj_addSkippedTransfer_def tj_targetExists_def tj_clearExisting_def)

lemma remote_entry_reads: "reads_same (snd s) (snd (remote_entry rm env sub d name sz pend s))"
  by (cases s) (simp add: remote_entry_def reads_same_def job_skipped_reads case_prod_beta Let_def)

lemma reads_same_fold: "(\<And>x s. reads_same (snd s) (snd (f x s))) \<Longrightarrow> reads_same (snd s) (snd (fold f xs s))"
proof (induction xs arbitrary: s)
  case (Cons x xs)
  from Cons.prems [of s x] Cons.IH [OF Cons.prems, of "f x s"] show ?case by (simp add: reads_same_def)
qed (simp add: reads_same_def)

lemma upload_entry_reads: "reads_same (snd s) (snd (upload_entry rm env sub ll d e s))"
proof -
  have "reads_same (snd s) (snd s)" by (simp add: reads_same_def)
  then show ?thesis by (simp add: upload_entry_def case_prod_beta Let_def remote_entry_reads)
qed

lemma upload_list_result:
  assumes "snd p = Some ll"
  obtains s1 where "upload_list rm env p s = Inr s1" "reads_same (snd s) (snd s1)"
proof (cases "\<exists>d. tj_findDstList (fst p) (fst (snd s)) = Some d \<and> known_list (w_fl (snd (snd s)) d)")
  case True
  then obtain d where "tj_findDstList (fst p) (fst (snd s)) = Some d" "known_list (w_fl (snd (snd s)) d)" by blast
  then have "upload_list rm env p s = Inr (fold (upload_entry rm env (fst p) ll d) (ll_files (jw_ll (snd (snd s)) ll)) s)"
    using assms by (cases s) (simp add: upload_list_def deref_def Let_def)
  then show thesis by (rule that) (rule reads_same_fold [OF upload_entry_reads])
next
  case False
  then have "upload_list rm env p s = Inr s"
    by (cases s) (auto simp: upload_list_def Let_def split: option.split)
  then show thesis by (rule that) (simp add: reads_same_def)
qed

text \<open>A null list here is followed if the list at the destination is known.\<close>

lemma null_at_rootD: "null_at_root xs \<Longrightarrow> (sub, None) \<in> set xs \<Longrightarrow> sub = []"
  unfolding null_at_root_def by blast

lemma null_at_root_Cons: "null_at_root (p # xs) \<Longrightarrow> null_at_root xs"
  unfolding null_at_root_def by simp

lemma uploads_fault:
  assumes "([], None) \<in> set xs" "null_at_root xs" "map_of (tj_dstlists (fst (snd s))) [] = Some d" "known_list (w_fl (snd (snd s)) d)"
  shows "fold_until (upload_list rm env) xs s = Inl NullPointer"
  using assms
proof (induction xs arbitrary: s)
  case (Cons p xs)
  show ?case
  proof (cases "snd p")
    case None
    then have "p = (fst p, None)" by (metis prod.collapse)
    moreover from this have "fst p = []" by (intro null_at_rootD [OF Cons.prems(2)]) (metis list.set_intros(1))
    ultimately have "p = ([], None)" by metis
    then have "upload_list rm env p s = Inl NullPointer"
      using Cons.prems(3,4) by (cases s) (simp add: upload_list_def tj_findDstList_def deref_def Let_def)
    then show ?thesis by simp
  next
    case (Some ll)
    obtain s1 where s1: "upload_list rm env p s = Inr s1" "reads_same (snd s) (snd s1)"
      using upload_list_result [OF Some] .
    have "tj_dstlists (fst (snd s1)) = tj_dstlists (fst (snd s))" "fl_state (w_fl (snd (snd s1)) d) = fl_state (w_fl (snd (snd s)) d)"
      using s1(2) by (simp_all add: reads_same_def read_of_job_def read_of_list_def)
    moreover have "([], None) \<in> set xs" "null_at_root xs" using Cons.prems(1) Some null_at_root_Cons [OF Cons.prems(2)] by auto
    ultimately have "fold_until (upload_list rm env) xs s1 = Inl NullPointer"
      using Cons.prems(3,4) by (intro Cons.IH) (simp_all add: known_list_def)
    then show ?thesis using s1(1) by simp
  qed
qed simp

lemma action_faults:
  fixes st :: "tjob \<times> 'w tj_world_scheme"
  assumes "job_ok st" "tj_kind (fst st) = TJ_UPLOAD" "([], None) \<in> set (tj_local (fst st))"
    "map_of (tj_dstlists (fst st)) [] = Some d" "known_list (w_fl (snd st) d)"
  shows "transferJobActionRequest rm n se env source st = Inl NullPointer"
proof -
  have "null_at_root (tj_local (fst st))" using assms(1) by (simp add: job_ok_def Let_def)
  from uploads_fault [OF assms(3) this, of "([], tj_clearExisting (fst st), snd st)" d rm env]
  have "pending_loop rm env ([], tj_clearExisting (fst st), snd st) = Inl NullPointer"
    using assms(2,4,5) by (simp add: pending_loop_def tj_clearExisting_def)
  then show ?thesis using assms(2) by (simp add: transferJobActionRequest_def refreshPendingTransferList_def)
qed

text \<open>
  C37. When a site asks the engine what to do for a transfer job, the engine makes its calls of the job
  as the job's contract has it: whatever the disk shows, the request asks a map for no list that is not
  there, and what it leaves of the job is again a history of it.  It follows a null pointer at most for
  a job with an end here whose directory here could not be read when the job first looked for it; and
  for such an upload it does, once the list of the directory at the site is known.
\<close>

theorem job_action_safe:
  fixes st :: "tjob \<times> 'w tj_world_scheme"
  assumes "env \<in> E" "job_reach E st"
  shows "transferJobActionRequest rm n se env source st \<noteq> Inl OutOfRange
    \<and> (transferJobActionRequest rm n se env source st = Inl NullPointer \<longrightarrow>
         tj_kind (fst st) \<noteq> TJ_FXP \<and> ([], None) \<in> set (tj_local (fst st)))
    \<and> (tj_kind (fst st) = TJ_UPLOAD \<and> ([], None) \<in> set (tj_local (fst st))
         \<and> (\<exists>d. map_of (tj_dstlists (fst st)) [] = Some d \<and> known_list (w_fl (snd st) d))
       \<longrightarrow> transferJobActionRequest rm n se env source st = Inl NullPointer)
    \<and> (\<forall>st' again. transferJobActionRequest rm n se env source st = Inr (st', again) \<longrightarrow> job_reach E st')"
proof -
  let ?N = "null_local (fst st)" and ?c = "null_local (fst st) \<and> tj_kind (fst st) \<noteq> TJ_FXP"
  have h: "in_history E env ?N st" using assms by (simp add: in_history_def)
  have act: "job_out ?c (\<lambda>(st', again). job_reach E st') (act_on_pending n se env source s)"
    if h1: "in_history E env ?N (snd s)" for s :: "'w pending_state"
  proof (cases "fst s = []")
    case True
    have r: "job_reach E (snd s)" using h1 by (simp add: in_history_def)
    have "job_ok (snd s)" using r reach_ok [of E "snd s"] by simp
    from refreshOrAlmostDone_ok [OF this, of n env]
    have "job_res (\<lambda>_. True) (tj_refreshOrAlmostDone n env (snd s))" by (rule job_res_mono) simp
    then show ?thesis
      using True job_reach.call [OF r assms(1), of JRefresh n]
      by (cases "tj_refreshOrAlmostDone n env (snd s)") (auto simp: job_res_def job_out_def job_do_def job_may_def act_on_pending_def)
  next
    case False
    have "in_history E env ?N (tj_clearRefreshLists (fst (snd s)), snd (snd s))"
      by (rule history_call [OF h1, of 0 JClearRefresh]) (simp_all add: job_do_def null_local_def tj_clearRefreshLists_def)
    from start_first_history [OF this, of se "fst s"]
    have h2: "in_history E env ?N (fst (start_first se env (fst s) (tj_clearRefreshLists (fst (snd s)))), snd (snd s))" .
    have "in_history E env ?N (tj_start (fst (start_first se env (fst s) (tj_clearRefreshLists (fst (snd s))))), snd (snd s))"
      by (rule history_call [OF h2, of 0 JStart]) (simp_all add: job_do_def null_local_def tj_start_def)
    with h2 False show ?thesis by (simp add: act_on_pending_def case_prod_beta in_history_def)
  qed
  have "job_out ?c (\<lambda>(st', again). job_reach E st') (transferJobActionRequest rm n se env source st)"
    using job_out_bind [OF refreshPending_history [OF h, of rm] act] assms(2) by (simp add: transferJobActionRequest_def)
  moreover have "null_local (fst st) \<longleftrightarrow> ([], None) \<in> set (tj_local (fst st))" using reach_ok [OF assms(2)] null_root by blast
  moreover have "\<forall>d. tj_kind (fst st) = TJ_UPLOAD \<and> ([], None) \<in> set (tj_local (fst st))
      \<and> map_of (tj_dstlists (fst st)) [] = Some d \<and> known_list (w_fl (snd st) d)
      \<longrightarrow> transferJobActionRequest rm n se env source st = Inl NullPointer"
    using action_faults reach_ok [OF assms(2)] by blast
  ultimately show ?thesis by (cases "transferJobActionRequest rm n se env source st") (auto simp: job_out_def)
qed

subsection \<open>What is pending\<close>

text \<open>The list of pending transfers has those of files with checksums and descriptions in front.\<close>

definition first_in_front :: "pending list \<Rightarrow> bool" where
  "first_in_front ps \<longleftrightarrow> (\<exists>xs ys. ps = xs @ ys \<and> list_all pend_first xs \<and> list_all (\<lambda>p. \<not> pend_first p) ys)"

lemma first_in_front_add: "first_in_front ps \<Longrightarrow> first_in_front (eng_addPendingTransfer p ps)"
proof -
  assume "first_in_front ps"
  then obtain xs ys where ps: "ps = xs @ ys" "list_all pend_first xs" "list_all (\<lambda>p. \<not> pend_first p) ys"
    by (auto simp: first_in_front_def)
  show ?thesis
  proof (cases "pend_first p")
    case True
    then show ?thesis
      using ps unfolding first_in_front_def eng_addPendingTransfer_def
      by (intro exI [of _ "p # xs"] exI [of _ ys]) simp
  next
    case False
    then show ?thesis
      using ps unfolding first_in_front_def eng_addPendingTransfer_def
      by (intro exI [of _ xs] exI [of _ "ys @ [p]"]) simp
  qed
qed

lemma set_addPending [simp]: "set (eng_addPendingTransfer p ps) = insert p (set ps)"
  by (simp add: eng_addPendingTransfer_def)

text \<open>A file that is to be moved between the sites of a job: the destination has its list, but not the file.\<close>

definition due_fxp :: "tjob \<times> 'w tj_world_scheme \<Rightarrow> string \<Rightarrow> nat \<Rightarrow> nat \<Rightarrow> dirfile \<Rightarrow> bool" where
  "due_fxp st sub s d f \<longleftrightarrow>
     (let (tj, w) = st
      in (sub, s) \<in> set (tj_srclists tj) \<and> map_of (tj_dstlists tj) sub = Some d \<and> known_list (w_fl w d)
         \<and> f \<in> set (fl_view (w_fl w s)) \<and> transferable f \<and> fl_getFile (f_name f) (w_fl w d) = None
         \<and> \<not> tj_hasFailedTransfer (p_path (path_concat (fl_path (w_fl w d)) (path_new (f_name f)))) tj
         \<and> (sub = [] \<longrightarrow> f_name f = tj_srcfile tj))"

definition only_due :: "tjob \<times> 'w tj_world_scheme \<Rightarrow> 'w pending_state \<Rightarrow> bool" where
  "only_due st s \<longleftrightarrow> reads_same st (snd s) \<and> first_in_front (fst s)
     \<and> (\<forall>p\<in>set (fst s). \<exists>sub l d f. p = PendFxp (tj_src (fst st)) l (f_name f) (tj_dst (fst st)) d (f_name f)
          \<and> due_fxp st sub l d f)"

lemma fxp_entry_due:
  assumes s: "only_due st s" and sub: "(sub, l) \<in> set (tj_srclists (fst st))" "map_of (tj_dstlists (fst st)) sub = Some d"
    and d: "known_list (w_fl (snd st) d)" and f: "f \<in> set (fl_view (w_fl (snd st) l))"
  shows "only_due st (fxp_entry rm env sub l d f s)"
proof -
  obtain ps tj w where st: "s = (ps, tj, w)" by (cases s)
  have r: "tj_src tj = tj_src (fst st)" "tj_dst tj = tj_dst (fst st)" "tj_srcfile tj = tj_srcfile (fst st)"
    "tj_hasFailedTransfer x tj = tj_hasFailedTransfer x (fst st)"
    "fl_getFile n (w_fl w d) = fl_getFile n (w_fl (snd st) d)" "fl_path (w_fl w d) = fl_path (w_fl (snd st) d)" for x n
    using s by (simp_all add: only_due_def reads_same_def st read_of_job_def read_of_list_def tj_hasFailedTransfer_def fl_getFile_def
        cong: option.case_cong)
  show ?thesis
  proof (cases "(sub \<noteq> [] \<or> one_file_job sub (f_name f) tj) \<and> transferable f
      \<and> fl_getFile (f_name f) (w_fl w d) = None
      \<and> \<not> tj_hasFailedTransfer (p_path (path_concat (fl_path (w_fl w d)) (path_new (f_name f)))) tj")
    case True
    then have due: "due_fxp st sub l d f"
      using sub d f by (cases st) (auto simp: due_fxp_def r one_file_job_def)
    show ?thesis
      using True s due
      by (auto simp: fxp_entry_def remote_entry_def st only_due_def reads_same_def first_in_front_add r(1,2)
          job_skipped_reads Let_def split: prod.split if_splits) (metis job_skipped_reads fst_conv)+
  next
    case False
    then show ?thesis
      using s by (auto simp: fxp_entry_def remote_entry_def st only_due_def reads_same_def Let_def)
  qed
qed

lemma fxp_list_due:
  assumes s: "only_due st s" and p: "p \<in> set (tj_srclists (fst st))"
  shows "only_due st (fxp_list rm env p s)"
proof -
  obtain ps tj w where st: "s = (ps, tj, w)" by (cases s)
  have r: "tj_findDstList x tj = map_of (tj_dstlists (fst st)) x" "known_list (w_fl w d) = known_list (w_fl (snd st) d)"
    "fl_view (w_fl w l) = fl_view (w_fl (snd st) l)" for x d l
    using s by (simp_all add: only_due_def reads_same_def st read_of_job_def read_of_list_def tj_findDstList_def known_list_def)
  have go: "only_due st (fold (fxp_entry rm env (fst p) (snd p) d) fs s)"
    if "map_of (tj_dstlists (fst st)) (fst p) = Some d" "known_list (w_fl (snd st) d)"
      "set fs \<subseteq> set (fl_view (w_fl (snd st) (snd p)))" for d fs
    using that(3) s
  proof (induction fs arbitrary: s)
    case (Cons f fs)
    have "only_due st (fxp_entry rm env (fst p) (snd p) d f s)"
      using Cons.prems p that(1,2) by (intro fxp_entry_due) simp_all
    then show ?case using Cons by simp
  qed simp
  show ?thesis
    using go s by (auto simp: fxp_list_def st r Let_def split: option.split)
qed

text \<open>
  C38. Every transfer that is pending for a job between two sites is due: a file of a list at the source,
  not a directory and not empty, that the list of the same directory at the destination, which has been
  seen, does not have, and that has not failed three times; for a job about one file it is that file.
  The files with checksums and descriptions stand in front.
\<close>

theorem pending_due:
  fixes st :: "tjob \<times> 'w tj_world_scheme"
  assumes "refreshPendingTransferList rm env st = Inr (ps, st')" "tj_kind (fst st) = TJ_FXP" "p \<in> set ps"
  shows "\<exists>sub l d f. p = PendFxp (tj_src (fst st)) l (f_name f) (tj_dst (fst st)) d (f_name f) \<and> due_fxp st sub l d f
    \<and> first_in_front ps"
proof -
  let ?s0 = "([], tj_clearExisting (fst st), snd st)"
  have "only_due st ?s0" by (simp add: only_due_def reads_same_def first_in_front_def)
  then have d: "only_due st (fold (fxp_list rm env) xs ?s0)" if "set xs \<subseteq> set (tj_srclists (fst st))" for xs
    using that by (induction xs rule: rev_induct) (auto intro: fxp_list_due)
  have "pending_loop rm env ?s0 = Inr (fold (fxp_list rm env) (tj_srclists (fst st)) ?s0)"
    using assms(2) by (simp add: pending_loop_def tj_clearExisting_def)
  then have "ps = fst (fold (fxp_list rm env) (tj_srclists (fst st)) ?s0)"
    using assms(1) by (auto simp: refreshPendingTransferList_def case_prod_beta and_then_Inr)
  with d [of "tj_srclists (fst st)"] assms(3) show ?thesis by (auto simp: only_due_def)
qed

subsection \<open>A job with something to do\<close>

definition demo_slots :: slots_env where
  "demo_slots = \<lparr>se_down = (\<lambda>_. True), se_up = (\<lambda>_. True), se_localdown = True, se_localup = True,
     se_slots = (\<lambda>_. 1), se_attempt = (\<lambda>_. Some 0)\<rparr>"

theorem job_action_safe_witness:
  "\<exists>(st :: tjob \<times> tj_world) (st' :: tjob \<times> tj_world). job_reach {demo_env} st
     \<and> transferJobActionRequest (\<lambda>_ _. False) 9 demo_slots demo_env True st \<noteq> Inl OutOfRange
     \<and> job_reach {dark_env} st'
     \<and> transferJobActionRequest (\<lambda>_ _. False) 9 demo_slots dark_env False st' = Inl NullPointer"
proof -
  obtain st :: "tjob \<times> tj_world" where st: "job_reach {demo_env} st" using demo_reached by blast
  obtain st' :: "tjob \<times> tj_world" where st': "job_reach {dark_env} st'" "tj_kind (fst st') = TJ_UPLOAD"
    "([], None) \<in> set (tj_local (fst st'))" "map_of (tj_dstlists (fst st')) [] = Some 13"
    "fl_state (w_fl (snd st') 13) = LS_LISTED"
    using demo_dark by blast
  have "transferJobActionRequest (\<lambda>_ _. False) 9 demo_slots dark_env False st' = Inl NullPointer"
    using job_action_safe [OF _ st'(1), of dark_env "\<lambda>_ _. False" 9 demo_slots False] st'(2-5) by (simp add: known_list_def)
  moreover from job_action_safe [OF _ st, of demo_env "\<lambda>_ _. False" 9 demo_slots True]
  have "transferJobActionRequest (\<lambda>_ _. False) 9 demo_slots demo_env True st \<noteq> Inl OutOfRange" by simp
  ultimately show ?thesis using st st'(1) by (intro exI conjI)
qed

definition demo_due :: tjob where
  "demo_due = (tj_init demo_env TJ_FXP 1 2 (path_new ''/a'') (path_new ''/b'') ''a.rar'' ''a.rar'' None demo_job_world)
     \<lparr>tj_srclists := [([], 11)], tj_dstlists := [([], 12)]\<rparr>"

lemma demo_due_pending:
  "\<exists>st'. refreshPendingTransferList (\<lambda>_ _. False) demo_env (demo_due, demo_job_world)
     = Inr ([PendFxp 1 11 ''a.rar'' 2 12 ''a.rar''], st')"
proof -
  have w: "w_fl demo_job_world 11 = demo_list True" "w_fl demo_job_world 12 = demo_list False"
    by (simp_all add: demo_job_world_def demo_engine_def engine.defs tj_world.defs)
  have l: "known_list (demo_list False)" "fl_getFile ''a.rar'' (demo_list False) = None" "fl_view (demo_list True) = [demo_file]"
    "transferable demo_file" "f_name demo_file = ''a.rar''"
    by (simp_all add: demo_list_def known_list_def fl_init_def fl_getFile_def fl_view_def fl_obj_def demo_file_def transferable_def
        file_new_def)
  have j: "tj_kind demo_due = TJ_FXP" "tj_srclists demo_due = [([], 11)]" "tj_dstlists demo_due = [([], 12)]"
    "tj_src demo_due = 1" "tj_dst demo_due = 2" "tj_srcfile demo_due = ''a.rar''" "tj_attempts demo_due = []"
    "tj_transfers demo_due = []" "tj_millis demo_due = 0" "tj_speed demo_due = 0" "tj_status demo_due = TJ_QUEUED"
    by (simp_all add: demo_due_def tj_init_def tj_resetValues_def)
  note [simp] = tj_clearExisting_def pending_loop_def fxp_list_def fxp_entry_def remote_entry_def tj_findDstList_def
    one_file_job_def tj_hasFailedTransfer_def eng_addPendingTransfer_def tj_addPendingTransfer_def
  have "\<exists>tj. pending_loop (\<lambda>_ _. False) demo_env ([], tj_clearExisting demo_due, demo_job_world)
      = Inr ([PendFxp 1 11 ''a.rar'' 2 12 ''a.rar''], tj, demo_job_world) \<and> tj_transfers tj = [] \<and> tj_millis tj = 0 \<and> tj_speed tj = 0"
    by (simp add: j w l Let_def)
  moreover have "\<exists>tj'. tj_updateStatus demo_env tj = Inr tj'"
    if "tj_transfers tj = []" "tj_millis tj = 0" "tj_speed tj = 0" for tj
    using that by (simp add: tj_updateStatus_def tj_measure_def known_gone_def Let_def)
  ultimately show ?thesis by (fastforce simp: refreshPendingTransferList_def)
qed

theorem pending_due_witness:
  "\<exists>sub l d f. PendFxp 1 11 ''a.rar'' 2 12 ''a.rar'' = PendFxp 1 l (f_name f) 2 d (f_name f)
     \<and> due_fxp (demo_due, demo_job_world) sub l d f"
proof -
  obtain st' where r: "refreshPendingTransferList (\<lambda>_ _. False) demo_env (demo_due, demo_job_world)
     = Inr ([PendFxp 1 11 ''a.rar'' 2 12 ''a.rar''], st')" using demo_due_pending by blast
  have j: "tj_kind demo_due = TJ_FXP" "tj_src demo_due = 1" "tj_dst demo_due = 2"
    by (simp_all add: demo_due_def tj_init_def tj_resetValues_def)
  show ?thesis using pending_due [OF r, of "PendFxp 1 11 ''a.rar'' 2 12 ''a.rar''"] j by auto
qed

end
