(* ===== verification/EngineIssue.thy ===== *)
theory EngineIssue
  imports EngineMoves
begin

text \<open>
  The start of transfers from the score board (\<open>Engine::issueOptimalTransfers\<close> in \<open>src/engine.cpp\<close>): the
  elements in order, each tried if its destination has a slot, the skip lists let it pass, it is to be
  expected soon, it is not held back after failures, its source has a slot, and its score is high enough
  beside what the source could send elsewhere.

  The transfer manager and the connections behind it are the argument \<open>attempt\<close>, which changes the state
  as it will and gives the status of the transfer if it was engaged.  \<open>is_tried\<close> is a record of what was
  tried in which state, which no operation reads.
\<close>

record issuing =
  is_e :: engine
  is_slots :: "nat \<Rightarrow> site_slots"
  is_pot :: "nat \<Rightarrow> ptrack"
  is_added :: "(nat \<times> nat) list"
  is_remove :: "sb_key list"
  is_tried :: "(sb_elem \<times> engine \<times> (nat \<Rightarrow> site_slots)) list"

type_synonym attempt = "sb_elem \<Rightarrow> issuing \<Rightarrow> issuing \<times> nat option"

definition on_elem :: "addr \<Rightarrow> (sb_elem \<Rightarrow> sb_elem) \<Rightarrow> engine \<Rightarrow> engine" where
  "on_elem a f e = e\<lparr>en_sb := (en_sb e)\<lparr>heap := (heap (en_sb e))(a := f (heap (en_sb e) a))\<rparr>\<rparr>"

text \<open>The check of the skip lists, which is made once: whether the element is to be removed.\<close>

definition issue_skip :: "'x race_skip \<Rightarrow> 'x regex_match \<Rightarrow> addr \<Rightarrow> engine \<Rightarrow> engine \<times> bool" where
  "issue_skip sk rm a e =
     (let el = heap (en_sb e) a; skip = x_skip (en_site e (e_dst el)); sec = r_sectionskip (the (w_race e (e_race el)));
          m = sk skip (Some sec) (p_path (path_concat (path_new (e_subdir el)) (path_new (e_filename el)))) False;
          e1 = (if sm_action m = SKIPLIST_SIMILAR then ensure_similar sk skip (Some sec) (e_fld el) e else e);
          e2 = (if sm_action m = SKIPLIST_UNIQUE then e1 else on_elem a (e_skipchecked_update (\<lambda>_. True)) e1)
      in (e2, sm_action m = SKIPLIST_UNIQUE \<and> engine_containsPattern rm (w_fl e1 (e_fld el)) m False
              \<or> sm_action m = SKIPLIST_SIMILAR \<and> fl_containsUnsimilar (e_filename el) (w_fl e1 (e_fld el)) = Some True))"

definition origin_of :: "engine \<Rightarrow> sb_elem \<Rightarrow> transfer_origin" where
  "origin_of e el =
     (if sr_downloadonly (w_sr e (e_srcsr el)) then PRE else if sr_isDone (w_sr e (e_srcsr el)) then COMPLETE else REGULAR)"

text \<open>The potential of the source notes the score, but not for files that go first.\<close>

definition note_potential :: "sb_elem \<Rightarrow> issuing \<Rightarrow> issuing" where
  "note_potential el s =
     (if e_priotype el = NORMAL
      then s\<lparr>is_pot := (is_pot s)(e_src el :=
               pt_pushPotential (int (unat (e_score el))) (e_filename el) (e_dst el)
                 (site_getMaxUp (en_site (is_e s) (e_dst el))) (is_pot s (e_src el)))\<rparr>
      else s)"

definition issue_try :: "attempt \<Rightarrow> addr \<Rightarrow> sb_elem \<Rightarrow> issuing \<Rightarrow> issuing" where
  "issue_try attempt a el s =
     (let e = is_e s; src = e_src el; ty = origin_of e el; so = is_slots s src
      in if \<not> downloadSlotAvailable (en_site e src) ty so then s
         else
           let (pot, ok) = potentialCheck (en_site e src) so (int (unat (e_score el))) ty (is_pot s src);
               s1 = s\<lparr>is_pot := (is_pot s)(src := pot)\<rparr>
           in if \<not> ok \<and> racemode (the (w_race e (e_race el))) then s1
              else
                let (s2, ts) = attempt el (s1\<lparr>is_tried := is_tried s @ [(el, e, is_slots s)]\<rparr>);
                    s3 = (case ts of None \<Rightarrow> s2 | Some t \<Rightarrow> s2\<lparr>is_added := is_added s2 @ [(e_race el, t)]\<rparr>)
                in s3\<lparr>is_e := on_elem a (e_attempted_update (\<lambda>_. True)) (is_e s3)\<rparr>)"

definition issue_one :: "'x race_skip \<Rightarrow> 'x regex_match \<Rightarrow> attempt \<Rightarrow> addr \<Rightarrow> issuing \<Rightarrow> issuing" where
  "issue_one sk rm attempt a s =
     (let e = is_e s; el = heap (en_sb e) a
      in if \<not> uploadSlotAvailable (en_site e (e_dst el)) (is_slots s (e_dst el)) then s
         else
           let (e1, gone) = (if e_skipchecked el then (e, False) else issue_skip sk rm a e); s1 = s\<lparr>is_e := e1\<rparr>
           in if gone then s1\<lparr>is_remove := is_remove s1 @ [elem_key el]\<rparr>
              else if \<not> transferExpectedSoon e1 el
                 \<or> race_hasTransferRetryBackoff (e_filename el) (e_fls el) (e_fld el) (the (w_race e1 (e_race el))) then s1
              else issue_try attempt a el (note_potential el s1))"

definition issueOptimalTransfers :: "'x race_skip \<Rightarrow> 'x regex_match \<Rightarrow> orders \<Rightarrow> attempt \<Rightarrow> issuing \<Rightarrow> issuing" where
  "issueOptimalTransfers sk rm ord attempt s =
     (let s1 = fold (issue_one sk rm attempt) (sb_active (en_sb (is_e s))) (s\<lparr>is_remove := []\<rparr>);
          sb = fold (\<lambda>k sb. snd (sb_remove k sb)) (is_remove s1) (en_sb (is_e s1))
      in s1\<lparr>is_e := (is_e s1)\<lparr>en_sb := (if is_remove s1 = [] then sb else settle ord sb)\<rparr>\<rparr>)"

subsection \<open>The board meanwhile\<close>

text \<open>The manager and the connections leave the boards and the settings of the sites alone.\<close>

definition leaves_boards :: "attempt \<Rightarrow> bool" where
  "leaves_boards attempt \<longleftrightarrow> (\<forall>el s. same_boards (is_e s) (is_e (fst (attempt el s)))
     \<and> is_remove (fst (attempt el s)) = is_remove s \<and> is_tried (fst (attempt el s)) = is_tried s)"

text \<open>The boards but for the flags of the elements.\<close>

definition board_still :: "engine \<Rightarrow> engine \<Rightarrow> bool" where
  "board_still e e' \<longleftrightarrow> same_sites e e' \<and> en_fb e' = en_fb e
     \<and> sb_active (en_sb e') = sb_active (en_sb e) \<and> sb_view (en_sb e') = sb_view (en_sb e)
     \<and> (sb_inv (en_sb e) \<longrightarrow> sb_inv (en_sb e'))"

lemma board_still_refl [simp]: "board_still e e"
  by (simp add: board_still_def)

lemma board_still_trans: "board_still e e1 \<Longrightarrow> board_still e1 e2 \<Longrightarrow> board_still e e2"
  by (simp add: board_still_def same_sites_def)

lemma same_still: "same_boards e e' \<Longrightarrow> board_still e e'"
  by (simp add: same_boards_def board_still_def)

lemma on_elem_still:
  assumes "\<And>el. elem_reset_from (f el) = elem_reset_from el" "\<And>el. elem_key (f el) = elem_key el"
  shows "board_still e (on_elem a f e)"
proof -
  have "sb_inv (en_sb e) \<Longrightarrow> sb_inv (en_sb (on_elem a f e))"
    unfolding on_elem_def by simp (rule sb_inv_heap, simp_all add: assms(2))
  moreover have "sb_view (en_sb (on_elem a f e)) k = sb_view (en_sb e) k" for k
    by (cases "locator (en_sb e) k") (simp_all add: on_elem_def sb_view_def assms(1))
  then have "sb_view (en_sb (on_elem a f e)) = sb_view (en_sb e)" by (rule ext)
  ultimately show ?thesis by (simp add: board_still_def same_sites_def) (simp add: on_elem_def sb_active_def)
qed

lemma flags_reset [simp]:
  "elem_reset_from (el\<lparr>e_skipchecked := b\<rparr>) = elem_reset_from el" "elem_reset_from (el\<lparr>e_attempted := b\<rparr>) = elem_reset_from el"
  by (simp_all add: elem_reset_from_def)

lemma issue_skip_still: "board_still e (fst (issue_skip sk rm a e))"
proof -
  have e: "board_still e (ensure_similar sk skip sec l e)" for skip sec l
    by (rule same_still) (simp add: ensure_similar_def)
  have f: "board_still e1 (on_elem a (e_skipchecked_update (\<lambda>_. True)) e1)" for e1
    by (rule on_elem_still) simp_all
  show ?thesis
    using e f board_still_trans [OF e f] by (simp add: issue_skip_def Let_def)
qed

lemma still_fit: "board_still e e' \<Longrightarrow> board_fit e (en_sb e) \<Longrightarrow> board_fit e' (en_sb e')"
  using same_board_fit [of e e'] by (simp add: board_still_def board_fit_def)

subsection \<open>What is tried\<close>

definition granted :: "engine \<Rightarrow> (nat \<Rightarrow> site_slots) \<Rightarrow> sb_elem \<Rightarrow> bool" where
  "granted e slots el \<longleftrightarrow>
     snd (getSlot (en_site e (e_src el)) True (origin_of e el) (slots (e_src el)))
     \<and> snd (getSlot (en_site e (e_dst el)) False (origin_of e el) (slots (e_dst el)))"

lemma slots_granted:
  "downloadSlotAvailable s ty so \<Longrightarrow> snd (getSlot s True ty so)" "uploadSlotAvailable s so \<Longrightarrow> snd (getSlot s False ty so)"
  by (auto simp: downloadSlotAvailable_def downloadSlotsAvailable_def uploadSlotAvailable_def getSlot_def Let_def split: if_splits)

definition may_try :: "engine \<Rightarrow> engine \<Rightarrow> (nat \<Rightarrow> site_slots) \<Rightarrow> sb_elem \<Rightarrow> bool" where
  "may_try e0 e slots el \<longleftrightarrow> same_sites e0 e \<and> elem_fit e el \<and> transferExpectedSoon e el
     \<and> \<not> race_hasTransferRetryBackoff (e_filename el) (e_fls el) (e_fld el) (the (w_race e (e_race el))) \<and> granted e slots el"

definition issue_inv :: "engine \<Rightarrow> issuing \<Rightarrow> bool" where
  "issue_inv e0 s \<longleftrightarrow> board_still e0 (is_e s) \<and> (\<forall>(el, e, slots)\<in>set (is_tried s). may_try e0 e slots el)"

lemma issue_try_inv:
  assumes "leaves_boards attempt" "issue_inv e0 s"
    and ok: "downloadSlotAvailable (en_site (is_e s) (e_src el)) (origin_of (is_e s) el) (is_slots s (e_src el))
      \<Longrightarrow> may_try e0 (is_e s) (is_slots s) el"
  shows "issue_inv e0 (issue_try attempt a el s)"
proof (cases "downloadSlotAvailable (en_site (is_e s) (e_src el)) (origin_of (is_e s) el) (is_slots s (e_src el))")
  case True
  obtain pot okp where p: "potentialCheck (en_site (is_e s) (e_src el)) (is_slots s (e_src el)) (int (unat (e_score el)))
      (origin_of (is_e s) el) (is_pot s (e_src el)) = (pot, okp)" by (meson surj_pair)
  let ?s1 = "s\<lparr>is_pot := (is_pot s)(e_src el := pot)\<rparr>\<lparr>is_tried := is_tried s @ [(el, is_e s, is_slots s)]\<rparr>"
  obtain s2 ts where a: "attempt el ?s1 = (s2, ts)" by (meson surj_pair)
  have at: "same_boards (is_e ?s1) (is_e s2)" "is_tried s2 = is_tried ?s1"
    using assms(1) a unfolding leaves_boards_def by (metis fst_conv)+
  have b0: "board_still e0 (is_e s)" using assms(2) by (simp add: issue_inv_def)
  have b1: "board_still (is_e s) (is_e s2)" using same_still [OF at(1)] by simp
  have b2: "board_still (is_e s2) (on_elem a (e_attempted_update (\<lambda>_. True)) (is_e s2))"
    by (rule on_elem_still) simp_all
  have still: "board_still e0 (on_elem a (e_attempted_update (\<lambda>_. True)) (is_e s2))"
    by (rule board_still_trans [OF board_still_trans [OF b0 b1] b2])
  have tried: "is_tried s2 = is_tried s @ [(el, is_e s, is_slots s)]" using at(2) by simp
  have all: "\<forall>(el, e, slots)\<in>set (is_tried s2). may_try e0 e slots el"
    unfolding tried using assms(2) ok [OF True] by (simp add: issue_inv_def)
  have eq: "issue_try attempt a el s = (if \<not> okp \<and> racemode (the (w_race (is_e s) (e_race el))) then s\<lparr>is_pot := (is_pot s)(e_src el := pot)\<rparr>
      else let s3 = (case ts of None \<Rightarrow> s2 | Some t \<Rightarrow> s2\<lparr>is_added := is_added s2 @ [(e_race el, t)]\<rparr>)
           in s3\<lparr>is_e := on_elem a (e_attempted_update (\<lambda>_. True)) (is_e s3)\<rparr>)"
    unfolding issue_try_def Let_def p prod.case a using True by simp
  show ?thesis
    unfolding eq using assms(2) still all by (cases ts) (simp_all add: issue_inv_def Let_def)
qed (use assms(2) in \<open>simp add: issue_try_def Let_def\<close>)

lemma issue_one_inv:
  assumes at: "leaves_boards attempt" and inv: "issue_inv e0 s" and fit: "board_fit e0 (en_sb e0)"
    and a: "a \<in> set (sb_active (en_sb e0))"
  shows "issue_inv e0 (issue_one sk rm attempt a s)"
proof (cases "uploadSlotAvailable (en_site (is_e s) (e_dst (heap (en_sb (is_e s)) a))) (is_slots s (e_dst (heap (en_sb (is_e s)) a)))")
  case True
  define el where "el = heap (en_sb (is_e s)) a"
  obtain e1 gone where g: "(if e_skipchecked el then (is_e s, False) else issue_skip sk rm a (is_e s)) = (e1, gone)"
    by (meson surj_pair)
  have st: "board_still e0 (is_e s)" using inv by (simp add: issue_inv_def)
  have s1: "board_still (is_e s) e1"
    using g issue_skip_still [of "is_e s" sk rm a] by (cases "e_skipchecked el") (auto simp: fst_def split: prod.splits)
  have st1: "board_still e0 e1" by (rule board_still_trans [OF st s1])
  have "elem_fit (is_e s) el"
    unfolding el_def by (rule board_elem [OF still_fit [OF st fit]]) (use st a in \<open>simp add: board_still_def\<close>)
  then have fit1: "elem_fit e1 el" using same_fit [of "is_e s" e1] s1 by (simp add: board_still_def elem_fit_def)
  have up: "uploadSlotAvailable (en_site e1 (e_dst el)) (is_slots s (e_dst el))"
    using True s1 by (simp add: el_def board_still_def same_sites_def)
  let ?s1 = "s\<lparr>is_e := e1\<rparr>"
  have i1: "issue_inv e0 ?s1" using inv st1 by (simp add: issue_inv_def)
  have n: "is_e (note_potential el ?s1) = e1" "is_slots (note_potential el ?s1) = is_slots s"
    "is_tried (note_potential el ?s1) = is_tried s"
    by (simp_all add: note_potential_def)
  have tries: "issue_inv e0 (issue_try attempt a el (note_potential el ?s1))"
    if "transferExpectedSoon e1 el"
      "\<not> race_hasTransferRetryBackoff (e_filename el) (e_fls el) (e_fld el) (the (w_race e1 (e_race el)))"
  proof (rule issue_try_inv [OF at])
    show "issue_inv e0 (note_potential el ?s1)" using i1 n by (simp add: issue_inv_def)
    assume "downloadSlotAvailable (en_site (is_e (note_potential el ?s1)) (e_src el))
      (origin_of (is_e (note_potential el ?s1)) el) (is_slots (note_potential el ?s1) (e_src el))"
    then show "may_try e0 (is_e (note_potential el ?s1)) (is_slots (note_potential el ?s1)) el"
      using that fit1 st1 up by (simp add: n may_try_def granted_def slots_granted board_still_def)
  qed
  show ?thesis
    using True g i1 tries by (simp add: issue_one_def el_def [symmetric] issue_inv_def Let_def)
qed (use inv in \<open>simp add: issue_one_def Let_def\<close>)

lemma issue_fold_inv:
  assumes "leaves_boards attempt" "board_fit e0 (en_sb e0)" "set as \<subseteq> set (sb_active (en_sb e0))"
  shows "issue_inv e0 s \<Longrightarrow> issue_inv e0 (fold (issue_one sk rm attempt) as s)"
  using assms(3) by (induction as arbitrary: s) (simp_all add: issue_one_inv [OF assms(1) _ assms(2)])

lemma issue_result:
  fixes sk :: "'x race_skip" and rm :: "'x regex_match" and ord :: orders and attempt :: attempt and s :: issuing
  assumes "leaves_boards attempt" "boards_fit (is_e s)" "is_tried s = []"
  defines "s' \<equiv> issueOptimalTransfers sk rm ord attempt s"
  shows "\<forall>(el, e, slots)\<in>set (is_tried s'). may_try (is_e s) e slots el"
    and "boards_fit (is_e s')" and "same_sites (is_e s) (is_e s')"
    and "sb_view (en_sb (is_e s')) k = (if k \<in> set (is_remove s') then None else sb_view (en_sb (is_e s)) k)"
proof -
  define s1 where "s1 = fold (issue_one sk rm attempt) (sb_active (en_sb (is_e s))) (s\<lparr>is_remove := []\<rparr>)"
  define sb where "sb = fold (\<lambda>k sb. snd (sb_remove k sb)) (is_remove s1) (en_sb (is_e s1))"
  have s': "s' = s1\<lparr>is_e := (is_e s1)\<lparr>en_sb := (if is_remove s1 = [] then sb else settle ord sb)\<rparr>\<rparr>"
    by (simp add: s'_def issueOptimalTransfers_def s1_def sb_def Let_def)
  have fit: "board_fit (is_e s) (en_sb (is_e s))" using assms(2) by (simp add: boards_fit_def)
  have "issue_inv (is_e s) (s\<lparr>is_remove := []\<rparr>)" using assms(3) by (simp add: issue_inv_def)
  then have i: "issue_inv (is_e s) s1" unfolding s1_def by (rule issue_fold_inv [OF assms(1) fit subset_refl])
  then show "\<forall>(el, e, slots)\<in>set (is_tried s'). may_try (is_e s) e slots el" by (simp add: s' issue_inv_def)
  have st: "board_still (is_e s) (is_e s1)" using i by (simp add: issue_inv_def)
  then have inv: "sb_inv (en_sb (is_e s1))" and view: "sb_view (en_sb (is_e s1)) = sb_view (en_sb (is_e s))"
    using fit by (simp_all add: board_still_def board_fit_def)
  have inv2: "sb_inv sb" unfolding sb_def by (rule board.fold_remove_inv [OF inv])
  have view2: "sb_view sb k = (if k \<in> set (is_remove s1) then None else sb_view (en_sb (is_e s)) k)" for k
    unfolding sb_def using board.fold_remove_view [OF inv, of "is_remove s1" k] view by simp
  show "sb_view (en_sb (is_e s')) k = (if k \<in> set (is_remove s') then None else sb_view (en_sb (is_e s)) k)"
    by (simp add: s' view2 settle_props [OF inv2])
  show "same_sites (is_e s) (is_e s')" using st by (simp add: s' board_still_def same_sites_def)
  have "board_fit (is_e s) sb"
    using fit inv2 by (auto simp: board_fit_def ran_def view2 split: if_splits)
  then have "board_fit (is_e s) (if is_remove s1 = [] then sb else settle ord sb)"
    by (simp add: board_fit_settle)
  moreover have "board_fit (is_e s) (en_fb (is_e s))" using assms(2) by (simp add: boards_fit_def)
  moreover have "en_fb (is_e s') = en_fb (is_e s)" using st by (simp add: s' board_still_def)
  ultimately show "boards_fit (is_e s')"
    using same_board_fit [OF \<open>same_sites (is_e s) (is_e s')\<close>] by (simp add: boards_fit_def s')
qed


subsection \<open>What is taken off\<close>

text \<open>What a skip list's answer means on the list at the destination, \<open>fl\<close>: a file there fits the unique match.\<close>

definition fits_match :: "'x regex_match \<Rightarrow> 'x skip_match \<Rightarrow> dirfile \<Rightarrow> bool" where
  "fits_match rm m f \<longleftrightarrow>
     (let q = path_new (sm_path m); name = (if p_unix q = [] then f_name f else p_dirname q @ ''/'' @ f_name f)
      in case sm_regex m of None \<Rightarrow> wild_matcher (sm_pattern m) name | Some x \<Rightarrow> rm x name)"

text \<open>The file there that others are to resemble: the one noted, or the first in the list that the skip list calls similar.\<close>

definition model_file :: "'x race_skip \<Rightarrow> nat \<Rightarrow> nat option \<Rightarrow> filelist \<Rightarrow> dirfile option" where
  "model_file sk skip sec fl =
     (case (if fl_similarchecked fl then None
            else find (\<lambda>f. sm_action (sk skip sec (f_name f) (f_directory f)) = SKIPLIST_SIMILAR) (fl_view fl)) of
        Some f \<Rightarrow> Some f
      | None \<Rightarrow> map_option (fl_obj fl) (fl_firstsimilar fl))"

text \<open>The skip lists do not let the file of an element pass, given what is on the list at its destination.\<close>

definition refused :: "'x race_skip \<Rightarrow> 'x regex_match \<Rightarrow> engine \<Rightarrow> sb_elem \<Rightarrow> bool" where
  "refused sk rm e el \<longleftrightarrow>
     (let fl = w_fl e (e_fld el); skip = x_skip (en_site e (e_dst el)); sec = Some (r_sectionskip (the (w_race e (e_race el))));
          m = sk skip sec (p_path (path_concat (path_new (e_subdir el)) (path_new (e_filename el)))) False
      in sm_action m = SKIPLIST_UNIQUE \<and> (\<exists>f\<in>set (fl_view fl). \<not> f_directory f \<and> fits_match rm m f)
         \<or> sm_action m = SKIPLIST_SIMILAR \<and> (\<exists>g. model_file sk skip sec fl = Some g \<and> checkUnsimilar (e_filename el) (f_name g)))"

lemma containsPattern_fits:
  "engine_containsPattern rm fl m False \<longleftrightarrow> (\<exists>f\<in>set (fl_view fl). \<not> f_directory f \<and> fits_match rm m f)"
  by (auto simp: engine_containsPattern_def fl_containsPattern_def fits_match_def list_ex_iff Let_def split: option.split)

lemma similar_loop_find:
  "fl_siteskip fl = Some skip \<Longrightarrow> similar_loop v as fl =
     (case find (\<lambda>a. v skip (fl_sectionskip fl) (f_name (fl_obj fl a)) (f_directory (fl_obj fl a)) = SKIPLIST_SIMILAR) as of
        None \<Rightarrow> fl | Some a \<Rightarrow> fl\<lparr>fl_firstsimilar := Some a\<rparr>)"
  by (induction as) (simp_all add: fl_checkSimilarFile_def)

lemma find_map: "find P (map f xs) = map_option f (find (\<lambda>x. P (f x)) xs)"
  by (induction xs) simp_all

lemma ensured_unsimilar:
  "fl_containsUnsimilar name (w_fl (ensure_similar sk skip sec l w) l) = Some True
     \<longleftrightarrow> (\<exists>g. model_file sk skip sec (w_fl w l) = Some g \<and> checkUnsimilar name (f_name g))"
proof (cases "fl_similarchecked (w_fl w l)")
  case True
  then show ?thesis by (auto simp: ensure_similar_def fl_containsUnsimilar_def model_file_def split: option.split)
next
  case False
  let ?fl = "w_fl w l" and ?P = "\<lambda>f. sm_action (sk skip sec (f_name f) (f_directory f)) = SKIPLIST_SIMILAR"
  have obj: "fl_obj (?fl\<lparr>fl_similarchecked := True, fl_siteskip := s1, fl_sectionskip := s2\<rparr>) a = fl_obj ?fl a"
    "fl_obj (?fl\<lparr>fl_similarchecked := True, fl_siteskip := s1, fl_sectionskip := s2, fl_firstsimilar := x\<rparr>) a = fl_obj ?fl a" for s1 s2 x a
    by (simp_all add: fl_obj_def)
  have m: "model_file sk skip sec ?fl = (case find (\<lambda>a. ?P (fl_obj ?fl a)) (fl_seen ?fl) of
      Some a \<Rightarrow> Some (fl_obj ?fl a) | None \<Rightarrow> map_option (fl_obj ?fl) (fl_firstsimilar ?fl))"
    using False by (simp add: model_file_def fl_view_def find_map split: option.split)
  have "w_fl (ensure_similar sk skip sec l w) l = fl_checkSimilar (verdict sk) (Some skip) sec ?fl"
    using False by (simp add: ensure_similar_def on_fl_def)
  then show ?thesis
    unfolding m by (auto simp: fl_checkSimilar_def similar_loop_find verdict_def obj fl_containsUnsimilar_def split: option.split)
qed

text \<open>The check of an element says exactly whether it is refused.\<close>

lemma issue_skip_refuses: "snd (issue_skip sk rm a e) = refused sk rm e (heap (en_sb e) a)"
proof -
  let ?el = "heap (en_sb e) a"
  let ?skip = "x_skip (en_site e (e_dst ?el))" and ?sec = "Some (r_sectionskip (the (w_race e (e_race ?el))))"
  define m where "m = sk ?skip ?sec (p_path (path_concat (path_new (e_subdir ?el)) (path_new (e_filename ?el)))) False"
  show ?thesis
    unfolding issue_skip_def refused_def Let_def m_def [symmetric] snd_conv containsPattern_fits
    using ensured_unsimilar [of "e_filename ?el" sk ?skip ?sec "e_fld ?el" e] by (cases "sm_action m") simp_all
qed

text \<open>The state when the element in place \<open>i\<close> comes up.\<close>

definition visit :: "'x race_skip \<Rightarrow> 'x regex_match \<Rightarrow> attempt \<Rightarrow> issuing \<Rightarrow> nat \<Rightarrow> issuing" where
  "visit sk rm attempt s i = fold (issue_one sk rm attempt) (take i (sb_active (en_sb (is_e s)))) (s\<lparr>is_remove := []\<rparr>)"

text \<open>
  An element is taken off if, when it comes up, its destination has a slot for it, it has not passed the
  skip lists before, and they refuse it.
\<close>

definition goes_off :: "'x race_skip \<Rightarrow> 'x regex_match \<Rightarrow> issuing \<Rightarrow> sb_elem \<Rightarrow> bool" where
  "goes_off sk rm t el \<longleftrightarrow> uploadSlotAvailable (en_site (is_e t) (e_dst el)) (is_slots t (e_dst el))
     \<and> \<not> e_skipchecked el \<and> refused sk rm (is_e t) el"

definition board_at :: "issuing \<Rightarrow> nat \<Rightarrow> sb_elem" where
  "board_at s i = heap (en_sb (is_e s)) (sb_active (en_sb (is_e s)) ! i)"

lemma ensure_similar_sb [simp]: "en_sb (ensure_similar sk skip sec l e) = en_sb e" "en_sb (on_fl l f e) = en_sb e"
  by (simp_all add: ensure_similar_def on_fl_def)

lemma on_elem_heap: "heap (en_sb (on_elem a f e)) b = (if b = a then f (heap (en_sb e) b) else heap (en_sb e) b)"
  by (simp add: on_elem_def)

lemma issue_try_frame:
  assumes "leaves_boards attempt"
  shows "is_remove (issue_try attempt a el s) = is_remove s"
    and "b \<noteq> a \<Longrightarrow> heap (en_sb (is_e (issue_try attempt a el s))) b = heap (en_sb (is_e s)) b"
proof -
  have at: "is_remove (fst (attempt el t)) = is_remove t" "en_sb (is_e (fst (attempt el t))) = en_sb (is_e t)" for t
    using assms by (simp_all add: leaves_boards_def same_boards_def)
  show "is_remove (issue_try attempt a el s) = is_remove s"
    by (simp add: issue_try_def case_prod_beta at Let_def split: option.split)
  show "heap (en_sb (is_e (issue_try attempt a el s))) b = heap (en_sb (is_e s)) b" if "b \<noteq> a"
    using that by (simp add: issue_try_def case_prod_beta at Let_def on_elem_heap split: option.split)
qed

lemma issue_one_frame:
  fixes a :: addr and s :: issuing
  assumes "leaves_boards attempt"
  defines "el \<equiv> heap (en_sb (is_e s)) a"
  shows "is_remove (issue_one sk rm attempt a s) = is_remove s @ (if goes_off sk rm s el then [elem_key el] else [])"
    and "b \<noteq> a \<Longrightarrow> heap (en_sb (is_e (issue_one sk rm attempt a s))) b = heap (en_sb (is_e s)) b"
proof -
  have n: "is_remove (note_potential x t) = is_remove t" "is_e (note_potential x t) = is_e t" for x t
    by (simp_all add: note_potential_def)
  show "is_remove (issue_one sk rm attempt a s) = is_remove s @ (if goes_off sk rm s el then [elem_key el] else [])"
    using issue_skip_refuses [of sk rm a "is_e s"]
    by (simp add: issue_one_def goes_off_def el_def case_prod_beta issue_try_frame [OF assms(1)] n Let_def)
  assume "b \<noteq> a"
  moreover have "heap (en_sb (fst (issue_skip sk rm a e))) b = heap (en_sb e) b" if "b \<noteq> a" for e
    using that by (simp add: issue_skip_def on_elem_heap Let_def)
  ultimately show "heap (en_sb (is_e (issue_one sk rm attempt a s))) b = heap (en_sb (is_e s)) b"
    by (simp add: issue_one_def case_prod_beta issue_try_frame [OF assms(1)] n Let_def)
qed

lemma visited:
  assumes "leaves_boards attempt" "distinct (sb_active (en_sb (is_e s)))" "i \<le> length (sb_active (en_sb (is_e s)))"
  shows "(\<forall>b. b \<notin> set (take i (sb_active (en_sb (is_e s)))) \<longrightarrow> heap (en_sb (is_e (visit sk rm attempt s i))) b = heap (en_sb (is_e s)) b)
    \<and> set (is_remove (visit sk rm attempt s i))
        = {elem_key (board_at s j) |j. j < i \<and> goes_off sk rm (visit sk rm attempt s j) (board_at s j)}"
  using assms(3)
proof (induction i)
  case 0
  then show ?case by (simp add: visit_def)
next
  case (Suc i)
  let ?as = "sb_active (en_sb (is_e s))" and ?t = "visit sk rm attempt s i"
  have i: "i < length ?as" using Suc.prems by simp
  then have t: "take (Suc i) ?as = take i ?as @ [?as ! i]" by (simp add: take_Suc_conv_app_nth)
  have v: "visit sk rm attempt s (Suc i) = issue_one sk rm attempt (?as ! i) ?t" by (simp add: visit_def t)
  note ih = Suc.IH [OF less_imp_le [OF i]]
  have "?as ! i \<notin> set (take i ?as)"
    using assms(2) i by (auto simp: in_set_conv_nth nth_eq_iff_index_eq)
  then have el: "heap (en_sb (is_e ?t)) (?as ! i) = board_at s i" using ih by (simp add: board_at_def)
  note f = issue_one_frame [OF assms(1), where sk = sk and rm = rm and a = "?as ! i" and s = ?t, unfolded el]
  have "{elem_key (board_at s j) |j. j < Suc i \<and> goes_off sk rm (visit sk rm attempt s j) (board_at s j)}
      = {elem_key (board_at s j) |j. j < i \<and> goes_off sk rm (visit sk rm attempt s j) (board_at s j)}
        \<union> (if goes_off sk rm ?t (board_at s i) then {elem_key (board_at s i)} else {})"
    by (auto simp: less_Suc_eq)
  then show ?case using ih f by (auto simp: v t)
qed

text \<open>
  C40. Starting transfers takes exactly the elements off the score board that, when they come up, have a
  free slot at their destination, have not passed the skip lists before and are refused by them: a
  file on the list at the destination fits the pattern of a unique match, or the file does not resemble
  the one there that others are to resemble.  All other elements keep their place in the map, whatever
  was tried, and what is left fits the settings of the sites as before.
\<close>

theorem issue_board:
  fixes sk :: "'x race_skip" and rm :: "'x regex_match" and ord :: orders and attempt :: attempt and s :: issuing
  assumes "boards_fit (is_e s)" "leaves_boards attempt" "is_tried s = []"
  defines "s' \<equiv> issueOptimalTransfers sk rm ord attempt s" and "n \<equiv> length (sb_active (en_sb (is_e s)))"
  shows "boards_fit (is_e s') \<and> en_site (is_e s') = en_site (is_e s)
    \<and> sb_view (en_sb (is_e s')) k =
        (if \<exists>i<n. elem_key (board_at s i) = k \<and> goes_off sk rm (visit sk rm attempt s i) (board_at s i) then None
         else sb_view (en_sb (is_e s)) k)"
proof -
  have "sb_inv (en_sb (is_e s))" using assms(1) by (simp add: boards_fit_def board_fit_def)
  then have d: "distinct (sb_active (en_sb (is_e s)))" by (simp add: sb_inv_def sb_active_def)
  have "is_remove s' = is_remove (visit sk rm attempt s n)"
    by (simp add: s'_def n_def issueOptimalTransfers_def visit_def Let_def)
  then have "set (is_remove s') = {elem_key (board_at s j) |j. j < n \<and> goes_off sk rm (visit sk rm attempt s j) (board_at s j)}"
    using visited [OF assms(2) d, where i = n and sk = sk and rm = rm] by (simp add: n_def)
  then have "k \<in> set (is_remove s') \<longleftrightarrow> (\<exists>i<n. elem_key (board_at s i) = k \<and> goes_off sk rm (visit sk rm attempt s i) (board_at s i))"
    by auto
  then show ?thesis
    using issue_result(2) [OF assms(2,1,3), of sk rm ord] issue_result(3) [OF assms(2,1,3), of sk rm ord]
      issue_result(4) [OF assms(2,1,3), of sk rm ord k]
    unfolding s'_def [symmetric] by (simp add: same_sites_def)
qed

subsection \<open>A board with one transfer\<close>

definition demo_board :: scoreboard where
  "demo_board = \<lparr>heap = (\<lambda>_. demo_elem), next_addr = 1, elements = [0], elementstmp = [0], showsize = 1,
     locator = [(11, 12, ''a.rar'') \<mapsto> 0], destloc = (\<lambda>f. if f = 12 then {0} else {})\<rparr>"

definition demo_issuing :: issuing where
  "demo_issuing = \<lparr>is_e = demo_engine\<lparr>en_sb := demo_board\<rparr>, is_slots = (\<lambda>_. \<lparr>so_available = 1, so_dn = 0, so_up = 0\<rparr>),
     is_pot = (\<lambda>_. pt_new 0), is_added = [], is_remove = [], is_tried = []\<rparr>"

definition demo_attempt :: attempt where
  "demo_attempt = (\<lambda>el s. (s, Some 7))"

lemma demo_issue_ok: "boards_fit (is_e demo_issuing)" "leaves_boards demo_attempt" "is_tried demo_issuing = []"
proof -
  have s: "fit (demo_engine\<lparr>en_sb := demo_board\<rparr>) 1 2 2"
    by (simp add: fit_def demo_engine_def demo_site_def site_getMaxUp_def site_isAllowedTargetSite_def
        transfer_settings_ok_def transferProtocolCombinationPossible_def sr_init_def)
  have i: "sb_inv demo_board"
    by (auto simp: sb_inv_def demo_board_def sb_active_def demo_elem_simps demo_elem_def elem_new_def elem_key_def)
  have "sb_view demo_board = [(11, 12, ''a.rar'') \<mapsto> demo_elem]"
    by (simp add: sb_view_def demo_board_def demo_elem_simps fun_eq_iff)
  then have "board_fit (demo_engine\<lparr>en_sb := demo_board\<rparr>) demo_board"
    using i s by (simp add: board_fit_def elem_fit_def demo_elem_def elem_new_def)
  moreover have "board_fit (demo_engine\<lparr>en_sb := demo_board\<rparr>) (sb_empty undefined)"
    by (simp add: board_fit_def empty_view)
  ultimately show "boards_fit (is_e demo_issuing)" by (simp add: demo_issuing_def boards_fit_def demo_engine_def)
  show "leaves_boards demo_attempt" by (simp add: leaves_boards_def demo_attempt_def)
qed (simp add: demo_issuing_def)

lemma demo_tried:
  "\<exists>e slots. (demo_elem, e, slots) \<in> set (is_tried (issueOptimalTransfers demo_skip (\<lambda>_ _. False) demo_orders demo_attempt demo_issuing))"
proof -
  have el: "e_filename demo_elem = ''a.rar''" "e_src demo_elem = 1" "e_dst demo_elem = 2" "e_fls demo_elem = 11" "e_fld demo_elem = 12"
    "e_srcsr demo_elem = 1" "e_dstsr demo_elem = 2" "e_race demo_elem = 1" "e_score demo_elem = 5" "e_priotype demo_elem = NORMAL"
    "e_skipchecked demo_elem = False" "e_attempted demo_elem = False"
    by (simp_all add: demo_elem_def elem_new_def)
  have b: "sb_active demo_board = [0]" "heap demo_board 0 = demo_elem" by (simp_all add: demo_board_def sb_active_def)
  have c: "fl_contains ''a.rar'' (demo_list True)" "\<not> fl_contains ''a.rar'' (demo_list False)"
    by (simp_all add: fl_contains_def fl_getFile_def fl_getFileCaseSensitive_def demo_list_def fl_init_def)
  have so: "uploadSlotAvailable (demo_site\<lparr>s_id := n\<rparr>) \<lparr>so_available = 1, so_dn = 0, so_up = 0\<rparr>"
    "downloadSlotAvailable (demo_site\<lparr>s_id := n\<rparr>) REGULAR \<lparr>so_available = 1, so_dn = 0, so_up = 0\<rparr>" for n
    by (simp_all add: uploadSlotAvailable_def downloadSlotAvailable_def downloadSlotsAvailable_def last_login_def demo_site_def
        site_getMaxLogins_def site_getMaxUp_def site_getMaxDown_def)
  have keep: "pt_top (pt_pushPotential v f d up t) = pt_top t" for v f d up t
    by (simp add: pt_pushPotential_def split: list.split prod.split)
  have push: "pt_top (pt_pushPotential v f d up (pt_new 0)) = []" for v f d up
    unfolding keep by (simp add: pt_new_def)
  have pot: "snd (potentialCheck site slots 5 ty t)" if "pt_top t = []" "downloadSlotAvailable site ty slots" for t ty and site :: "race_site" and slots
    using that by (simp add: potentialCheck_def pt_getMaxAvailablePotential_def downloadSlotAvailable_def float_round_def
        excess_bits.simps Let_def)
  show ?thesis
    by (simp add: issueOptimalTransfers_def issue_one_def issue_try_def issue_skip_def note_potential_def demo_issuing_def b el
        demo_attempt_def demo_skip_def no_match_def transferExpectedSoon_def origin_of_def c so demo_engine_def on_elem_def
        sr_init_def sr_isDone_def race_hasTransferRetryBackoff_def race_new_def race_setUndone_def race_clearTransferAttempts_def
        race_resetUpdateCheckCounter_def pot push case_prod_beta Let_def)
qed


text \<open>The destination has a file, and the skip list allows one that fits any pattern.\<close>

definition demo_full :: issuing where
  "demo_full = demo_issuing\<lparr>is_e := on_fl 12 (\<lambda>_. demo_list True) (is_e demo_issuing)\<rparr>"

definition demo_unique :: "unit race_skip" where
  "demo_unique = (\<lambda>_ _ _ _. (no_match SKIPLIST_UNIQUE)\<lparr>sm_regex := Some ()\<rparr>)"

lemma demo_full_ok: "boards_fit (is_e demo_full)" "is_tried demo_full = []"
  "sb_view (en_sb (is_e demo_full)) (11, 12, ''a.rar'') = Some demo_elem"
proof -
  have "keeps_fit (is_e demo_issuing) (is_e demo_full)" unfolding demo_full_def by (simp add: keeps_same)
  then show "boards_fit (is_e demo_full)" using demo_issue_ok(1) by (simp add: keeps_fit_def)
  show "is_tried demo_full = []" by (simp add: demo_full_def demo_issuing_def)
  show "sb_view (en_sb (is_e demo_full)) (11, 12, ''a.rar'') = Some demo_elem"
    by (simp add: demo_full_def demo_issuing_def sb_view_def demo_board_def demo_elem_simps)
qed

theorem issue_board_witness:
  "sb_view (en_sb (is_e (issueOptimalTransfers demo_unique (\<lambda>_ _. True) demo_orders demo_attempt demo_full))) (11, 12, ''a.rar'') = None
   \<and> sb_view (en_sb (is_e (issueOptimalTransfers demo_unique (\<lambda>_ _. False) demo_orders demo_attempt demo_full))) (11, 12, ''a.rar'')
       = Some demo_elem"
proof -
  have n: "length (sb_active (en_sb (is_e demo_full))) = 1" "board_at demo_full 0 = demo_elem"
    by (simp_all add: demo_full_def demo_issuing_def demo_board_def sb_active_def board_at_def)
  have v: "visit sk rm demo_attempt demo_full 0 = demo_full" for sk :: "unit race_skip" and rm
    by (simp add: visit_def demo_full_def demo_issuing_def)
  have view: "fl_view (demo_list True) = [demo_file]" "\<not> f_directory demo_file"
    by (simp_all add: fl_view_def demo_list_def fl_obj_def demo_file_def file_new_def)
  have root: "p_unix (path_new []) = []" by code_simp
  have el: "e_fld demo_elem = 12" "e_dst demo_elem = 2" "\<not> e_skipchecked demo_elem"
    by (simp_all add: demo_elem_def elem_new_def)
  have off: "goes_off demo_unique rm demo_full demo_elem \<longleftrightarrow> rm () ''a.rar''" for rm
    by (simp add: goes_off_def refused_def demo_unique_def no_match_def demo_full_def demo_issuing_def demo_engine_def on_fl_def
        view el fits_match_def uploadSlotAvailable_def last_login_def demo_site_def site_getMaxLogins_def site_getMaxUp_def Let_def)
      (simp add: demo_file_def file_new_def root)
  show ?thesis
    using issue_board [OF demo_full_ok(1) demo_issue_ok(2) demo_full_ok(2), of demo_unique "\<lambda>_ _. True" demo_orders "(11, 12, ''a.rar'')"]
      issue_board [OF demo_full_ok(1) demo_issue_ok(2) demo_full_ok(2), of demo_unique "\<lambda>_ _. False" demo_orders "(11, 12, ''a.rar'')"]
    by (simp add: n v off demo_elem_simps(1) demo_full_ok(3))
qed

end
