(* ===== verification/Spec2Isabelle.thy ===== *)
theory Spec2Isabelle
  imports Prelude Wildcard ScoreBoard UtilText PathModel ConnState RawBufferModel SocksModel TransferStatusModel FileModel
    SkipListModel FileListModel FileListInv MonitorModel MonitorEngage MonitorInv MonitorOutcome
    SizeTrack RaceModel RaceInv SiteRaceInv EngineModel EngineInv
    PotentialModel SiteSlots EngineBoards EngineBoardsInv EngineMoves
    TransferManagerModel LocalFiles TransferJobModel TransferJobInv TransferJobLife EnginePending EngineIssue
begin

text \<open>
  A model of cbftp (sources under \<open>src/\<close> of the repository, here named relative to it) and proofs about
  it.

  The program.  cbftp moves files between FTP servers (sites), directly from one to another where it can
  (FXP), and between a site and this machine.  A user starts a spread job (\<open>Race\<close>), which copies a release
  to all its sites at once, or a transfer job (\<open>TransferJob\<close>), which copies one file or directory from one
  place to another.  Each site has a \<open>SiteLogic\<close> with its connections; they list directories into
  \<open>FileList\<close>s and tell the engine and the jobs when a list changes.  For a spread job the engine pairs the
  lists of its sites, puts every file that one has and another lacks on the score board, and starts the
  best transfers when slots are free.  The transfer manager gives each transfer to a \<open>TransferMonitor\<close>,
  which follows both sides of it to its end and reports the outcome, through the manager, to the job and
  to the engine.

  How to read the model.  The code is translated into functions on records: a class is a record, an
  enumeration a datatype, \<open>unsigned int\<close> and \<open>unsigned long long\<close> are words of 32 and 64 bits wherever they
  may wrap around, \<open>std::string\<close> is a list of bytes.  A thrown exception, a failed assertion or a null
  pointer that is followed is a value of an option or a sum type, so that each is a branch of the model.
  Objects that share others live in a store, where they are named by numbers (\<open>world\<close> in RaceModel, which
  \<open>engine\<close> and \<open>tj_world\<close> extend).  Hash maps are association lists or maps; where the order of a walk
  through one could matter, the order is an argument and a theorem holds for all orders.  What the code
  asks of the outside (the clock, \<open>rand\<close>, the disk, sockets, compiled regular expressions) is an argument
  of the definition that uses it.  A history of a component is an inductive predicate (the names end in
  \<open>_reach\<close>) or a list of events that is run; properties of histories hold for every order of the calls.

  The parts, from the bottom up; a theory called ...Inv, ...Life, ...Moves or ...Outcome has the proofs
  about the model of the same name.

  \<^item> Prelude and CppString: types, results, association lists; \<open>std::string\<close> and C character functions.
  \<^item> Wildcard and UtilText (\<open>util.cpp\<close>): the two wildcard matchers terminate and decide glob matching;
    splitting, case, sizes, intervals and ordering of texts.
  \<^item> PathModel (\<open>path.cpp\<close>): the constructor makes normal paths, and when a join of two is normal;
    appending, subtracting and comparing.
  \<^item> RingLog and RawBufferModel (\<open>rawbuffer.cpp\<close>): the log of a connection.  The ring is given through the
    locale \<open>bounded_log\<close>, a log that keeps the last lines.
  \<^item> SocksModel (\<open>proxysession.cpp\<close>, \<open>proxy.cpp\<close>, \<open>address.cpp\<close>): a session with a SOCKS5 proxy for every
    sequence of answers.
  \<^item> ConnState (\<open>connstatetracker.cpp\<close>, \<open>delayedcommand.cpp\<close>): what a connection of a site is doing, as a
    refinement of a machine of its life.
  \<^item> TransferStatusModel (\<open>transferstatus.cpp\<close>): state, sizes and speed of one transfer.
  \<^item> FileModel and FileListModel, FileListInv (\<open>file.cpp\<close>, \<open>filelist.cpp\<close>): a file from a line of a listing,
    and the files of a directory on a heap; no pointer to a file dangles (its pointers to skip
    lists are outside this), the counters are the sums over the files, and the list is a map from names
    to files.
  \<^item> SkipListModel (\<open>skiplist.cpp\<close>, \<open>skiplistitem.cpp\<close>): the chain of skip lists with their caches, which
    never change a verdict; other theories take the verdict as an argument.
  \<^item> MonitorModel, MonitorEngage, MonitorInv, MonitorOutcome (\<open>transfermonitor.cpp\<close>,
    \<open>transferprotocol.cpp\<close>): one transfer from the engagement to its end.  The calls of the monitor into
    itself through a disconnected connection have fuel; four levels (\<open>FUEL\<close>) are enough, which is proved.
  \<^item> TransferManagerModel (\<open>transfermanager.cpp\<close>): the running and the finished transfers, and the pool of
    monitors, which are engaged only while they are idle; this is the premise under which the histories
    of a monitor were studied.  How many finished transfers are kept is stated for every limit, changes
    of it and the limit 0 included.
  \<^item> SizeTrack, RaceModel, RaceInv, SiteRaceInv (\<open>sizelocationtrack.cpp\<close>, \<open>race.cpp\<close>, \<open>siterace.cpp\<close>): spread
    jobs, what their sites report and when they are over.  A reference into the set of sites that is used
    after its node is erased is a fault (\<open>race_removeSite\<close>).  The walk down the directories below one that
    is gone has fuel, which is enough when it is above the length of the longest path.
  \<^item> RadixSort and ScoreBoard (\<open>scoreboard.cpp\<close>, \<open>scoreboardelement.cpp\<close>): the board as a map from a pair of
    lists and a name to an element, sorted by score.  The client of the map is the locale
    \<open>removable_view\<close>.
  \<^item> PotentialModel (\<open>potentialtracker.cpp\<close> and its elements) and SiteSlots (parts of \<open>sitelogic.cpp\<close>, \<open>site.cpp\<close>):
    how much a site could send, and its slots.
  \<^item> EngineModel, EngineInv, EngineBoards, EngineBoardsInv, EngineMoves, EngineIssue (\<open>engine.cpp\<close>): scores, possible
    transfers, and every operation that changes the score board or the board of failed transfers.  What
    stands on the boards, in any history in which the settings of the sites are not changed, is between
    sites whose settings allow it, and the monitor of the transfer will not refuse it.  What is tried
    from the board has slots on both sides; what is taken off is what the skip lists refuse.
  \<^item> LocalFiles (\<open>localfilelist.cpp\<close>, \<open>localfile.cpp\<close>, parts of \<open>localstorage.cpp\<close>): the list of a local directory.
  \<^item> TransferJobModel, TransferJobInv, TransferJobLife (\<open>transferjob.cpp\<close>): transfer jobs of the three kinds,
    with their lists, their life and their verdict.  The walk down a local directory has fuel, the depth
    of the tree; what is proved holds for every fuel, with \<open>NoFuel\<close> as a result of its own.
    Nothing is assumed of the disk: a directory that is there but cannot be read gives a null list, and
    the calls that follow one are named exactly.
  \<^item> EnginePending (\<open>engine.cpp\<close>, \<open>pendingtransfer.cpp\<close>, \<open>sitetransferjob.cpp\<close>): what is left to do for a
    transfer job, and the request of a site for something to do.  The locale \<open>job_user\<close> is what the engine
    relies on of a job; it is interpreted with the histories of a job, so that what the engine does is
    again one of them.  The skip list that the code makes for the time of one case is an object of its
    own (\<open>je_temp\<close>), so that a pointer to it that outlives the case can be seen.
  Bounds.  Ids of transfers and of requests, counters of the clock in milliseconds and the addresses of
  objects are unbounded where the code would need years to wrap around; sizes, speeds, counts of files
  and scores have their width.

  Not modelled.  The connection logic of a site (the rest of \<open>sitelogic.cpp\<close>) and the FTP connections
  (\<open>ftpconn.cpp\<close>): they dispatch commands to sockets and call the operations above, which is why those are
  studied for every order of calls.  Local storage and local transfers beyond the lists: threads, files
  and sockets of the operating system.  Input and output, TLS, work queues and timers (\<open>core/\<close>).  The
  REST interface, the remote commands, the settings file and the user interface: they translate between
  texts and the calls above, with the vendored JSON parser and HTTP parser, OpenSSL and ncurses.  Of the
  engine: the commands to start and stop jobs and the pre-seeding of potentials.  In
  every part the getters and the texts shown to the user are left out, unless another part reads them.
\<close>

end
